(* ===== verification/Prelude.thy ===== *)
theory Prelude
  imports Main "HOL-Library.Word" "HOL-Library.AList"
begin

text \<open>
  Shared vocabulary of the development: the machine integers of the Rust sources, their
  \<open>Result\<close> values, the checked and wrapping \<open>usize\<close> arithmetic, big-endian byte strings,
  slices that fail out of range, and the facts on lists and association lists that the
  component theories use.
\<close>

named_theorems eval_bytes \<open>rules that evaluate byte strings of a literal length\<close>

section \<open>Machine integers and byte strings\<close>

type_synonym u8 = "8 word"
type_synonym u16 = "16 word"
type_synonym u32 = "32 word"
type_synonym u64 = "64 word"
type_synonym u128 = "128 word"
type_synonym i64 = "64 word"
type_synonym bytes = "u8 list"

text \<open>
  A Rust \<open>usize\<close> is a natural number here; the places where the sources check or wrap
  at its width are written out against \<open>usize_max\<close> (64-bit targets).
\<close>

definition usize_max :: nat where
  "usize_max = 2 ^ 64 - 1"

definition checked_add_usize :: "nat \<Rightarrow> nat \<Rightarrow> nat option" where
  "checked_add_usize a b = (if a + b \<le> usize_max then Some (a + b) else None)"

definition wrapping_sub_usize :: "nat \<Rightarrow> nat \<Rightarrow> nat" where
  "wrapping_sub_usize a b = (a + (usize_max + 1) - b) mod (usize_max + 1)"

definition checked_add_u64 :: "u64 \<Rightarrow> u64 \<Rightarrow> u64 option" where
  "checked_add_u64 a b = (if unat a + unat b < 2 ^ 64 then Some (a + b) else None)"

section \<open>Results\<close>

text \<open>\<open>Result<T, E>\<close> is the sum \<open>'e + 'a\<close>: \<open>Inl\<close> is \<open>Err\<close>, \<open>Inr\<close> is \<open>Ok\<close>.\<close>

type_synonym ('e, 'a) result = "'e + 'a"

abbreviation Err :: "'e \<Rightarrow> 'e + 'a" where
  "Err \<equiv> Inl"

abbreviation Ok :: "'a \<Rightarrow> 'e + 'a" where
  "Ok \<equiv> Inr"

text \<open>The question mark operator: continue with the value, or return the error.\<close>

definition and_then :: "'e + 'a \<Rightarrow> ('a \<Rightarrow> 'e + 'b) \<Rightarrow> 'e + 'b" where
  "and_then r f = (case r of Inl e \<Rightarrow> Inl e | Inr x \<Rightarrow> f x)"

definition ok_or :: "'a option \<Rightarrow> 'e \<Rightarrow> 'e + 'a" where
  "ok_or v e = (case v of None \<Rightarrow> Inl e | Some x \<Rightarrow> Inr x)"

definition map_err :: "('e \<Rightarrow> 'f) \<Rightarrow> 'e + 'a \<Rightarrow> 'f + 'a" where
  "map_err f r = (case r of Inl e \<Rightarrow> Inl (f e) | Inr x \<Rightarrow> Inr x)"

definition is_ok :: "'e + 'a \<Rightarrow> bool" where
  "is_ok r = (case r of Inl _ \<Rightarrow> False | Inr _ \<Rightarrow> True)"

text \<open>
  The same operator in a method on \<open>&mut self\<close>: the state reached so far is kept when an
  error leaves the method.
\<close>

definition try_st :: "'s \<times> ('e + 'a) \<Rightarrow> ('s \<Rightarrow> 'a \<Rightarrow> 's \<times> ('e + 'b)) \<Rightarrow> 's \<times> ('e + 'b)" where
  "try_st p f = (case p of (s, Inl e) \<Rightarrow> (s, Inl e) | (s, Inr x) \<Rightarrow> f s x)"

section \<open>Hash maps\<close>

text \<open>
  A \<open>HashMap\<close> is an association list with distinct keys. Its iteration order is the order
  of the list; the theorems quantify over the list, so they hold for every order.
\<close>

definition alist_ok :: "('k \<times> 'v) list \<Rightarrow> bool" where
  "alist_ok m \<longleftrightarrow> distinct (map fst m)"

definition alist_sum :: "('v \<Rightarrow> nat) \<Rightarrow> ('k \<times> 'v) list \<Rightarrow> nat" where
  "alist_sum f m = sum_list (map (f \<circ> snd) m)"

text \<open>\<open>Iterator::min_by_key\<close>: the first of the minimal elements.\<close>

fun min_by_key :: "('a \<Rightarrow> 'b::linorder) \<Rightarrow> 'a list \<Rightarrow> 'a option" where
  "min_by_key f [] = None"
| "min_by_key f (x # xs) =
     (case min_by_key f xs of
        None \<Rightarrow> Some x
      | Some y \<Rightarrow> if f y < f x then Some y else Some x)"

section \<open>Slices and big-endian integers\<close>

text \<open>\<open>bytes.get(start..end)\<close>: \<open>None\<close> when the range does not fit.\<close>

definition get_range :: "'a list \<Rightarrow> nat \<Rightarrow> nat \<Rightarrow> 'a list option" where
  "get_range xs s e = (if s \<le> e \<and> e \<le> length xs then Some (take (e - s) (drop s xs)) else None)"

fun be_bytes :: "nat \<Rightarrow> nat \<Rightarrow> bytes" where
  "be_bytes 0 v = []"
| "be_bytes (Suc n) v = be_bytes n (v div 256) @ [word_of_nat v]"

definition nat_of_be :: "bytes \<Rightarrow> nat" where
  "nat_of_be bs = foldl (\<lambda>a b. a * 256 + unat b) 0 bs"

definition u16_to_be :: "u16 \<Rightarrow> bytes" where
  "u16_to_be w = be_bytes 2 (unat w)"

definition u32_to_be :: "u32 \<Rightarrow> bytes" where
  "u32_to_be w = be_bytes 4 (unat w)"

definition u64_to_be :: "u64 \<Rightarrow> bytes" where
  "u64_to_be w = be_bytes 8 (unat w)"

definition u16_from_be :: "bytes \<Rightarrow> u16" where
  "u16_from_be bs = word_of_nat (nat_of_be bs)"

definition u32_from_be :: "bytes \<Rightarrow> u32" where
  "u32_from_be bs = word_of_nat (nat_of_be bs)"

definition u64_from_be :: "bytes \<Rightarrow> u64" where
  "u64_from_be bs = word_of_nat (nat_of_be bs)"

section \<open>Facts on results\<close>

lemma and_then_simps [simp]:
  "and_then (Inl e) f = Inl e"
  "and_then (Inr x) f = f x"
  by (simp_all add: and_then_def)

lemma and_then_eq_Inr [simp]:
  "and_then r f = Inr y \<longleftrightarrow> (\<exists>x. r = Inr x \<and> f x = Inr y)"
  by (cases r) auto

lemma ok_or_simps [simp]:
  "ok_or None e = Inl e"
  "ok_or (Some x) e = Inr x"
  by (simp_all add: ok_or_def)

lemma ok_or_eq_Inr [simp]: "ok_or v e = Inr x \<longleftrightarrow> v = Some x"
  by (cases v) auto

lemma map_err_simps [simp]:
  "map_err f (Inl e) = Inl (f e)"
  "map_err f (Inr x) = Inr x"
  by (simp_all add: map_err_def)

lemma map_err_eq_Inr [simp]: "map_err f r = Inr x \<longleftrightarrow> r = Inr x"
  by (cases r) auto

lemma is_ok_simps [simp]:
  "is_ok (Inl e) = False"
  "is_ok (Inr x) = True"
  by (simp_all add: is_ok_def)

lemma is_ok_iff: "is_ok r \<longleftrightarrow> (\<exists>x. r = Inr x)"
  by (cases r) auto

lemma try_st_simps [simp]:
  "try_st (s, Inl e) f = (s, Inl e)"
  "try_st (s, Inr x) f = f s x"
  by (simp_all add: try_st_def)

section \<open>Facts on hash maps\<close>

lemma alist_ok_update [simp]: "alist_ok m \<Longrightarrow> alist_ok (AList.update k v m)"
  by (simp add: alist_ok_def distinct_update)

lemma alist_ok_delete [simp]: "alist_ok m \<Longrightarrow> alist_ok (AList.delete k m)"
  by (simp add: alist_ok_def distinct_delete)

lemma alist_ok_filter [simp]: "alist_ok m \<Longrightarrow> alist_ok (filter P m)"
  by (auto simp: alist_ok_def intro: distinct_map_filter)

lemma alist_ok_Nil [simp]: "alist_ok []"
  by (simp add: alist_ok_def)

lemma alist_ok_get: "alist_ok m \<Longrightarrow> (k, v) \<in> set m \<Longrightarrow> map_of m k = Some v"
  by (simp add: alist_ok_def)

lemma alist_ok_Cons: "alist_ok ((k, v) # m) \<longleftrightarrow> alist_ok m \<and> map_of m k = None"
  by (auto simp: alist_ok_def map_of_eq_None_iff)

lemma alist_sum_Nil [simp]: "alist_sum f [] = 0"
  by (simp add: alist_sum_def)

lemma alist_sum_Cons [simp]: "alist_sum f (kv # m) = f (snd kv) + alist_sum f m"
  by (simp add: alist_sum_def)

lemma delete_absent: "map_of m k = None \<Longrightarrow> AList.delete k m = m"
  by (simp add: map_of_eq_None_iff delete_id)

lemma alist_sum_delete:
  assumes "alist_ok m" and "map_of m k = Some v"
  shows "alist_sum f (AList.delete k m) + f v = alist_sum f m"
  using assms by (induction m) (auto simp: alist_ok_Cons delete_absent split: if_splits)

lemma length_delete_less:
  assumes "map_of m k = Some v"
  shows "length (AList.delete k m) < length m"
  using assms by (induction m) (auto simp: less_Suc_eq_le length_delete_le split: if_splits)

lemma length_delete_present:
  assumes "alist_ok m" and "map_of m k = Some v"
  shows "Suc (length (AList.delete k m)) = length m"
  using assms by (induction m) (auto simp: alist_ok_Cons delete_absent split: if_splits)

lemma alist_sum_update_new:
  "map_of m k = None \<Longrightarrow> alist_sum f (AList.update k v m) = alist_sum f m + f v"
  by (induction m) (auto split: if_splits)

lemma length_update_new:
  "map_of m k = None \<Longrightarrow> length (AList.update k v m) = Suc (length m)"
  by (induction m) (auto split: if_splits)

lemma alist_sum_update_old:
  "map_of m k = Some u \<Longrightarrow> alist_sum f (AList.update k v m) + f u = alist_sum f m + f v"
  by (induction m) (auto split: if_splits)

lemma length_update_old:
  "map_of m k = Some u \<Longrightarrow> length (AList.update k v m) = length m"
  by (induction m) (auto split: if_splits)

lemma alist_sum_member: "map_of m k = Some v \<Longrightarrow> f v \<le> alist_sum f m"
  by (induction m) (auto split: if_splits)

lemma alist_sum_partition:
  "alist_sum f (filter P m) + alist_sum f (filter (\<lambda>x. \<not> P x) m) = alist_sum f m"
  by (induction m) auto

lemma map_of_filter_key:
  assumes "alist_ok m"
  shows "map_of (filter (\<lambda>(k, v). P k v) m) k =
    (case map_of m k of None \<Rightarrow> None | Some v \<Rightarrow> if P k v then Some v else None)"
  using assms by (induction m) (auto simp: alist_ok_Cons split: option.splits)

lemma min_by_key_None [simp]: "min_by_key f xs = None \<longleftrightarrow> xs = []"
  by (cases xs) (auto split: option.splits)

lemma min_by_key_Some:
  "min_by_key f xs = Some x \<Longrightarrow> x \<in> set xs \<and> (\<forall>y\<in>set xs. f x \<le> f y)"
  by (induction xs arbitrary: x)
    (auto split: option.splits if_splits intro: order.trans less_imp_le)

section \<open>Facts on wrapping arithmetic\<close>

lemma wrapping_sub_usize_exact:
  assumes "b \<le> a" and "a \<le> usize_max"
  shows "wrapping_sub_usize a b = a - b"
proof -
  have "a + (usize_max + 1) - b = (a - b) + (usize_max + 1)"
    using assms by simp
  moreover have "a - b < usize_max + 1"
    using assms by simp
  ultimately show ?thesis
    unfolding wrapping_sub_usize_def by (metis mod_add_self2 mod_less)
qed

lemma checked_add_usize_Some [simp]:
  "checked_add_usize a b = Some c \<longleftrightarrow> c = a + b \<and> a + b \<le> usize_max"
  by (auto simp: checked_add_usize_def)

lemma checked_add_u64_Some:
  "checked_add_u64 a b = Some c \<Longrightarrow> unat c = unat a + unat b"
  by (auto simp: checked_add_u64_def unat_word_ariths split: if_splits)

section \<open>Facts on slices and big-endian integers\<close>

lemma append_same_length:
  "length xs = length ys \<Longrightarrow> xs @ us = ys @ vs \<longleftrightarrow> xs = ys \<and> us = vs"
  by simp

lemma unat_u8_less [simp]: "unat (b :: u8) < 256"
  using unsigned_less [of b, where 'a = nat] by simp

lemma unat_width_less:
  "unat (a :: u16) < 2 ^ 16" "unat (b :: u32) < 2 ^ 32" "unat (c :: u64) < 2 ^ 64"
  using unsigned_less [of a, where 'a = nat] unsigned_less [of b, where 'a = nat]
    unsigned_less [of c, where 'a = nat]
  by simp_all

lemma inj_unat: "inj (unat :: 'a::len word \<Rightarrow> nat)"
  by (rule injI) (simp add: word_unat_eq_iff)

lemma length_be_bytes [simp]: "length (be_bytes n v) = n"
  by (induction n arbitrary: v) auto

lemma be_bytes_numeral [eval_bytes]:
  "be_bytes (numeral k) v = be_bytes (pred_numeral k) (v div 256) @ [word_of_nat v]"
  by (simp only: numeral_eq_Suc [of k] be_bytes.simps)

lemma replicate_numeral_eval [eval_bytes]:
  "replicate (numeral k) x = x # replicate (pred_numeral k) x"
  by (simp only: numeral_eq_Suc [of k] replicate_Suc)

lemma nat_of_be_Nil [simp]: "nat_of_be [] = 0"
  by (simp add: nat_of_be_def)

lemma nat_of_be_snoc [simp]: "nat_of_be (bs @ [b]) = nat_of_be bs * 256 + unat b"
  by (simp add: nat_of_be_def)

lemma nat_of_be_be_bytes: "nat_of_be (be_bytes n v) = v mod 256 ^ n"
proof (induction n arbitrary: v)
  case 0
  then show ?case by simp
next
  case (Suc n)
  have u: "unat (word_of_nat v :: u8) = v mod 256"
    by (simp add: unat_of_nat)
  have "nat_of_be (be_bytes (Suc n) v) = (v div 256) mod 256 ^ n * 256 + v mod 256"
    by (simp add: Suc.IH u)
  also have "\<dots> = v mod (256 * 256 ^ n)"
    by (simp add: mod_mult2_eq ac_simps)
  finally show ?case by simp
qed

lemma be_bytes_nat_of_be: "length bs = n \<Longrightarrow> be_bytes n (nat_of_be bs) = bs"
proof (induction bs arbitrary: n rule: rev_induct)
  case Nil
  then show ?case by simp
next
  case (snoc b bs)
  have lt: "unat b < 256"
    by simp
  then have d: "(nat_of_be bs * 256 + unat b) div 256 = nat_of_be bs"
    by simp
  have w: "(word_of_nat (nat_of_be bs * 256 + unat b) :: u8) = b"
  proof (rule word_unat_eq_iff [THEN iffD2])
    show "unat (word_of_nat (nat_of_be bs * 256 + unat b) :: u8) = unat b"
      using lt by (simp add: unat_of_nat del: of_nat_add of_nat_mult)
  qed
  from snoc.prems obtain m where n: "n = Suc m" and m: "length bs = m"
    by auto
  show ?case
    using snoc.IH [OF m] by (simp add: n d w del: of_nat_add of_nat_mult)
qed

lemma nat_of_be_less: "nat_of_be bs < 256 ^ length bs"
proof (induction bs rule: rev_induct)
  case Nil
  then show ?case by simp
next
  case (snoc b bs)
  have "unat b < 256"
    by simp
  with snoc.IH have "nat_of_be bs * 256 + unat b < (nat_of_be bs + 1) * 256" by simp
  also have "\<dots> \<le> 256 ^ length bs * 256"
    using snoc.IH by (intro mult_le_mono1) simp
  finally show ?case by (simp add: ac_simps)
qed

lemma length_u_to_be [simp]:
  "length (u16_to_be a) = 2" "length (u32_to_be b) = 4" "length (u64_to_be c) = 8"
  by (simp_all add: u16_to_be_def u32_to_be_def u64_to_be_def)

lemma u_from_to_be [simp]:
  "u16_from_be (u16_to_be a) = a"
  "u32_from_be (u32_to_be b) = b"
  "u64_from_be (u64_to_be c) = c"
  using unat_width_less(1) [of a] unat_width_less(2) [of b] unat_width_less(3) [of c]
  by (simp_all add: u16_from_be_def u16_to_be_def u32_from_be_def u32_to_be_def
      u64_from_be_def u64_to_be_def nat_of_be_be_bytes)

lemma u_to_from_be:
  "length as = 2 \<Longrightarrow> u16_to_be (u16_from_be as) = as"
  "length bs = 4 \<Longrightarrow> u32_to_be (u32_from_be bs) = bs"
  "length cs = 8 \<Longrightarrow> u64_to_be (u64_from_be cs) = cs"
  using nat_of_be_less [of as] nat_of_be_less [of bs] nat_of_be_less [of cs]
  by (simp_all add: u16_from_be_def u16_to_be_def u32_from_be_def u32_to_be_def
      u64_from_be_def u64_to_be_def unat_of_nat be_bytes_nat_of_be)

lemma get_range_Some:
  "get_range xs s e = Some ys \<longleftrightarrow> s \<le> e \<and> e \<le> length xs \<and> ys = take (e - s) (drop s xs)"
  by (auto simp: get_range_def)

lemma get_range_length: "get_range xs s e = Some ys \<Longrightarrow> length ys = e - s"
  by (auto simp: get_range_Some)

section \<open>The interface of a fixed-width prefix codec\<close>

text \<open>
  What a client of a fixed-width header codec relies on: an encoded value has the fixed
  width, decoding reads it back from the front of any datagram, and whatever decodes was
  the encoding of the result. The encoding is then injective and decoding depends on the
  first \<open>width\<close> bytes only.
\<close>

locale prefix_codec =
  fixes enc :: "'a \<Rightarrow> 'e + bytes"
    and dec :: "bytes \<Rightarrow> 'e + 'a"
    and shape :: "'a \<Rightarrow> bool"
    and width :: nat
  assumes enc_width: "enc x = Inr bs \<Longrightarrow> shape x \<Longrightarrow> length bs = width"
    and dec_enc: "enc x = Inr bs \<Longrightarrow> shape x \<Longrightarrow> dec (bs @ rest) = Inr x"
    and enc_dec: "dec bs = Inr x \<Longrightarrow> shape x \<and> enc x = Inr (take width bs)"
begin

lemma enc_inj:
  assumes "enc x = Inr bs" and "enc y = Inr bs" and "shape x" and "shape y"
  shows "x = y"
  using dec_enc [OF assms(1,3), of "[]"] dec_enc [OF assms(2,4), of "[]"] by simp

lemma dec_width:
  assumes "dec bs = Inr x"
  shows "width \<le> length bs"
  using enc_dec [OF assms] enc_width [of x "take width bs"] by simp

lemma dec_prefix:
  assumes "dec bs = Inr x" and "take width cs = take width bs"
  shows "dec cs = Inr x"
  using dec_enc [of x "take width bs" "drop width cs"] enc_dec [OF assms(1)] assms(2)
  by (metis append_take_drop_id)

end

end
