(* ===== verification/Udp_Header.thy ===== *)
theory Udp_Header
  imports Prelude
begin

text \<open>
  The fixed header of every native UDP datagram (\<open>protocol/src/udp_transport/header.rs\<close>)
  with the protocol limits (\<open>mod.rs\<close>) and the transport's error type (\<open>error.rs\<close>).
  A header is validated before it is encoded and after it is decoded; its 46 encoded bytes
  are the associated data of the encryption layer, so the codec has to be canonical in
  both directions.
\<close>

section \<open>Limits and errors\<close>

definition UDP_TRANSPORT_MAGIC :: bytes where
  "UDP_TRANSPORT_MAGIC = [0x50, 0x55, 0x44, 0x50]"

definition UDP_TRANSPORT_VERSION :: u8 where
  "UDP_TRANSPORT_VERSION = 1"

definition UDP_MAX_DATAGRAM_SIZE :: nat where
  "UDP_MAX_DATAGRAM_SIZE = 1351"

definition UDP_NATIVE_MAX_TUN_MTU :: u16 where
  "UDP_NATIVE_MAX_TUN_MTU = 1280"

definition UDP_TRANSPORT_HEADER_LEN :: nat where
  "UDP_TRANSPORT_HEADER_LEN = 46"

definition UDP_AEAD_TAG_LEN :: nat where
  "UDP_AEAD_TAG_LEN = 16"

definition UDP_MAX_FRAGMENT_PLAINTEXT :: nat where
  "UDP_MAX_FRAGMENT_PLAINTEXT =
     UDP_MAX_DATAGRAM_SIZE - UDP_TRANSPORT_HEADER_LEN - UDP_AEAD_TAG_LEN"

definition UDP_MAX_MESSAGE_SIZE :: nat where
  "UDP_MAX_MESSAGE_SIZE = 70 * 1024"

definition UDP_MAX_FRAGMENTS :: nat where
  "UDP_MAX_FRAGMENTS = 64"

definition UDP_REPLAY_WINDOW_SIZE :: nat where
  "UDP_REPLAY_WINDOW_SIZE = 4096"

lemmas udp_limits =
  UDP_TRANSPORT_MAGIC_def UDP_TRANSPORT_VERSION_def UDP_MAX_DATAGRAM_SIZE_def
  UDP_TRANSPORT_HEADER_LEN_def UDP_AEAD_TAG_LEN_def UDP_MAX_FRAGMENT_PLAINTEXT_def
  UDP_MAX_MESSAGE_SIZE_def UDP_MAX_FRAGMENTS_def UDP_REPLAY_WINDOW_SIZE_def

text \<open>
  \<open>UdpTransportError\<close>. The constructor \<open>IndexPanic\<close> is not a value of the source type:
  it stands for the panic of an index out of range, so that the model shows where one
  could happen.
\<close>

datatype UdpTransportError =
    DatagramTooLarge nat
  | DatagramTooShort nat
  | InvalidMagic
  | UnsupportedVersion u8
  | InvalidPacketKind u8
  | UnexpectedPacketKind u8 u8
  | InvalidHeader string
  | MessageTooLarge nat
  | TooManyFragments nat
  | WrongSession
  | AuthenticationFailed
  | EncryptionFailed
  | ReplayRejected
  | SequenceExhausted
  | MessageIdExhausted
  | ConflictingFragment
  | ReassemblyLimit string
  | InconsistentReassemblyState string
  | Serialization string
  | KeyDerivation
  | IndexPanic

type_synonym 'a udp_result = "UdpTransportError + 'a"
type_synonym UdpSessionId = bytes

section \<open>Packet kinds and the header\<close>

datatype UdpPacketKind = AuthInit | AuthOk | Encrypted

fun kind_to_u8 :: "UdpPacketKind \<Rightarrow> u8" where
  "kind_to_u8 AuthInit = 1"
| "kind_to_u8 AuthOk = 2"
| "kind_to_u8 Encrypted = 3"

definition kind_try_from :: "u8 \<Rightarrow> UdpPacketKind udp_result" where
  "kind_try_from v =
     (if v = 1 then Ok AuthInit
      else if v = 2 then Ok AuthOk
      else if v = 3 then Ok Encrypted
      else Err (InvalidPacketKind v))"

record UdpPacketHeader =
  hdr_magic :: bytes
  hdr_version :: u8
  hdr_kind :: UdpPacketKind
  hdr_session_id :: UdpSessionId
  hdr_seq :: u64
  hdr_message_id :: u64
  hdr_fragment_index :: u16
  hdr_fragment_count :: u16
  hdr_total_len :: u32

text \<open>The fixed-size array fields, as list lengths.\<close>

definition header_shape :: "UdpPacketHeader \<Rightarrow> bool" where
  "header_shape h \<longleftrightarrow> length (hdr_magic h) = 4 \<and> length (hdr_session_id h) = 16"

definition header_new ::
  "UdpPacketKind \<Rightarrow> UdpSessionId \<Rightarrow> u64 \<Rightarrow> u64 \<Rightarrow> u16 \<Rightarrow> u16 \<Rightarrow> u32 \<Rightarrow> UdpPacketHeader" where
  "header_new k sid sq mid idx cnt tot =
     \<lparr>hdr_magic = UDP_TRANSPORT_MAGIC, hdr_version = UDP_TRANSPORT_VERSION, hdr_kind = k,
      hdr_session_id = sid, hdr_seq = sq, hdr_message_id = mid,
      hdr_fragment_index = idx, hdr_fragment_count = cnt, hdr_total_len = tot\<rparr>"

definition max_total_len_for :: "UdpPacketKind \<Rightarrow> nat" where
  "max_total_len_for k =
     (case k of
        Encrypted \<Rightarrow> UDP_MAX_MESSAGE_SIZE
      | AuthInit \<Rightarrow> UDP_MAX_DATAGRAM_SIZE - UDP_TRANSPORT_HEADER_LEN
      | AuthOk \<Rightarrow> UDP_MAX_DATAGRAM_SIZE - UDP_TRANSPORT_HEADER_LEN)"

definition header_validate :: "UdpPacketHeader \<Rightarrow> unit udp_result" where
  "header_validate h =
     (if hdr_magic h \<noteq> UDP_TRANSPORT_MAGIC then Err InvalidMagic
      else if hdr_version h \<noteq> UDP_TRANSPORT_VERSION then Err (UnsupportedVersion (hdr_version h))
      else if hdr_kind h \<noteq> Encrypted \<and>
              (hdr_seq h \<noteq> 0 \<or> hdr_message_id h \<noteq> 0 \<or> hdr_fragment_index h \<noteq> 0 \<or> hdr_fragment_count h \<noteq> 1)
        then Err (InvalidHeader ''authentication packets cannot be sequenced or fragmented'')
      else
        let count = unat (hdr_fragment_count h);
            index = unat (hdr_fragment_index h);
            total_n = unat (hdr_total_len h)
        in if count = 0 then Err (InvalidHeader ''fragment_count must be non-zero'')
           else if count > UDP_MAX_FRAGMENTS then Err (TooManyFragments count)
           else if index \<ge> count
             then Err (InvalidHeader ''fragment_index is outside fragment_count'')
           else if total_n > max_total_len_for (hdr_kind h) then Err (MessageTooLarge total_n)
           else if total_n = 0 \<and> count \<noteq> 1
             then Err (InvalidHeader ''an empty message must have exactly one fragment'')
           else if total_n > 0 \<and> count > total_n
             then Err (InvalidHeader ''non-empty fragments cannot outnumber plaintext bytes'')
           else if hdr_kind h = Encrypted \<and> total_n > count * UDP_MAX_FRAGMENT_PLAINTEXT
             then Err (InvalidHeader ''fragment_count cannot carry total_len'')
           else Ok ())"

section \<open>Encoding and decoding\<close>

text \<open>The nine \<open>copy_from_slice\<close> writes fill the 46 bytes contiguously.\<close>

definition header_encode :: "UdpPacketHeader \<Rightarrow> bytes udp_result" where
  "header_encode h =
     and_then (header_validate h) (\<lambda>_.
       Ok (hdr_magic h @ [hdr_version h] @ [kind_to_u8 (hdr_kind h)] @ hdr_session_id h @
           u64_to_be (hdr_seq h) @ u64_to_be (hdr_message_id h) @
           u16_to_be (hdr_fragment_index h) @ u16_to_be (hdr_fragment_count h) @
           u32_to_be (hdr_total_len h)))"

definition read_header_field :: "nat \<Rightarrow> bytes \<Rightarrow> nat \<Rightarrow> bytes udp_result" where
  "read_header_field n bs start =
     and_then (ok_or (checked_add_usize start n) (InvalidHeader ''header field range overflow''))
       (\<lambda>end. and_then (ok_or (get_range bs start end) (DatagramTooShort (length bs)))
         (\<lambda>field. if length field = n then Ok field
            else Err (InvalidHeader ''invalid fixed header field length'')))"

definition header_decode :: "bytes \<Rightarrow> UdpPacketHeader udp_result" where
  "header_decode bs =
     (if length bs < UDP_TRANSPORT_HEADER_LEN then Err (DatagramTooShort (length bs))
      else
        and_then (read_header_field 4 bs 0) (\<lambda>m.
        and_then (kind_try_from (bs ! 5)) (\<lambda>k.
        and_then (read_header_field 16 bs 6) (\<lambda>sid.
        and_then (read_header_field 8 bs 22) (\<lambda>sq.
        and_then (read_header_field 8 bs 30) (\<lambda>mid.
        and_then (read_header_field 2 bs 38) (\<lambda>idx.
        and_then (read_header_field 2 bs 40) (\<lambda>cnt.
        and_then (read_header_field 4 bs 42) (\<lambda>tot.
          let h = \<lparr>hdr_magic = m, hdr_version = bs ! 4, hdr_kind = k, hdr_session_id = sid,
                   hdr_seq = u64_from_be sq, hdr_message_id = u64_from_be mid,
                   hdr_fragment_index = u16_from_be idx, hdr_fragment_count = u16_from_be cnt,
                   hdr_total_len = u32_from_be tot\<rparr>
          in and_then (header_validate h) (\<lambda>_. Ok h))))))))))"

section \<open>Validity as a predicate\<close>

definition header_valid :: "UdpPacketHeader \<Rightarrow> bool" where
  "header_valid h \<longleftrightarrow> header_validate h = Ok ()"

lemma header_valid_iff:
  "header_valid h \<longleftrightarrow>
     hdr_magic h = UDP_TRANSPORT_MAGIC \<and> hdr_version h = UDP_TRANSPORT_VERSION \<and>
     (hdr_kind h \<noteq> Encrypted \<longrightarrow>
        hdr_seq h = 0 \<and> hdr_message_id h = 0 \<and> hdr_fragment_index h = 0 \<and> hdr_fragment_count h = 1) \<and>
     0 < unat (hdr_fragment_count h) \<and> unat (hdr_fragment_count h) \<le> UDP_MAX_FRAGMENTS \<and>
     unat (hdr_fragment_index h) < unat (hdr_fragment_count h) \<and>
     unat (hdr_total_len h) \<le> max_total_len_for (hdr_kind h) \<and>
     (unat (hdr_total_len h) = 0 \<longrightarrow> unat (hdr_fragment_count h) = 1) \<and>
     (0 < unat (hdr_total_len h) \<longrightarrow> unat (hdr_fragment_count h) \<le> unat (hdr_total_len h)) \<and>
     (hdr_kind h = Encrypted \<longrightarrow>
        unat (hdr_total_len h) \<le> unat (hdr_fragment_count h) * UDP_MAX_FRAGMENT_PLAINTEXT)"
  unfolding header_valid_def header_validate_def Let_def
  by (auto simp: not_less not_le)

lemma header_validate_Ok: "header_validate h = Ok u \<longleftrightarrow> header_valid h"
  by (cases u) (simp add: header_valid_def)

lemma header_validate_cases: "header_validate h = Ok () \<or> (\<exists>e. header_validate h = Err e)"
  by (cases "header_validate h") auto

lemma header_encode_valid:
  "header_valid h \<Longrightarrow>
   header_encode h = Ok (hdr_magic h @ [hdr_version h] @ [kind_to_u8 (hdr_kind h)] @ hdr_session_id h @
     u64_to_be (hdr_seq h) @ u64_to_be (hdr_message_id h) @ u16_to_be (hdr_fragment_index h) @
     u16_to_be (hdr_fragment_count h) @ u32_to_be (hdr_total_len h))"
  by (simp add: header_encode_def header_valid_def)

lemma header_encode_Ok_iff: "(\<exists>bs. header_encode h = Ok bs) \<longleftrightarrow> header_valid h"
  by (auto simp: header_encode_def header_validate_Ok)

lemma header_encode_length:
  assumes "header_encode h = Ok bs" and "header_shape h"
  shows "length bs = UDP_TRANSPORT_HEADER_LEN"
  using assms by (auto simp: header_encode_def header_shape_def UDP_TRANSPORT_HEADER_LEN_def)

section \<open>The codec is canonical\<close>

lemma kind_try_from_to_u8 [simp]: "kind_try_from (kind_to_u8 k) = Ok k"
  by (cases k) (simp_all add: kind_try_from_def)

lemma kind_to_u8_try_from: "kind_try_from v = Ok k \<Longrightarrow> kind_to_u8 k = v"
  by (auto simp: kind_try_from_def split: if_splits)

lemma read_header_field_Ok:
  "s + n \<le> length bs \<Longrightarrow> s + n \<le> usize_max \<Longrightarrow>
   read_header_field n bs s = Ok (take n (drop s bs))"
  by (simp add: read_header_field_def checked_add_usize_def get_range_def)

lemma usize_max_ge: "n \<le> 1351 \<Longrightarrow> n \<le> usize_max"
  by (simp add: usize_max_def)

lemma length_10_split:
  "length (bs :: bytes) \<ge> 46 \<Longrightarrow>
   take 46 bs = take 4 bs @ [bs ! 4] @ [bs ! 5] @ take 16 (drop 6 bs) @ take 8 (drop 22 bs) @
     take 8 (drop 30 bs) @ take 2 (drop 38 bs) @ take 2 (drop 40 bs) @ take 4 (drop 42 bs)"
proof -
  assume len: "length bs \<ge> 46"
  have t: "take (a + b) bs = take a bs @ take b (drop a bs)" for a b
    by (rule take_add)
  have one: "take (Suc 0) (drop i bs) = [bs ! i]" if "i < 46" for i
    using that len by (simp add: take_Suc_conv_app_nth)
  show ?thesis
    using t [of 42 4] t [of 40 2] t [of 38 2] t [of 30 8] t [of 22 8] t [of 6 16] t [of 5 1]
      t [of 4 1] one [of 4] one [of 5]
    by simp
qed

lemma header_decode_long:
  assumes "46 \<le> length bs"
  shows "header_decode bs =
    and_then (kind_try_from (bs ! 5)) (\<lambda>k.
      let h = \<lparr>hdr_magic = take 4 bs, hdr_version = bs ! 4, hdr_kind = k,
          hdr_session_id = take 16 (drop 6 bs), hdr_seq = u64_from_be (take 8 (drop 22 bs)),
          hdr_message_id = u64_from_be (take 8 (drop 30 bs)),
          hdr_fragment_index = u16_from_be (take 2 (drop 38 bs)),
          hdr_fragment_count = u16_from_be (take 2 (drop 40 bs)),
          hdr_total_len = u32_from_be (take 4 (drop 42 bs))\<rparr>
      in and_then (header_validate h) (\<lambda>_. Ok h))"
proof -
  have f: "read_header_field k bs i = Ok (take k (drop i bs))" if "i + k \<le> 46" for i k
    using that assms by (intro read_header_field_Ok) (simp_all add: usize_max_def)
  show ?thesis
    using assms by (simp add: header_decode_def UDP_TRANSPORT_HEADER_LEN_def f)
qed

lemma header_decode_encode_append:
  assumes "header_encode h = Ok bs" and "header_shape h"
  shows "header_decode (bs @ rest) = Ok h"
proof -
  from assms(1) have v: "header_validate h = Ok ()"
    and bs: "bs = hdr_magic h @ [hdr_version h] @ [kind_to_u8 (hdr_kind h)] @ hdr_session_id h @
     u64_to_be (hdr_seq h) @ u64_to_be (hdr_message_id h) @ u16_to_be (hdr_fragment_index h) @
     u16_to_be (hdr_fragment_count h) @ u32_to_be (hdr_total_len h)"
    by (auto simp: header_encode_def)
  from assms(2) have m: "length (hdr_magic h) = 4" and s: "length (hdr_session_id h) = 16"
    by (simp_all add: header_shape_def)
  have l: "46 \<le> length (bs @ rest)"
    using m s by (simp add: bs)
  have eta: "\<lparr>hdr_magic = hdr_magic h, hdr_version = hdr_version h, hdr_kind = hdr_kind h,
      hdr_session_id = hdr_session_id h, hdr_seq = hdr_seq h, hdr_message_id = hdr_message_id h,
      hdr_fragment_index = hdr_fragment_index h, hdr_fragment_count = hdr_fragment_count h,
      hdr_total_len = hdr_total_len h\<rparr> = h"
    by (cases h) simp
  show ?thesis
    unfolding header_decode_long [OF l] by (simp add: bs v m s nth_append eta)
qed

lemma header_encode_decode:
  assumes "header_decode bs = Ok h"
  shows "header_shape h \<and> header_encode h = Ok (take UDP_TRANSPORT_HEADER_LEN bs)"
proof -
  from assms have len: "46 \<le> length bs"
    by (simp add: header_decode_def UDP_TRANSPORT_HEADER_LEN_def split: if_splits)
  from assms obtain k where k: "kind_try_from (bs ! 5) = Ok k"
    and h: "h = \<lparr>hdr_magic = take 4 bs, hdr_version = bs ! 4, hdr_kind = k,
        hdr_session_id = take 16 (drop 6 bs), hdr_seq = u64_from_be (take 8 (drop 22 bs)),
        hdr_message_id = u64_from_be (take 8 (drop 30 bs)),
        hdr_fragment_index = u16_from_be (take 2 (drop 38 bs)),
        hdr_fragment_count = u16_from_be (take 2 (drop 40 bs)),
        hdr_total_len = u32_from_be (take 4 (drop 42 bs))\<rparr>"
    and v: "header_validate h = Ok ()"
    unfolding header_decode_long [OF len] by (auto simp: Let_def)
  have "header_shape h"
    using len by (simp add: h header_shape_def)
  moreover have "header_encode h = Ok (take 46 bs)"
    using len v kind_to_u8_try_from [OF k]
    by (simp add: header_encode_def h u_to_from_be length_10_split)
  ultimately show ?thesis
    by (simp add: UDP_TRANSPORT_HEADER_LEN_def)
qed

interpretation header: prefix_codec header_encode header_decode header_shape
    UDP_TRANSPORT_HEADER_LEN
  by unfold_locales
    (auto simp: header_encode_length header_decode_encode_append header_encode_decode)

lemma header_decode_valid:
  assumes "header_decode bs = Ok h"
  shows "header_valid h"
  using header_encode_decode [OF assms] header_encode_Ok_iff by blast

lemma header_decode_short: "length bs < 46 \<Longrightarrow> header_decode bs = Err (DatagramTooShort (length bs))"
  by (simp add: header_decode_def UDP_TRANSPORT_HEADER_LEN_def)

section \<open>Properties\<close>

text \<open>
  C33. The header codec is canonical in both directions: a datagram decodes to a header
  exactly when it has at least 46 bytes, the header is valid with well-sized fields, and
  its first 46 bytes are the encoding of that header. Decoding therefore reads back every
  encoded header, whatever follows it, and no two byte strings encode the same header.
\<close>

theorem header_codec_canonical:
  "header_decode bs = Ok h \<longleftrightarrow>
     header_valid h \<and> header_shape h \<and> UDP_TRANSPORT_HEADER_LEN \<le> length bs \<and>
     header_encode h = Ok (take UDP_TRANSPORT_HEADER_LEN bs)"
proof
  assume d: "header_decode bs = Ok h"
  then show "header_valid h \<and> header_shape h \<and> UDP_TRANSPORT_HEADER_LEN \<le> length bs \<and>
     header_encode h = Ok (take UDP_TRANSPORT_HEADER_LEN bs)"
    using header_decode_valid [OF d] header.enc_dec [OF d] header.dec_width [OF d] by simp
next
  assume a: "header_valid h \<and> header_shape h \<and> UDP_TRANSPORT_HEADER_LEN \<le> length bs \<and>
     header_encode h = Ok (take UDP_TRANSPORT_HEADER_LEN bs)"
  then show "header_decode bs = Ok h"
    using header.dec_enc [of h "take UDP_TRANSPORT_HEADER_LEN bs" "drop UDP_TRANSPORT_HEADER_LEN bs"]
    by simp
qed

text \<open>
  Every header a peer can make the receiver accept is within the protocol limits: the
  version and magic are the current ones, a fragment index lies below a fragment count of
  at most 64, the declared length is at most the message limit (or one datagram for
  authentication packets) and fits the declared fragments, and authentication packets carry
  no sequence number and no fragmentation.
\<close>

theorem header_decode_limits:
  assumes "header_decode bs = Ok h"
  shows "unat (hdr_fragment_index h) < unat (hdr_fragment_count h) \<and>
    unat (hdr_fragment_count h) \<le> 64 \<and>
    (hdr_kind h = Encrypted \<longrightarrow>
       unat (hdr_total_len h) \<le> 71680 \<and>
       unat (hdr_total_len h) \<le> unat (hdr_fragment_count h) * 1289) \<and>
    (hdr_kind h \<noteq> Encrypted \<longrightarrow>
       unat (hdr_total_len h) \<le> 1305 \<and> hdr_seq h = 0 \<and> hdr_message_id h = 0 \<and>
       hdr_fragment_index h = 0 \<and> hdr_fragment_count h = 1) \<and>
    hdr_magic h = UDP_TRANSPORT_MAGIC \<and> hdr_version h = 1"
  using header_decode_valid [OF assms]
  by (cases "hdr_kind h") (auto simp: header_valid_iff max_total_len_for_def udp_limits)

theorem header_decode_limits_witness:
  "header_decode (UDP_TRANSPORT_MAGIC @ [1, 3] @ replicate 16 7 @ replicate 15 0 @ [9] @
     [0, 0, 0, 1] @ [0, 0, 0, 5]) =
   Ok (header_new Encrypted (replicate 16 7) 0 9 0 1 5) \<and>
   unat (hdr_fragment_index (header_new Encrypted (replicate 16 7) 0 9 0 1 5)) <
   unat (hdr_fragment_count (header_new Encrypted (replicate 16 7) 0 9 0 1 5))"
proof -
  let ?h = "header_new Encrypted (replicate 16 7) 0 9 0 1 5"
  let ?bs = "UDP_TRANSPORT_MAGIC @ [1, 3] @ replicate 16 7 @ replicate 15 0 @ [9] @
     [0, 0, 0, 1] @ [0, 0, 0, 5]"
  have "header_encode ?h = Ok ?bs"
    by (simp add: header_encode_def header_validate_def header_new_def udp_limits
        max_total_len_for_def u64_to_be_def u32_to_be_def u16_to_be_def eval_bytes)
  moreover have "header_shape ?h"
    by (simp add: header_shape_def header_new_def udp_limits)
  ultimately have d: "header_decode ?bs = Ok ?h"
    using header_decode_encode_append [of ?h ?bs "[]"] by simp
  show ?thesis
    using d header_decode_limits [OF d] by simp
qed

end
