(* ===== verification/Replay_Window.thy ===== *)
theory Replay_Window
  imports Udp_Header
begin

text \<open>
  The sliding replay window of \<open>protocol/src/udp_transport/replay.rs\<close>: a highest sequence
  number and a bitmap of 64 words of 64 bits, bit \<open>d\<close> of which says that \<open>highest - d\<close> was
  accepted. The specification is the set of accepted sequence numbers; the bitmap is proved
  to implement it, and the session layer uses it through the interface \<open>replay_filter\<close>.
\<close>

unbundle bit_operations_syntax

section \<open>The window and its operations\<close>

definition WORD_BITS :: nat where
  "WORD_BITS = 64"

definition WORD_COUNT :: nat where
  "WORD_COUNT = UDP_REPLAY_WINDOW_SIZE div WORD_BITS"

record ReplayWindow =
  rw_highest :: "u64 option"
  rw_seen :: "u64 list"

definition replay_new :: ReplayWindow where
  "replay_new = \<lparr>rw_highest = None, rw_seen = replicate WORD_COUNT 0\<rparr>"

definition highest_seen :: "ReplayWindow \<Rightarrow> u64 option" where
  "highest_seen w = rw_highest w"

definition bit_is_set :: "ReplayWindow \<Rightarrow> nat \<Rightarrow> bool" where
  "bit_is_set w distance =
     (let word = distance div WORD_BITS; b = distance mod WORD_BITS
      in (rw_seen w ! word) AND push_bit b 1 \<noteq> 0)"

definition set_window_bit :: "ReplayWindow \<Rightarrow> nat \<Rightarrow> ReplayWindow" where
  "set_window_bit w distance =
     (let word = distance div WORD_BITS; b = distance mod WORD_BITS
      in w\<lparr>rw_seen := (rw_seen w)[word := (rw_seen w ! word) OR push_bit b 1]\<rparr>)"

definition may_accept :: "ReplayWindow \<Rightarrow> u64 \<Rightarrow> bool" where
  "may_accept w sq =
     (case rw_highest w of
        None \<Rightarrow> True
      | Some highest \<Rightarrow>
          if sq > highest then True
          else let distance = highest - sq
               in if distance \<ge> word_of_nat UDP_REPLAY_WINDOW_SIZE then False
                  else \<not> bit_is_set w (unat distance))"

text \<open>The loop of \<open>shift_older\<close>; the source breaks when the destination leaves the array.\<close>

fun shift_loop :: "nat \<Rightarrow> nat \<Rightarrow> nat \<Rightarrow> u64 list \<Rightarrow> u64 list \<Rightarrow> u64 list" where
  "shift_loop word_shift bit_shift source [] shifted = shifted"
| "shift_loop word_shift bit_shift source (v # vs) shifted =
     (let destination = source + word_shift
      in if destination \<ge> WORD_COUNT then shifted
         else
           let shifted1 = shifted[destination := (shifted ! destination) OR push_bit bit_shift v];
               shifted2 =
                 (if bit_shift \<noteq> 0 \<and> destination + 1 < WORD_COUNT
                  then shifted1[destination + 1 :=
                         (shifted1 ! (destination + 1)) OR drop_bit (WORD_BITS - bit_shift) v]
                  else shifted1)
           in shift_loop word_shift bit_shift (source + 1) vs shifted2)"

definition shift_older :: "ReplayWindow \<Rightarrow> nat \<Rightarrow> ReplayWindow" where
  "shift_older w distance =
     (if distance \<ge> UDP_REPLAY_WINDOW_SIZE
      then w\<lparr>rw_seen := replicate (length (rw_seen w)) 0\<rparr>
      else w\<lparr>rw_seen := shift_loop (distance div WORD_BITS) (distance mod WORD_BITS) 0
               (rw_seen w) (replicate WORD_COUNT 0)\<rparr>)"

definition replay_commit :: "ReplayWindow \<Rightarrow> u64 \<Rightarrow> ReplayWindow \<times> bool" where
  "replay_commit w sq =
     (if \<not> may_accept w sq then (w, False)
      else
        (case rw_highest w of
           None \<Rightarrow> set_window_bit (w\<lparr>rw_highest := Some sq\<rparr>) 0
         | Some highest \<Rightarrow>
             if sq > highest then
               let advance = sq - highest;
                   w1 = (if advance \<ge> word_of_nat UDP_REPLAY_WINDOW_SIZE
                         then w\<lparr>rw_seen := replicate (length (rw_seen w)) 0\<rparr>
                         else shift_older w (unat advance))
               in set_window_bit (w1\<lparr>rw_highest := Some sq\<rparr>) 0
             else set_window_bit w (unat (highest - sq)),
         True))"

section \<open>The specification: a set of accepted numbers\<close>

text \<open>
  With the numbers accepted so far in \<open>A\<close>, a number is acceptable when it is new and less
  than a window length below every accepted one.
\<close>

definition spec_may_accept :: "nat set \<Rightarrow> nat \<Rightarrow> bool" where
  "spec_may_accept A s \<longleftrightarrow> s \<notin> A \<and> (\<forall>x\<in>A. x < s + UDP_REPLAY_WINDOW_SIZE)"

definition window_rel :: "ReplayWindow \<Rightarrow> nat set \<Rightarrow> bool" where
  "window_rel w A \<longleftrightarrow>
     length (rw_seen w) = WORD_COUNT \<and> finite A \<and>
     (case rw_highest w of
        None \<Rightarrow> A = {} \<and> (\<forall>d < UDP_REPLAY_WINDOW_SIZE. \<not> bit_is_set w d)
      | Some h \<Rightarrow> A \<noteq> {} \<and> unat h = Max A \<and>
          (\<forall>d < UDP_REPLAY_WINDOW_SIZE. d \<le> unat h \<longrightarrow>
             (bit_is_set w d \<longleftrightarrow> unat h - d \<in> A)))"

text \<open>Running a list of commits, with the verdict of each.\<close>

fun commit_run :: "('w \<Rightarrow> u64 \<Rightarrow> 'w \<times> bool) \<Rightarrow> 'w \<Rightarrow> u64 list \<Rightarrow> 'w \<times> bool list" where
  "commit_run commit w [] = (w, [])"
| "commit_run commit w (s # ss) =
     (let (w1, b) = commit w s; (w2, bs) = commit_run commit w1 ss in (w2, b # bs))"

definition accepted_of :: "u64 list \<Rightarrow> bool list \<Rightarrow> u64 list" where
  "accepted_of ss bs = map fst (filter snd (zip ss bs))"

section \<open>Bits of the window\<close>

lemmas window_consts = WORD_BITS_def WORD_COUNT_def UDP_REPLAY_WINDOW_SIZE_def

lemma bit_is_set_iff:
  "bit_is_set w d \<longleftrightarrow> bit (rw_seen w ! (d div 64)) (d mod 64)"
  by (simp add: bit_is_set_def Let_def WORD_BITS_def bit_iff_and_push_bit_not_eq_0)

lemma bit_is_set_set:
  assumes "length (rw_seen w) = WORD_COUNT" and "d < 4096" and "e < 4096"
  shows "bit_is_set (set_window_bit w d) e \<longleftrightarrow> e = d \<or> bit_is_set w e"
proof -
  have dl: "d div 64 < length (rw_seen w)"
    using assms by (simp add: window_consts)
  have eq: "e = d \<longleftrightarrow> e div 64 = d div 64 \<and> e mod 64 = d mod 64"
    by (metis div_mult_mod_eq)
  have b: "bit (2 ^ i :: u64) j \<longleftrightarrow> j = i" if "i < 64" for i j
    using that by (auto simp: bit_exp_iff)
  show ?thesis
    using dl
    by (auto simp: bit_is_set_iff set_window_bit_def Let_def WORD_BITS_def nth_list_update
        bit_or_iff b eq)
qed

lemma set_window_bit_frame [simp]:
  "rw_highest (set_window_bit w d) = rw_highest w"
  "length (rw_seen (set_window_bit w d)) = length (rw_seen w)"
  by (simp_all add: set_window_bit_def Let_def)

lemma shift_loop_length [simp]:
  "length (shift_loop ws bs src vs sh) = length sh"
  by (induction vs arbitrary: src sh) (simp_all add: Let_def)

lemma position_split:
  assumes "b < 64" and "bs < 64" and "k < (64::nat)"
  shows "64 * src + b + (64 * ws + bs) = 64 * j + k \<longleftrightarrow>
    (src + ws = j \<and> b + bs = k) \<or> (src + ws + 1 = j \<and> b + bs = k + 64)"
proof -
  have "src + ws = j \<or> src + ws + 1 = j \<or> src + ws + 2 \<le> j \<or> j + 1 \<le> src + ws"
    by linarith
  then show ?thesis
    using assms by (elim disjE) auto
qed

lemma bit_u64_bound: "bit (v :: u64) k \<Longrightarrow> k < 64"
  using bit_imp_le_length [of v k] by simp

lemma moved_bit:
  fixes v :: u64
  assumes "bs < 64" and "k < 64"
  shows "(\<exists>b < 64. bit v b \<and> 64 * src + b + (64 * ws + bs) = 64 * j + k) \<longleftrightarrow>
    (j = src + ws \<and> bs \<le> k \<and> bit v (k - bs)) \<or>
    (j = src + ws + 1 \<and> bs \<noteq> 0 \<and> bit v (k + (64 - bs)))"
    (is "?L \<longleftrightarrow> ?R")
proof
  assume ?L
  then obtain b where b: "b < 64" "bit v b" "64 * src + b + (64 * ws + bs) = 64 * j + k"
    by blast
  then have "(src + ws = j \<and> b + bs = k) \<or> (src + ws + 1 = j \<and> b + bs = k + 64)"
    using position_split [OF b(1) assms] by blast
  then show ?R
  proof
    assume "src + ws = j \<and> b + bs = k"
    then have "j = src + ws" "bs \<le> k" "b = k - bs" by auto
    with b(2) show ?R by blast
  next
    assume a: "src + ws + 1 = j \<and> b + bs = k + 64"
    then have "bs \<noteq> 0" using b(1) by auto
    moreover have "b = k + (64 - bs)" using a assms(1) by auto
    ultimately show ?R using a b(2) by blast
  qed
next
  assume ?R
  then show ?L
  proof
    assume a: "j = src + ws \<and> bs \<le> k \<and> bit v (k - bs)"
    then have "64 * src + (k - bs) + (64 * ws + bs) = 64 * j + k" by simp
    with a bit_u64_bound show ?L by blast
  next
    assume a: "j = src + ws + 1 \<and> bs \<noteq> 0 \<and> bit v (k + (64 - bs))"
    then have "64 * src + (k + (64 - bs)) + (64 * ws + bs) = 64 * j + k"
      using assms(1) by simp
    with a bit_u64_bound show ?L by blast
  qed
qed

lemma shift_loop_bits:
  assumes "length sh = 64" and "bs < 64" and "j < 64" and "k < 64"
  shows "bit (shift_loop ws bs src vs sh ! j) k \<longleftrightarrow>
    bit (sh ! j) k \<or>
    (\<exists>i < length vs. \<exists>b < 64. bit (vs ! i) b \<and>
       64 * (src + i) + b + (64 * ws + bs) = 64 * j + k)"
  using assms
proof (induction vs arbitrary: src sh)
  case Nil
  then show ?case by simp
next
  case (Cons v vs)
  define d where "d = src + ws"
  define tail where "tail \<longleftrightarrow> (\<exists>i < length vs. \<exists>b < 64. bit (vs ! i) b \<and>
       64 * (src + 1 + i) + b + (64 * ws + bs) = 64 * j + k)"
  define here where "here \<longleftrightarrow> (\<exists>b < 64. bit v b \<and>
       64 * src + b + (64 * ws + bs) = 64 * j + k)"
  have split: "(\<exists>i < length (v # vs). \<exists>b < 64. bit ((v # vs) ! i) b \<and>
       64 * (src + i) + b + (64 * ws + bs) = 64 * j + k) \<longleftrightarrow> here \<or> tail"
    unfolding here_def tail_def length_Cons Ex_less_Suc2 by simp
  show ?case
  proof (cases "d \<ge> 64")
    case True
    then have "\<not> here" and "\<not> tail"
      using Cons.prems by (auto simp: here_def tail_def d_def)
    with True show ?thesis
      unfolding split by (simp add: d_def Let_def window_consts)
  next
    case False
    define sh1 where "sh1 = sh[d := (sh ! d) OR push_bit bs v]"
    define sh2 where "sh2 = (if bs \<noteq> 0 \<and> d + 1 < 64
      then sh1[d + 1 := (sh1 ! (d + 1)) OR drop_bit (64 - bs) v] else sh1)"
    have len: "length sh2 = 64"
      using Cons.prems by (simp add: sh1_def sh2_def)
    have step: "shift_loop ws bs src (v # vs) sh = shift_loop ws bs (src + 1) vs sh2"
      using False by (simp add: sh1_def sh2_def d_def Let_def window_consts)
    have "bit (sh2 ! j) k \<longleftrightarrow> bit (sh ! j) k \<or>
        (j = d \<and> bs \<le> k \<and> bit v (k - bs)) \<or> (j = d + 1 \<and> bs \<noteq> 0 \<and> bit v (k + (64 - bs)))"
      using Cons.prems False
      by (auto simp: sh1_def sh2_def nth_list_update bit_or_iff bit_push_bit_iff
          bit_drop_bit_eq ac_simps)
    also have "\<dots> \<longleftrightarrow> bit (sh ! j) k \<or> here"
      using Cons.prems moved_bit [of bs k v src ws j] by (simp add: here_def d_def)
    finally have "bit (sh2 ! j) k \<longleftrightarrow> bit (sh ! j) k \<or> here" .
    with Cons.IH [of sh2 "src + 1"] len Cons.prems show ?thesis
      unfolding step split by (simp add: tail_def)
  qed
qed

lemma bit_is_set_shift:
  assumes "length (rw_seen w) = WORD_COUNT" and "n < 4096" and "d < 4096"
  shows "bit_is_set (shift_older w n) d \<longleftrightarrow> n \<le> d \<and> bit_is_set w (d - n)"
proof -
  have len: "length (rw_seen w) = 64"
    using assms by (simp add: window_consts)
  have dd: "d div 64 < 64"
    using assms by simp
  have sh: "rw_seen (shift_older w n) =
      shift_loop (n div 64) (n mod 64) 0 (rw_seen w) (replicate 64 0)"
    using assms(2) by (simp add: shift_older_def window_consts)
  have zero: "\<not> bit ((replicate 64 0 :: u64 list) ! (d div 64)) (d mod 64)"
    using dd by (simp only: nth_replicate bit_0_eq bot_apply bot_bool_def not_False_eq_True)
  have "bit_is_set (shift_older w n) d \<longleftrightarrow>
      (\<exists>i < 64. \<exists>b < 64. bit (rw_seen w ! i) b \<and> 64 * i + b + n = d)"
    using shift_loop_bits [of "replicate 64 0" "n mod 64" "d div 64" "d mod 64"
        "n div 64" 0 "rw_seen w"] dd zero
    unfolding bit_is_set_iff sh len by (simp only: length_replicate) simp
  also have "\<dots> \<longleftrightarrow> n \<le> d \<and> bit_is_set w (d - n)"
  proof
    assume "\<exists>i < 64. \<exists>b < 64. bit (rw_seen w ! i) b \<and> 64 * i + b + n = d"
    then obtain i b where ib: "i < 64" "b < 64" "bit (rw_seen w ! i) b" "64 * i + b + n = d"
      by blast
    then have "d - n = 64 * i + b" and "n \<le> d" by auto
    with ib show "n \<le> d \<and> bit_is_set w (d - n)"
      by (simp add: bit_is_set_iff)
  next
    assume r: "n \<le> d \<and> bit_is_set w (d - n)"
    have "64 * ((d - n) div 64) + (d - n) mod 64 + n = d"
      using r by simp
    moreover have "(d - n) div 64 < 64" and "(d - n) mod 64 < 64"
      using assms by auto
    moreover have "bit (rw_seen w ! ((d - n) div 64)) ((d - n) mod 64)"
      using r by (simp only: bit_is_set_iff)
    ultimately show "\<exists>i < 64. \<exists>b < 64. bit (rw_seen w ! i) b \<and> 64 * i + b + n = d"
      by (intro exI conjI)
  qed
  finally show ?thesis .
qed

section \<open>The bitmap implements the specification\<close>

lemma unat_sub_le: "b \<le> a \<Longrightarrow> unat (a - b :: u64) = unat a - unat b"
  by (simp add: unat_sub)

lemma distance_ge_iff:
  "(d :: u64) \<ge> word_of_nat UDP_REPLAY_WINDOW_SIZE \<longleftrightarrow> 4096 \<le> unat d"
  by (simp add: word_le_nat_alt UDP_REPLAY_WINDOW_SIZE_def)

lemma window_rel_new: "window_rel replay_new {}"
  by (simp add: window_rel_def replay_new_def bit_is_set_iff window_consts)

lemma window_relD:
  assumes "window_rel w A" and "rw_highest w = Some h"
  shows "length (rw_seen w) = WORD_COUNT" "finite A" "A \<noteq> {}" "unat h = Max A" "unat h \<in> A"
    and "d < 4096 \<Longrightarrow> d \<le> unat h \<Longrightarrow> bit_is_set w d \<longleftrightarrow> unat h - d \<in> A"
    and "x \<in> A \<Longrightarrow> x \<le> unat h"
  using assms Max_in [of A] by (auto simp: window_rel_def UDP_REPLAY_WINDOW_SIZE_def)

lemma may_accept_spec:
  assumes rel: "window_rel w A"
  shows "may_accept w s \<longleftrightarrow> spec_may_accept A (unat s)"
proof (cases "rw_highest w")
  case None
  with rel show ?thesis
    by (simp add: window_rel_def may_accept_def spec_may_accept_def)
next
  case (Some h)
  note D = window_relD [OF rel Some]
  show ?thesis
  proof (cases "s > h")
    case True
    then have lt: "unat h < unat s" by (simp add: word_less_nat_alt)
    have "unat s \<notin> A"
      using lt D(7) [of "unat s"] by auto
    moreover have "x < unat s + UDP_REPLAY_WINDOW_SIZE" if "x \<in> A" for x
      using lt D(7) [OF that] by simp
    ultimately show ?thesis
      using True Some by (simp add: may_accept_def spec_may_accept_def)
  next
    case False
    then have le: "s \<le> h" by simp
    then have le': "unat s \<le> unat h" by (simp add: word_le_nat_alt)
    have u: "unat (h - s) = unat h - unat s" by (rule unat_sub_le [OF le])
    have win: "(\<forall>x\<in>A. x < unat s + 4096) \<longleftrightarrow> unat h - unat s < 4096"
      using D(5,7) le' by (auto dest: D(7))
    have "may_accept w s \<longleftrightarrow> unat h - unat s < 4096 \<and> \<not> bit_is_set w (unat h - unat s)"
      using Some False by (simp add: may_accept_def Let_def distance_ge_iff u)
    also have "\<dots> \<longleftrightarrow> unat h - unat s < 4096 \<and> unat s \<notin> A"
      using D(6) [of "unat h - unat s"] le' by auto
    finally show ?thesis
      using win by (auto simp: spec_may_accept_def UDP_REPLAY_WINDOW_SIZE_def)
  qed
qed

lemma window_relI:
  assumes "length (rw_seen w) = WORD_COUNT" and "finite A" and "rw_highest w = Some h"
    and "unat h \<in> A" and "\<And>x. x \<in> A \<Longrightarrow> x \<le> unat h"
    and "\<And>d. d < 4096 \<Longrightarrow> d \<le> unat h \<Longrightarrow> bit_is_set w d \<longleftrightarrow> unat h - d \<in> A"
  shows "window_rel w A"
proof -
  have "unat h = Max A"
    using assms(2,4,5) by (intro Max_eqI [symmetric]) auto
  with assms show ?thesis
    by (auto simp: window_rel_def UDP_REPLAY_WINDOW_SIZE_def)
qed

lemma replicate_bits [simp]:
  "d < 4096 \<Longrightarrow> \<not> bit_is_set (w\<lparr>rw_seen := replicate 64 0\<rparr>) d"
  by (simp add: bit_is_set_iff)

lemma bit_is_set_highest [simp]: "bit_is_set (w\<lparr>rw_highest := x\<rparr>) d = bit_is_set w d"
  by (simp add: bit_is_set_def Let_def)

text \<open>Advancing the window to a new highest number: shift, then mark bit 0.\<close>

lemma advance_rel:
  assumes rel: "window_rel w A" and hi: "rw_highest w = Some h" and gt: "s > h"
    and w1: "length (rw_seen w1) = WORD_COUNT"
    and bits: "\<And>d. d < 4096 \<Longrightarrow> d \<noteq> 0 \<Longrightarrow>
      bit_is_set w1 d \<longleftrightarrow> unat s - unat h \<le> d \<and> bit_is_set w (d - (unat s - unat h))"
  shows "window_rel (set_window_bit (w1\<lparr>rw_highest := Some s\<rparr>) 0) (insert (unat s) A)"
proof (rule window_relI [where h = s])
  note D = window_relD [OF rel hi]
  have lt: "unat h < unat s"
    using gt by (simp add: word_less_nat_alt)
  show "length (rw_seen (set_window_bit (w1\<lparr>rw_highest := Some s\<rparr>) 0)) = WORD_COUNT"
    using w1 by simp
  show "finite (insert (unat s) A)" using D(2) by simp
  show "rw_highest (set_window_bit (w1\<lparr>rw_highest := Some s\<rparr>) 0) = Some s" by simp
  show "unat s \<in> insert (unat s) A" by simp
  show "x \<le> unat s" if "x \<in> insert (unat s) A" for x
    using that D(7) lt by force
  fix d :: nat
  assume d: "d < 4096" "d \<le> unat s"
  have "bit_is_set (set_window_bit (w1\<lparr>rw_highest := Some s\<rparr>) 0) d \<longleftrightarrow> d = 0 \<or> bit_is_set w1 d"
    using bit_is_set_set [of "w1\<lparr>rw_highest := Some s\<rparr>" 0 d] w1 d by simp
  also have "\<dots> \<longleftrightarrow> d = 0 \<or> unat s - d \<in> A"
  proof (cases "d = 0")
    case False
    let ?n = "unat s - unat h"
    have "bit_is_set w1 d \<longleftrightarrow> ?n \<le> d \<and> bit_is_set w (d - ?n)"
      using bits [OF d(1) False] .
    also have "\<dots> \<longleftrightarrow> ?n \<le> d \<and> unat h - (d - ?n) \<in> A"
      using D(6) [of "d - ?n"] d lt by auto
    also have "\<dots> \<longleftrightarrow> unat s - d \<in> A"
    proof (cases "?n \<le> d")
      case True
      have "unat h - (d - ?n) = unat s - d" using True lt d by simp
      with True show ?thesis by simp
    next
      case False
      then have "unat h < unat s - d" using lt by simp
      with False show ?thesis using D(7) [of "unat s - d"] by auto
    qed
    finally show ?thesis by simp
  qed simp
  also have "\<dots> \<longleftrightarrow> unat s - d \<in> insert (unat s) A"
    using d lt by auto
  finally show "bit_is_set (set_window_bit (w1\<lparr>rw_highest := Some s\<rparr>) 0) d \<longleftrightarrow>
      unat s - d \<in> insert (unat s) A" .
qed

lemma mark_rel:
  assumes rel: "window_rel w A" and hi: "rw_highest w = Some h" and le: "s \<le> h"
    and win: "unat h - unat s < 4096"
  shows "window_rel (set_window_bit w (unat (h - s))) (insert (unat s) A)"
proof (rule window_relI [where h = h])
  note D = window_relD [OF rel hi]
  have le': "unat s \<le> unat h" using le by (simp add: word_le_nat_alt)
  have u: "unat (h - s) = unat h - unat s" by (rule unat_sub_le [OF le])
  show "length (rw_seen (set_window_bit w (unat (h - s)))) = WORD_COUNT" using D(1) by simp
  show "finite (insert (unat s) A)" using D(2) by simp
  show "rw_highest (set_window_bit w (unat (h - s))) = Some h" using hi by simp
  show "unat h \<in> insert (unat s) A" using D(5) by simp
  show "x \<le> unat h" if "x \<in> insert (unat s) A" for x
    using that D(7) le' by auto
  fix d :: nat
  assume d: "d < 4096" "d \<le> unat h"
  have "bit_is_set (set_window_bit w (unat (h - s))) d \<longleftrightarrow> d = unat h - unat s \<or> bit_is_set w d"
    using bit_is_set_set [OF D(1), of "unat h - unat s" d] win d by (simp add: u)
  also have "\<dots> \<longleftrightarrow> unat h - d = unat s \<or> unat h - d \<in> A"
    using D(6) [OF d] d le' by auto
  finally show "bit_is_set (set_window_bit w (unat (h - s))) d \<longleftrightarrow> unat h - d \<in> insert (unat s) A"
    by simp
qed

lemma first_rel:
  assumes rel: "window_rel w A" and hi: "rw_highest w = None"
  shows "window_rel (set_window_bit (w\<lparr>rw_highest := Some s\<rparr>) 0) (insert (unat s) A)"
proof (rule window_relI [where h = s])
  from rel hi have A: "A = {}" and len: "length (rw_seen w) = WORD_COUNT"
    and none: "\<And>d. d < 4096 \<Longrightarrow> \<not> bit_is_set w d"
    by (auto simp: window_rel_def UDP_REPLAY_WINDOW_SIZE_def)
  show "length (rw_seen (set_window_bit (w\<lparr>rw_highest := Some s\<rparr>) 0)) = WORD_COUNT"
    using len by simp
  show "finite (insert (unat s) A)" using A by simp
  show "rw_highest (set_window_bit (w\<lparr>rw_highest := Some s\<rparr>) 0) = Some s" by simp
  show "unat s \<in> insert (unat s) A" by simp
  show "x \<le> unat s" if "x \<in> insert (unat s) A" for x
    using that A by simp
  show "bit_is_set (set_window_bit (w\<lparr>rw_highest := Some s\<rparr>) 0) d \<longleftrightarrow>
      unat s - d \<in> insert (unat s) A" if "d < 4096" "d \<le> unat s" for d
    using bit_is_set_set [of "w\<lparr>rw_highest := Some s\<rparr>" 0 d] len none that A by auto
qed

lemma replay_commit_accept:
  assumes rel: "window_rel w A" and ok: "may_accept w s"
  shows "snd (replay_commit w s)"
    and "window_rel (fst (replay_commit w s)) (insert (unat s) A)"
proof -
  show "snd (replay_commit w s)"
    using ok by (simp add: replay_commit_def)
  show "window_rel (fst (replay_commit w s)) (insert (unat s) A)"
  proof (cases "rw_highest w")
    case None
    then show ?thesis
      using ok first_rel [OF rel None] by (simp add: replay_commit_def)
  next
    case (Some h)
    note D = window_relD [OF rel Some]
    show ?thesis
    proof (cases "s > h")
      case True
      let ?n = "unat s - unat h"
      have u: "unat (s - h) = ?n"
        using True by (intro unat_sub_le) simp
      let ?w1 = "if s - h \<ge> word_of_nat UDP_REPLAY_WINDOW_SIZE
        then w\<lparr>rw_seen := replicate (length (rw_seen w)) 0\<rparr> else shift_older w (unat (s - h))"
      have len: "length (rw_seen ?w1) = WORD_COUNT"
        using D(1) by (simp add: shift_older_def)
      have bits: "bit_is_set ?w1 d \<longleftrightarrow> ?n \<le> d \<and> bit_is_set w (d - ?n)"
        if "d < 4096" for d
        using that D(1) bit_is_set_shift [OF D(1), of ?n d]
        unfolding distance_ge_iff u by (simp add: window_consts)
      show ?thesis
        using advance_rel [OF rel Some True len] bits ok Some True
        by (simp add: replay_commit_def Let_def)
    next
      case False
      then have le: "s \<le> h" by simp
      have "unat h - unat s < 4096"
        using ok Some False
        by (simp add: may_accept_def Let_def distance_ge_iff unat_sub_le [OF le] split: if_splits)
      then show ?thesis
        using mark_rel [OF rel Some le] ok Some False by (simp add: replay_commit_def)
    qed
  qed
qed

lemma replay_commit_reject: "\<not> may_accept w s \<Longrightarrow> replay_commit w s = (w, False)"
  by (simp add: replay_commit_def)

section \<open>The interface the session layer uses\<close>

locale replay_filter =
  fixes init :: 'w
    and may :: "'w \<Rightarrow> u64 \<Rightarrow> bool"
    and commit :: "'w \<Rightarrow> u64 \<Rightarrow> 'w \<times> bool"
    and rel :: "'w \<Rightarrow> nat set \<Rightarrow> bool"
    and size :: nat
  assumes rel_init: "rel init {}"
    and may_iff: "rel w A \<Longrightarrow> may w s \<longleftrightarrow> unat s \<notin> A \<and> (\<forall>x\<in>A. x < unat s + size)"
    and commit_may: "rel w A \<Longrightarrow> may w s \<Longrightarrow>
      snd (commit w s) \<and> rel (fst (commit w s)) (insert (unat s) A)"
    and commit_not_may: "rel w A \<Longrightarrow> \<not> may w s \<Longrightarrow> commit w s = (w, False)"
begin

lemma commit_seen: "rel w A \<Longrightarrow> unat s \<in> A \<Longrightarrow> commit w s = (w, False)"
  by (rule commit_not_may) (simp_all add: may_iff)

lemma commit_rel:
  "rel w A \<Longrightarrow> rel (fst (commit w s)) (if snd (commit w s) then insert (unat s) A else A)"
  using commit_may [of w A s] commit_not_may [of w A s] by (cases "may w s") auto

lemma commit_new:
  assumes "rel w A" and "snd (commit w s)"
  shows "unat s \<notin> A"
  using assms commit_seen [of w A s] by auto

lemma run_accepts_once:
  assumes "rel w A" and "commit_run commit w ss = (w', bs)"
  shows "distinct (accepted_of ss bs) \<and> unat ` set (accepted_of ss bs) \<inter> A = {} \<and>
    rel w' (A \<union> unat ` set (accepted_of ss bs)) \<and> length bs = length ss"
  using assms
proof (induction ss arbitrary: w A bs)
  case Nil
  then show ?case by (simp add: accepted_of_def)
next
  case (Cons s ss)
  obtain w1 b where c: "commit w s = (w1, b)" by fastforce
  obtain w2 bs' where r: "commit_run commit w1 ss = (w2, bs')" by fastforce
  from Cons.prems(2) c r have e: "w2 = w'" "bs = b # bs'" by auto
  let ?A = "if b then insert (unat s) A else A"
  have rel1: "rel w1 ?A"
    using commit_rel [OF Cons.prems(1), of s] c by simp
  have new: "b \<Longrightarrow> unat s \<notin> A"
    using commit_new [OF Cons.prems(1), of s] c by simp
  show ?case
    using Cons.IH [OF rel1 r [unfolded e(1)]] new e by (cases b) (auto simp: accepted_of_def)
qed

end

interpretation replay: replay_filter replay_new may_accept replay_commit window_rel
    UDP_REPLAY_WINDOW_SIZE
  by unfold_locales
    (auto simp: window_rel_new may_accept_spec spec_may_accept_def replay_commit_accept
      replay_commit_reject)

section \<open>Properties\<close>

text \<open>
  C9. The 4096-bit sliding window implements the set of accepted sequence numbers: in a
  state that represents the set \<open>A\<close>, \<open>may_accept\<close> answers exactly whether the number is
  new and less than one window below every accepted number; \<open>commit\<close> returns that answer,
  represents \<open>A\<close> with the number added when it accepts, and changes nothing when it refuses.
\<close>

theorem replay_window_refines_set:
  assumes "window_rel w A"
  shows "(may_accept w s \<longleftrightarrow> spec_may_accept A (unat s)) \<and>
    snd (replay_commit w s) = spec_may_accept A (unat s) \<and>
    window_rel (fst (replay_commit w s))
      (if spec_may_accept A (unat s) then insert (unat s) A else A) \<and>
    (\<not> spec_may_accept A (unat s) \<longrightarrow> fst (replay_commit w s) = w)"
  using assms replay_commit_accept [OF assms] replay_commit_reject [of w s]
    may_accept_spec [OF assms, of s]
  by (cases "may_accept w s") auto

theorem replay_window_refines_set_witness:
  "window_rel replay_new {} \<and> snd (replay_commit replay_new 10000) \<and>
   window_rel (fst (replay_commit replay_new 10000)) {10000}"
  using replay_window_refines_set [of replay_new "{}" 10000] window_rel_new
  by (simp add: spec_may_accept_def)

text \<open>
  Over any sequence of commits to a fresh window, in any order and with any repetitions,
  no sequence number is accepted twice, and a number that is new and within the window of
  everything accepted is accepted.
\<close>

theorem replay_never_accepts_twice:
  assumes "commit_run replay_commit replay_new ss = (w, bs)"
  shows "distinct (accepted_of ss bs) \<and>
    (s \<in> set (accepted_of ss bs) \<longrightarrow> \<not> may_accept w s) \<and>
    (s \<notin> set (accepted_of ss bs) \<and>
       (\<forall>x\<in>set (accepted_of ss bs). unat x < unat s + UDP_REPLAY_WINDOW_SIZE) \<longrightarrow>
     may_accept w s)"
proof -
  have run: "distinct (accepted_of ss bs)"
    "window_rel w (unat ` set (accepted_of ss bs))"
    using replay.run_accepts_once [OF window_rel_new assms] by auto
  show ?thesis
    using run(1) replay.may_iff [OF run(2), of s]
    by (simp add: inj_image_mem_iff [OF inj_unat])
qed

theorem replay_never_accepts_twice_witness:
  "distinct (accepted_of [7, 5, 7] (snd (commit_run replay_commit replay_new [7, 5, 7])))"
proof -
  obtain w bs where r: "commit_run replay_commit replay_new [7, 5, 7] = (w, bs)"
    by fastforce
  show ?thesis
    using replay_never_accepts_twice [OF r] r by simp
qed

end
