(* ===== verification/Reassembly.thy ===== *)
theory Reassembly
  imports Udp_Header
begin

text \<open>
  The bounded fragment accumulator (\<open>protocol/src/udp_transport/reassembly.rs\<close>). Its state
  is a hash map from a message key to a partly received message, and a running total of
  the buffered bytes. The lemmas show that the total is always the true sum, that the
  configured limits are never exceeded, that no internal error or panic branch of \<open>push\<close> is
  reachable, and that the fragments of a message arriving in any order give the message.
\<close>

section \<open>State\<close>

text \<open>Instants and durations are natural numbers of milliseconds.\<close>

record ReassemblyConfig =
  rc_max_entries :: nat
  rc_max_total_bytes :: nat
  rc_timeout :: nat

definition reassembly_config_default :: ReassemblyConfig where
  "reassembly_config_default =
     \<lparr>rc_max_entries = 64, rc_max_total_bytes = 1024 * 1024, rc_timeout = 1000\<rparr>"

record ReassemblyEntry =
  re_fragment_count :: u16
  re_total_len :: u32
  re_fragments :: "bytes option list"
  re_received_count :: nat
  re_received_bytes :: nat
  re_updated_at :: nat

type_synonym message_key = "UdpSessionId \<times> u64"

record FragmentReassembler =
  ra_config :: ReassemblyConfig
  ra_entries :: "(message_key \<times> ReassemblyEntry) list"
  ra_total_bytes :: nat

record DecryptedUdpFragment =
  frag_header :: UdpPacketHeader
  frag_payload :: bytes

definition from_valid_config :: "ReassemblyConfig \<Rightarrow> FragmentReassembler" where
  "from_valid_config c = \<lparr>ra_config = c, ra_entries = [], ra_total_bytes = 0\<rparr>"

lemma from_valid_config_sel [simp]:
  "ra_config (from_valid_config c) = c" "ra_entries (from_valid_config c) = []"
  "ra_total_bytes (from_valid_config c) = 0"
  by (simp_all add: from_valid_config_def)

lemma reassembly_config_default_sel [simp]:
  "rc_max_entries reassembly_config_default = 64"
  "rc_max_total_bytes reassembly_config_default = 1048576"
  "rc_timeout reassembly_config_default = 1000"
  by (simp_all add: reassembly_config_default_def)

definition reassembler_new :: "ReassemblyConfig \<Rightarrow> FragmentReassembler udp_result" where
  "reassembler_new c =
     (if rc_max_entries c = 0 then Err (ReassemblyLimit ''max_entries must be non-zero'')
      else if rc_max_total_bytes c = 0
        then Err (ReassemblyLimit ''max_total_bytes must be non-zero'')
      else if rc_timeout c = 0 then Err (ReassemblyLimit ''timeout must be non-zero'')
      else Ok (from_valid_config c))"

definition entry_count :: "FragmentReassembler \<Rightarrow> nat" where
  "entry_count s = length (ra_entries s)"

definition buffered_bytes :: "FragmentReassembler \<Rightarrow> nat" where
  "buffered_bytes s = ra_total_bytes s"

section \<open>Eviction and expiry\<close>

definition evict_oldest_except ::
  "FragmentReassembler \<Rightarrow> message_key option \<Rightarrow>
   FragmentReassembler \<times> message_key option udp_result" where
  "evict_oldest_except s except =
     (case min_by_key (\<lambda>(_, entry). re_updated_at entry)
             (filter (\<lambda>(key, _). except \<noteq> Some key) (ra_entries s)) of
        None \<Rightarrow> (s, Ok None)
      | Some (oldest, _) \<Rightarrow>
          (case map_of (ra_entries s) oldest of
             None \<Rightarrow>
               (s, Err (InconsistentReassemblyState ''selected reassembly entry is missing''))
           | Some removed \<Rightarrow>
               (s\<lparr>ra_entries := AList.delete oldest (ra_entries s),
                  ra_total_bytes :=
                    wrapping_sub_usize (ra_total_bytes s) (re_received_bytes removed)\<rparr>,
                Ok (Some oldest))))"

definition keep_entry :: "nat \<Rightarrow> nat \<Rightarrow> ReassemblyEntry \<Rightarrow> bool" where
  "keep_entry timeout now e \<longleftrightarrow> now - re_updated_at e < timeout"

definition cleanup_expired :: "FragmentReassembler \<Rightarrow> nat \<Rightarrow> FragmentReassembler \<times> nat" where
  "cleanup_expired s now =
     (let keep = (\<lambda>(_, e). keep_entry (rc_timeout (ra_config s)) now e);
          kept = filter keep (ra_entries s);
          removed_bytes = alist_sum re_received_bytes (filter (\<lambda>x. \<not> keep x) (ra_entries s))
      in (s\<lparr>ra_entries := kept,
            ra_total_bytes := wrapping_sub_usize (ra_total_bytes s) removed_bytes\<rparr>,
          length (ra_entries s) - length kept))"

section \<open>Push\<close>

definition validate_fragment :: "DecryptedUdpFragment \<Rightarrow> unit udp_result" where
  "validate_fragment f =
     and_then (header_validate (frag_header f)) (\<lambda>_.
       let total_n = unat (hdr_total_len (frag_header f));
           count = unat (hdr_fragment_count (frag_header f));
           n = length (frag_payload f)
       in if n > UDP_MAX_FRAGMENT_PLAINTEXT
            then Err (InvalidHeader ''fragment plaintext exceeds datagram capacity'')
          else if total_n > UDP_MAX_MESSAGE_SIZE then Err (MessageTooLarge total_n)
          else if n > total_n
            then Err (InvalidHeader ''fragment bytes exceed declared total_len'')
          else if count > UDP_MAX_FRAGMENTS then Err (TooManyFragments count)
          else if hdr_total_len (frag_header f) \<noteq> 0 \<and> frag_payload f = []
            then Err (InvalidHeader ''non-empty messages cannot contain empty fragments'')
          else Ok ())"

definition fragment_key :: "UdpPacketHeader \<Rightarrow> message_key" where
  "fragment_key h = (hdr_session_id h, hdr_message_id h)"

definition fresh_entry :: "UdpPacketHeader \<Rightarrow> nat \<Rightarrow> ReassemblyEntry" where
  "fresh_entry h now =
     \<lparr>re_fragment_count = hdr_fragment_count h, re_total_len = hdr_total_len h,
      re_fragments = replicate (unat (hdr_fragment_count h)) None,
      re_received_count = 0, re_received_bytes = 0, re_updated_at = now\<rparr>"

text \<open>The first part of \<open>push\<close>: make sure the message has an entry.\<close>

definition ensure_entry ::
  "FragmentReassembler \<Rightarrow> DecryptedUdpFragment \<Rightarrow> nat \<Rightarrow> FragmentReassembler \<times> unit udp_result" where
  "ensure_entry s f now =
     (let h = frag_header f; key = fragment_key h
      in if map_of (ra_entries s) key \<noteq> None then (s, Ok ())
         else if length (frag_payload f) > rc_max_total_bytes (ra_config s) then
           (s, Err (ReassemblyLimit ''current message exceeds maximum buffered fragment bytes''))
         else
           try_st
             (if length (ra_entries s) \<ge> rc_max_entries (ra_config s) then
                try_st (evict_oldest_except s None) (\<lambda>s' evicted.
                  (s', and_then
                    (ok_or evicted (InconsistentReassemblyState
                      ''a full reassembly table has no entry to evict''))
                    (\<lambda>_. Ok ())))
              else (s, Ok ()))
             (\<lambda>s' _. (s'\<lparr>ra_entries := AList.update key (fresh_entry h now) (ra_entries s')\<rparr>,
                      Ok ())))"

text \<open>
  The second part inspects the entry: \<open>Inr (Inl r)\<close> is an early return of \<open>r\<close> for a duplicate,
  \<open>Inr (Inr n)\<close> the number of bytes the entry will hold.
\<close>

definition check_entry ::
  "FragmentReassembler \<Rightarrow> DecryptedUdpFragment \<Rightarrow> (bytes option + nat) udp_result" where
  "check_entry s f =
     (let h = frag_header f; index = unat (hdr_fragment_index h)
      in and_then
           (ok_or (map_of (ra_entries s) (fragment_key h))
             (InconsistentReassemblyState ''reassembly entry is missing after insertion''))
           (\<lambda>entry.
             if re_fragment_count entry \<noteq> hdr_fragment_count h \<or>
                re_total_len entry \<noteq> hdr_total_len h then Err ConflictingFragment
             else if index \<ge> length (re_fragments entry) then Err IndexPanic
             else case re_fragments entry ! index of
               Some existing \<Rightarrow>
                 if existing = frag_payload f then Ok (Inl None) else Err ConflictingFragment
             | None \<Rightarrow>
                 and_then
                   (ok_or (checked_add_usize (re_received_bytes entry) (length (frag_payload f)))
                     (InvalidHeader ''fragment byte counter overflow''))
                   (\<lambda>entry_bytes.
                     if entry_bytes > unat (re_total_len entry)
                       then Err (InvalidHeader ''fragment bytes exceed declared total_len'')
                     else if entry_bytes > rc_max_total_bytes (ra_config s)
                       then Err (ReassemblyLimit
                         ''current message exceeds maximum buffered fragment bytes'')
                     else Ok (Inr entry_bytes))))"

lemma evict_shrinks:
  assumes "evict_oldest_except s ex = (s', Inr (Some k))"
  shows "length (ra_entries s') < length (ra_entries s)"
  using assms
  by (auto simp: evict_oldest_except_def length_delete_less split: option.splits)

text \<open>The eviction loop of \<open>push\<close>.\<close>

function make_room ::
  "message_key \<Rightarrow> nat \<Rightarrow> FragmentReassembler \<Rightarrow> FragmentReassembler \<times> unit udp_result" where
  "make_room key n s =
     (case checked_add_usize (ra_total_bytes s) n of
        None \<Rightarrow> (s, Err (ReassemblyLimit ''buffer byte counter overflow''))
      | Some new_total \<Rightarrow>
          if new_total \<le> rc_max_total_bytes (ra_config s) then (s, Ok ())
          else (case evict_oldest_except s (Some key) of
             (s', Inl e) \<Rightarrow> (s', Err e)
           | (s', Inr None) \<Rightarrow>
               (s', Err (ReassemblyLimit ''maximum buffered fragment bytes reached''))
           | (s', Inr (Some _)) \<Rightarrow> make_room key n s'))"
  by pat_completeness auto
termination
  by (relation "measure (\<lambda>(_, _, s). length (ra_entries s))")
    (auto dest!: evict_shrinks [OF sym])

declare make_room.simps [simp del]

fun join_fragments :: "bytes option list \<Rightarrow> bytes udp_result" where
  "join_fragments [] = Ok []"
| "join_fragments (None # fs) =
     Err (InconsistentReassemblyState ''completed message contains a missing fragment'')"
| "join_fragments (Some b # fs) = and_then (join_fragments fs) (\<lambda>bs. Ok (b @ bs))"

definition take_complete ::
  "FragmentReassembler \<Rightarrow> message_key \<Rightarrow> FragmentReassembler \<times> bytes option udp_result" where
  "take_complete s key =
     (case map_of (ra_entries s) key of
        None \<Rightarrow>
          (s, Err (InconsistentReassemblyState ''complete reassembly entry is missing''))
      | Some e \<Rightarrow>
          let s' = s\<lparr>ra_entries := AList.delete key (ra_entries s),
                     ra_total_bytes :=
                       wrapping_sub_usize (ra_total_bytes s) (re_received_bytes e)\<rparr>
          in if re_received_bytes e \<noteq> unat (re_total_len e)
             then (s', Err (InvalidHeader ''reassembled length does not match total_len''))
             else (s', and_then (join_fragments (re_fragments e)) (\<lambda>m. Ok (Some m))))"

text \<open>The last part of \<open>push\<close>: store the fragment and hand out a complete message.\<close>

definition store_fragment ::
  "FragmentReassembler \<Rightarrow> DecryptedUdpFragment \<Rightarrow> nat \<Rightarrow> nat \<Rightarrow>
   FragmentReassembler \<times> bytes option udp_result" where
  "store_fragment s f entry_bytes now =
     (let h = frag_header f; key = fragment_key h; index = unat (hdr_fragment_index h)
      in case checked_add_usize (ra_total_bytes s) (length (frag_payload f)) of
           None \<Rightarrow> (s, Err (ReassemblyLimit ''buffer byte counter overflow''))
         | Some new_total \<Rightarrow>
           (case map_of (ra_entries s) key of
              None \<Rightarrow>
                (s, Err (InconsistentReassemblyState ''current reassembly entry was evicted''))
            | Some e0 \<Rightarrow>
              if index \<ge> length (re_fragments e0) then (s, Err IndexPanic)
              else
                let e = e0\<lparr>re_fragments := (re_fragments e0)[index := Some (frag_payload f)],
                           re_received_count := re_received_count e0 + 1,
                           re_received_bytes := entry_bytes, re_updated_at := now\<rparr>;
                    s1 = s\<lparr>ra_entries := AList.update key e (ra_entries s),
                           ra_total_bytes := new_total\<rparr>
                in if re_received_count e \<noteq> unat (re_fragment_count e) then (s1, Ok None)
                   else take_complete s1 key))"

definition push ::
  "FragmentReassembler \<Rightarrow> DecryptedUdpFragment \<Rightarrow> nat \<Rightarrow>
   FragmentReassembler \<times> bytes option udp_result" where
  "push s f now =
     (case validate_fragment f of
        Inl e \<Rightarrow> (s, Err e)
      | Inr _ \<Rightarrow>
        let h = frag_header f
        in if hdr_fragment_count h = 1 then
             (if length (frag_payload f) \<noteq> unat (hdr_total_len h)
              then (s, Err (InvalidHeader ''single fragment length does not match total_len''))
              else (s, Ok (Some (frag_payload f))))
           else
             try_st (ensure_entry (fst (cleanup_expired s now)) f now) (\<lambda>s1 _.
               (case check_entry s1 f of
                  Inl e \<Rightarrow> (s1, Err e)
                | Inr (Inl r) \<Rightarrow> (s1, Ok r)
                | Inr (Inr entry_bytes) \<Rightarrow>
                    try_st (make_room (fragment_key h) (length (frag_payload f)) s1) (\<lambda>s2 _.
                      store_fragment s2 f entry_bytes now))))"

section \<open>Invariant\<close>

definition fragment_len :: "bytes option \<Rightarrow> nat" where
  "fragment_len x = (case x of None \<Rightarrow> 0 | Some b \<Rightarrow> length b)"

definition entry_ok :: "ReassemblyEntry \<Rightarrow> bool" where
  "entry_ok e \<longleftrightarrow>
     length (re_fragments e) = unat (re_fragment_count e) \<and>
     re_received_count e = length (filter (\<lambda>x. x \<noteq> None) (re_fragments e)) \<and>
     re_received_count e < unat (re_fragment_count e) \<and>
     re_received_bytes e = sum_list (map fragment_len (re_fragments e)) \<and>
     re_received_bytes e \<le> unat (re_total_len e)"

definition config_ok :: "ReassemblyConfig \<Rightarrow> bool" where
  "config_ok c \<longleftrightarrow> 0 < rc_max_entries c \<and> 0 < rc_max_total_bytes c \<and> 0 < rc_timeout c \<and>
     rc_max_total_bytes c \<le> usize_max"

definition reassembler_inv :: "FragmentReassembler \<Rightarrow> bool" where
  "reassembler_inv s \<longleftrightarrow>
     config_ok (ra_config s) \<and>
     alist_ok (ra_entries s) \<and>
     entry_count s \<le> rc_max_entries (ra_config s) \<and>
     ra_total_bytes s = alist_sum re_received_bytes (ra_entries s) \<and>
     buffered_bytes s \<le> rc_max_total_bytes (ra_config s) \<and>
     (\<forall>k e. map_of (ra_entries s) k = Some e \<longrightarrow> entry_ok e)"

lemma reassembler_invD:
  assumes "reassembler_inv s"
  shows "alist_ok (ra_entries s)" "length (ra_entries s) \<le> rc_max_entries (ra_config s)"
    "ra_total_bytes s = alist_sum re_received_bytes (ra_entries s)"
    "ra_total_bytes s \<le> rc_max_total_bytes (ra_config s)"
    "rc_max_total_bytes (ra_config s) \<le> usize_max" "0 < rc_max_entries (ra_config s)"
    "0 < rc_timeout (ra_config s)"
    "map_of (ra_entries s) k = Some e \<Longrightarrow> entry_ok e"
  using assms
  by (cases k; auto simp: reassembler_inv_def config_ok_def entry_count_def buffered_bytes_def)+

lemma reassembler_inv_new:
  assumes "reassembler_new c = Inr s" and "rc_max_total_bytes c \<le> usize_max"
  shows "reassembler_inv s"
  using assms
  by (auto simp: reassembler_new_def from_valid_config_def reassembler_inv_def config_ok_def
      entry_count_def buffered_bytes_def split: if_splits)

lemma reassembler_inv_delete:
  assumes inv: "reassembler_inv s" and e: "map_of (ra_entries s) k = Some e"
  shows "reassembler_inv (s\<lparr>ra_entries := AList.delete k (ra_entries s),
    ra_total_bytes := wrapping_sub_usize (ra_total_bytes s) (re_received_bytes e)\<rparr>)"
    and "wrapping_sub_usize (ra_total_bytes s) (re_received_bytes e) =
      ra_total_bytes s - re_received_bytes e"
proof -
  note D = reassembler_invD [OF inv]
  have le: "re_received_bytes e \<le> ra_total_bytes s"
    using alist_sum_member [OF e, of re_received_bytes] D(3) by simp
  show w: "wrapping_sub_usize (ra_total_bytes s) (re_received_bytes e) =
      ra_total_bytes s - re_received_bytes e"
    using wrapping_sub_usize_exact [OF le] D(4,5) by simp
  have "ra_total_bytes s - re_received_bytes e =
      alist_sum re_received_bytes (AList.delete k (ra_entries s))"
    using alist_sum_delete [OF D(1) e, of re_received_bytes] D(3) by simp
  moreover have "length (AList.delete k (ra_entries s)) \<le> rc_max_entries (ra_config s)"
    using length_delete_less [OF e] D(2) by simp
  ultimately show "reassembler_inv (s\<lparr>ra_entries := AList.delete k (ra_entries s),
    ra_total_bytes := wrapping_sub_usize (ra_total_bytes s) (re_received_bytes e)\<rparr>)"
    using D(1,4) inv unfolding w
    by (simp add: reassembler_inv_def entry_count_def buffered_bytes_def delete_conv'
        split: if_splits)
qed

lemma evict_oldest_except_cases:
  assumes "alist_ok (ra_entries s)"
  obtains (none) "\<forall>k e. map_of (ra_entries s) k = Some e \<longrightarrow> except = Some k"
      "evict_oldest_except s except = (s, Inr None)"
  | (some) k e where "map_of (ra_entries s) k = Some e" "except \<noteq> Some k"
      "\<forall>k' e'. map_of (ra_entries s) k' = Some e' \<and> except \<noteq> Some k' \<longrightarrow>
         re_updated_at e \<le> re_updated_at e'"
      "evict_oldest_except s except =
         (s\<lparr>ra_entries := AList.delete k (ra_entries s),
            ra_total_bytes := wrapping_sub_usize (ra_total_bytes s) (re_received_bytes e)\<rparr>,
          Inr (Some k))"
proof (cases "min_by_key (\<lambda>(_, entry). re_updated_at entry)
             (filter (\<lambda>(key, _). except \<noteq> Some key) (ra_entries s))")
  case None
  then have "\<forall>k e. map_of (ra_entries s) k = Some e \<longrightarrow> except = Some k"
    by (auto simp: filter_empty_conv dest: map_of_SomeD)
  with None show ?thesis
    using none by (auto simp: evict_oldest_except_def)
next
  case (Some ke)
  obtain k e where ke: "ke = (k, e)"
    by fastforce
  have m: "(k, e) \<in> set (ra_entries s)" "except \<noteq> Some k"
    "\<And>k' e'. (k', e') \<in> set (ra_entries s) \<Longrightarrow> except \<noteq> Some k' \<Longrightarrow>
      re_updated_at e \<le> re_updated_at e'"
    using min_by_key_Some [OF Some] ke by auto
  have e: "map_of (ra_entries s) k = Some e"
    using alist_ok_get [OF assms m(1)] .
  have min: "\<forall>k' e'. map_of (ra_entries s) k' = Some e' \<and> except \<noteq> Some k' \<longrightarrow>
      re_updated_at e \<le> re_updated_at e'"
    using m(3) map_of_SomeD by fast
  show ?thesis
    using some [OF e m(2) min] Some ke e by (simp add: evict_oldest_except_def)
qed

lemma reassembler_inv_cleanup:
  assumes inv: "reassembler_inv s"
  shows "reassembler_inv (fst (cleanup_expired s now))"
    and "ra_config (fst (cleanup_expired s now)) = ra_config s"
    and "map_of (ra_entries (fst (cleanup_expired s now))) k =
      (case map_of (ra_entries s) k of None \<Rightarrow> None
       | Some e \<Rightarrow> if keep_entry (rc_timeout (ra_config s)) now e then Some e else None)"
proof -
  note D = reassembler_invD [OF inv]
  let ?keep = "\<lambda>(_, e). keep_entry (rc_timeout (ra_config s)) now e"
  have part: "alist_sum re_received_bytes (filter ?keep (ra_entries s)) +
      alist_sum re_received_bytes (filter (\<lambda>x. \<not> ?keep x) (ra_entries s)) = ra_total_bytes s"
    using alist_sum_partition [of re_received_bytes ?keep "ra_entries s"] D(3) by simp
  have w: "wrapping_sub_usize (ra_total_bytes s)
      (alist_sum re_received_bytes (filter (\<lambda>x. \<not> ?keep x) (ra_entries s))) =
      alist_sum re_received_bytes (filter ?keep (ra_entries s))"
    using part D(4,5) by (subst wrapping_sub_usize_exact) auto
  show look: "map_of (ra_entries (fst (cleanup_expired s now))) k =
      (case map_of (ra_entries s) k of None \<Rightarrow> None
       | Some e \<Rightarrow> if keep_entry (rc_timeout (ra_config s)) now e then Some e else None)" for k
    using map_of_filter_key [OF D(1), of "\<lambda>_ e. keep_entry (rc_timeout (ra_config s)) now e"]
    by (simp add: cleanup_expired_def Let_def)
  show "ra_config (fst (cleanup_expired s now)) = ra_config s"
    by (simp add: cleanup_expired_def Let_def)
  have len: "length (filter ?keep (ra_entries s)) \<le> rc_max_entries (ra_config s)"
    using length_filter_le [of ?keep "ra_entries s"] D(2) by linarith
  have "\<forall>k e. map_of (ra_entries (fst (cleanup_expired s now))) k = Some e \<longrightarrow> entry_ok e"
    unfolding look using D(8) by (auto split: option.splits if_splits)
  then show "reassembler_inv (fst (cleanup_expired s now))"
    using inv part D(1,4) len w
    by (simp add: reassembler_inv_def cleanup_expired_def Let_def entry_count_def
        buffered_bytes_def)
qed

section \<open>The parts of push\<close>

lemma make_room_rules:
  "usize_max < ra_total_bytes s + n \<Longrightarrow>
     make_room key n s = (s, Inl (ReassemblyLimit ''buffer byte counter overflow''))"
  "ra_total_bytes s + n \<le> usize_max \<Longrightarrow>
     ra_total_bytes s + n \<le> rc_max_total_bytes (ra_config s) \<Longrightarrow> make_room key n s = (s, Inr ())"
  "ra_total_bytes s + n \<le> usize_max \<Longrightarrow>
     rc_max_total_bytes (ra_config s) < ra_total_bytes s + n \<Longrightarrow>
     evict_oldest_except s (Some key) = (s', Inr (Some k)) \<Longrightarrow>
     make_room key n s = make_room key n s'"
  by (simp_all add: make_room.simps [of key n s] checked_add_usize_def)

lemma alist_single:
  assumes "alist_ok m" and "map_of m k = Some v"
    and "\<And>k' v'. map_of m k' = Some v' \<Longrightarrow> k' = k"
  shows "alist_sum f m = f v"
proof -
  have "AList.delete k m = []"
    using assms(3) alist_ok_get [OF assms(1)] by (auto simp: AList.delete_eq filter_empty_conv)
  then show ?thesis
    using alist_sum_delete [OF assms(1,2), of f] by simp
qed

lemma make_room_spec:
  assumes "reassembler_inv s" and "map_of (ra_entries s) key = Some e"
    and "re_received_bytes e + n \<le> rc_max_total_bytes (ra_config s)"
    and "make_room key n s = (s', r)"
  shows "reassembler_inv s' \<and> ra_config s' = ra_config s \<and>
    map_of (ra_entries s') key = Some e \<and>
    (r = Inr () \<and> ra_total_bytes s' + n \<le> rc_max_total_bytes (ra_config s) \<or>
     r = Inl (ReassemblyLimit ''buffer byte counter overflow'') \<and>
     usize_max < rc_max_total_bytes (ra_config s) + n)"
  using assms
proof (induction "length (ra_entries s)" arbitrary: s rule: less_induct)
  case less
  note D = reassembler_invD [OF less.prems(1)]
  consider (over) "usize_max < ra_total_bytes s + n"
    | (fits) "ra_total_bytes s + n \<le> usize_max"
        "ra_total_bytes s + n \<le> rc_max_total_bytes (ra_config s)"
    | (evict) "ra_total_bytes s + n \<le> usize_max"
        "rc_max_total_bytes (ra_config s) < ra_total_bytes s + n"
    by linarith
  then show ?case
  proof cases
    case evict
    show ?thesis
      using D(1)
    proof (cases rule: evict_oldest_except_cases [where except = "Some key"])
      case none
      have "k' = key" if "map_of (ra_entries s) k' = Some v" for k' v
        using none(1) that by fast
      then have "ra_total_bytes s = re_received_bytes e"
        using alist_single [OF D(1) less.prems(2)] D(3) by metis
      then show ?thesis
        using evict less.prems(3) by simp
    next
      case (some k' e')
      let ?s = "s\<lparr>ra_entries := AList.delete k' (ra_entries s), ra_total_bytes :=
        wrapping_sub_usize (ra_total_bytes s) (re_received_bytes e')\<rparr>"
      have "make_room key n ?s = (s', r)"
        using less.prems(4) make_room_rules(3) [OF evict some(4)] by simp
      then show ?thesis
        using less.hyps [of ?s] length_delete_less [OF some(1)]
          reassembler_inv_delete(1) [OF less.prems(1) some(1)] less.prems(2,3) some(2)
        by (simp add: delete_conv')
    qed
  qed (use less.prems D(4) make_room_rules(1,2) [of s n key] in auto)
qed

lemma validate_fragment_Ok:
  "validate_fragment f = Inr u \<longleftrightarrow>
     header_valid (frag_header f) \<and>
     length (frag_payload f) \<le> UDP_MAX_FRAGMENT_PLAINTEXT \<and>
     unat (hdr_total_len (frag_header f)) \<le> UDP_MAX_MESSAGE_SIZE \<and>
     length (frag_payload f) \<le> unat (hdr_total_len (frag_header f)) \<and>
     (hdr_total_len (frag_header f) = 0 \<or> frag_payload f \<noteq> [])"
  by (auto simp: validate_fragment_def Let_def header_validate_Ok header_valid_iff not_less)

lemma entry_ok_fresh:
  assumes "2 \<le> unat (hdr_fragment_count h)"
  shows "entry_ok (fresh_entry h now)"
  using assms by (simp add: entry_ok_def fresh_entry_def fragment_len_def sum_list_replicate)

lemma reassembler_inv_insert:
  assumes inv: "reassembler_inv s" and new: "map_of (ra_entries s) k = None"
    and room: "length (ra_entries s) < rc_max_entries (ra_config s)"
    and e: "entry_ok e" "re_received_bytes e = 0"
  shows "reassembler_inv (s\<lparr>ra_entries := AList.update k e (ra_entries s)\<rparr>)"
  using inv e room
  by (auto simp: reassembler_inv_def entry_count_def buffered_bytes_def
      alist_sum_update_new [OF new] length_update_new [OF new] update_conv' split: if_splits)

lemma ensure_entry_spec:
  assumes inv: "reassembler_inv s" and count: "2 \<le> unat (hdr_fragment_count (frag_header f))"
    and r: "ensure_entry s f now = (s', r)"
  shows "reassembler_inv s' \<and> ra_config s' = ra_config s \<and>
    (r = Inr () \<and> map_of (ra_entries s') (fragment_key (frag_header f)) =
        (case map_of (ra_entries s) (fragment_key (frag_header f)) of
           None \<Rightarrow> Some (fresh_entry (frag_header f) now) | Some e \<Rightarrow> Some e) \<or>
     r = Inl (ReassemblyLimit ''current message exceeds maximum buffered fragment bytes'') \<and>
     rc_max_total_bytes (ra_config s) < length (frag_payload f))"
proof -
  let ?k = "fragment_key (frag_header f)"
  note D = reassembler_invD [OF inv]
  consider (old) e where "map_of (ra_entries s) ?k = Some e"
    | (big) "map_of (ra_entries s) ?k = None"
        "rc_max_total_bytes (ra_config s) < length (frag_payload f)"
    | (full) "map_of (ra_entries s) ?k = None"
        "length (frag_payload f) \<le> rc_max_total_bytes (ra_config s)"
        "rc_max_entries (ra_config s) \<le> length (ra_entries s)"
    | (room) "map_of (ra_entries s) ?k = None"
        "length (frag_payload f) \<le> rc_max_total_bytes (ra_config s)"
        "length (ra_entries s) < rc_max_entries (ra_config s)"
    by fastforce
  then show ?thesis
  proof cases
    case full
    show ?thesis
      using D(1)
    proof (cases rule: evict_oldest_except_cases [where except = None])
      case none
      have "map_of (ra_entries s) k = None" for k
        using none(1) by (cases "map_of (ra_entries s) k") (auto simp del: split_paired_All)
      from this [of "fst (hd (ra_entries s))"] have "ra_entries s = []"
        by (cases "ra_entries s") (auto split: if_splits)
      then show ?thesis
        using full(3) D(6) by simp
    next
      case (some k e)
      let ?s = "s\<lparr>ra_entries := AList.delete k (ra_entries s), ra_total_bytes :=
        wrapping_sub_usize (ra_total_bytes s) (re_received_bytes e)\<rparr>"
      have "length (ra_entries ?s) < rc_max_entries (ra_config ?s)"
        using length_delete_less [OF some(1)] D(2) by simp
      moreover have "map_of (ra_entries ?s) ?k = None"
        using full(1) by (simp add: delete_conv')
      ultimately show ?thesis
        using reassembler_inv_insert
          [OF reassembler_inv_delete(1) [OF inv some(1)], of ?k "fresh_entry (frag_header f) now"]
          entry_ok_fresh [OF count] r full some(4)
        by (auto simp: ensure_entry_def Let_def fresh_entry_def update_conv')
    qed
  next
    case room
    then show ?thesis
      using reassembler_inv_insert [OF inv, of ?k "fresh_entry (frag_header f) now"]
        entry_ok_fresh [OF count] r
      by (auto simp: ensure_entry_def Let_def fresh_entry_def update_conv')
  qed (use r inv in \<open>auto simp: ensure_entry_def Let_def\<close>)
qed

lemma received_update:
  assumes "i < length xs" and "xs ! i = None"
  shows "length (filter (\<lambda>x. x \<noteq> None) (xs[i := Some b])) = Suc (length (filter (\<lambda>x. x \<noteq> None) xs))"
    and "sum_list (map fragment_len (xs[i := Some b])) = sum_list (map fragment_len xs) + length b"
  using assms
  by (induction xs arbitrary: i; auto simp: fragment_len_def split: nat.splits)+

lemma all_received:
  assumes "length (filter (\<lambda>x. x \<noteq> None) xs) = length xs"
  shows "join_fragments xs = Inr (concat (map the xs))"
proof -
  have "filter (\<lambda>x. x \<noteq> None) xs = xs"
    using assms by (metis length_filter_less filter_id_conv less_irrefl)
  then have "\<forall>x\<in>set xs. x \<noteq> None"
    by (simp only: filter_id_conv)
  then show ?thesis
    by (induction xs) auto
qed

definition stored_entry :: "ReassemblyEntry \<Rightarrow> nat \<Rightarrow> bytes \<Rightarrow> nat \<Rightarrow> ReassemblyEntry" where
  "stored_entry e i b now =
     e\<lparr>re_fragments := (re_fragments e)[i := Some b],
       re_received_count := re_received_count e + 1,
       re_received_bytes := re_received_bytes e + length b, re_updated_at := now\<rparr>"

definition stored_outcome ::
  "ReassemblyEntry \<Rightarrow> DecryptedUdpFragment \<Rightarrow> nat \<Rightarrow> FragmentReassembler \<Rightarrow>
   bytes option udp_result \<Rightarrow> bool" where
  "stored_outcome e f now s r \<longleftrightarrow>
     (let i = unat (hdr_fragment_index (frag_header f)); key = fragment_key (frag_header f)
      in if Suc (re_received_count e) < unat (re_fragment_count e)
         then r = Inr None \<and>
           map_of (ra_entries s) key = Some (stored_entry e i (frag_payload f) now)
         else map_of (ra_entries s) key = None \<and>
           r = (if re_received_bytes e + length (frag_payload f) = unat (re_total_len e)
                then Inr (Some (concat (map the ((re_fragments e)[i := Some (frag_payload f)]))))
                else Inl (InvalidHeader ''reassembled length does not match total_len'')))"

lemma store_fragment_spec:
  assumes inv: "reassembler_inv s"
    and e: "map_of (ra_entries s) (fragment_key (frag_header f)) = Some e"
    and i: "i = unat (hdr_fragment_index (frag_header f))" "i < length (re_fragments e)"
      "re_fragments e ! i = None"
    and n: "re_received_bytes e + length (frag_payload f) \<le> unat (re_total_len e)"
      "ra_total_bytes s + length (frag_payload f) \<le> rc_max_total_bytes (ra_config s)"
    and r: "store_fragment s f (re_received_bytes e + length (frag_payload f)) now = (s', r)"
  shows "reassembler_inv s' \<and> ra_config s' = ra_config s \<and>
    stored_outcome e f now s' r"
proof -
  let ?k = "fragment_key (frag_header f)" and ?e = "stored_entry e i (frag_payload f) now"
  let ?new = "ra_total_bytes s + length (frag_payload f)"
  note D = reassembler_invD [OF inv]
  have ok: "entry_ok e"
    using D(8) [OF e] .
  have "?new \<le> usize_max"
    using n(2) D(5) by simp
  then have "store_fragment s f (re_received_bytes e + length (frag_payload f)) now =
     (if Suc (re_received_count e) \<noteq> unat (re_fragment_count e)
      then (s\<lparr>ra_entries := AList.update ?k ?e (ra_entries s), ra_total_bytes := ?new\<rparr>, Inr None)
      else take_complete (s\<lparr>ra_entries := AList.update ?k ?e (ra_entries s),
             ra_total_bytes := ?new\<rparr>) ?k)"
    using e i by (simp add: store_fragment_def Let_def stored_entry_def checked_add_usize_def)
  note st = this [unfolded r]
  show ?thesis
  proof (cases "Suc (re_received_count e) < unat (re_fragment_count e)")
    case True
    have "entry_ok ?e"
      using ok i(2,3) n(1) True received_update [OF i(2,3), of "frag_payload f"]
      by (simp add: entry_ok_def stored_entry_def)
    moreover have "ra_total_bytes s + length (frag_payload f) =
        alist_sum re_received_bytes (AList.update ?k ?e (ra_entries s))"
      using alist_sum_update_old [OF e, of re_received_bytes ?e] D(3)
      by (simp add: stored_entry_def)
    ultimately show ?thesis
      using st True inv n(2) unfolding stored_outcome_def Let_def i(1) [symmetric]
      by (auto simp: reassembler_inv_def entry_count_def buffered_bytes_def
          length_update_old [OF e] update_conv' split: if_splits)
  next
    case False
    then have full: "Suc (re_received_count e) = unat (re_fragment_count e)"
      using ok by (simp add: entry_ok_def)
    have le: "re_received_bytes e \<le> ra_total_bytes s"
      using alist_sum_member [OF e, of re_received_bytes] D(3) by simp
    have w: "wrapping_sub_usize ?new (re_received_bytes ?e) =
        wrapping_sub_usize (ra_total_bytes s) (re_received_bytes e)"
      using \<open>?new \<le> usize_max\<close> le by (simp add: stored_entry_def wrapping_sub_usize_exact)
    have join: "join_fragments (re_fragments ?e) = Inr (concat (map the (re_fragments ?e)))"
      using ok full received_update(1) [OF i(2,3), of "frag_payload f"]
      by (intro all_received) (simp add: entry_ok_def stored_entry_def)
    have s': "s' = s\<lparr>ra_entries := AList.delete ?k (ra_entries s), ra_total_bytes :=
        wrapping_sub_usize (ra_total_bytes s) (re_received_bytes e)\<rparr>"
      using st full w
      by (simp add: take_complete_def Let_def update_conv' delete_update_same split: if_splits)
    have "r = (if re_received_bytes e + length (frag_payload f) = unat (re_total_len e)
               then Inr (Some (concat (map the ((re_fragments e)[i := Some (frag_payload f)]))))
               else Inl (InvalidHeader ''reassembled length does not match total_len''))"
      using st full join
      by (simp add: take_complete_def Let_def update_conv' stored_entry_def split: if_splits)
    then show ?thesis
      using False s' reassembler_inv_delete(1) [OF inv e]
      unfolding stored_outcome_def Let_def i(1) [symmetric] by (simp add: delete_conv')
  qed
qed

section \<open>Push keeps the invariant and never fails internally\<close>

text \<open>The errors of the source that report a broken internal state, and the index panic.\<close>

fun internal_error :: "UdpTransportError \<Rightarrow> bool" where
  "internal_error IndexPanic = True"
| "internal_error (InconsistentReassemblyState m) = True"
| "internal_error (ReassemblyLimit m) = (m = ''maximum buffered fragment bytes reached'')"
| "internal_error x = False"

lemma validate_fragment_error:
  "validate_fragment f = Inl x \<Longrightarrow> \<not> internal_error x"
  by (auto simp: validate_fragment_def header_validate_def Let_def split: if_splits)

lemma valid_multi:
  assumes "validate_fragment f = Inr u" and "hdr_fragment_count (frag_header f) \<noteq> 1"
  shows "2 \<le> unat (hdr_fragment_count (frag_header f))"
    "unat (hdr_fragment_index (frag_header f)) < unat (hdr_fragment_count (frag_header f))"
proof -
  have "unat (hdr_fragment_count (frag_header f)) \<noteq> 1"
    using assms(2) by (metis unat_1 word_unat_eq_iff)
  then show "2 \<le> unat (hdr_fragment_count (frag_header f))"
    "unat (hdr_fragment_index (frag_header f)) < unat (hdr_fragment_count (frag_header f))"
    using assms(1) by (auto simp: validate_fragment_Ok header_valid_iff)
qed

lemma check_entry_spec:
  assumes "map_of (ra_entries s) (fragment_key (frag_header f)) = Some e" and "entry_ok e"
    and "unat (hdr_fragment_index (frag_header f)) < unat (hdr_fragment_count (frag_header f))"
  shows "check_entry s f = Inr (Inr n) \<longleftrightarrow>
      re_fragment_count e = hdr_fragment_count (frag_header f) \<and>
      re_total_len e = hdr_total_len (frag_header f) \<and>
      re_fragments e ! unat (hdr_fragment_index (frag_header f)) = None \<and>
      n = re_received_bytes e + length (frag_payload f) \<and> n \<le> usize_max \<and>
      n \<le> unat (re_total_len e) \<and> n \<le> rc_max_total_bytes (ra_config s)"
    and "check_entry s f = Inl x \<Longrightarrow> \<not> internal_error x"
    and "check_entry s f = Inr (Inl r) \<Longrightarrow> r = None"
  using assms
  by (auto simp: check_entry_def Let_def entry_ok_def checked_add_usize_def not_le
      split: option.splits if_splits)

lemma room_and_store_spec:
  assumes inv: "reassembler_inv s"
    and e: "map_of (ra_entries s) (fragment_key (frag_header f)) = Some e"
    and i: "unat (hdr_fragment_index (frag_header f)) < unat (hdr_fragment_count (frag_header f))"
    and n: "check_entry s f = Inr (Inr n)"
    and r: "try_st (make_room (fragment_key (frag_header f)) (length (frag_payload f)) s)
        (\<lambda>s2 _. store_fragment s2 f n now) = (s', r)"
  shows "reassembler_inv s' \<and> ra_config s' = ra_config s \<and>
    (stored_outcome e f now s' r \<or>
     r = Inl (ReassemblyLimit ''buffer byte counter overflow'') \<and>
     usize_max < rc_max_total_bytes (ra_config s) + length (frag_payload f))"
proof -
  have ok: "entry_ok e"
    using reassembler_invD(8) [OF inv e] .
  note n = check_entry_spec(1) [OF e ok i, THEN iffD1, OF n]
  obtain s2 r2 where
    e2: "make_room (fragment_key (frag_header f)) (length (frag_payload f)) s = (s2, r2)"
    by fastforce
  note s2 = make_room_spec [OF inv e _ e2]
  show ?thesis
  proof (cases r2)
    case Inl
    then show ?thesis
      using r e2 s2 n by auto
  next
    case (Inr u)
    have "store_fragment s2 f (re_received_bytes e + length (frag_payload f)) now = (s', r)"
      using r e2 Inr n by simp
    moreover have "unat (hdr_fragment_index (frag_header f)) < length (re_fragments e)"
      using ok i n by (simp add: entry_ok_def)
    ultimately show ?thesis
      using store_fragment_spec [of s2 f e _ now s' r] s2 n Inr by auto
  qed
qed

lemma stored_outcome_error:
  "stored_outcome e f now s (Inl x) \<Longrightarrow> \<not> internal_error x"
  by (auto simp: stored_outcome_def Let_def split: if_splits)

lemma push_multi:
  assumes "validate_fragment f = Inr ()" and "hdr_fragment_count (frag_header f) \<noteq> 1"
  shows "push s f now =
    try_st (ensure_entry (fst (cleanup_expired s now)) f now) (\<lambda>s1 _.
      (case check_entry s1 f of
         Inl e \<Rightarrow> (s1, Err e)
       | Inr (Inl r) \<Rightarrow> (s1, Ok r)
       | Inr (Inr entry_bytes) \<Rightarrow>
           try_st (make_room (fragment_key (frag_header f)) (length (frag_payload f)) s1) (\<lambda>s2 _.
             store_fragment s2 f entry_bytes now)))"
  using assms by (simp add: push_def Let_def)

lemma push_multi_spec:
  assumes inv: "reassembler_inv s" and r: "push s f now = (s', r)"
    and multi: "validate_fragment f = Inr ()" "hdr_fragment_count (frag_header f) \<noteq> 1"
  shows "reassembler_inv s' \<and> ra_config s' = ra_config s \<and>
    (\<forall>x. r = Inl x \<longrightarrow> \<not> internal_error x)"
proof -
  note v = valid_multi [OF multi] and c = reassembler_inv_cleanup [OF inv, of now]
  obtain s1 r1 where e1: "ensure_entry (fst (cleanup_expired s now)) f now = (s1, r1)"
    by fastforce
  note s1 = ensure_entry_spec [OF c(1) v(1) e1] and p = r [unfolded push_multi [OF multi] e1]
  show ?thesis
  proof (cases r1)
    case (Inl x)
    then show ?thesis
      using s1 p c(2) by auto
  next
    case (Inr u)
    then obtain e where e: "map_of (ra_entries s1) (fragment_key (frag_header f)) = Some e"
      using s1 by (auto split: option.splits)
    have inv1: "reassembler_inv s1" and ok: "entry_ok e" and cfg: "ra_config s1 = ra_config s"
      using s1 c(2) reassembler_invD(8) [OF _ e] by auto
    show ?thesis
    proof (cases "\<exists>n. check_entry s1 f = Inr (Inr n)")
      case True
      then obtain n where n: "check_entry s1 f = Inr (Inr n)"
        by blast
      show ?thesis
        using room_and_store_spec [OF inv1 e v(2) n, of now s' r] p Inr n cfg stored_outcome_error
        by fastforce
    next
      case False
      then show ?thesis
        using p Inr check_entry_spec(2) [OF e ok v(2)] inv1 cfg by (auto split: sum.splits)
    qed
  qed
qed

lemma push_spec:
  assumes inv: "reassembler_inv s" and r: "push s f now = (s', r)"
  shows "reassembler_inv s' \<and> ra_config s' = ra_config s \<and>
    (\<forall>x. r = Inl x \<longrightarrow> \<not> internal_error x)"
proof (cases "validate_fragment f = Inr () \<and> hdr_fragment_count (frag_header f) \<noteq> 1")
  case True
  then show ?thesis
    using push_multi_spec [OF inv r] by blast
next
  case False
  then show ?thesis
    using r inv validate_fragment_error
    by (cases "validate_fragment f") (auto simp: push_def Let_def split: if_splits)
qed

section \<open>Runs of operations\<close>

datatype reassembler_op = Push DecryptedUdpFragment nat | Cleanup nat

fun reassembler_step :: "FragmentReassembler \<Rightarrow> reassembler_op \<Rightarrow> FragmentReassembler" where
  "reassembler_step s (Push f now) = fst (push s f now)"
| "reassembler_step s (Cleanup now) = fst (cleanup_expired s now)"

fun push_all :: "FragmentReassembler \<Rightarrow> (DecryptedUdpFragment \<times> nat) list \<Rightarrow>
    FragmentReassembler \<times> bytes option udp_result list" where
  "push_all s [] = (s, [])"
| "push_all s ((f, now) # fs) =
     (let (s1, r) = push s f now; (s2, rs) = push_all s1 fs in (s2, r # rs))"

lemma reassembler_inv_run:
  "reassembler_inv s \<Longrightarrow> reassembler_inv (foldl reassembler_step s ops) \<and>
     ra_config (foldl reassembler_step s ops) = ra_config s"
proof (induction ops arbitrary: s)
  case Nil
  then show ?case by simp
next
  case (Cons op ops)
  have "reassembler_inv (reassembler_step s op) \<and> ra_config (reassembler_step s op) = ra_config s"
    using push_spec [OF Cons.prems] reassembler_inv_cleanup(1,2) [OF Cons.prems]
    by (cases op) (auto simp: prod_eq_iff)
  then show ?case
    using Cons.IH [of "reassembler_step s op"] by simp
qed

section \<open>A message in fragments\<close>

text \<open>
  The fragments a sender makes of a message: the header of fragment \<open>i\<close> carries its index,
  the number of parts and the length of the whole message; \<open>sq\<close> gives the sequence numbers.
\<close>

definition message_fragment ::
  "UdpSessionId \<Rightarrow> u64 \<Rightarrow> (nat \<Rightarrow> u64) \<Rightarrow> bytes list \<Rightarrow> nat \<Rightarrow> DecryptedUdpFragment" where
  "message_fragment sid mid sq parts i =
     \<lparr>frag_header = header_new Encrypted sid (sq i) mid (word_of_nat i)
        (word_of_nat (length parts)) (word_of_nat (length (concat parts))),
      frag_payload = parts ! i\<rparr>"

definition sendable :: "bytes list \<Rightarrow> bool" where
  "sendable parts \<longleftrightarrow> 2 \<le> length parts \<and> length parts \<le> UDP_MAX_FRAGMENTS \<and>
     (\<forall>p\<in>set parts. p \<noteq> [] \<and> length p \<le> UDP_MAX_FRAGMENT_PLAINTEXT) \<and>
     length (concat parts) \<le> UDP_MAX_MESSAGE_SIZE"

definition partial_entry :: "bytes list \<Rightarrow> nat set \<Rightarrow> nat \<Rightarrow> ReassemblyEntry" where
  "partial_entry parts S t =
     \<lparr>re_fragment_count = word_of_nat (length parts),
      re_total_len = word_of_nat (length (concat parts)),
      re_fragments = map (\<lambda>i. if i \<in> S then Some (parts ! i) else None) [0..<length parts],
      re_received_count = card S, re_received_bytes = (\<Sum>i\<in>S. length (parts ! i)),
      re_updated_at = t\<rparr>"

lemma sendable_words:
  assumes "sendable parts" and "i < length parts"
  shows "unat (word_of_nat (length parts) :: u16) = length parts"
    "unat (word_of_nat i :: u16) = i"
    "unat (word_of_nat (length (concat parts)) :: u32) = length (concat parts)"
  using assms
  by (auto simp: sendable_def unat_of_nat udp_limits simp del: length_concat)

lemma length_concat_nth: "length (concat parts) = (\<Sum>i<length parts. length (parts ! i))"
  by (simp add: length_concat sum_list_sum_nth atLeast0LessThan)

lemma part_sum_le:
  assumes "S \<subseteq> {..<length parts}"
  shows "(\<Sum>i\<in>S. length (parts ! i)) \<le> length (concat parts)"
  unfolding length_concat_nth by (rule sum_mono2) (use assms in auto)

lemma parts_count_le:
  assumes "\<forall>p\<in>set parts. p \<noteq> []"
  shows "length parts \<le> length (concat parts)"
  using assms by (induction parts) (auto simp: Suc_le_eq neq_Nil_conv)

lemma parts_total_le:
  assumes "\<forall>p\<in>set parts. length p \<le> m"
  shows "length (concat parts) \<le> length parts * m"
  using assms by (induction parts) auto

lemma message_fragment_valid:
  assumes p: "sendable parts" and i: "i < length parts"
  shows "validate_fragment (message_fragment sid mid sq parts i) = Inr ()"
    and "hdr_fragment_count (frag_header (message_fragment sid mid sq parts i)) \<noteq> 1"
proof -
  note w = sendable_words [OF p i]
  have "length (parts ! i) \<le> length (concat parts)"
    using part_sum_le [of "{i}" parts] i by simp
  moreover have "parts ! i \<noteq> []" "length (parts ! i) \<le> UDP_MAX_FRAGMENT_PLAINTEXT"
    using p i by (auto simp: sendable_def)
  moreover have "length parts \<le> length (concat parts)"
    "length (concat parts) \<le> length parts * UDP_MAX_FRAGMENT_PLAINTEXT"
    using parts_count_le parts_total_le p by (auto simp: sendable_def simp del: length_concat)
  ultimately show "validate_fragment (message_fragment sid mid sq parts i) = Inr ()"
    using p i w
    by (auto simp: validate_fragment_Ok header_valid_iff message_fragment_def header_new_def
        sendable_def max_total_len_for_def simp del: length_concat)
  show "hdr_fragment_count (frag_header (message_fragment sid mid sq parts i)) \<noteq> 1"
    using w(1) p by (auto simp: message_fragment_def header_new_def sendable_def
        simp del: length_concat dest: arg_cong [where f = unat])
qed

lemma partial_entry_sel [simp]:
  "re_updated_at (partial_entry parts S t) = t"
  "re_received_count (partial_entry parts S t) = card S"
  "re_received_bytes (partial_entry parts S t) = (\<Sum>i\<in>S. length (parts ! i))"
  "re_fragment_count (partial_entry parts S t) = word_of_nat (length parts)"
  "re_total_len (partial_entry parts S t) = word_of_nat (length (concat parts))"
  "re_fragments (partial_entry parts S t) =
     map (\<lambda>i. if i \<in> S then Some (parts ! i) else None) [0..<length parts]"
  by (simp_all add: partial_entry_def)

lemma stored_partial:
  assumes "S \<subseteq> {..<length parts}" and "i < length parts" and "i \<notin> S"
  shows "stored_entry (partial_entry parts S t) i (parts ! i) now = partial_entry parts (insert i S) now"
proof -
  have fin: "finite S"
    using assms(1) finite_subset by blast
  have "(map (\<lambda>j. if j \<in> S then Some (parts ! j) else None) [0..<length parts])[i := Some (parts ! i)] =
      map (\<lambda>j. if j \<in> insert i S then Some (parts ! j) else None) [0..<length parts]"
    by (rule nth_equalityI) (use assms in \<open>auto simp: nth_list_update\<close>)
  then show ?thesis
    using fin assms(3) by (simp add: stored_entry_def partial_entry_def)
qed

lemma partial_complete:
  "map the (map (\<lambda>j. if j \<in> {..<length parts} then Some (parts ! j) else None) [0..<length parts]) = parts"
  by (rule nth_equalityI) auto

lemma outcome_partial:
  assumes p: "sendable parts" and i: "i < length parts" "i \<notin> S" and S: "S \<subseteq> {..<length parts}"
    and out: "stored_outcome (partial_entry parts S t) (message_fragment sid mid sq parts i) now s r"
  shows "if insert i S = {..<length parts} then r = Inr (Some (concat parts))
    else r = Inr None \<and>
      map_of (ra_entries s) (sid, mid) = Some (partial_entry parts (insert i S) now)"
proof -
  let ?e = "partial_entry parts S t"
  note w = sendable_words [OF p i(1)]
  have fin: "finite S" and ins: "insert i S \<subseteq> {..<length parts}"
    using S i(1) finite_subset by auto
  have card: "Suc (card S) = card (insert i S)"
    using fin i(2) by simp
  have st: "(re_fragments ?e)[i := Some (parts ! i)] =
      re_fragments (partial_entry parts (insert i S) now)"
    using arg_cong [OF stored_partial [OF S i, of t now], of re_fragments]
    by (simp add: stored_entry_def)
  have bytes: "(\<Sum>j\<in>S. length (parts ! j)) + length (parts ! i) = (\<Sum>j\<in>insert i S. length (parts ! j))"
    using fin i(2) by simp
  note out = out [unfolded stored_outcome_def Let_def message_fragment_def header_new_def
      fragment_key_def UdpPacketHeader.simps DecryptedUdpFragment.simps partial_entry_sel w card bytes]
  show ?thesis
  proof (cases "insert i S = {..<length parts}")
    case True
    then show ?thesis
      using out st partial_complete [of parts] unfolding True length_concat_nth
      by (simp del: map_map)
  next
    case False
    then have "card (insert i S) < length parts"
      using psubset_card_mono [of "{..<length parts}" "insert i S"] ins by (simp add: psubset_eq)
    then show ?thesis
      using out False stored_partial [OF S i, of t now] by simp
  qed
qed

lemma push_partial:
  assumes inv: "reassembler_inv s" and p: "sendable parts" and i: "i < length parts" "i \<notin> S"
    and S: "S \<subseteq> {..<length parts}"
    and before: "if S = {} then map_of (ra_entries s) (sid, mid) = None
       else map_of (ra_entries s) (sid, mid) = Some (partial_entry parts S t) \<and>
            now - t < rc_timeout (ra_config s)"
    and room: "length (concat parts) \<le> rc_max_total_bytes (ra_config s)"
      "rc_max_total_bytes (ra_config s) + UDP_MAX_FRAGMENT_PLAINTEXT \<le> usize_max"
    and r: "push s (message_fragment sid mid sq parts i) now = (s', r)"
  shows "reassembler_inv s' \<and> ra_config s' = ra_config s \<and>
    (if insert i S = {..<length parts} then r = Inr (Some (concat parts))
     else r = Inr None \<and>
       map_of (ra_entries s') (sid, mid) = Some (partial_entry parts (insert i S) now))"
proof -
  let ?f = "message_fragment sid mid sq parts i" and ?c = "fst (cleanup_expired s now)"
  let ?e = "partial_entry parts S (if S = {} then now else t)"
  note w = sendable_words [OF p i(1)] and valid = message_fragment_valid [OF p i(1)]
  note v = valid_multi [OF valid, of sid mid sq] and c = reassembler_inv_cleanup [OF inv, of now]
  have f: "fragment_key (frag_header ?f) = (sid, mid)" "frag_payload ?f = parts ! i"
    "unat (hdr_fragment_index (frag_header ?f)) = i"
    "hdr_fragment_count (frag_header ?f) = word_of_nat (length parts)"
    "hdr_total_len (frag_header ?f) = word_of_nat (length (concat parts))"
    using w(2) by (simp_all add: message_fragment_def header_new_def fragment_key_def)
  have part: "length (parts ! i) \<le> UDP_MAX_FRAGMENT_PLAINTEXT"
    using p i(1) by (simp add: sendable_def)
  have fresh: "fresh_entry (frag_header ?f) now = partial_entry parts {} now"
    using f(4,5) w(1) by (simp add: fresh_entry_def partial_entry_def map_replicate_const
        del: length_concat)
  obtain s1 r1 where e1: "ensure_entry ?c ?f now = (s1, r1)"
    by fastforce
  have sum: "(\<Sum>j\<in>S. length (parts ! j)) + length (parts ! i) \<le> length (concat parts)"
    using part_sum_le [of "insert i S" parts] S i finite_subset [OF S] by simp
  have s1: "r1 = Inr ()" "reassembler_inv s1" "ra_config s1 = ra_config s"
    "map_of (ra_entries s1) (sid, mid) = Some ?e"
    using ensure_entry_spec [OF c(1) v(1) e1] before c(2) room(1) sum f fresh
    by (auto simp: c(3) keep_entry_def simp del: length_concat split: if_splits)
  have e: "map_of (ra_entries s1) (fragment_key (frag_header ?f)) = Some ?e"
    using s1(4) f(1) by simp
  have "check_entry s1 ?f = Inr (Inr ((\<Sum>j\<in>S. length (parts ! j)) + length (parts ! i)))"
    using check_entry_spec(1) [OF e reassembler_invD(8) [OF s1(2) e] v(2)] f i w sum room s1(3)
    by (simp add: partial_entry_def del: length_concat)
  with room_and_store_spec [OF s1(2) e v(2) this, of now s' r]
  have "reassembler_inv s' \<and> ra_config s' = ra_config s" "stored_outcome ?e ?f now s' r"
    using r [unfolded push_multi [OF valid] e1] s1 room(2) part f by auto
  then show ?thesis
    using outcome_partial [OF p i S] by blast
qed

lemma push_all_partial:
  assumes "sendable parts" and "reassembler_inv s" and "S \<subseteq> {..<length parts}"
    and "distinct idx" and "idx \<noteq> []" and "set idx = {..<length parts} - S"
    and "length ts = length idx"
    and "\<forall>j. Suc j < length ts \<longrightarrow> ts ! Suc j - ts ! j < rc_timeout (ra_config s)"
    and "if S = {} then map_of (ra_entries s) (sid, mid) = None
       else map_of (ra_entries s) (sid, mid) = Some (partial_entry parts S t) \<and>
            hd ts - t < rc_timeout (ra_config s)"
    and "length (concat parts) \<le> rc_max_total_bytes (ra_config s)"
      "rc_max_total_bytes (ra_config s) + UDP_MAX_FRAGMENT_PLAINTEXT \<le> usize_max"
  shows "snd (push_all s (zip (map (message_fragment sid mid sq parts) idx) ts)) =
    replicate (length idx - 1) (Inr None) @ [Inr (Some (concat parts))]"
  using assms(2-)
proof (induction idx arbitrary: s S t ts)
  case Nil
  then show ?case by simp
next
  case (Cons i idx)
  obtain now ts' where ts: "ts = now # ts'" "length ts' = length idx"
    using Cons.prems(6) by (cases ts) auto
  obtain s' r where r: "push s (message_fragment sid mid sq parts i) now = (s', r)"
    by fastforce
  have i: "i < length parts" "i \<notin> S" and rest: "set idx = {..<length parts} - insert i S"
    using Cons.prems(3,5) by auto
  have "if S = {} then map_of (ra_entries s) (sid, mid) = None
      else map_of (ra_entries s) (sid, mid) = Some (partial_entry parts S t) \<and>
        now - t < rc_timeout (ra_config s)"
    using Cons.prems(8) unfolding ts(1) by (simp only: list.sel)
  note step = push_partial [OF Cons.prems(1) assms(1) i Cons.prems(2) this Cons.prems(9,10) r]
  have last: "insert i S = {..<length parts} \<longleftrightarrow> idx = []"
    using rest i(1) Cons.prems(2) by (auto simp flip: set_empty)
  have gaps: "\<forall>j. Suc j < length ts' \<longrightarrow> ts' ! Suc j - ts' ! j < rc_timeout (ra_config s)"
    using Cons.prems(7) ts by auto
  have first: "idx \<noteq> [] \<Longrightarrow> hd ts' - now < rc_timeout (ra_config s)"
    using Cons.prems(7) [rule_format, of 0] ts by (cases ts') auto
  show ?case
  proof (cases "idx = []")
    case True
    then show ?thesis
      using step last ts r by simp
  next
    case False
    have s': "reassembler_inv s'" "ra_config s' = ra_config s" "r = Inr None"
      "map_of (ra_entries s') (sid, mid) = Some (partial_entry parts (insert i S) now)"
      using step last False by simp_all
    have S': "insert i S \<subseteq> {..<length parts}" "distinct idx"
      using Cons.prems(2,3) i(1) by auto
    have b: "if insert i S = {} then map_of (ra_entries s') (sid, mid) = None
      else map_of (ra_entries s') (sid, mid) = Some (partial_entry parts (insert i S) now) \<and>
        hd ts' - now < rc_timeout (ra_config s')"
      using s' first [OF False] by simp
    have "snd (push_all s' (zip (map (message_fragment sid mid sq parts) idx) ts')) =
        replicate (length idx - 1) (Inr None) @ [Inr (Some (concat parts))]"
      by (rule Cons.IH [OF s'(1) S' False rest ts(2) _ b])
        (use gaps Cons.prems(9,10) in \<open>simp_all only: s'(2)\<close>)
    then show ?thesis
      using False ts r s'(3) by (cases idx) (auto simp: case_prod_beta Let_def)
  qed
qed

section \<open>Properties\<close>

text \<open>
  C8. The accumulator of a session never outgrows its configuration: after any sequence of
  pushed fragments (valid, duplicate, conflicting or malformed) and expiry sweeps, at any
  times, the number of partial messages and the buffered bytes are within the configured
  limits, the running byte counter is the true sum (it never wraps), and a further push
  neither panics on an index, nor reports an inconsistent state, nor runs out of entries to
  evict.
\<close>

theorem reassembly_bounded:
  assumes "reassembler_new c = Inr s0" and "rc_max_total_bytes c \<le> usize_max"
    and "s = foldl reassembler_step s0 ops"
  shows "entry_count s \<le> rc_max_entries c \<and> buffered_bytes s \<le> rc_max_total_bytes c \<and>
    buffered_bytes s = alist_sum re_received_bytes (ra_entries s) \<and>
    (\<forall>f now x. snd (push s f now) = Inl x \<longrightarrow> \<not> internal_error x)"
proof -
  have cfg: "ra_config s0 = c"
    using assms(1) by (auto simp: reassembler_new_def from_valid_config_def split: if_splits)
  have inv: "reassembler_inv s" "ra_config s = c"
    using reassembler_inv_run [OF reassembler_inv_new [OF assms(1,2)], of ops] assms(3) cfg by auto
  have "\<not> internal_error x" if "snd (push s f now) = Inl x" for f now x
    using push_spec [OF inv(1), of f now] that by (metis prod.collapse)
  then show ?thesis
    using inv by (auto simp: reassembler_inv_def buffered_bytes_def)
qed

theorem reassembly_bounded_witness:
  "entry_count (foldl reassembler_step (from_valid_config reassembly_config_default)
     [Push \<lparr>frag_header = header_new Encrypted (replicate 16 0) 0 0 0 2 3, frag_payload = [1, 2]\<rparr> 5,
      Cleanup 9]) \<le> 64"
proof -
  have "reassembler_new reassembly_config_default = Inr (from_valid_config reassembly_config_default)"
    "rc_max_total_bytes reassembly_config_default \<le> usize_max"
    by (simp_all add: reassembler_new_def reassembly_config_default_def usize_max_def)
  from reassembly_bounded [OF this refl, of "[Push \<lparr>frag_header = header_new Encrypted
      (replicate 16 0) 0 0 0 2 3, frag_payload = [1, 2]\<rparr> 5, Cleanup 9]"]
  show ?thesis
    by (simp add: reassembly_config_default_def)
qed

text \<open>
  C14. Delivery in any order: whatever other messages are buffered, pushing the fragments of
  a message in any order, each less than the timeout after the one before, gives nothing
  until the last one and then exactly the message. The message must not be in progress
  already and must fit the byte limit; other messages are evicted as needed, never this one.
\<close>

theorem reassembly_any_order:
  assumes "reassembler_inv s" and "map_of (ra_entries s) (sid, mid) = None"
    and "sendable parts" and "length (concat parts) \<le> rc_max_total_bytes (ra_config s)"
    and "rc_max_total_bytes (ra_config s) + UDP_MAX_FRAGMENT_PLAINTEXT \<le> usize_max"
    and "distinct idx" and "set idx = {..<length parts}" and "length ts = length idx"
    and "\<forall>j. Suc j < length ts \<longrightarrow> ts ! Suc j - ts ! j < rc_timeout (ra_config s)"
  shows "snd (push_all s (zip (map (message_fragment sid mid sq parts) idx) ts)) =
    replicate (length idx - 1) (Inr None) @ [Inr (Some (concat parts))]"
proof -
  have "0 \<in> set idx"
    using assms(3,7) by (auto simp: sendable_def)
  then have "idx \<noteq> []"
    by auto
  then show ?thesis
    using assms by (intro push_all_partial [where S = "{}" and t = 0]) auto
qed

theorem reassembly_any_order_witness:
  "snd (push_all (from_valid_config reassembly_config_default)
     (zip (map (message_fragment (replicate 16 7) 3 (\<lambda>i. word_of_nat i) [[1, 2], [3]]) [1, 0])
       [20, 900])) = [Inr None, Inr (Some [1, 2, 3])]"
proof -
  have "reassembler_new reassembly_config_default = Inr (from_valid_config reassembly_config_default)"
    "rc_max_total_bytes reassembly_config_default \<le> usize_max"
    by (simp_all add: reassembler_new_def reassembly_config_default_def usize_max_def)
  then have inv: "reassembler_inv (from_valid_config reassembly_config_default)"
    by (rule reassembler_inv_new)
  show ?thesis
    using reassembly_any_order [OF inv, of "replicate 16 7" 3 "[[1, 2], [3]]" "[1, 0]" "[20, 900]"
        "\<lambda>i. word_of_nat i"]
    by (simp add: from_valid_config_def reassembly_config_default_def sendable_def udp_limits
        usize_max_def lessThan_Suc)
qed

end
