(* ===== verification/Messages.thy ===== *)
theory Messages
  imports Prelude
begin

text \<open>
  The values exchanged between agent and proxy (\<open>protocol/src/message\<close> and
  \<open>protocol/src/udp_transport/message.rs\<close>). A Rust \<open>String\<close> is the list of its UTF-8 bytes,
  as an Isabelle string. The serialiser (the \<open>bitcode\<close> crate) is a pair of functions passed
  to the definitions that use it.
\<close>

section \<open>Addresses and requests\<close>

datatype Address =
    Domain string u16
  | Ipv4 bytes u16
  | Ipv6 bytes u16
  | ProxyDns u16
  | UdpRelay

fun address_port :: "Address \<Rightarrow> u16" where
  "address_port (Domain host p) = p"
| "address_port (Ipv4 addr p) = p"
| "address_port (Ipv6 addr p) = p"
| "address_port (ProxyDns p) = p"
| "address_port UdpRelay = 0"

datatype TransportProtocol = Tcp | Udp

record AuthRequest =
  ar_username :: string
  ar_timestamp :: i64
  ar_encrypted_aes_key :: bytes

record AuthResponse =
  as_success :: bool
  as_message :: string
  as_session_id :: "string option"

record ConnectRequest =
  cr_request_id :: string
  cr_address :: Address
  cr_transport :: TransportProtocol

record ConnectResponse =
  cs_request_id :: string
  cs_success :: bool
  cs_message :: string

record DataPacket =
  dp_stream_id :: string
  dp_data :: bytes
  dp_is_end :: bool

datatype ProxyRequest =
    RequestAuth AuthRequest
  | RequestConnect ConnectRequest
  | RequestData DataPacket

datatype ProxyResponse =
    ResponseAuth AuthResponse
  | ResponseConnect ConnectResponse
  | ResponseData DataPacket
  | ResponseError string

record UdpRelayPacket =
  up_flow_id :: u64
  up_address :: Address
  up_data :: bytes

section \<open>Messages of a native UDP session\<close>

datatype UdpSessionMessage =
    OpenData u64 Address bytes
  | ConnectResponseMsg u64 bool "string option"
  | Data u64 bytes
  | Close u64 "string option"
  | Ping u64
  | Pong u64

section \<open>The envelope of the framed protocol\<close>

definition PROTOCOL_VERSION :: u8 where
  "PROTOCOL_VERSION = 1"

definition MAX_MESSAGE_SIZE :: nat where
  "MAX_MESSAGE_SIZE = 4 * 1024 * 1024"

definition MAX_YAMUX_CONTROL_FRAME_SIZE :: nat where
  "MAX_YAMUX_CONTROL_FRAME_SIZE = 64 * 1024"

datatype MessageType =
    MTAuthRequest | MTAuthResponse | MTConnectRequest | MTConnectResponse | MTData

record Message =
  msg_version :: u8
  msg_type :: MessageType
  msg_compression :: u8
  msg_payload :: bytes

definition message_new :: "MessageType \<Rightarrow> bytes \<Rightarrow> Message" where
  "message_new t p =
     \<lparr>msg_version = PROTOCOL_VERSION, msg_type = t, msg_compression = 0, msg_payload = p\<rparr>"

definition message_with_compression :: "MessageType \<Rightarrow> bytes \<Rightarrow> u8 \<Rightarrow> Message" where
  "message_with_compression t p c =
     \<lparr>msg_version = PROTOCOL_VERSION, msg_type = t, msg_compression = c, msg_payload = p\<rparr>"

section \<open>The serialiser\<close>

text \<open>
  \<open>bitcode::serialize\<close> and \<open>bitcode::deserialize\<close> at one type. What the protocol relies on is
  that a serialised value is read back; nothing is assumed of other inputs.
\<close>

record 'a bitcode =
  bc_serialize :: "'a \<Rightarrow> string + bytes"
  bc_deserialize :: "bytes \<Rightarrow> string + 'a"

definition bitcode_roundtrip :: "'a bitcode \<Rightarrow> bool" where
  "bitcode_roundtrip bc \<longleftrightarrow> (\<forall>x bs. bc_serialize bc x = Inr bs \<longrightarrow> bc_deserialize bc bs = Inr x)"

lemma bitcode_roundtripD:
  "bitcode_roundtrip bc \<Longrightarrow> bc_serialize bc x = Inr bs \<Longrightarrow> bc_deserialize bc bs = Inr x"
  by (simp add: bitcode_roundtrip_def)

end
