(* ===== verification/Udp_Crypto.thy ===== *)
theory Udp_Crypto
  imports Replay_Window Reassembly Messages
begin

text \<open>
  Directional authenticated encryption of a native UDP session and the session codec on top
  of it (\<open>protocol/src/udp_transport/crypto.rs\<close>): key derivation, sealing a message into
  datagrams, opening a datagram, and the message codec. The primitives of the \<open>sha2\<close>, \<open>hkdf\<close>
  and \<open>aes_gcm\<close> crates are a record of functions; what is relied on is that AES-GCM decrypts
  exactly what it encrypts, with the documented lengths.
\<close>

section \<open>Primitives\<close>

record crypto_suite =
  sha256 :: "bytes \<Rightarrow> bytes"
  hkdf_expand :: "bytes \<Rightarrow> bytes \<Rightarrow> bytes \<Rightarrow> nat \<Rightarrow> bytes option"
  gcm_encrypt :: "bytes \<Rightarrow> bytes \<Rightarrow> bytes \<Rightarrow> bytes \<Rightarrow> (bytes \<times> bytes) option"
  gcm_decrypt :: "bytes \<Rightarrow> bytes \<Rightarrow> bytes \<Rightarrow> bytes \<Rightarrow> bytes option"

text \<open>
  \<open>aead_ok\<close>: encryption keeps the length, appends a 16-byte tag and succeeds on plaintexts up
  to a datagram; decryption accepts exactly the encryptions under the same key, nonce and
  associated data, and returns the plaintext.
\<close>

definition aead_ok :: "crypto_suite \<Rightarrow> bool" where
  "aead_ok cs \<longleftrightarrow>
     (\<forall>k n a p ct tag. gcm_encrypt cs k n a p = Some (ct, tag) \<longrightarrow>
        length ct = length p \<and> length tag = UDP_AEAD_TAG_LEN) \<and>
     (\<forall>k n a p. length p \<le> UDP_MAX_DATAGRAM_SIZE \<longrightarrow> gcm_encrypt cs k n a p \<noteq> None) \<and>
     (\<forall>k n a c p. gcm_decrypt cs k n a c = Some p \<longleftrightarrow>
        (\<exists>ct tag. gcm_encrypt cs k n a p = Some (ct, tag) \<and> c = ct @ tag))"

section \<open>Key derivation\<close>

datatype UdpSessionRole = Agent | Proxy

definition KEY_LEN :: nat where
  "KEY_LEN = 32"

definition NONCE_PREFIX_LEN :: nat where
  "NONCE_PREFIX_LEN = 4"

record UdpDirectionalKeyMaterial =
  km_client_to_server_key :: bytes
  km_server_to_client_key :: bytes
  km_client_to_server_nonce_prefix :: bytes
  km_server_to_client_nonce_prefix :: bytes

definition str_bytes :: "string \<Rightarrow> bytes" where
  "str_bytes s = map of_char s"

definition expand_label ::
  "crypto_suite \<Rightarrow> bytes \<Rightarrow> bytes \<Rightarrow> string \<Rightarrow> nat \<Rightarrow> bytes udp_result" where
  "expand_label cs salt ikm label n = ok_or (hkdf_expand cs salt ikm (str_bytes label) n) KeyDerivation"

definition hkdf_salt :: "crypto_suite \<Rightarrow> UdpSessionId \<Rightarrow> bytes \<Rightarrow> bytes \<Rightarrow> bytes" where
  "hkdf_salt cs session_id client_nonce server_nonce =
     sha256 cs (str_bytes ''ppaass/native-udp/hkdf-salt/v1'' @ [0] @ session_id @
       client_nonce @ server_nonce)"

definition derive ::
  "crypto_suite \<Rightarrow> bytes \<Rightarrow> UdpSessionId \<Rightarrow> bytes \<Rightarrow> bytes \<Rightarrow> UdpDirectionalKeyMaterial udp_result" where
  "derive cs master_key session_id client_nonce server_nonce =
     (let salt = hkdf_salt cs session_id client_nonce server_nonce
      in and_then (expand_label cs salt master_key
           ''ppaass/native-udp/v1/client-to-server/key'' KEY_LEN) (\<lambda>ck.
         and_then (expand_label cs salt master_key
           ''ppaass/native-udp/v1/server-to-client/key'' KEY_LEN) (\<lambda>sk.
         and_then (expand_label cs salt master_key
           ''ppaass/native-udp/v1/client-to-server/nonce-prefix'' NONCE_PREFIX_LEN) (\<lambda>cp.
         and_then (expand_label cs salt master_key
           ''ppaass/native-udp/v1/server-to-client/nonce-prefix'' NONCE_PREFIX_LEN) (\<lambda>sp.
           if ck = sk \<or> cp = sp then Err KeyDerivation
           else Ok \<lparr>km_client_to_server_key = ck, km_server_to_client_key = sk,
                    km_client_to_server_nonce_prefix = cp,
                    km_server_to_client_nonce_prefix = sp\<rparr>)))))"

section \<open>Session state\<close>

record DirectionState =
  ds_key :: bytes
  ds_nonce_prefix :: bytes

record UdpSessionCrypto =
  sc_role :: UdpSessionRole
  sc_session_id :: UdpSessionId
  sc_send :: DirectionState
  sc_receive :: DirectionState
  sc_next_send_sequence :: u64
  sc_send_sequence_exhausted :: bool
  sc_replay :: ReplayWindow

definition from_key_material ::
  "UdpSessionRole \<Rightarrow> UdpSessionId \<Rightarrow> UdpDirectionalKeyMaterial \<Rightarrow> UdpSessionCrypto" where
  "from_key_material role session_id keys =
     (let client_to_server = \<lparr>ds_key = km_client_to_server_key keys,
            ds_nonce_prefix = km_client_to_server_nonce_prefix keys\<rparr>;
          server_to_client = \<lparr>ds_key = km_server_to_client_key keys,
            ds_nonce_prefix = km_server_to_client_nonce_prefix keys\<rparr>;
          (send, receive) = (case role of
              Agent \<Rightarrow> (client_to_server, server_to_client)
            | Proxy \<Rightarrow> (server_to_client, client_to_server))
      in \<lparr>sc_role = role, sc_session_id = session_id, sc_send = send, sc_receive = receive,
          sc_next_send_sequence = 0, sc_send_sequence_exhausted = False,
          sc_replay = replay_new\<rparr>)"

definition session_crypto_new ::
  "crypto_suite \<Rightarrow> UdpSessionRole \<Rightarrow> UdpSessionId \<Rightarrow> bytes \<Rightarrow> bytes \<Rightarrow> bytes \<Rightarrow>
   UdpSessionCrypto udp_result" where
  "session_crypto_new cs role session_id master_key client_nonce server_nonce =
     and_then (derive cs master_key session_id client_nonce server_nonce) (\<lambda>keys.
       Ok (from_key_material role session_id keys))"

definition make_nonce :: "bytes \<Rightarrow> u64 \<Rightarrow> bytes" where
  "make_nonce prefix sq = prefix @ u64_to_be sq"

section \<open>Sealing a message\<close>

definition div_ceil :: "nat \<Rightarrow> nat \<Rightarrow> nat" where
  "div_ceil n d = (if n mod d = 0 then n div d else n div d + 1)"

definition fragment_count_of :: "nat \<Rightarrow> nat" where
  "fragment_count_of n = max (div_ceil n UDP_MAX_FRAGMENT_PLAINTEXT) 1"

definition seal_fragment ::
  "crypto_suite \<Rightarrow> UdpSessionCrypto \<Rightarrow> u64 \<Rightarrow> bytes \<Rightarrow> nat \<Rightarrow> nat \<Rightarrow> bytes udp_result" where
  "seal_fragment cs s message_id plaintext fragment_count fragment_index =
     (let start = fragment_index * UDP_MAX_FRAGMENT_PLAINTEXT;
          end = min (start + UDP_MAX_FRAGMENT_PLAINTEXT) (length plaintext);
          sq = sc_next_send_sequence s + word_of_nat fragment_index;
          header = header_new Encrypted (sc_session_id s) sq message_id
            (word_of_nat fragment_index) (word_of_nat fragment_count)
            (word_of_nat (length plaintext))
      in and_then (ok_or (get_range plaintext start end) IndexPanic) (\<lambda>fragment.
         and_then (header_encode header) (\<lambda>aad.
           let nonce = make_nonce (ds_nonce_prefix (sc_send s)) sq;
               datagram_len = length aad + length fragment + UDP_AEAD_TAG_LEN
           in if datagram_len > UDP_MAX_DATAGRAM_SIZE then Err (DatagramTooLarge datagram_len)
              else and_then (ok_or (gcm_encrypt cs (ds_key (sc_send s)) nonce aad fragment)
                     EncryptionFailed)
                   (\<lambda>(ciphertext, tag). Ok (aad @ ciphertext @ tag)))))"

text \<open>A loop that pushes one value per element and stops at the first error.\<close>

fun try_map :: "('a \<Rightarrow> 'e + 'b) \<Rightarrow> 'a list \<Rightarrow> 'e + 'b list" where
  "try_map f [] = Inr []"
| "try_map f (x # xs) = and_then (f x) (\<lambda>y. and_then (try_map f xs) (\<lambda>ys. Inr (y # ys)))"

definition seal_message ::
  "crypto_suite \<Rightarrow> UdpSessionCrypto \<Rightarrow> u64 \<Rightarrow> bytes \<Rightarrow> UdpSessionCrypto \<times> bytes list udp_result" where
  "seal_message cs s message_id plaintext =
     (let fragment_count = fragment_count_of (length plaintext)
      in if length plaintext > UDP_MAX_MESSAGE_SIZE
           then (s, Err (MessageTooLarge (length plaintext)))
         else if fragment_count > UDP_MAX_FRAGMENTS
           then (s, Err (TooManyFragments fragment_count))
         else if sc_send_sequence_exhausted s then (s, Err SequenceExhausted)
         else case checked_add_u64 (sc_next_send_sequence s) (word_of_nat (fragment_count - 1)) of
           None \<Rightarrow> (s, Err SequenceExhausted)
         | Some last_sequence \<Rightarrow>
             (case try_map (seal_fragment cs s message_id plaintext fragment_count)
                     [0..<fragment_count] of
                Inl e \<Rightarrow> (s, Err e)
              | Inr datagrams \<Rightarrow>
                  (if last_sequence = - 1
                   then s\<lparr>sc_send_sequence_exhausted := True\<rparr>
                   else s\<lparr>sc_next_send_sequence := last_sequence + 1\<rparr>,
                   Ok datagrams)))"

section \<open>Opening a datagram\<close>

definition open_datagram ::
  "crypto_suite \<Rightarrow> UdpSessionCrypto \<Rightarrow> bytes \<Rightarrow> UdpSessionCrypto \<times> DecryptedUdpFragment udp_result" where
  "open_datagram cs s datagram =
     (if length datagram > UDP_MAX_DATAGRAM_SIZE
        then (s, Err (DatagramTooLarge (length datagram)))
      else if length datagram < UDP_TRANSPORT_HEADER_LEN + UDP_AEAD_TAG_LEN
        then (s, Err (DatagramTooShort (length datagram)))
      else case header_decode datagram of
        Inl e \<Rightarrow> (s, Err e)
      | Inr header \<Rightarrow>
          if hdr_kind header \<noteq> Encrypted
            then (s, Err (UnexpectedPacketKind (kind_to_u8 Encrypted) (kind_to_u8 (hdr_kind header))))
          else if hdr_session_id header \<noteq> sc_session_id s then (s, Err WrongSession)
          else if \<not> may_accept (sc_replay s) (hdr_seq header) then (s, Err ReplayRejected)
          else
            let aad = take UDP_TRANSPORT_HEADER_LEN datagram;
                ciphertext = drop UDP_TRANSPORT_HEADER_LEN datagram;
                nonce = make_nonce (ds_nonce_prefix (sc_receive s)) (hdr_seq header)
            in case gcm_decrypt cs (ds_key (sc_receive s)) nonce aad ciphertext of
                 None \<Rightarrow> (s, Err AuthenticationFailed)
               | Some plaintext \<Rightarrow>
                   if length plaintext > UDP_MAX_FRAGMENT_PLAINTEXT then
                     (s, Err (InvalidHeader ''decrypted fragment exceeds maximum plaintext size''))
                   else if hdr_total_len header \<noteq> 0 \<and> plaintext = [] then
                     (s, Err (InvalidHeader ''non-empty messages cannot contain empty fragments''))
                   else
                     let (w, committed) = replay_commit (sc_replay s) (hdr_seq header);
                         s' = s\<lparr>sc_replay := w\<rparr>
                     in if \<not> committed then (s', Err ReplayRejected)
                        else (s', Ok \<lparr>frag_header = header, frag_payload = plaintext\<rparr>))"

section \<open>The session codec\<close>

record UdpSessionCodec =
  co_crypto :: UdpSessionCrypto
  co_reassembler :: FragmentReassembler
  co_next_message_id :: u64
  co_message_id_exhausted :: bool

definition codec_with_reassembly_config ::
  "crypto_suite \<Rightarrow> UdpSessionRole \<Rightarrow> UdpSessionId \<Rightarrow> bytes \<Rightarrow> bytes \<Rightarrow> bytes \<Rightarrow> ReassemblyConfig \<Rightarrow>
   UdpSessionCodec udp_result" where
  "codec_with_reassembly_config cs role session_id master_key client_nonce server_nonce config =
     and_then (session_crypto_new cs role session_id master_key client_nonce server_nonce) (\<lambda>c.
     and_then (reassembler_new config) (\<lambda>r.
       Ok \<lparr>co_crypto = c, co_reassembler = r, co_next_message_id = 0,
           co_message_id_exhausted = False\<rparr>))"

definition codec_new ::
  "crypto_suite \<Rightarrow> UdpSessionRole \<Rightarrow> UdpSessionId \<Rightarrow> bytes \<Rightarrow> bytes \<Rightarrow> bytes \<Rightarrow>
   UdpSessionCodec udp_result" where
  "codec_new cs role session_id master_key client_nonce server_nonce =
     codec_with_reassembly_config cs role session_id master_key client_nonce server_nonce
       reassembly_config_default"

definition session_message_encode :: "UdpSessionMessage bitcode \<Rightarrow> UdpSessionMessage \<Rightarrow> bytes udp_result" where
  "session_message_encode bc m = map_err Serialization (bc_serialize bc m)"

definition session_message_decode :: "UdpSessionMessage bitcode \<Rightarrow> bytes \<Rightarrow> UdpSessionMessage udp_result" where
  "session_message_decode bc bs = map_err Serialization (bc_deserialize bc bs)"

definition encode_message ::
  "crypto_suite \<Rightarrow> UdpSessionMessage bitcode \<Rightarrow> UdpSessionCodec \<Rightarrow> UdpSessionMessage \<Rightarrow>
   UdpSessionCodec \<times> bytes list udp_result" where
  "encode_message cs bc s m =
     (if co_message_id_exhausted s then (s, Err MessageIdExhausted)
      else case session_message_encode bc m of
        Inl e \<Rightarrow> (s, Err e)
      | Inr plaintext \<Rightarrow>
          let message_id = co_next_message_id s;
              (crypto, r) = seal_message cs (co_crypto s) message_id plaintext;
              s1 = s\<lparr>co_crypto := crypto\<rparr>
          in case r of
               Inl e \<Rightarrow> (s1, Err e)
             | Inr datagrams \<Rightarrow>
                 (if message_id = - 1 then s1\<lparr>co_message_id_exhausted := True\<rparr>
                  else s1\<lparr>co_next_message_id := co_next_message_id s + 1\<rparr>,
                  Ok datagrams))"

definition decode_datagram_at ::
  "crypto_suite \<Rightarrow> UdpSessionMessage bitcode \<Rightarrow> UdpSessionCodec \<Rightarrow> bytes \<Rightarrow> nat \<Rightarrow>
   UdpSessionCodec \<times> UdpSessionMessage option udp_result" where
  "decode_datagram_at cs bc s datagram now =
     (let (crypto, r) = open_datagram cs (co_crypto s) datagram;
          s1 = s\<lparr>co_crypto := crypto\<rparr>
      in case r of
           Inl e \<Rightarrow> (s1, Err e)
         | Inr fragment \<Rightarrow>
             let (reassembler, r2) = push (co_reassembler s1) fragment now;
                 s2 = s1\<lparr>co_reassembler := reassembler\<rparr>
             in (s2, and_then r2 (\<lambda>complete. case complete of
                   None \<Rightarrow> Ok None
                 | Some m \<Rightarrow> and_then (session_message_decode bc m) (\<lambda>msg. Ok (Some msg)))))"

definition codec_cleanup_expired :: "UdpSessionCodec \<Rightarrow> nat \<Rightarrow> UdpSessionCodec \<times> nat" where
  "codec_cleanup_expired s now =
     (let (r, n) = cleanup_expired (co_reassembler s) now in (s\<lparr>co_reassembler := r\<rparr>, n))"

section \<open>Facts on the primitives\<close>

lemma aead_okD:
  assumes "aead_ok cs"
  shows "gcm_encrypt cs k n a p = Some (ct, tag) \<Longrightarrow> length ct = length p"
    "gcm_encrypt cs k n a p = Some (ct, tag) \<Longrightarrow> length tag = UDP_AEAD_TAG_LEN"
    "length p \<le> UDP_MAX_DATAGRAM_SIZE \<Longrightarrow> \<exists>ct tag. gcm_encrypt cs k n a p = Some (ct, tag)"
    "gcm_encrypt cs k n a p = Some (ct, tag) \<Longrightarrow> gcm_decrypt cs k n a (ct @ tag) = Some p"
    "gcm_decrypt cs k n a c = Some p \<Longrightarrow>
       \<exists>ct tag. gcm_encrypt cs k n a p = Some (ct, tag) \<and> c = ct @ tag"
proof -
  show "length ct = length p" "length tag = UDP_AEAD_TAG_LEN"
    if "gcm_encrypt cs k n a p = Some (ct, tag)"
    using assms that by (auto simp: aead_ok_def)
  show "\<exists>ct tag. gcm_encrypt cs k n a p = Some (ct, tag)" if "length p \<le> UDP_MAX_DATAGRAM_SIZE"
  proof -
    have "gcm_encrypt cs k n a p \<noteq> None"
      using assms that by (simp add: aead_ok_def)
    then show ?thesis by auto
  qed
  show "gcm_decrypt cs k n a (ct @ tag) = Some p" if "gcm_encrypt cs k n a p = Some (ct, tag)"
    using assms that by (auto simp: aead_ok_def)
  show "\<exists>ct tag. gcm_encrypt cs k n a p = Some (ct, tag) \<and> c = ct @ tag"
    if "gcm_decrypt cs k n a c = Some p"
    using assms that by (auto simp: aead_ok_def)
qed

lemma try_map_Inr:
  "try_map f xs = Inr ys \<longleftrightarrow> list_all2 (\<lambda>x y. f x = Inr y) xs ys"
  by (induction xs arbitrary: ys) (auto simp: list_all2_Cons1)

lemma make_nonce_inj: "make_nonce p a = make_nonce p b \<longleftrightarrow> a = b"
  unfolding make_nonce_def by (metis same_append_eq u_from_to_be(3))

section \<open>The parts of a message\<close>

definition message_part :: "bytes \<Rightarrow> nat \<Rightarrow> bytes" where
  "message_part p i = take UDP_MAX_FRAGMENT_PLAINTEXT (drop (i * UDP_MAX_FRAGMENT_PLAINTEXT) p)"

definition message_parts :: "bytes \<Rightarrow> bytes list" where
  "message_parts p = map (message_part p) [0..<fragment_count_of (length p)]"

lemma fragment_count_le:
  assumes "n \<le> UDP_MAX_MESSAGE_SIZE"
  shows "fragment_count_of n \<le> 56"
proof -
  have "n div 1289 \<le> 71680 div 1289"
    using assms by (intro div_le_mono) (simp add: udp_limits)
  moreover have "n div 1289 \<le> 54 \<or> n mod 1289 = 0 \<or> n div 1289 = 55"
    using calculation by auto
  ultimately show ?thesis
    by (auto simp: fragment_count_of_def div_ceil_def udp_limits)
qed

lemma fragment_count_pos: "0 < fragment_count_of n"
  by (simp add: fragment_count_of_def)

lemma fragment_start_le:
  assumes "i < fragment_count_of n"
  shows "i * UDP_MAX_FRAGMENT_PLAINTEXT \<le> n"
    and "0 < n \<Longrightarrow> i * UDP_MAX_FRAGMENT_PLAINTEXT < n"
proof -
  let ?m = "UDP_MAX_FRAGMENT_PLAINTEXT"
  have lt: "i * ?m < n" if "0 < n"
  proof (cases "n mod ?m = 0")
    case True
    then have "i < n div ?m" "n div ?m * ?m = n"
      using assms that by (auto simp: fragment_count_of_def div_ceil_def max_def split: if_splits)
    then show ?thesis
      using mult_less_mono1 [of i "n div ?m" ?m] by (simp add: udp_limits)
  next
    case False
    then have "i \<le> n div ?m"
      using assms by (auto simp: fragment_count_of_def div_ceil_def)
    then have "i * ?m \<le> n div ?m * ?m"
      by (rule mult_le_mono1)
    then show ?thesis
      using False div_mult_mod_eq [of n ?m] by linarith
  qed
  then show "0 < n \<Longrightarrow> i * ?m < n" .
  show "i * ?m \<le> n"
    using lt assms by (cases "n = 0") (auto simp: fragment_count_of_def div_ceil_def)
qed

lemma fragment_count_covers: "n \<le> fragment_count_of n * UDP_MAX_FRAGMENT_PLAINTEXT"
proof -
  let ?m = "UDP_MAX_FRAGMENT_PLAINTEXT"
  have "n \<le> div_ceil n ?m * ?m"
  proof (cases "n mod ?m = 0")
    case True
    then show ?thesis
      by (auto simp: div_ceil_def)
  next
    case False
    have "n mod ?m \<le> ?m" "n div ?m * ?m + n mod ?m = n"
      by (simp_all add: udp_limits)
    then have "n \<le> ?m + n div ?m * ?m"
      by linarith
    then show ?thesis
      using False by (simp add: div_ceil_def)
  qed
  also have "\<dots> \<le> fragment_count_of n * ?m"
    by (simp add: fragment_count_of_def)
  finally show ?thesis .
qed

lemma concat_chunks:
  "concat (map (\<lambda>i. take m (drop (i * m) p)) [0..<k]) = take (k * m) p"
  by (induction k) (auto simp: take_add [symmetric] add.commute)

lemma message_parts_concat: "concat (message_parts p) = p"
  using concat_chunks [of UDP_MAX_FRAGMENT_PLAINTEXT p "fragment_count_of (length p)"]
    fragment_count_covers [of "length p"]
  by (simp add: message_parts_def message_part_def [abs_def])

lemma message_parts_nth:
  "i < fragment_count_of (length p) \<Longrightarrow> message_parts p ! i = message_part p i"
  by (simp add: message_parts_def)

lemma length_message_parts [simp]: "length (message_parts p) = fragment_count_of (length p)"
  by (simp add: message_parts_def)

lemma message_part_nonempty:
  assumes "i < fragment_count_of (length p)" and "p \<noteq> []"
  shows "message_part p i \<noteq> []"
  using fragment_start_le(2) [OF assms(1)] assms(2) by (simp add: message_part_def udp_limits)

lemma message_parts_sendable:
  assumes "length p \<le> UDP_MAX_MESSAGE_SIZE" and "fragment_count_of (length p) \<noteq> 1"
  shows "sendable (message_parts p)"
proof -
  have "p \<noteq> []"
    using assms(2) by (auto simp: fragment_count_of_def div_ceil_def)
  then have "\<forall>q\<in>set (message_parts p). q \<noteq> [] \<and> length q \<le> UDP_MAX_FRAGMENT_PLAINTEXT"
    using message_part_nonempty by (auto simp: message_parts_def message_part_def)
  then show ?thesis
    using assms fragment_count_le [OF assms(1)] fragment_count_pos [of "length p"]
    by (simp add: sendable_def message_parts_concat UDP_MAX_FRAGMENTS_def del: length_concat)
qed

section \<open>Sealing\<close>

definition seal_header :: "UdpSessionCrypto \<Rightarrow> u64 \<Rightarrow> bytes \<Rightarrow> nat \<Rightarrow> UdpPacketHeader" where
  "seal_header s mid p i =
     header_new Encrypted (sc_session_id s) (sc_next_send_sequence s + word_of_nat i) mid
       (word_of_nat i) (word_of_nat (fragment_count_of (length p))) (word_of_nat (length p))"

text \<open>The sender's position as a number that never wraps: one past the last sequence sent.\<close>

definition send_pos :: "UdpSessionCrypto \<Rightarrow> nat" where
  "send_pos s = (if sc_send_sequence_exhausted s then 2 ^ 64 else unat (sc_next_send_sequence s))"

definition datagram_sequence :: "bytes \<Rightarrow> u64" where
  "datagram_sequence d = u64_from_be (take 8 (drop 22 d))"

definition sealed :: "crypto_suite \<Rightarrow> UdpSessionCrypto \<Rightarrow> UdpPacketHeader \<Rightarrow> bytes \<Rightarrow> bytes \<Rightarrow> bool" where
  "sealed cs s h p d \<longleftrightarrow>
     (\<exists>aad ct tag. header_encode h = Inr aad \<and> d = aad @ ct @ tag \<and>
        gcm_encrypt cs (ds_key (sc_send s)) (make_nonce (ds_nonce_prefix (sc_send s)) (hdr_seq h))
          aad p = Some (ct, tag))"

lemma seal_words:
  assumes "length p \<le> UDP_MAX_MESSAGE_SIZE" and "i < fragment_count_of (length p)"
  shows "unat (word_of_nat i :: u16) = i"
    "unat (word_of_nat (fragment_count_of (length p)) :: u16) = fragment_count_of (length p)"
    "unat (word_of_nat (length p) :: u32) = length p"
  using assms fragment_count_le [OF assms(1)]
  by (simp_all add: unat_of_nat udp_limits)

lemma seal_header_valid:
  assumes "length p \<le> UDP_MAX_MESSAGE_SIZE" and "i < fragment_count_of (length p)"
  shows "header_valid (seal_header s mid p i)"
proof -
  have "0 < length p \<Longrightarrow> fragment_count_of (length p) \<le> length p"
    by (auto simp: fragment_count_of_def div_ceil_def udp_limits Suc_le_eq div_less_dividend
        dest: dvd_imp_le)
  moreover have "length p = 0 \<Longrightarrow> fragment_count_of (length p) = 1"
    by (simp add: fragment_count_of_def div_ceil_def)
  ultimately show ?thesis
    using assms seal_words [OF assms] fragment_count_le [OF assms(1)] fragment_count_pos [of "length p"]
      fragment_count_covers [of "length p"]
    by (auto simp: header_valid_iff seal_header_def header_new_def max_total_len_for_def
        UDP_MAX_FRAGMENTS_def)
qed

lemma seal_fragment_Ok:
  assumes cs: "aead_ok cs" and sid: "length (sc_session_id s) = 16"
    and p: "length p \<le> UDP_MAX_MESSAGE_SIZE" and i: "i < fragment_count_of (length p)"
  shows "\<exists>d. seal_fragment cs s mid p (fragment_count_of (length p)) i = Inr d \<and>
    sealed cs s (seal_header s mid p i) (message_part p i) d \<and> length d \<le> UDP_MAX_DATAGRAM_SIZE"
proof -
  let ?h = "seal_header s mid p i" and ?m = UDP_MAX_FRAGMENT_PLAINTEXT
  let ?n = "make_nonce (ds_nonce_prefix (sc_send s)) (hdr_seq ?h)"
  have shape: "header_shape ?h"
    using sid by (simp add: header_shape_def seal_header_def header_new_def udp_limits)
  obtain aad where aad: "header_encode ?h = Inr aad" "length aad = UDP_TRANSPORT_HEADER_LEN"
    using header_encode_valid [OF seal_header_valid [OF p i], of s mid]
      header_encode_length shape by fastforce
  have part: "get_range p (i * ?m) (min (i * ?m + ?m) (length p)) = Some (message_part p i)"
    using fragment_start_le(1) [OF i]
    by (auto simp: get_range_Some message_part_def min_def)
  have len: "length (message_part p i) \<le> ?m"
    by (simp add: message_part_def)
  obtain ct tag where enc: "gcm_encrypt cs (ds_key (sc_send s)) ?n aad (message_part p i) = Some (ct, tag)"
    using aead_okD(3) [OF cs] len by (fastforce simp: udp_limits)
  have "seal_fragment cs s mid p (fragment_count_of (length p)) i = Inr (aad @ ct @ tag)"
    using part aad enc len
    by (simp add: seal_fragment_def Let_def seal_header_def header_new_def udp_limits)
  moreover have "sealed cs s ?h (message_part p i) (aad @ ct @ tag)"
    using aad(1) enc by (auto simp: sealed_def)
  moreover have "length (aad @ ct @ tag) \<le> UDP_MAX_DATAGRAM_SIZE"
    using aead_okD(1,2) [OF cs enc] aad(2) len by (simp add: udp_limits)
  ultimately show ?thesis by blast
qed

lemma checked_add_u64_fits:
  assumes "n < 2 ^ 64"
  shows "checked_add_u64 a (word_of_nat n) =
    (if unat a + n < 2 ^ 64 then Some (a + word_of_nat n) else None)"
  using assms by (simp add: checked_add_u64_def unat_of_nat)

lemma unat_add_small:
  "unat (a :: u64) + n < 2 ^ 64 \<Longrightarrow> unat (a + word_of_nat n) = unat a + n"
  by (simp add: unat_word_ariths unat_of_nat mod_simps)

lemma unat_u64_max: "unat (w :: u64) = 2 ^ 64 - 1 \<longleftrightarrow> w = - 1"
proof -
  have m: "unat (- 1 :: u64) = 2 ^ 64 - 1"
    by (simp add: unsigned_minus_1_eq_mask mask_eq_exp_minus_1)
  show ?thesis
    unfolding m [symmetric] by (rule word_unat_eq_iff [symmetric])
qed

lemma send_pos_advance:
  assumes "\<not> sc_send_sequence_exhausted s" and "0 < c" and "unat (sc_next_send_sequence s) + c \<le> 2 ^ 64"
  shows "send_pos (if sc_next_send_sequence s + word_of_nat (c - 1) = - 1
      then s\<lparr>sc_send_sequence_exhausted := True\<rparr>
      else s\<lparr>sc_next_send_sequence := sc_next_send_sequence s + word_of_nat (c - 1) + 1\<rparr>) =
    send_pos s + c"
proof -
  let ?w = "sc_next_send_sequence s + word_of_nat (c - 1)"
  have w: "unat ?w = unat (sc_next_send_sequence s) + (c - 1)"
    using assms(2,3) by (intro unat_add_small) simp
  show ?thesis
  proof (cases "?w = - 1")
    case True
    then have "unat (sc_next_send_sequence s) + (c - 1) = 2 ^ 64 - 1"
      using w unat_u64_max [of ?w] by metis
    then show ?thesis
      using True assms by (simp add: send_pos_def)
  next
    case False
    then have "unat ?w \<noteq> 2 ^ 64 - 1"
      using unat_u64_max [of ?w] by simp
    then show ?thesis
      using False assms w unat_add_small [of ?w 1] by (simp add: send_pos_def)
  qed
qed

definition same_keys :: "UdpSessionCrypto \<Rightarrow> UdpSessionCrypto \<Rightarrow> bool" where
  "same_keys s t \<longleftrightarrow> sc_role s = sc_role t \<and> sc_session_id s = sc_session_id t \<and>
     sc_send s = sc_send t \<and> sc_receive s = sc_receive t"

lemma seal_message_Ok:
  assumes cs: "aead_ok cs" and sid: "length (sc_session_id s) = 16"
    and len: "length p \<le> UDP_MAX_MESSAGE_SIZE" and c: "c = fragment_count_of (length p)"
    and fits: "send_pos s + c \<le> 2 ^ 64"
  shows "\<exists>s' ds. seal_message cs s mid p = (s', Inr ds) \<and> same_keys s' s \<and>
    sc_replay s' = sc_replay s \<and> send_pos s' = send_pos s + c \<and> length ds = c \<and>
    (\<forall>i<c. sealed cs s (seal_header s mid p i) (message_part p i) (ds ! i) \<and>
       length (ds ! i) \<le> UDP_MAX_DATAGRAM_SIZE)"
proof -
  have bound: "0 < c" "c \<le> 56"
    using fragment_count_le [OF len] fragment_count_pos c by auto
  have ex: "\<not> sc_send_sequence_exhausted s"
    using fits bound by (auto simp: send_pos_def)
  then have fits': "unat (sc_next_send_sequence s) + c \<le> 2 ^ 64"
    using fits by (simp add: send_pos_def)
  note frag = seal_fragment_Ok [OF cs sid len, folded c, of _ mid]
  then have "\<forall>i<c. \<exists>d. seal_fragment cs s mid p c i = Inr d"
    by blast
  then obtain g where g: "\<And>i. i < c \<Longrightarrow> seal_fragment cs s mid p c i = Inr (g i)"
    by metis
  then have ds: "try_map (seal_fragment cs s mid p c) [0..<c] = Inr (map g [0..<c])"
    by (simp add: try_map_Inr list_all2_conv_all_nth)
  let ?s = "if sc_next_send_sequence s + word_of_nat (c - 1) = - 1
    then s\<lparr>sc_send_sequence_exhausted := True\<rparr>
    else s\<lparr>sc_next_send_sequence := sc_next_send_sequence s + word_of_nat (c - 1) + 1\<rparr>"
  have "seal_message cs s mid p = (?s, Inr (map g [0..<c]))"
    using len bound ex fits' ds checked_add_u64_fits [of "c - 1" "sc_next_send_sequence s"] c
    by (simp add: seal_message_def Let_def UDP_MAX_FRAGMENTS_def)
  moreover have "same_keys ?s s" "sc_replay ?s = sc_replay s"
    by (simp_all add: same_keys_def)
  moreover have "sealed cs s (seal_header s mid p i) (message_part p i) (map g [0..<c] ! i) \<and>
       length (map g [0..<c] ! i) \<le> UDP_MAX_DATAGRAM_SIZE" if "i < c" for i
    using frag [OF that] g [OF that] that by auto
  ultimately show ?thesis
    using send_pos_advance [OF ex bound(1) fits'] by (metis length_map length_upt diff_zero)
qed

text \<open>The whole behaviour of \<open>seal_message\<close>, in terms of the position.\<close>

lemma seal_message_cases:
  assumes cs: "aead_ok cs" and sid: "length (sc_session_id s) = 16"
  obtains (large) "UDP_MAX_MESSAGE_SIZE < length p"
      "seal_message cs s mid p = (s, Inl (MessageTooLarge (length p)))"
  | (exhausted) "length p \<le> UDP_MAX_MESSAGE_SIZE"
      "2 ^ 64 < send_pos s + fragment_count_of (length p)"
      "seal_message cs s mid p = (s, Inl SequenceExhausted)"
  | (ok) s' ds where "length p \<le> UDP_MAX_MESSAGE_SIZE"
      "send_pos s + fragment_count_of (length p) \<le> 2 ^ 64"
      "seal_message cs s mid p = (s', Inr ds)" "same_keys s' s" "sc_replay s' = sc_replay s"
      "send_pos s' = send_pos s + fragment_count_of (length p)"
      "length ds = fragment_count_of (length p)"
      "\<forall>i<fragment_count_of (length p).
         sealed cs s (seal_header s mid p i) (message_part p i) (ds ! i) \<and>
         length (ds ! i) \<le> UDP_MAX_DATAGRAM_SIZE"
proof -
  let ?c = "fragment_count_of (length p)"
  consider "UDP_MAX_MESSAGE_SIZE < length p"
    | "length p \<le> UDP_MAX_MESSAGE_SIZE" "2 ^ 64 < send_pos s + ?c"
    | "length p \<le> UDP_MAX_MESSAGE_SIZE" "send_pos s + ?c \<le> 2 ^ 64"
    by linarith
  then show ?thesis
  proof cases
    case 1
    then show ?thesis
      using large by (simp add: seal_message_def)
  next
    case 2
    have c: "0 < ?c" "?c \<le> 56"
      using fragment_count_le [OF 2(1)] fragment_count_pos by auto
    have "seal_message cs s mid p = (s, Inl SequenceExhausted)"
      using 2 c checked_add_u64_fits [of "?c - 1" "sc_next_send_sequence s"]
      by (auto simp: seal_message_def Let_def UDP_MAX_FRAGMENTS_def send_pos_def)
    then show ?thesis
      using exhausted 2 by blast
  next
    case 3
    then show ?thesis
      using ok seal_message_Ok [OF cs sid 3(1) refl 3(2), of mid] by metis
  qed
qed

fun seal_run :: "crypto_suite \<Rightarrow> UdpSessionCrypto \<Rightarrow> (u64 \<times> bytes) list \<Rightarrow> UdpSessionCrypto \<times> bytes list" where
  "seal_run cs s [] = (s, [])"
| "seal_run cs s ((mid, p) # ops) =
     (let (s1, r) = seal_message cs s mid p; (s2, ds) = seal_run cs s1 ops
      in (s2, (case r of Inl _ \<Rightarrow> [] | Inr d \<Rightarrow> d) @ ds))"

lemma sealed_sequence:
  assumes "sealed cs s h p d" and "header_shape h"
  shows "datagram_sequence d = hdr_seq h" and "header_decode d = Inr h"
proof -
  obtain aad ct tag where d: "header_encode h = Inr aad" "d = aad @ ct @ tag"
    using assms(1) by (auto simp: sealed_def)
  have v: "header_valid h"
    using header_encode_Ok_iff d(1) by blast
  show "datagram_sequence d = hdr_seq h"
    using d header_encode_valid [OF v] assms(2)
    by (auto simp: datagram_sequence_def header_shape_def numeral_eq_Suc)
  show "header_decode d = Inr h"
    using header.dec_enc [OF d(1) assms(2)] d(2) by simp
qed

lemma sealed_same_keys: "same_keys s t \<Longrightarrow> sealed cs s h p d = sealed cs t h p d"
  by (simp add: sealed_def same_keys_def)

lemma same_keys_trans: "same_keys s t \<Longrightarrow> same_keys t u \<Longrightarrow> same_keys s u"
  by (simp add: same_keys_def)

lemma seal_header_shape:
  "length (sc_session_id s) = 16 \<Longrightarrow> header_shape (seal_header s mid p i)"
  by (simp add: header_shape_def seal_header_def header_new_def udp_limits)

lemma send_pos_le: "send_pos s \<le> 2 ^ 64"
  using unat_width_less(3) [of "sc_next_send_sequence s"] by (simp add: send_pos_def)

lemma seal_header_seq:
  assumes "send_pos s + c \<le> 2 ^ 64" and "i < c"
  shows "unat (hdr_seq (seal_header s mid p i)) = send_pos s + i"
proof -
  have "\<not> sc_send_sequence_exhausted s"
    using assms by (auto simp: send_pos_def)
  then show ?thesis
    using assms unat_add_small [of "sc_next_send_sequence s" i]
    by (simp add: send_pos_def seal_header_def header_new_def)
qed

lemma seal_run_spec:
  assumes cs: "aead_ok cs" and "length (sc_session_id s) = 16"
    and "seal_run cs s ops = (s', ds)"
  shows "same_keys s' s \<and> send_pos s' = send_pos s + length ds \<and>
    map (\<lambda>d. unat (datagram_sequence d)) ds = [send_pos s..<send_pos s'] \<and>
    (\<forall>d\<in>set ds. \<exists>h p. header_shape h \<and> sealed cs s h p d \<and> hdr_seq h = datagram_sequence d)"
  using assms(2,3)
proof (induction ops arbitrary: s s' ds)
  case Nil
  then show ?case by (simp add: same_keys_def)
next
  case (Cons op ops)
  obtain mid p where op: "op = (mid, p)"
    by fastforce
  note sid = Cons.prems(1)
  show ?case
    using cs sid
  proof (cases rule: seal_message_cases [of _ _ p mid])
    case large
    then show ?thesis
      using Cons op by (auto split: prod.splits)
  next
    case exhausted
    then show ?thesis
      using Cons op by (auto split: prod.splits)
  next
    case (ok s1 ds1)
    let ?c = "fragment_count_of (length p)"
    obtain s2 ds2 where r: "seal_run cs s1 ops = (s2, ds2)"
      by fastforce
    have eq: "s' = s2" "ds = ds1 @ ds2"
      using Cons.prems(2) op ok(3) r by auto
    have "length (sc_session_id s1) = 16"
      using ok(4) sid by (simp add: same_keys_def)
    note IH = Cons.IH [OF this r]
    have seqs: "datagram_sequence (ds1 ! i) = hdr_seq (seal_header s mid p i)" if "i < ?c" for i
      using ok(8) that sealed_sequence(1) seal_header_shape [OF sid] by blast
    have "map (\<lambda>d. unat (datagram_sequence d)) ds1 = [send_pos s..<send_pos s1]"
      by (rule nth_equalityI) (use ok seqs seal_header_seq in auto)
    moreover have "\<forall>d\<in>set ds1. \<exists>h p. header_shape h \<and> sealed cs s h p d \<and> hdr_seq h = datagram_sequence d"
      using ok(7,8) seqs seal_header_shape [OF sid] by (metis in_set_conv_nth)
    moreover have "\<forall>d\<in>set ds2. \<exists>h p. header_shape h \<and> sealed cs s h p d \<and> hdr_seq h = datagram_sequence d"
      using IH sealed_same_keys [OF ok(4)] by metis
    ultimately show ?thesis
      using IH eq ok(4,6,7) same_keys_trans upt_add_eq_append [of "send_pos s" "send_pos s1" "length ds2"]
      by (auto simp: add.assoc)
  qed
qed

section \<open>Opening\<close>

lemma replay_commit_snd: "snd (replay_commit w q) \<longleftrightarrow> may_accept w q"
  by (auto simp: replay_commit_def split: option.splits)

definition accepts :: "crypto_suite \<Rightarrow> UdpSessionCrypto \<Rightarrow> bytes \<Rightarrow> DecryptedUdpFragment \<Rightarrow> bool" where
  "accepts cs s d f \<longleftrightarrow>
     (let h = frag_header f in
       UDP_TRANSPORT_HEADER_LEN + UDP_AEAD_TAG_LEN \<le> length d \<and> length d \<le> UDP_MAX_DATAGRAM_SIZE \<and>
       header_decode d = Inr h \<and> hdr_kind h = Encrypted \<and> hdr_session_id h = sc_session_id s \<and>
       may_accept (sc_replay s) (hdr_seq h) \<and>
       gcm_decrypt cs (ds_key (sc_receive s))
         (make_nonce (ds_nonce_prefix (sc_receive s)) (hdr_seq h))
         (take UDP_TRANSPORT_HEADER_LEN d) (drop UDP_TRANSPORT_HEADER_LEN d) = Some (frag_payload f) \<and>
       length (frag_payload f) \<le> UDP_MAX_FRAGMENT_PLAINTEXT \<and>
       (hdr_total_len h = 0 \<or> frag_payload f \<noteq> []))"

lemma open_datagram_accepts:
  assumes "accepts cs s d f"
  shows "open_datagram cs s d =
    (s\<lparr>sc_replay := fst (replay_commit (sc_replay s) (hdr_seq (frag_header f)))\<rparr>, Inr f)"
  using assms replay_commit_snd [of "sc_replay s" "hdr_seq (frag_header f)"]
  by (auto simp: accepts_def open_datagram_def Let_def split: prod.splits)

lemma open_datagram_Ok:
  assumes "open_datagram cs s d = (s', Inr f)"
  shows "accepts cs s d f"
  using assms
  by (auto simp: accepts_def open_datagram_def Let_def not_less
      split: if_splits sum.splits option.splits prod.splits)

lemma open_datagram_Err:
  assumes "open_datagram cs s d = (s', Inl e)"
  shows "s' = s"
proof -
  have "\<not> (replay_commit w q = (w', False) \<and> may_accept w q)" for w q w'
    using replay_commit_snd [of w q] by auto
  then show ?thesis
    using assms
    by (auto simp: open_datagram_def Let_def split: if_splits sum.splits option.splits prod.splits)
qed

lemma open_datagram_keys:
  "same_keys (fst (open_datagram cs s d)) s"
proof -
  obtain s' r where o: "open_datagram cs s d = (s', r)"
    by fastforce
  show ?thesis
  proof (cases r)
    case (Inl e)
    then show ?thesis
      using open_datagram_Err [of cs s d s' e] o by (simp add: same_keys_def)
  next
    case (Inr f)
    then show ?thesis
      using open_datagram_accepts [OF open_datagram_Ok, of cs s d s' f] o
      by (simp add: same_keys_def)
  qed
qed

fun open_run :: "crypto_suite \<Rightarrow> UdpSessionCrypto \<Rightarrow> bytes list \<Rightarrow>
    UdpSessionCrypto \<times> DecryptedUdpFragment udp_result list" where
  "open_run cs s [] = (s, [])"
| "open_run cs s (d # ds) =
     (let (s1, r) = open_datagram cs s d; (s2, rs) = open_run cs s1 ds in (s2, r # rs))"

definition opened :: "'a udp_result list \<Rightarrow> 'a list" where
  "opened rs = map projr (filter is_ok rs)"

lemma opened_simps [simp]:
  "opened [] = []" "opened (Inl e # rs) = opened rs" "opened (Inr x # rs) = x # opened rs"
  by (simp_all add: opened_def)

lemma open_run_once:
  assumes "window_rel (sc_replay s) A" and "open_run cs s ds = (s', rs)"
  shows "distinct (map (\<lambda>f. hdr_seq (frag_header f)) (opened rs)) \<and>
    (\<forall>f\<in>set (opened rs). unat (hdr_seq (frag_header f)) \<notin> A) \<and>
    window_rel (sc_replay s') (A \<union> (\<lambda>f. unat (hdr_seq (frag_header f))) ` set (opened rs))"
  using assms
proof (induction ds arbitrary: s A rs)
  case Nil
  then show ?case by simp
next
  case (Cons d ds)
  obtain s1 r where o: "open_datagram cs s d = (s1, r)"
    by fastforce
  obtain s2 rs' where o': "open_run cs s1 ds = (s2, rs')"
    by fastforce
  have eq: "s' = s2" "rs = r # rs'"
    using Cons.prems(2) o o' by auto
  show ?case
  proof (cases r)
    case (Inl e)
    then have "s1 = s"
      using open_datagram_Err o by blast
    then show ?thesis
      using Cons.IH [of s A] Cons.prems(1) o' eq Inl by simp
  next
    case (Inr f)
    let ?q = "hdr_seq (frag_header f)"
    have acc: "accepts cs s d f"
      using open_datagram_Ok o Inr by blast
    then have may: "may_accept (sc_replay s) ?q"
      by (simp add: accepts_def Let_def)
    have rel: "window_rel (sc_replay s1) (insert (unat ?q) A)"
      using replay.commit_may [OF Cons.prems(1) may] open_datagram_accepts [OF acc] o by simp
    have new: "unat ?q \<notin> A"
      using may replay.may_iff [OF Cons.prems(1)] by blast
    show ?thesis
      using Cons.IH [OF rel o' [folded eq(1)]] new eq(2) Inr by (auto simp: word_unat_eq_iff)
  qed
qed

section \<open>Two peers\<close>

definition peers :: "UdpSessionCrypto \<Rightarrow> UdpSessionCrypto \<Rightarrow> bool" where
  "peers a b \<longleftrightarrow> sc_send a = sc_receive b \<and> sc_session_id a = sc_session_id b"

lemma from_key_material_peers:
  "peers (from_key_material Agent sid k) (from_key_material Proxy sid k)"
  "peers (from_key_material Proxy sid k) (from_key_material Agent sid k)"
  by (simp_all add: peers_def from_key_material_def Let_def)

definition sealed_fragment :: "UdpSessionCrypto \<Rightarrow> u64 \<Rightarrow> bytes \<Rightarrow> nat \<Rightarrow> DecryptedUdpFragment" where
  "sealed_fragment s mid p i =
     \<lparr>frag_header = seal_header s mid p i, frag_payload = message_part p i\<rparr>"

lemma sealed_accepts:
  assumes cs: "aead_ok cs" and peers: "peers a b" and sid: "length (sc_session_id a) = 16"
    and p: "length p \<le> UDP_MAX_MESSAGE_SIZE" and i: "i < fragment_count_of (length p)"
    and d: "sealed cs a (seal_header a mid p i) (message_part p i) d"
    and may: "may_accept (sc_replay b) (hdr_seq (seal_header a mid p i))"
  shows "accepts cs b d (sealed_fragment a mid p i)"
proof -
  let ?h = "seal_header a mid p i"
  let ?n = "make_nonce (ds_nonce_prefix (sc_send a)) (hdr_seq ?h)"
  note shape = seal_header_shape [OF sid, of mid p i]
  obtain aad ct tag where aad: "header_encode ?h = Inr aad" "d = aad @ ct @ tag"
    and enc: "gcm_encrypt cs (ds_key (sc_send a)) ?n aad (message_part p i) = Some (ct, tag)"
    using d by (auto simp: sealed_def)
  have len: "length aad = UDP_TRANSPORT_HEADER_LEN"
    using header_encode_length [OF aad(1) shape] .
  then have split: "take UDP_TRANSPORT_HEADER_LEN d = aad" "drop UDP_TRANSPORT_HEADER_LEN d = ct @ tag"
    using aad(2) by simp_all
  have part: "length (message_part p i) \<le> UDP_MAX_FRAGMENT_PLAINTEXT"
    by (simp add: message_part_def)
  have "(word_of_nat (length p) :: u32) = 0 \<or> message_part p i \<noteq> []"
    using message_part_nonempty [OF i] by (cases "p = []") auto
  then show ?thesis
    using aad(2) len part aead_okD(1,2) [OF cs enc] aead_okD(4) [OF cs enc] split
      sealed_sequence(2) [OF d shape] peers may
    by (simp add: accepts_def sealed_fragment_def peers_def)
      (simp add: seal_header_def header_new_def udp_limits)
qed

section \<open>A message from one peer to the other\<close>

fun decode_all :: "crypto_suite \<Rightarrow> UdpSessionMessage bitcode \<Rightarrow> UdpSessionCodec \<Rightarrow> (bytes \<times> nat) list \<Rightarrow>
    UdpSessionCodec \<times> UdpSessionMessage option udp_result list" where
  "decode_all cs bc s [] = (s, [])"
| "decode_all cs bc s ((d, now) # ds) =
     (let (s1, r) = decode_datagram_at cs bc s d now; (s2, rs) = decode_all cs bc s1 ds
      in (s2, r # rs))"

definition decode_complete ::
  "UdpSessionMessage bitcode \<Rightarrow> bytes option udp_result \<Rightarrow> UdpSessionMessage option udp_result" where
  "decode_complete bc r = and_then r (\<lambda>complete. case complete of
       None \<Rightarrow> Ok None
     | Some m \<Rightarrow> and_then (session_message_decode bc m) (\<lambda>msg. Ok (Some msg)))"

lemma decode_accepts:
  assumes "accepts cs (co_crypto s) d f" and "push (co_reassembler s) f now = (ra, r)"
  shows "decode_datagram_at cs bc s d now =
    (s\<lparr>co_crypto := (co_crypto s)\<lparr>sc_replay :=
         fst (replay_commit (sc_replay (co_crypto s)) (hdr_seq (frag_header f)))\<rparr>,
       co_reassembler := ra\<rparr>, decode_complete bc r)"
  using assms(2) open_datagram_accepts [OF assms(1)]
  by (simp add: decode_datagram_at_def decode_complete_def)

lemma decode_all_sealed:
  assumes cs: "aead_ok cs" and sid: "length (sc_session_id a) = 16"
    and p: "length p \<le> UDP_MAX_MESSAGE_SIZE" and c: "c = fragment_count_of (length p)"
    and fits: "send_pos a + c \<le> 2 ^ 64"
    and ds: "\<forall>i<c. sealed cs a (seal_header a mid p i) (message_part p i) (ds ! i)"
    and "peers a (co_crypto s)" and "window_rel (sc_replay (co_crypto s)) A"
    and "distinct idx" and "set idx \<subseteq> {..<c}" and "length ts = length idx"
    and "\<forall>i\<in>set idx. spec_may_accept A (send_pos a + i)"
  shows "snd (decode_all cs bc s (zip (map ((!) ds) idx) ts)) =
    map (decode_complete bc)
      (snd (push_all (co_reassembler s) (zip (map (sealed_fragment a mid p) idx) ts)))"
  using assms(7-)
proof (induction idx arbitrary: s A ts)
  case Nil
  then show ?case by simp
next
  case (Cons i idx)
  obtain now ts' where ts: "ts = now # ts'" "length ts' = length idx"
    using Cons.prems(5) by (cases ts) auto
  have i: "i < fragment_count_of (length p)" "i < c"
    using Cons.prems(4) c by auto
  let ?q = "hdr_seq (seal_header a mid p i)"
  have q: "unat ?q = send_pos a + i"
    using seal_header_seq [OF fits i(2)] .
  have may: "may_accept (sc_replay (co_crypto s)) ?q"
    using may_accept_spec [OF Cons.prems(2), of ?q] q Cons.prems(6) by simp
  have acc: "accepts cs (co_crypto s) (ds ! i) (sealed_fragment a mid p i)"
    using sealed_accepts [OF cs Cons.prems(1) sid p i(1) _ may] ds i(2) by blast
  obtain ra r where r: "push (co_reassembler s) (sealed_fragment a mid p i) now = (ra, r)"
    by fastforce
  let ?s = "s\<lparr>co_crypto := (co_crypto s)\<lparr>sc_replay := fst (replay_commit (sc_replay (co_crypto s)) ?q)\<rparr>,
       co_reassembler := ra\<rparr>"
  have dec: "decode_datagram_at cs bc s (ds ! i) now = (?s, decode_complete bc r)"
    using decode_accepts [OF acc r] by (simp add: sealed_fragment_def)
  have rel: "window_rel (sc_replay (co_crypto ?s)) (insert (send_pos a + i) A)"
    using replay.commit_may [OF Cons.prems(2) may] q by simp
  have close: "c \<le> UDP_REPLAY_WINDOW_SIZE"
    using fragment_count_le [OF p] c by (simp add: udp_limits)
  have "\<forall>j\<in>set idx. spec_may_accept (insert (send_pos a + i) A) (send_pos a + j)"
    using Cons.prems(3,4,6) close i(2) by (fastforce simp: spec_may_accept_def)
  then have "snd (decode_all cs bc ?s (zip (map ((!) ds) idx) ts')) =
      map (decode_complete bc) (snd (push_all ra (zip (map (sealed_fragment a mid p) idx) ts')))"
    using Cons.IH [OF _ rel _ _ ts(2)] Cons.prems(1,3,4) by (simp add: peers_def)
  then show ?case
    using dec r ts by (simp add: case_prod_beta Let_def)
qed

lemma sealed_fragment_message:
  assumes "i < fragment_count_of (length p)"
  shows "sealed_fragment a mid p i =
    message_fragment (sc_session_id a) mid (\<lambda>i. sc_next_send_sequence a + word_of_nat i)
      (message_parts p) i"
  using assms
  by (simp add: sealed_fragment_def message_fragment_def seal_header_def message_parts_nth
      message_parts_concat del: length_concat)

lemma push_single:
  assumes "length p \<le> UDP_MAX_MESSAGE_SIZE" and "fragment_count_of (length p) = 1"
  shows "push ra (sealed_fragment a mid p 0) now = (ra, Inr (Some p))"
proof -
  have le: "length p \<le> UDP_MAX_FRAGMENT_PLAINTEXT"
    using fragment_count_covers [of "length p"] assms(2) by simp
  then have part: "message_part p 0 = p"
    by (simp add: message_part_def)
  have w: "unat (word_of_nat (length p) :: u32) = length p"
    using seal_words(3) [of p 0] assms by simp
  have "(word_of_nat (length p) :: u32) = 0 \<or> p \<noteq> []"
    by auto
  then have "validate_fragment (sealed_fragment a mid p 0) = Inr ()"
    using seal_header_valid [OF assms(1), of 0 a mid] assms le part w
    by (simp add: validate_fragment_Ok sealed_fragment_def)
      (simp add: seal_header_def header_new_def)
  then show ?thesis
    using part w assms(2)
    by (simp add: push_def Let_def sealed_fragment_def seal_header_def header_new_def)
qed

lemma push_all_sealed:
  assumes p: "length p \<le> UDP_MAX_MESSAGE_SIZE" and c: "c = fragment_count_of (length p)"
    and "reassembler_inv ra" and "map_of (ra_entries ra) (sc_session_id a, mid) = None"
    and room: "UDP_MAX_MESSAGE_SIZE \<le> rc_max_total_bytes (ra_config ra)"
      "rc_max_total_bytes (ra_config ra) + UDP_MAX_FRAGMENT_PLAINTEXT \<le> usize_max"
    and idx: "distinct idx" "set idx = {..<c}" "length ts = length idx"
    and "\<forall>j. Suc j < length ts \<longrightarrow> ts ! Suc j - ts ! j < rc_timeout (ra_config ra)"
  shows "snd (push_all ra (zip (map (sealed_fragment a mid p) idx) ts)) =
    replicate (c - 1) (Inr None) @ [Inr (Some p)]"
proof -
  have len: "length idx = c"
    using distinct_card [OF idx(1)] idx(2) by simp
  show ?thesis
  proof (cases "c = 1")
    case True
    then obtain now where "idx = [0]" "ts = [now]"
      using idx len by (cases idx; cases ts) (auto simp: lessThan_Suc)
    then show ?thesis
      using push_single [OF p] c True by simp
  next
    case False
    have frags: "map (sealed_fragment a mid p) idx = map (message_fragment (sc_session_id a) mid
        (\<lambda>i. sc_next_send_sequence a + word_of_nat i) (message_parts p)) idx"
      using idx(2) c sealed_fragment_message by (intro map_cong) auto
    have "idx \<noteq> []"
      using len False c fragment_count_pos [of "length p"] by auto
    then show ?thesis
      unfolding frags
      using push_all_partial [where parts = "message_parts p" and S = "{}" and t = 0, of ra idx ts]
        message_parts_sendable [OF p] False c assms(3-) len p
      by (simp add: message_parts_concat del: length_concat)
  qed
qed

lemma encode_message_Ok:
  assumes cs: "aead_ok cs" and sid: "length (sc_session_id (co_crypto s)) = 16"
    and enc: "encode_message cs bc s m = (s', Inr ds)"
  obtains p where "bc_serialize bc m = Inr p" "length p \<le> UDP_MAX_MESSAGE_SIZE"
    "length ds = fragment_count_of (length p)"
    "send_pos (co_crypto s) + fragment_count_of (length p) \<le> 2 ^ 64"
    "\<forall>i<fragment_count_of (length p).
       sealed cs (co_crypto s) (seal_header (co_crypto s) (co_next_message_id s) p i)
         (message_part p i) (ds ! i)"
proof -
  obtain p where p: "bc_serialize bc m = Inr p"
    using enc by (auto simp: encode_message_def session_message_encode_def split: if_splits sum.splits)
  have "snd (seal_message cs (co_crypto s) (co_next_message_id s) p) = Inr ds"
    using enc p
    by (auto simp: encode_message_def session_message_encode_def Let_def
        split: if_splits sum.splits prod.splits)
  then show ?thesis
    using that [OF p] seal_message_cases [OF cs sid, of p "co_next_message_id s"] by fastforce
qed

section \<open>An instance of the primitives\<close>

text \<open>
  A suite that satisfies the laws of \<open>aead_ok\<close> (it appends a constant tag and derives keys
  from the label), and a serialiser of one kind of message; the witnesses evaluate the
  theorems on them.
\<close>

definition plain_suite :: crypto_suite where
  "plain_suite =
     \<lparr>sha256 = (\<lambda>bs. replicate 32 0),
      hkdf_expand = (\<lambda>salt ikm label n. Some (take n (drop 21 label @ replicate n 0))),
      gcm_encrypt = (\<lambda>k n a p. Some (p, replicate 16 0)),
      gcm_decrypt = (\<lambda>k n a c. if 16 \<le> length c \<and> drop (length c - 16) c = replicate 16 0
        then Some (take (length c - 16) c) else None)\<rparr>"

definition plain_bitcode :: "UdpSessionMessage bitcode" where
  "plain_bitcode =
     \<lparr>bc_serialize = (\<lambda>m. case m of Data f bs \<Rightarrow> if f = 0 then Inr bs else Inl ''flow''
        | _ \<Rightarrow> Inl ''kind''),
      bc_deserialize = (\<lambda>bs. Inr (Data 0 bs))\<rparr>"

definition plain_keys :: UdpDirectionalKeyMaterial where
  "plain_keys = \<lparr>km_client_to_server_key = [1], km_server_to_client_key = [2],
     km_client_to_server_nonce_prefix = [3], km_server_to_client_nonce_prefix = [4]\<rparr>"

definition plain_codec :: "UdpSessionRole \<Rightarrow> UdpSessionCodec" where
  "plain_codec role = \<lparr>co_crypto = from_key_material role (replicate 16 9) plain_keys,
     co_reassembler = from_valid_config reassembly_config_default,
     co_next_message_id = 0, co_message_id_exhausted = False\<rparr>"

lemma plain_suite_ok: "aead_ok plain_suite"
  unfolding aead_ok_def plain_suite_def
  by (auto simp: udp_limits) (metis append_take_drop_id)

lemma plain_bitcode_roundtrip: "bitcode_roundtrip plain_bitcode"
  by (auto simp: bitcode_roundtrip_def plain_bitcode_def split: UdpSessionMessage.splits if_splits)

lemma plain_codec_sel:
  "sc_session_id (co_crypto (plain_codec role)) = replicate 16 9"
  "send_pos (co_crypto (plain_codec role)) = 0"
  "sc_replay (co_crypto (plain_codec role)) = replay_new"
  "co_reassembler (plain_codec role) = from_valid_config reassembly_config_default"
  by (cases role; simp add: plain_codec_def from_key_material_def send_pos_def)+

lemma default_reassembler_inv: "reassembler_inv (from_valid_config reassembly_config_default)"
  by (rule reassembler_inv_new [of reassembly_config_default])
    (simp_all add: reassembler_new_def reassembly_config_default_def usize_max_def)

lemma plain_seal:
  assumes "length p \<le> UDP_MAX_FRAGMENT_PLAINTEXT"
  obtains s' d where "seal_message plain_suite (co_crypto (plain_codec role)) 0 p = (s', Inr [d])"
    "sealed plain_suite (co_crypto (plain_codec role))
       (seal_header (co_crypto (plain_codec role)) 0 p 0) (message_part p 0) d"
proof -
  have c: "1 = fragment_count_of (length p)"
    using assms
    by (cases "length p = UDP_MAX_FRAGMENT_PLAINTEXT")
      (auto simp: fragment_count_of_def div_ceil_def udp_limits)
  obtain s' ds where r: "seal_message plain_suite (co_crypto (plain_codec role)) 0 p = (s', Inr ds)"
    "length ds = 1" "sealed plain_suite (co_crypto (plain_codec role))
       (seal_header (co_crypto (plain_codec role)) 0 p 0) (message_part p 0) (ds ! 0)"
    using seal_message_Ok [OF plain_suite_ok _ _ c, of "co_crypto (plain_codec role)" 0] assms
    by (auto simp: plain_codec_sel udp_limits)
  then show ?thesis
    using that by (cases ds) auto
qed

lemma plain_open:
  obtains d s' f where "open_datagram plain_suite (co_crypto (plain_codec Proxy)) d = (s', Inr f)"
    "frag_payload f = [5]"
proof -
  have peers: "peers (co_crypto (plain_codec Agent)) (co_crypto (plain_codec Proxy))"
    by (simp add: plain_codec_def from_key_material_peers)
  obtain s' d where d: "sealed plain_suite (co_crypto (plain_codec Agent))
      (seal_header (co_crypto (plain_codec Agent)) 0 [5] 0) (message_part [5] 0) d"
    using plain_seal [of "[5]" Agent] by (auto simp: udp_limits)
  have "may_accept replay_new q" for q
    by (simp add: may_accept_def replay_new_def)
  then have "accepts plain_suite (co_crypto (plain_codec Proxy)) d
      (sealed_fragment (co_crypto (plain_codec Agent)) 0 [5] 0)"
    using sealed_accepts [OF plain_suite_ok peers _ _ _ d] fragment_count_pos
    by (simp add: plain_codec_sel udp_limits)
  from open_datagram_accepts [OF this] show ?thesis
    by (rule that) (simp add: sealed_fragment_def message_part_def udp_limits)
qed

lemma codec_delivers:
  assumes "aead_ok cs" and "bitcode_roundtrip bc"
    and "peers (co_crypto snd_codec) (co_crypto rcv)" and "length (sc_session_id (co_crypto snd_codec)) = 16"
    and "encode_message cs bc snd_codec m = (snd', Inr ds)"
    and "window_rel (sc_replay (co_crypto rcv)) A"
    and "\<forall>i<length ds. spec_may_accept A (send_pos (co_crypto snd_codec) + i)"
    and "reassembler_inv (co_reassembler rcv)"
    and "map_of (ra_entries (co_reassembler rcv))
      (sc_session_id (co_crypto snd_codec), co_next_message_id snd_codec) = None"
    and "UDP_MAX_MESSAGE_SIZE \<le> rc_max_total_bytes (ra_config (co_reassembler rcv))"
    and "rc_max_total_bytes (ra_config (co_reassembler rcv)) + UDP_MAX_FRAGMENT_PLAINTEXT \<le> usize_max"
    and "distinct idx" and "set idx = {..<length ds}" and "length ts = length idx"
    and "\<forall>j. Suc j < length ts \<longrightarrow>
      ts ! Suc j - ts ! j < rc_timeout (ra_config (co_reassembler rcv))"
  shows "snd (decode_all cs bc rcv (zip (map ((!) ds) idx) ts)) =
    replicate (length ds - 1) (Inr None) @ [Inr (Some m)]"
proof -
  obtain p where p: "bc_serialize bc m = Inr p" "length p \<le> UDP_MAX_MESSAGE_SIZE"
    "length ds = fragment_count_of (length p)"
    "send_pos (co_crypto snd_codec) + fragment_count_of (length p) \<le> 2 ^ 64"
    "\<forall>i<fragment_count_of (length p).
       sealed cs (co_crypto snd_codec) (seal_header (co_crypto snd_codec) (co_next_message_id snd_codec) p i)
         (message_part p i) (ds ! i)"
    using encode_message_Ok [OF assms(1,4,5)] .
  have dec: "snd (decode_all cs bc rcv (zip (map ((!) ds) idx) ts)) =
    map (decode_complete bc) (snd (push_all (co_reassembler rcv)
      (zip (map (sealed_fragment (co_crypto snd_codec) (co_next_message_id snd_codec) p) idx) ts)))"
    using decode_all_sealed [OF assms(1,4) p(2) refl p(4,5) assms(3,6,12)] assms(7,13,14) p(3) by simp
  have "decode_complete bc (Inr (Some p)) = Inr (Some m)"
    using bitcode_roundtripD [OF assms(2) p(1)]
    by (simp add: decode_complete_def session_message_decode_def)
  then show ?thesis
    using dec push_all_sealed [OF p(2) refl assms(8-12)] assms(13-15) p(3)
    by (simp add: decode_complete_def)
qed

section \<open>Properties\<close>

text \<open>
  C1. End to end over an unordered network: if one peer of a session encodes a message, the
  other peer, fed the resulting datagrams in any order (each less than the reassembly timeout
  after the one before), decodes nothing until the last datagram and then exactly the message.
  The receiver may hold any other partial messages and any replay history in which these
  sequence numbers are still acceptable.
\<close>

theorem codec_delivers_any_order:
  assumes "aead_ok cs" and "bitcode_roundtrip bc"
    and "peers (co_crypto snd_codec) (co_crypto rcv)" and "length (sc_session_id (co_crypto snd_codec)) = 16"
    and "encode_message cs bc snd_codec m = (snd', Inr ds)"
    and "window_rel (sc_replay (co_crypto rcv)) A"
    and "\<forall>i<length ds. spec_may_accept A (send_pos (co_crypto snd_codec) + i)"
    and "reassembler_inv (co_reassembler rcv)"
    and "map_of (ra_entries (co_reassembler rcv))
      (sc_session_id (co_crypto snd_codec), co_next_message_id snd_codec) = None"
    and "UDP_MAX_MESSAGE_SIZE \<le> rc_max_total_bytes (ra_config (co_reassembler rcv))"
    and "rc_max_total_bytes (ra_config (co_reassembler rcv)) + UDP_MAX_FRAGMENT_PLAINTEXT \<le> usize_max"
    and "distinct idx" and "set idx = {..<length ds}" and "length ts = length idx"
    and "\<forall>j. Suc j < length ts \<longrightarrow>
      ts ! Suc j - ts ! j < rc_timeout (ra_config (co_reassembler rcv))"
  shows "snd (decode_all cs bc rcv (zip (map ((!) ds) idx) ts)) =
    replicate (length ds - 1) (Inr None) @ [Inr (Some m)]"
  by (rule codec_delivers [OF assms])

theorem codec_delivers_any_order_witness:
  "\<exists>a ds. encode_message plain_suite plain_bitcode (plain_codec Agent) (Data 0 (replicate 1290 7)) =
     (a, Inr ds) \<and> length ds = 2 \<and>
   snd (decode_all plain_suite plain_bitcode (plain_codec Proxy) [(ds ! 1, 4), (ds ! 0, 9)]) =
     [Inr None, Inr (Some (Data 0 (replicate 1290 7)))]"
proof -
  let ?s = "co_crypto (plain_codec Agent)" and ?p = "replicate 1290 7 :: bytes"
  have c: "fragment_count_of (length ?p) = 2"
    by (simp add: fragment_count_of_def div_ceil_def udp_limits)
  obtain s' ds where "seal_message plain_suite ?s 0 ?p = (s', Inr ds)" and len: "length ds = 2"
    using seal_message_Ok [OF plain_suite_ok _ _ c [symmetric], of ?s 0]
    by (auto simp: plain_codec_sel udp_limits)
  then obtain a where enc: "encode_message plain_suite plain_bitcode (plain_codec Agent) (Data 0 ?p) =
      (a, Inr ds)"
    by (simp add: encode_message_def session_message_encode_def plain_bitcode_def plain_codec_def)
  have peers: "peers ?s (co_crypto (plain_codec Proxy))"
    by (simp add: plain_codec_def from_key_material_peers)
  have two: "{..<2 :: nat} = {1, 0}"
    by auto
  have "snd (decode_all plain_suite plain_bitcode (plain_codec Proxy) (zip (map ((!) ds) [1, 0]) [4, 9])) =
      replicate (length ds - 1) (Inr None) @ [Inr (Some (Data 0 ?p))]"
    by (rule codec_delivers_any_order [OF plain_suite_ok plain_bitcode_roundtrip peers _ enc,
          where A = "{}"])
      (auto simp: plain_codec_sel window_rel_new spec_may_accept_def len two
        default_reassembler_inv udp_limits usize_max_def)
  then show ?thesis
    using enc len by (intro exI [of _ a] exI [of _ ds]) simp
qed

text \<open>
  C2. A sender never uses a nonce twice. Over any sequence of messages sealed by one side of
  a session, the datagrams carry consecutive sequence numbers without wrapping around, each
  is the encryption under the sending key of some payload with the nonce of its own sequence
  number and its own header as associated data, and no two of these nonces are equal.
\<close>

theorem nonce_never_reused:
  assumes "aead_ok cs" and "length (sc_session_id s) = 16" and "seal_run cs s ops = (s', ds)"
  shows "map (\<lambda>d. unat (datagram_sequence d)) ds = [send_pos s..<send_pos s + length ds] \<and>
    send_pos s + length ds \<le> 2 ^ 64 \<and>
    distinct (map (\<lambda>d. make_nonce (ds_nonce_prefix (sc_send s)) (datagram_sequence d)) ds) \<and>
    (\<forall>d\<in>set ds. \<exists>h p ct tag.
       d = take UDP_TRANSPORT_HEADER_LEN d @ ct @ tag \<and> header_encode h = Inr (take UDP_TRANSPORT_HEADER_LEN d) \<and>
       gcm_encrypt cs (ds_key (sc_send s))
         (make_nonce (ds_nonce_prefix (sc_send s)) (datagram_sequence d))
         (take UDP_TRANSPORT_HEADER_LEN d) p = Some (ct, tag))"
proof -
  note run = seal_run_spec [OF assms]
  have seqs: "map (\<lambda>d. unat (datagram_sequence d)) ds = [send_pos s..<send_pos s + length ds]"
    "send_pos s + length ds \<le> 2 ^ 64"
    using run send_pos_le [of s'] by auto
  have "distinct (map (\<lambda>d. unat (datagram_sequence d)) ds)"
    using seqs(1) by simp
  then have "distinct (map (\<lambda>d. make_nonce (ds_nonce_prefix (sc_send s)) (datagram_sequence d)) ds)"
    by (auto simp: distinct_map inj_on_def make_nonce_inj)
  moreover have "\<exists>h p ct tag.
       d = take UDP_TRANSPORT_HEADER_LEN d @ ct @ tag \<and> header_encode h = Inr (take UDP_TRANSPORT_HEADER_LEN d) \<and>
       gcm_encrypt cs (ds_key (sc_send s))
         (make_nonce (ds_nonce_prefix (sc_send s)) (datagram_sequence d))
         (take UDP_TRANSPORT_HEADER_LEN d) p = Some (ct, tag)" if d: "d \<in> set ds" for d
  proof -
    obtain h p where h: "header_shape h" "sealed cs s h p d" "hdr_seq h = datagram_sequence d"
      using run d by blast
    then obtain aad ct tag where aad: "header_encode h = Inr aad" "d = aad @ ct @ tag"
      "gcm_encrypt cs (ds_key (sc_send s))
        (make_nonce (ds_nonce_prefix (sc_send s)) (datagram_sequence d)) aad p = Some (ct, tag)"
      by (auto simp: sealed_def)
    have "take UDP_TRANSPORT_HEADER_LEN d = aad"
      using header_encode_length [OF aad(1) h(1)] aad(2) by simp
    then show ?thesis
      using aad by (intro exI [of _ h] exI [of _ p] exI [of _ ct] exI [of _ tag]) simp
  qed
  ultimately show ?thesis
    using seqs by blast
qed

theorem nonce_never_reused_witness:
  "\<exists>s' d. seal_run plain_suite (co_crypto (plain_codec Agent)) [(0, [5])] = (s', [d]) \<and>
     datagram_sequence d = 0"
proof -
  obtain s' d where "seal_message plain_suite (co_crypto (plain_codec Agent)) 0 [5] = (s', Inr [d])"
    by (rule plain_seal [of "[5]" Agent]) (auto simp: udp_limits)
  then have "seal_run plain_suite (co_crypto (plain_codec Agent)) [(0, [5])] = (s', [d])"
    by simp
  with nonce_never_reused [OF plain_suite_ok _ this] show ?thesis
    by (auto simp: plain_codec_sel unat_eq_0)
qed

text \<open>
  C12. Only authentic datagrams are accepted, and a rejected datagram has no effect. If
  opening a datagram fails, for whatever reason, the session (its replay window included) is
  unchanged. If it succeeds, the datagram is exactly the canonical encoding of the returned
  header followed by the encryption, under the receiving key with the nonce of that sequence
  number, of the returned payload; it belongs to this session and its number becomes
  unacceptable.
\<close>

theorem open_datagram_authentic:
  assumes "aead_ok cs" and "window_rel (sc_replay s) A" and "open_datagram cs s d = (s', r)"
  shows "case r of
      Inl e \<Rightarrow> s' = s
    | Inr f \<Rightarrow>
        (\<exists>aad ct tag. header_encode (frag_header f) = Inr aad \<and> d = aad @ ct @ tag \<and>
           gcm_encrypt cs (ds_key (sc_receive s))
             (make_nonce (ds_nonce_prefix (sc_receive s)) (hdr_seq (frag_header f)))
             aad (frag_payload f) = Some (ct, tag)) \<and>
        hdr_session_id (frag_header f) = sc_session_id s \<and>
        unat (hdr_seq (frag_header f)) \<notin> A \<and>
        window_rel (sc_replay s') (insert (unat (hdr_seq (frag_header f))) A) \<and>
        snd (open_datagram cs s' d) = Inl ReplayRejected"
proof (cases r)
  case (Inl e)
  then show ?thesis
    using open_datagram_Err assms(3) by simp
next
  case (Inr f)
  let ?h = "frag_header f"
  have acc: "accepts cs s d f"
    using open_datagram_Ok assms(3) Inr by blast
  note a = acc [unfolded accepts_def Let_def]
  obtain ct tag where "gcm_encrypt cs (ds_key (sc_receive s))
      (make_nonce (ds_nonce_prefix (sc_receive s)) (hdr_seq ?h))
      (take UDP_TRANSPORT_HEADER_LEN d) (frag_payload f) = Some (ct, tag)"
    "drop UDP_TRANSPORT_HEADER_LEN d = ct @ tag"
    using aead_okD(5) [OF assms(1)] a by blast
  moreover have "header_encode ?h = Inr (take UDP_TRANSPORT_HEADER_LEN d)"
    using header.enc_dec a by blast
  ultimately have form: "\<exists>aad ct tag. header_encode ?h = Inr aad \<and> d = aad @ ct @ tag \<and>
      gcm_encrypt cs (ds_key (sc_receive s))
        (make_nonce (ds_nonce_prefix (sc_receive s)) (hdr_seq ?h))
        aad (frag_payload f) = Some (ct, tag)"
    by (metis append_take_drop_id)
  have rel: "window_rel (sc_replay s') (insert (unat (hdr_seq ?h)) A)"
    using replay.commit_may [OF assms(2)] a open_datagram_accepts [OF acc] assms(3) by force
  have "\<not> may_accept (sc_replay s') (hdr_seq ?h)"
    using replay.may_iff [OF rel] by simp
  moreover have "sc_session_id s' = sc_session_id s"
    using open_datagram_accepts [OF acc] assms(3) by auto
  ultimately have "snd (open_datagram cs s' d) = Inl ReplayRejected"
    using a by (simp add: open_datagram_def)
  then show ?thesis
    using Inr form rel a replay.may_iff [OF assms(2)] by auto
qed

theorem open_datagram_authentic_witness:
  "\<exists>d s' f. open_datagram plain_suite (co_crypto (plain_codec Proxy)) d = (s', Inr f) \<and>
     frag_payload f = [5] \<and> snd (open_datagram plain_suite s' d) = Inl ReplayRejected"
proof -
  have rel: "window_rel (sc_replay (co_crypto (plain_codec Proxy))) {}"
    by (simp add: plain_codec_sel window_rel_new)
  obtain d s' f where o: "open_datagram plain_suite (co_crypto (plain_codec Proxy)) d = (s', Inr f)"
    "frag_payload f = [5]"
    by (rule plain_open)
  show ?thesis
    using open_datagram_authentic [OF plain_suite_ok rel o(1)] o
    by (intro exI [of _ d] exI [of _ s'] exI [of _ f]) simp
qed

text \<open>
  C13. Over any sequence of received datagrams, however duplicated, reordered or forged, a
  session accepts no sequence number twice.
\<close>

theorem opened_once:
  "distinct (map (\<lambda>f. hdr_seq (frag_header f))
     (opened (snd (open_run cs (from_key_material role sid keys) ds))))"
proof -
  have "window_rel (sc_replay (from_key_material role sid keys)) {}"
    by (cases role) (simp_all add: from_key_material_def window_rel_new)
  from open_run_once [OF this] show ?thesis
    by (metis prod.collapse)
qed

text \<open>
  Sealing fails only for a message over the size limit or when the sequence numbers run
  out, and then changes nothing; the branches for too many fragments, an oversized datagram, a
  bad header, a failed encryption and a slice out of range are unreachable. A successful call
  gives one datagram per fragment, each within the datagram limit, and advances the position
  by their number.
\<close>

theorem seal_message_total:
  assumes "aead_ok cs" and "length (sc_session_id s) = 16" and "seal_message cs s mid p = (s', r)"
  shows "(UDP_MAX_MESSAGE_SIZE < length p \<and> s' = s \<and> r = Inl (MessageTooLarge (length p))) \<or>
    (length p \<le> UDP_MAX_MESSAGE_SIZE \<and> 2 ^ 64 < send_pos s + fragment_count_of (length p) \<and>
       s' = s \<and> r = Inl SequenceExhausted) \<or>
    (length p \<le> UDP_MAX_MESSAGE_SIZE \<and>
       send_pos s' = send_pos s + fragment_count_of (length p) \<and>
       (\<exists>ds. r = Inr ds \<and> length ds = fragment_count_of (length p) \<and>
          list_all (\<lambda>d. length d \<le> UDP_MAX_DATAGRAM_SIZE) ds))"
  using assms(1,2)
proof (cases rule: seal_message_cases [of _ _ p mid])
  case (ok t ds)
  then show ?thesis
    using assms(3) by (auto simp: list_all_length)
qed (use assms(3) in auto)

theorem seal_message_total_witness:
  "snd (seal_message plain_suite (co_crypto (plain_codec Agent)) 7 (replicate 71681 0)) =
     Inl (MessageTooLarge 71681)"
proof -
  obtain s' r where "seal_message plain_suite (co_crypto (plain_codec Agent)) 7 (replicate 71681 0) = (s', r)"
    by fastforce
  with seal_message_total [OF plain_suite_ok _ this] show ?thesis
    by (auto simp: plain_codec_sel udp_limits)
qed

text \<open>
  C22. The two directions of a session are separated: whenever both sides derive a session
  from the same secret and nonces, they derive the same material, each sends with what the
  other receives with, and the keys and the nonce prefixes of the two directions differ.
\<close>

theorem directions_separated:
  assumes "session_crypto_new cs Agent sid mk cn sn = Inr a"
    and "session_crypto_new cs Proxy sid mk cn sn = Inr b"
  shows "peers a b \<and> peers b a \<and> ds_key (sc_send a) \<noteq> ds_key (sc_send b) \<and>
    ds_nonce_prefix (sc_send a) \<noteq> ds_nonce_prefix (sc_send b) \<and>
    send_pos a = 0 \<and> send_pos b = 0 \<and> sc_replay a = replay_new \<and> sc_replay b = replay_new"
proof -
  obtain k where k: "derive cs mk sid cn sn = Inr k"
    and ab: "a = from_key_material Agent sid k" "b = from_key_material Proxy sid k"
    using assms by (auto simp: session_crypto_new_def)
  have "km_client_to_server_key k \<noteq> km_server_to_client_key k"
    "km_client_to_server_nonce_prefix k \<noteq> km_server_to_client_nonce_prefix k"
    using k by (auto simp: derive_def Let_def split: if_splits)
  then show ?thesis
    using from_key_material_peers [of sid k] unfolding ab
    by (simp add: from_key_material_def send_pos_def)
qed

theorem directions_separated_witness:
  "\<exists>a b. session_crypto_new plain_suite Agent [1] [2] [3] [4] = Inr a \<and>
     session_crypto_new plain_suite Proxy [1] [2] [3] [4] = Inr b \<and>
     ds_key (sc_send a) \<noteq> ds_key (sc_send b)"
proof -
  have "is_ok (session_crypto_new plain_suite Agent [1] [2] [3] [4])"
    "is_ok (session_crypto_new plain_suite Proxy [1] [2] [3] [4])"
    by (simp_all add: session_crypto_new_def derive_def expand_label_def plain_suite_def
        str_bytes_def KEY_LEN_def NONCE_PREFIX_LEN_def)
  then obtain a b where "session_crypto_new plain_suite Agent [1] [2] [3] [4] = Inr a"
    "session_crypto_new plain_suite Proxy [1] [2] [3] [4] = Inr b"
    by (auto simp: is_ok_iff)
  with directions_separated [OF this] show ?thesis by blast
qed

end
