(* ===== verification/Rust_Std.thy ===== *)
theory Rust_Std
  imports Prelude "HOL-Library.Sublist"
begin

text \<open>
  The parts of the Rust standard library the sources use on text and on signed integers.
  A \<open>str\<close> is the list of its UTF-8 bytes; on well-formed UTF-8 a character is at the front
  (or the back) exactly when its encoding is a prefix (or a suffix), so characters outside
  ASCII are compared by their encodings.
\<close>

section \<open>Signed 64-bit integers\<close>

definition i64_ge :: "i64 \<Rightarrow> i64 \<Rightarrow> bool" where
  "i64_ge a b \<longleftrightarrow> sint b \<le> sint a"

definition i64_gt :: "i64 \<Rightarrow> i64 \<Rightarrow> bool" where
  "i64_gt a b \<longleftrightarrow> sint b < sint a"

text \<open>\<open>i64::abs\<close> of a release build: the minimum wraps to itself.\<close>

definition i64_wrapping_abs :: "i64 \<Rightarrow> i64" where
  "i64_wrapping_abs a = (if sint a < 0 then - a else a)"

definition i64_abs_diff :: "i64 \<Rightarrow> i64 \<Rightarrow> nat" where
  "i64_abs_diff a b = nat \<bar>sint a - sint b\<bar>"

section \<open>Text\<close>

definition chr :: "nat \<Rightarrow> char" where
  "chr n = char_of n"

text \<open>The encodings of the characters with the Unicode property \<open>White_Space\<close>.\<close>

definition whitespace :: "string list" where
  "whitespace =
    [[CHR 0x09], [CHR 0x0A], [CHR 0x0B], [CHR 0x0C], [CHR 0x0D], [CHR 0x20],
     [CHR 0xC2, CHR 0x85], [CHR 0xC2, CHR 0xA0], [CHR 0xE1, CHR 0x9A, CHR 0x80],
     [CHR 0xE2, CHR 0x80, CHR 0x80], [CHR 0xE2, CHR 0x80, CHR 0x81],
     [CHR 0xE2, CHR 0x80, CHR 0x82], [CHR 0xE2, CHR 0x80, CHR 0x83],
     [CHR 0xE2, CHR 0x80, CHR 0x84], [CHR 0xE2, CHR 0x80, CHR 0x85],
     [CHR 0xE2, CHR 0x80, CHR 0x86], [CHR 0xE2, CHR 0x80, CHR 0x87],
     [CHR 0xE2, CHR 0x80, CHR 0x88], [CHR 0xE2, CHR 0x80, CHR 0x89],
     [CHR 0xE2, CHR 0x80, CHR 0x8A], [CHR 0xE2, CHR 0x80, CHR 0xA8],
     [CHR 0xE2, CHR 0x80, CHR 0xA9], [CHR 0xE2, CHR 0x80, CHR 0xAF],
     [CHR 0xE2, CHR 0x81, CHR 0x9F], [CHR 0xE3, CHR 0x80, CHR 0x80]]"

function trim_start :: "string \<Rightarrow> string" where
  "trim_start s = (case find (\<lambda>w. prefix w s) whitespace of
     None \<Rightarrow> s | Some w \<Rightarrow> if w = [] then s else trim_start (drop (length w) s))"
  by pat_completeness auto
termination
proof (relation "measure length")
  fix s w
  assume "find (\<lambda>w. prefix w s) whitespace = Some w" "w \<noteq> []"
  then have "length w \<le> length s" "0 < length w"
    by (auto simp: find_Some_iff dest: prefix_length_le)
  then have "length s - length w < length s"
    by linarith
  then show "(drop (length w) s, s) \<in> measure length"
    by simp
qed simp

declare trim_start.simps [simp del]

definition trim_end :: "string \<Rightarrow> string" where
  "trim_end s = (let
     strip = (\<lambda>t n. case find (\<lambda>w. w \<noteq> [] \<and> suffix w t) whitespace of
       None \<Rightarrow> t | Some w \<Rightarrow> take (length t - length w) t)
   in foldl strip s [0..<length s])"

definition trim :: "string \<Rightarrow> string" where
  "trim s = trim_end (trim_start s)"

fun contains_str :: "string \<Rightarrow> string \<Rightarrow> bool" where
  "contains_str p [] \<longleftrightarrow> p = []"
| "contains_str p (c # cs) \<longleftrightarrow> prefix p (c # cs) \<or> contains_str p cs"

text \<open>\<open>char::is_control\<close>: the ranges 00 to 1F and 7F to 9F.\<close>

fun has_c1_control :: "string \<Rightarrow> bool" where
  "has_c1_control (c # d # s) \<longleftrightarrow>
     c = CHR 0xC2 \<and> 128 \<le> (of_char d :: nat) \<and> (of_char d :: nat) < 160 \<or> has_c1_control (d # s)"
| "has_c1_control s \<longleftrightarrow> False"

definition has_control :: "string \<Rightarrow> bool" where
  "has_control s \<longleftrightarrow>
     list_ex (\<lambda>c. (of_char c :: nat) < 32 \<or> (of_char c :: nat) = 127) s \<or> has_c1_control s"

definition is_digit :: "char \<Rightarrow> bool" where
  "is_digit c \<longleftrightarrow> 48 \<le> (of_char c :: nat) \<and> (of_char c :: nat) \<le> 57"

definition digit_val :: "char \<Rightarrow> nat" where
  "digit_val c = of_char c - 48"

definition digits_val :: "string \<Rightarrow> nat" where
  "digits_val ds = foldl (\<lambda>a c. a * 10 + digit_val c) 0 ds"

definition parse_digits :: "string \<Rightarrow> nat option" where
  "parse_digits s = (if s \<noteq> [] \<and> list_all is_digit s then Some (digits_val s) else None)"

text \<open>\<open>str::parse::<i64>\<close>: an optional sign, at least one digit, no overflow.\<close>

definition parse_i64 :: "string \<Rightarrow> int option" where
  "parse_i64 s =
     (case s of
        [] \<Rightarrow> None
      | c # cs \<Rightarrow>
          (if c = CHR ''-'' then
             (case parse_digits cs of
                Some n \<Rightarrow> if n \<le> 2 ^ 63 then Some (- int n) else None | None \<Rightarrow> None)
           else
             (case parse_digits (if c = CHR ''+'' then cs else s) of
                Some n \<Rightarrow> if n < 2 ^ 63 then Some (int n) else None | None \<Rightarrow> None)))"

text \<open>Decimal printing, as \<open>to_string\<close> of an integer.\<close>

fun nat_to_string :: "nat \<Rightarrow> string" where
  "nat_to_string n =
     (if n < 10 then [chr (48 + n)] else nat_to_string (n div 10) @ [chr (48 + n mod 10)])"

declare nat_to_string.simps [simp del]

definition int_to_string :: "int \<Rightarrow> string" where
  "int_to_string i =
     (if i < 0 then CHR ''-'' # nat_to_string (nat (- i)) else nat_to_string (nat i))"

section \<open>Facts on numbers in text\<close>

lemma of_char_chr [simp]: "n < 256 \<Longrightarrow> (of_char (chr n) :: nat) = n"
  by (simp add: chr_def)

lemma digit_of_chr:
  "n < 10 \<Longrightarrow> is_digit (chr (48 + n))" "n < 10 \<Longrightarrow> digit_val (chr (48 + n)) = n"
  by (simp_all add: is_digit_def digit_val_def)

lemma digits_val_snoc: "digits_val (ds @ [c]) = digits_val ds * 10 + digit_val c"
  by (simp add: digits_val_def)

lemma nat_to_string_digits:
  "list_all is_digit (nat_to_string n) \<and> nat_to_string n \<noteq> [] \<and> digits_val (nat_to_string n) = n"
proof (induction n rule: nat_to_string.induct)
  case (1 n)
  show ?case
  proof (cases "n < 10")
    case True
    then show ?thesis
      using digit_of_chr [of n]
      by (simp add: nat_to_string.simps [of n]) (simp add: digits_val_def)
  next
    case False
    then show ?thesis
      using 1 digit_of_chr [of "n mod 10"]
      by (simp add: nat_to_string.simps [of n] digits_val_snoc)
  qed
qed

lemma parse_nat_to_string: "parse_digits (nat_to_string n) = Some n"
  using nat_to_string_digits [of n] by (simp add: parse_digits_def)

lemma not_digit_sign: "\<not> is_digit (CHR ''-'')" "\<not> is_digit (CHR ''+'')"
  by (simp_all add: is_digit_def)

lemma parse_int_to_string:
  assumes "- (2 ^ 63) \<le> i" and "i < 2 ^ 63"
  shows "parse_i64 (int_to_string i) = Some i"
proof (cases "i < 0")
  case True
  then show ?thesis
    using assms by (simp add: parse_i64_def int_to_string_def parse_nat_to_string)
next
  case False
  obtain c cs where s: "nat_to_string (nat i) = c # cs"
    using nat_to_string_digits [of "nat i"] by (cases "nat_to_string (nat i)") auto
  then have "c \<noteq> CHR ''-''" "c \<noteq> CHR ''+''"
    using nat_to_string_digits [of "nat i"] not_digit_sign by auto
  then show ?thesis
    using assms False parse_nat_to_string [of "nat i"] s
    by (simp add: parse_i64_def int_to_string_def)
qed

section \<open>Facts on trimming\<close>

lemma set_trim_start: "set (trim_start s) \<subseteq> set s"
proof (induction s rule: trim_start.induct)
  case (1 s)
  show ?case
  proof (cases "find (\<lambda>w. prefix w s) whitespace")
    case None
    then show ?thesis
      by (simp add: trim_start.simps [of s])
  next
    case (Some w)
    then show ?thesis
      using 1 [OF Some] set_drop_subset [of "length w" s] by (auto simp: trim_start.simps [of s])
  qed
qed

lemma set_trim_end: "set (trim_end s) \<subseteq> set s"
proof -
  let ?strip = "\<lambda>t (n :: nat). case find (\<lambda>w. w \<noteq> [] \<and> suffix w t) whitespace of
    None \<Rightarrow> t | Some w \<Rightarrow> take (length t - length w) t"
  have "set (foldl ?strip t ns) \<subseteq> set t" for t ns
  proof (induction ns arbitrary: t)
    case (Cons n ns)
    have "set (?strip t n) \<subseteq> set t"
      by (auto split: option.splits dest: in_set_takeD)
    then show ?case
      using Cons [of "?strip t n"] by (simp only: foldl_Cons)
  qed simp
  then show ?thesis
    by (simp add: trim_end_def Let_def)
qed

lemma set_trim: "set (trim s) \<subseteq> set s"
  using set_trim_end [of "trim_start s"] set_trim_start [of s] by (auto simp: trim_def)

section \<open>Polls\<close>

text \<open>\<open>std::task::Poll\<close>: what one poll of a future or of an I/O object gives.\<close>

datatype 'a poll = Pending | Ready 'a

end
