(* ===== verification/Framed_Codec.thy ===== *)
theory Framed_Codec
  imports Udp_Crypto Rust_Std
begin

text \<open>
  The framed protocol over TCP (\<open>protocol/src/codec\<close>, \<open>protocol/src/compression.rs\<close>,
  \<open>protocol/src/crypto/aes_gcm_cipher.rs\<close>): optional compression, optional AES-GCM with a nonce
  drawn per message, serialisation, and length-delimited frames. The compressors, the
  serialiser and the frame codec are third-party code and are passed as records of functions
  with the laws they document.
\<close>

section \<open>Compression\<close>

datatype CompressionMode = CompressNone | Zstd | Lz4 | Gzip

definition from_flag :: "u8 \<Rightarrow> CompressionMode" where
  "from_flag f = (if f = 1 then Zstd else if f = 2 then Lz4 else if f = 3 then Gzip else CompressNone)"

fun to_flag :: "CompressionMode \<Rightarrow> u8" where
  "to_flag CompressNone = 0"
| "to_flag Zstd = 1"
| "to_flag Lz4 = 2"
| "to_flag Gzip = 3"

text \<open>
  \<open>to_lowercase\<close> on text that is then compared with ASCII words without the letter k: no
  character outside ASCII lowers to one of their letters alone, so only ASCII letters matter.
\<close>

definition ascii_lower :: "char \<Rightarrow> char" where
  "ascii_lower c = (if 65 \<le> (of_char c :: nat) \<and> (of_char c :: nat) \<le> 90
     then chr (of_char c + 32) else c)"

definition to_lowercase :: "string \<Rightarrow> string" where
  "to_lowercase s = map ascii_lower s"

definition compression_from_str :: "string \<Rightarrow> CompressionMode" where
  "compression_from_str s =
     (let l = to_lowercase s
      in if l = ''zstd'' \<or> l = ''zstandard'' then Zstd
         else if l = ''lz4'' then Lz4
         else if l = ''gzip'' \<or> l = ''gz'' then Gzip
         else CompressNone)"

fun compression_display :: "CompressionMode \<Rightarrow> string" where
  "compression_display CompressNone = ''none''"
| "compression_display Zstd = ''zstd''"
| "compression_display Lz4 = ''lz4''"
| "compression_display Gzip = ''gzip''"

text \<open>
  The compression crates. A streaming decoder is the function that gives the first \<open>n\<close> bytes
  it produces, or its error. \<open>zstd_enabled\<close> is the build feature \<open>zstd-compression\<close>.
\<close>

record compressors =
  zstd_enabled :: bool
  zstd_encode_all :: "bytes \<Rightarrow> string + bytes"
  zstd_read :: "bytes \<Rightarrow> nat \<Rightarrow> string + bytes"
  lz4_compress :: "bytes \<Rightarrow> bytes"
  lz4_decompress :: "bytes \<Rightarrow> string + bytes"
  gzip_encode :: "bytes \<Rightarrow> string + bytes"
  gzip_read :: "bytes \<Rightarrow> nat \<Rightarrow> string + bytes"

definition u32_from_le :: "bytes \<Rightarrow> u32" where
  "u32_from_le bs = u32_from_be (rev bs)"

definition decompressed_size_error :: "nat \<Rightarrow> nat \<Rightarrow> string" where
  "decompressed_size_error size_n max_n =
     ''decompressed message too large: '' @ nat_to_string size_n @ '' bytes > '' @
     nat_to_string max_n @ '' bytes''"

definition ensure_decompressed_size :: "nat \<Rightarrow> string + unit" where
  "ensure_decompressed_size n =
     (if n > MAX_MESSAGE_SIZE then Err (decompressed_size_error n MAX_MESSAGE_SIZE) else Ok ())"

definition compress :: "compressors \<Rightarrow> bytes \<Rightarrow> CompressionMode \<Rightarrow> string + bytes" where
  "compress cp d mode =
     (case mode of
        CompressNone \<Rightarrow> Ok d
      | Zstd \<Rightarrow> if zstd_enabled cp then zstd_encode_all cp d else Err ''zstd compression is disabled''
      | Lz4 \<Rightarrow> Ok (lz4_compress cp d)
      | Gzip \<Rightarrow> gzip_encode cp d)"

definition read_limited :: "(nat \<Rightarrow> string + bytes) \<Rightarrow> nat \<Rightarrow> string + bytes" where
  "read_limited reader max_size =
     and_then (reader (max_size + 1)) (\<lambda>d.
     and_then (ensure_decompressed_size (length d)) (\<lambda>_. Ok d))"

definition decompress_zstd :: "compressors \<Rightarrow> bytes \<Rightarrow> nat \<Rightarrow> string + bytes" where
  "decompress_zstd cp d max_size =
     (if zstd_enabled cp then read_limited (zstd_read cp d) max_size
      else Err ''zstd compression is disabled'')"

definition decompress_lz4 :: "compressors \<Rightarrow> bytes \<Rightarrow> nat \<Rightarrow> string + bytes" where
  "decompress_lz4 cp d max_size =
     (case get_range d 0 4 of
        None \<Rightarrow> Err ''lz4 payload is too short''
      | Some size_bytes \<Rightarrow>
          if unat (u32_from_le size_bytes) > max_size
          then Err (decompressed_size_error (unat (u32_from_le size_bytes)) max_size)
          else lz4_decompress cp d)"

definition decompress_gzip :: "compressors \<Rightarrow> bytes \<Rightarrow> nat \<Rightarrow> string + bytes" where
  "decompress_gzip cp d max_size = read_limited (gzip_read cp d) max_size"

definition decompress :: "compressors \<Rightarrow> bytes \<Rightarrow> CompressionMode \<Rightarrow> string + bytes" where
  "decompress cp d mode =
     and_then
       (case mode of
          CompressNone \<Rightarrow> and_then (ensure_decompressed_size (length d)) (\<lambda>_. Ok d)
        | Zstd \<Rightarrow> decompress_zstd cp d MAX_MESSAGE_SIZE
        | Lz4 \<Rightarrow> decompress_lz4 cp d MAX_MESSAGE_SIZE
        | Gzip \<Rightarrow> decompress_gzip cp d MAX_MESSAGE_SIZE)
       (\<lambda>out. and_then (ensure_decompressed_size (length out)) (\<lambda>_. Ok out))"

text \<open>What the crates document: decoding an encoding gives the input back; an LZ4 block is prefixed with its size.\<close>

definition compressors_ok :: "compressors \<Rightarrow> bool" where
  "compressors_ok cp \<longleftrightarrow>
     (\<forall>d c n. zstd_encode_all cp d = Inr c \<longrightarrow> zstd_read cp c n = Inr (take n d)) \<and>
     (\<forall>d c n. gzip_encode cp d = Inr c \<longrightarrow> gzip_read cp c n = Inr (take n d)) \<and>
     (\<forall>d. length d < 2 ^ 32 \<longrightarrow> lz4_decompress cp (lz4_compress cp d) = Inr d \<and>
        4 \<le> length (lz4_compress cp d) \<and>
        take 4 (lz4_compress cp d) = rev (u32_to_be (word_of_nat (length d))))"

section \<open>The message cipher\<close>

definition AES_KEY_SIZE :: nat where
  "AES_KEY_SIZE = 32"

definition NONCE_SIZE :: nat where
  "NONCE_SIZE = 12"

datatype ProtocolError =
    PIo string
  | PSerialization string
  | PEncryption string
  | PDecryption string
  | PInvalidMessage string
  | PAuthenticationFailed string
  | PInvalidKey string
  | PVersionMismatch
  | PMessageTooLarge nat

text \<open>\<open>AesGcmCipher\<close> is its key; the nonce of a call comes from the random number generator.\<close>

definition cipher_encrypt :: "crypto_suite \<Rightarrow> bytes \<Rightarrow> bytes \<Rightarrow> bytes \<Rightarrow> ProtocolError + bytes" where
  "cipher_encrypt cs key nonce d =
     and_then (ok_or (gcm_encrypt cs key nonce [] d) (PEncryption ''aead::Error''))
       (\<lambda>(ct, tag). Ok (nonce @ ct @ tag))"

definition cipher_decrypt :: "crypto_suite \<Rightarrow> bytes \<Rightarrow> bytes \<Rightarrow> ProtocolError + bytes" where
  "cipher_decrypt cs key d =
     (if length d < NONCE_SIZE then Err (PDecryption ''Data too short'')
      else ok_or (gcm_decrypt cs key (take NONCE_SIZE d) [] (drop NONCE_SIZE d))
             (PDecryption ''aead::Error''))"

section \<open>Cipher state and the message codec\<close>

record CipherState =
  st_cipher :: "bytes option"
  st_compression :: u8

definition cipher_state_new :: CipherState where
  "cipher_state_new = \<lparr>st_cipher = None, st_compression = 0\<rparr>"

definition cipher_state_with_compression :: "CompressionMode \<Rightarrow> CipherState" where
  "cipher_state_with_compression m = \<lparr>st_cipher = None, st_compression = to_flag m\<rparr>"

text \<open>\<open>OnceLock::set\<close>: the first key stays.\<close>

definition set_cipher :: "CipherState \<Rightarrow> bytes \<Rightarrow> CipherState" where
  "set_cipher st key = (case st_cipher st of None \<Rightarrow> st\<lparr>st_cipher := Some key\<rparr> | Some _ \<Rightarrow> st)"

definition set_compression :: "CipherState \<Rightarrow> CompressionMode \<Rightarrow> CipherState" where
  "set_compression st m = st\<lparr>st_compression := to_flag m\<rparr>"

definition compression_mode :: "CipherState \<Rightarrow> CompressionMode" where
  "compression_mode st = from_flag (st_compression st)"

text \<open>
  The frame codec of \<open>tokio_util\<close>: encoding appends to the output buffer; decoding takes its
  state and the input buffer.
\<close>

record 'st frame_codec =
  fc_init :: 'st
  fc_encode :: "bytes \<Rightarrow> string + bytes"
  fc_decode :: "'st \<Rightarrow> bytes \<Rightarrow> ('st \<times> bytes) \<times> (string + bytes option)"

definition frame_codec_ok :: "'st frame_codec \<Rightarrow> bool" where
  "frame_codec_ok fc \<longleftrightarrow>
     (\<forall>f e rest. fc_encode fc f = Inr e \<longrightarrow>
        fc_decode fc (fc_init fc) (e @ rest) = ((fc_init fc, rest), Inr (Some f)))"

definition MIN_COMPRESSION_SIZE :: nat where
  "MIN_COMPRESSION_SIZE = 64"

definition needs_crypto :: "MessageType \<Rightarrow> bool" where
  "needs_crypto t = True"

text \<open>The third-party functions one message codec uses, together.\<close>

record 'st codec_env =
  ce_suite :: crypto_suite
  ce_compressors :: compressors
  ce_message :: "Message bitcode"
  ce_frames :: "'st frame_codec"

definition message_encode ::
  "'st codec_env \<Rightarrow> CipherState \<Rightarrow> bytes \<Rightarrow> Message \<Rightarrow> bytes \<Rightarrow> string + bytes" where
  "message_encode env st nonce item dst =
     (let mode = compression_mode st;
          item1 = (if mode \<noteq> CompressNone \<and> length (msg_payload item) \<ge> MIN_COMPRESSION_SIZE then
             (case compress (ce_compressors env) (msg_payload item) mode of
                Inr compressed \<Rightarrow>
                  if length compressed < length (msg_payload item)
                  then item\<lparr>msg_payload := compressed, msg_compression := to_flag mode\<rparr> else item
              | Inl _ \<Rightarrow> item)
             else item)
      in and_then
           (case st_cipher st of
              Some key \<Rightarrow>
                if needs_crypto (msg_type item1) then
                  (case cipher_encrypt (ce_suite env) key nonce (msg_payload item1) of
                     Inl _ \<Rightarrow> Err ''encryption failed''
                   | Inr c \<Rightarrow> Ok (item1\<lparr>msg_payload := c\<rparr>))
                else Ok item1
            | None \<Rightarrow> Ok item1)
           (\<lambda>item2. and_then (bc_serialize (ce_message env) item2) (\<lambda>d.
              and_then (fc_encode (ce_frames env) d) (\<lambda>e. Ok (dst @ e)))))"

definition message_decode ::
  "'st codec_env \<Rightarrow> CipherState \<Rightarrow> 'st \<Rightarrow> bytes \<Rightarrow> ('st \<times> bytes) \<times> (string + Message option)" where
  "message_decode env st fs src =
     (let ((fs', src'), r) = fc_decode (ce_frames env) fs src
      in ((fs', src'),
          and_then r (\<lambda>frame. case frame of
            None \<Rightarrow> Ok None
          | Some f \<Rightarrow>
              and_then (bc_deserialize (ce_message env) f) (\<lambda>m.
              and_then
                (case st_cipher st of
                   Some key \<Rightarrow>
                     if needs_crypto (msg_type m) then
                       (case cipher_decrypt (ce_suite env) key (msg_payload m) of
                          Inl _ \<Rightarrow> Err ''decryption failed''
                        | Inr p \<Rightarrow> Ok (m\<lparr>msg_payload := p\<rparr>))
                     else Ok m
                 | None \<Rightarrow> Ok m)
                (\<lambda>m1.
                  let mode = from_flag (msg_compression m1)
                  in if mode \<noteq> CompressNone then
                       and_then (decompress (ce_compressors env) (msg_payload m1) mode) (\<lambda>p.
                         Ok (Some (m1\<lparr>msg_payload := p\<rparr>)))
                     else Ok (Some m1))))))"

section \<open>The two ends\<close>

fun request_type :: "ProxyRequest \<Rightarrow> MessageType" where
  "request_type (RequestAuth _) = MTAuthRequest"
| "request_type (RequestConnect _) = MTConnectRequest"
| "request_type (RequestData _) = MTData"

fun response_type :: "ProxyResponse \<Rightarrow> MessageType" where
  "response_type (ResponseAuth _) = MTAuthResponse"
| "response_type (ResponseConnect _) = MTConnectResponse"
| "response_type (ResponseData _) = MTData"
| "response_type (ResponseError _) = MTData"

definition typed_encode ::
  "'st codec_env \<Rightarrow> 'a bitcode \<Rightarrow> ('a \<Rightarrow> MessageType) \<Rightarrow> CipherState \<Rightarrow> bytes \<Rightarrow> 'a \<Rightarrow> bytes \<Rightarrow>
   string + bytes" where
  "typed_encode env bc ty st nonce item dst =
     and_then (bc_serialize bc item) (\<lambda>payload.
       message_encode env st nonce (message_new (ty item) payload) dst)"

definition typed_decode ::
  "'st codec_env \<Rightarrow> 'a bitcode \<Rightarrow> CipherState \<Rightarrow> 'st \<Rightarrow> bytes \<Rightarrow>
   ('st \<times> bytes) \<times> (string + 'a option)" where
  "typed_decode env bc st fs src =
     (let (p, r) = message_decode env st fs src
      in (p, and_then r (\<lambda>m. case m of
           None \<Rightarrow> Ok None
         | Some message \<Rightarrow> and_then (bc_deserialize bc (msg_payload message)) (\<lambda>v. Ok (Some v)))))"

definition agent_encode where
  "agent_encode env (bc :: ProxyRequest bitcode) st nonce item dst =
     typed_encode env bc request_type st nonce item dst"

definition agent_decode where
  "agent_decode env (bc :: ProxyResponse bitcode) st fs src = typed_decode env bc st fs src"

definition proxy_encode where
  "proxy_encode env (bc :: ProxyResponse bitcode) st nonce item dst =
     typed_encode env bc response_type st nonce item dst"

definition proxy_decode where
  "proxy_decode env (bc :: ProxyRequest bitcode) st fs src = typed_decode env bc st fs src"

section \<open>Compression round trip\<close>

lemma from_to_flag [simp]: "from_flag (to_flag m) = m"
  by (cases m) (simp_all add: from_flag_def)

lemma from_flag_0 [simp]: "from_flag 0 = CompressNone"
  by (simp add: from_flag_def)

lemma ensure_decompressed_size_Ok [simp]:
  "ensure_decompressed_size n = Inr u \<longleftrightarrow> n \<le> MAX_MESSAGE_SIZE"
  by (auto simp: ensure_decompressed_size_def)

lemma read_limited_whole:
  assumes "\<And>n. reader n = Inr (take n d)" and "length d \<le> MAX_MESSAGE_SIZE"
  shows "read_limited reader MAX_MESSAGE_SIZE = Inr d"
  using assms by (simp add: read_limited_def)

lemma decompress_compress:
  assumes cp: "compressors_ok cp" and c: "compress cp d mode = Inr c"
    and d: "length d \<le> MAX_MESSAGE_SIZE"
  shows "decompress cp c mode = Inr d"
proof (cases mode)
  case CompressNone
  then show ?thesis
    using c d by (simp add: compress_def decompress_def)
next
  case Zstd
  have enc: "zstd_enabled cp" "zstd_encode_all cp d = Inr c"
    using c Zstd by (auto simp: compress_def split: if_splits)
  then have "\<And>n. zstd_read cp c n = Inr (take n d)"
    using cp by (auto simp: compressors_ok_def)
  from read_limited_whole [of "zstd_read cp c", OF this d] show ?thesis
    using Zstd enc(1) d by (simp add: decompress_def decompress_zstd_def)
next
  case Lz4
  have lt: "length d < 2 ^ 32"
    using d by (simp add: MAX_MESSAGE_SIZE_def)
  have enc: "c = lz4_compress cp d"
    using c Lz4 by (auto simp: compress_def)
  then have "lz4_decompress cp c = Inr d" "4 \<le> length c"
    "take 4 c = rev (u32_to_be (word_of_nat (length d)))"
    using cp lt by (simp_all add: compressors_ok_def)
  moreover have "unat (word_of_nat (length d) :: u32) = length d"
    using lt by (simp add: unat_of_nat)
  ultimately show ?thesis
    using Lz4 d by (simp add: decompress_def decompress_lz4_def get_range_def u32_from_le_def)
next
  case Gzip
  have "\<And>n. gzip_read cp c n = Inr (take n d)"
    using c Gzip cp by (auto simp: compress_def compressors_ok_def)
  from read_limited_whole [of "gzip_read cp c", OF this d] show ?thesis
    using Gzip d by (simp add: decompress_def decompress_gzip_def)
qed

section \<open>Message round trip\<close>

definition env_ok :: "'st codec_env \<Rightarrow> bool" where
  "env_ok env \<longleftrightarrow> aead_ok (ce_suite env) \<and> compressors_ok (ce_compressors env) \<and>
     bitcode_roundtrip (ce_message env) \<and> frame_codec_ok (ce_frames env)"

lemma cipher_roundtrip:
  assumes "aead_ok cs" and "length nonce = NONCE_SIZE" and "cipher_encrypt cs key nonce p = Inr c"
  shows "cipher_decrypt cs key c = Inr p"
  using assms aead_okD(4) [OF assms(1)]
  by (auto simp: cipher_encrypt_def cipher_decrypt_def)

lemma message_roundtrip:
  assumes env: "env_ok env" and nonce: "length nonce = NONCE_SIZE"
    and len: "length (msg_payload item) \<le> MAX_MESSAGE_SIZE" and plain: "msg_compression item = 0"
    and same: "st_cipher st2 = st_cipher st1"
    and enc: "message_encode env st1 nonce item dst = Inr out"
  shows "\<exists>e. out = dst @ e \<and> (\<forall>rest. \<exists>m.
    message_decode env st2 (fc_init (ce_frames env)) (e @ rest) =
      ((fc_init (ce_frames env), rest), Inr (Some m)) \<and>
    msg_payload m = msg_payload item \<and> msg_type m = msg_type item \<and>
    msg_version m = msg_version item)"
proof -
  let ?mode = "compression_mode st1"
  note ok = env [unfolded env_ok_def]
  define item1 where "item1 = (if ?mode \<noteq> CompressNone \<and> length (msg_payload item) \<ge> MIN_COMPRESSION_SIZE then
     (case compress (ce_compressors env) (msg_payload item) ?mode of
        Inr compressed \<Rightarrow>
          if length compressed < length (msg_payload item)
          then item\<lparr>msg_payload := compressed, msg_compression := to_flag ?mode\<rparr> else item
      | Inl _ \<Rightarrow> item)
     else item)"
  have item1: "msg_type item1 = msg_type item" "msg_version item1 = msg_version item"
    "from_flag (msg_compression item1) = CompressNone \<and> item1 = item \<or>
     from_flag (msg_compression item1) \<noteq> CompressNone \<and>
     decompress (ce_compressors env) (msg_payload item1) (from_flag (msg_compression item1)) =
       Inr (msg_payload item)"
    using plain len ok decompress_compress
    by (auto simp: item1_def split: sum.splits)
  obtain item2 d e where e: "out = dst @ e" "bc_serialize (ce_message env) item2 = Inr d"
    "fc_encode (ce_frames env) d = Inr e"
    and i2: "item2 = item1 \<and> st_cipher st1 = None \<or>
      (\<exists>key c. st_cipher st1 = Some key \<and> cipher_encrypt (ce_suite env) key nonce (msg_payload item1) = Inr c \<and>
         item2 = item1\<lparr>msg_payload := c\<rparr>)"
    using enc unfolding message_encode_def Let_def item1_def [symmetric]
    by (auto simp: needs_crypto_def split: option.splits sum.splits)
  have frame: "fc_decode (ce_frames env) (fc_init (ce_frames env)) (e @ rest) =
      ((fc_init (ce_frames env), rest), Inr (Some d))" for rest
    using ok e(3) by (simp add: frame_codec_ok_def)
  have de: "bc_deserialize (ce_message env) d = Inr item2"
    using ok e(2) by (simp add: bitcode_roundtrip_def)
  have dec: "(case st_cipher st2 of Some key \<Rightarrow>
        if needs_crypto (msg_type item2) then
          (case cipher_decrypt (ce_suite env) key (msg_payload item2) of
             Inl _ \<Rightarrow> Err ''decryption failed'' | Inr p \<Rightarrow> Ok (item2\<lparr>msg_payload := p\<rparr>))
        else Ok item2
      | None \<Rightarrow> Ok item2) = Inr item1"
    using i2 same cipher_roundtrip [OF _ nonce] ok by (auto simp: needs_crypto_def)
  show ?thesis
    using item1 frame de dec e(1) by (auto simp: message_decode_def Let_def)
qed

lemma typed_roundtrip:
  assumes env: "env_ok env" and bc: "bitcode_roundtrip bc" and nonce: "length nonce = NONCE_SIZE"
    and same: "st_cipher st2 = st_cipher st1"
    and len: "\<And>p. bc_serialize bc x = Inr p \<Longrightarrow> length p \<le> MAX_MESSAGE_SIZE"
    and enc: "typed_encode env bc ty st1 nonce x dst = Inr out"
  shows "\<exists>e. out = dst @ e \<and> (\<forall>rest.
    typed_decode env bc st2 (fc_init (ce_frames env)) (e @ rest) =
      ((fc_init (ce_frames env), rest), Inr (Some x)))"
proof -
  obtain p where p: "bc_serialize bc x = Inr p"
    "message_encode env st1 nonce (message_new (ty x) p) dst = Inr out"
    using enc by (auto simp: typed_encode_def)
  have "length (msg_payload (message_new (ty x) p)) \<le> MAX_MESSAGE_SIZE"
    "msg_compression (message_new (ty x) p) = 0" "msg_payload (message_new (ty x) p) = p"
    using len [OF p(1)] by (simp_all add: message_new_def)
  with message_roundtrip [OF env nonce _ _ same p(2)]
  obtain e where e: "out = dst @ e" "\<forall>rest. \<exists>m.
      message_decode env st2 (fc_init (ce_frames env)) (e @ rest) =
        ((fc_init (ce_frames env), rest), Inr (Some m)) \<and> msg_payload m = p \<and>
      msg_type m = msg_type (message_new (ty x) p) \<and> msg_version m = msg_version (message_new (ty x) p)"
    by auto
  have "typed_decode env bc st2 (fc_init (ce_frames env)) (e @ rest) =
      ((fc_init (ce_frames env), rest), Inr (Some x))" for rest
    using e(2) [rule_format, of rest] bitcode_roundtripD [OF bc p(1)]
    by (auto simp: typed_decode_def)
  then show ?thesis
    using e(1) by blast
qed

lemma message_decode_keyed:
  assumes "message_decode env st fs src = (pos, Inr (Some m))" and "st_cipher st = Some key"
  obtains f m0 p where "snd (fc_decode (ce_frames env) fs src) = Inr (Some f)"
    "bc_deserialize (ce_message env) f = Inr m0"
    "cipher_decrypt (ce_suite env) key (msg_payload m0) = Inr p"
    "msg_payload m = p \<or>
      decompress (ce_compressors env) p (from_flag (msg_compression m0)) = Inr (msg_payload m)"
proof -
  obtain q frame where fd: "fc_decode (ce_frames env) fs src = (q, Inr (Some frame))"
    using assms(1)
    by (cases "fc_decode (ce_frames env) fs src")
      (auto simp: message_decode_def case_prod_beta split: option.splits)
  obtain m0 where d: "bc_deserialize (ce_message env) frame = Inr m0"
    using assms fd by (auto simp: message_decode_def case_prod_beta)
  obtain p where "cipher_decrypt (ce_suite env) key (msg_payload m0) = Inr p"
    using assms fd d
    by (cases "cipher_decrypt (ce_suite env) key (msg_payload m0)")
      (auto simp: message_decode_def case_prod_beta needs_crypto_def)
  note m0 = d this
  have "msg_payload m = p \<or>
      decompress (ce_compressors env) p (from_flag (msg_compression m0)) = Inr (msg_payload m)"
    using assms fd m0
    by (auto simp: message_decode_def case_prod_beta needs_crypto_def Let_def split: if_splits)
  then show ?thesis
    using that fd m0 by simp
qed

section \<open>Streams of messages\<close>

fun encode_stream ::
  "'st codec_env \<Rightarrow> 'a bitcode \<Rightarrow> ('a \<Rightarrow> MessageType) \<Rightarrow> CipherState \<Rightarrow> (bytes \<times> 'a) list \<Rightarrow> bytes \<Rightarrow>
   string + bytes" where
  "encode_stream env bc ty st [] dst = Ok dst"
| "encode_stream env bc ty st ((nonce, x) # xs) dst =
     and_then (typed_encode env bc ty st nonce x dst) (encode_stream env bc ty st xs)"

fun decode_stream ::
  "'st codec_env \<Rightarrow> 'a bitcode \<Rightarrow> CipherState \<Rightarrow> nat \<Rightarrow> 'st \<Rightarrow> bytes \<Rightarrow> bytes \<times> (string + 'a option) list" where
  "decode_stream env bc st 0 fs src = (src, [])"
| "decode_stream env bc st (Suc n) fs src =
     (let ((fs', src'), r) = typed_decode env bc st fs src;
          (left, rs) = decode_stream env bc st n fs' src'
      in (left, r # rs))"

lemma stream_roundtrip:
  assumes env: "env_ok env" and bc: "bitcode_roundtrip bc" and same: "st_cipher st2 = st_cipher st1"
    and "\<forall>(nonce, x)\<in>set xs. length nonce = NONCE_SIZE \<and>
      (\<forall>p. bc_serialize bc x = Inr p \<longrightarrow> length p \<le> MAX_MESSAGE_SIZE)"
    and "encode_stream env bc ty st1 xs dst = Inr out"
  shows "\<exists>e. out = dst @ e \<and> (\<forall>rest. decode_stream env bc st2 (length xs) (fc_init (ce_frames env)) (e @ rest) =
    (rest, map (\<lambda>(nonce, x). Inr (Some x)) xs))"
  using assms(4-)
proof (induction xs arbitrary: dst)
  case Nil
  then show ?case by simp
next
  case (Cons nx xs)
  obtain nonce x where nx: "nx = (nonce, x)"
    by fastforce
  obtain out1 where out1: "typed_encode env bc ty st1 nonce x dst = Inr out1"
    "encode_stream env bc ty st1 xs out1 = Inr out"
    using Cons.prems(2) nx by auto
  have "length nonce = NONCE_SIZE" "\<And>p. bc_serialize bc x = Inr p \<Longrightarrow> length p \<le> MAX_MESSAGE_SIZE"
    using Cons.prems(1) nx by auto
  from typed_roundtrip [OF env bc this(1) same this(2) out1(1)]
  obtain e1 where e1: "out1 = dst @ e1" "\<forall>rest.
      typed_decode env bc st2 (fc_init (ce_frames env)) (e1 @ rest) =
        ((fc_init (ce_frames env), rest), Inr (Some x))"
    by blast
  obtain e2 where e2: "out = out1 @ e2" "\<forall>rest. decode_stream env bc st2 (length xs) (fc_init (ce_frames env)) (e2 @ rest) =
      (rest, map (\<lambda>(nonce, x). Inr (Some x)) xs)"
    using Cons.IH [OF _ out1(2)] Cons.prems(1) by auto
  show ?case
    using e1 e2 nx by (intro exI [of _ "e1 @ e2"]) simp
qed

section \<open>An instance of the third-party functions\<close>

text \<open>
  Length-prefixed frames, a byte-wise serialiser and compressors that only add the LZ4 size
  prefix: they satisfy the laws, and the witnesses run on them.
\<close>

definition plain_frames :: "unit frame_codec" where
  "plain_frames = \<lparr>fc_init = (),
     fc_encode = (\<lambda>f. if length f \<le> MAX_MESSAGE_SIZE
       then Inr (u32_to_be (word_of_nat (length f)) @ f) else Inl ''frame too large''),
     fc_decode = (\<lambda>_ src. let n = unat (u32_from_be (take 4 src))
       in if length src < 4 \<or> length src < 4 + n then (((), src), Inr None)
          else (((), drop (4 + n) src), Inr (Some (take n (drop 4 src)))))\<rparr>"

fun message_type_flag :: "MessageType \<Rightarrow> u8" where
  "message_type_flag MTAuthRequest = 1"
| "message_type_flag MTAuthResponse = 2"
| "message_type_flag MTConnectRequest = 3"
| "message_type_flag MTConnectResponse = 4"
| "message_type_flag MTData = 5"

definition plain_message :: "Message bitcode" where
  "plain_message =
     \<lparr>bc_serialize = (\<lambda>m. Inr (msg_version m # message_type_flag (msg_type m) # msg_compression m # msg_payload m)),
      bc_deserialize = (\<lambda>bs. case bs of
        v # t # c # p \<Rightarrow> Inr \<lparr>msg_version = v, msg_type = (if t = 1 then MTAuthRequest
            else if t = 2 then MTAuthResponse else if t = 3 then MTConnectRequest
            else if t = 4 then MTConnectResponse else MTData), msg_compression = c, msg_payload = p\<rparr>
      | _ \<Rightarrow> Inl ''short'')\<rparr>"

definition plain_compressors :: compressors where
  "plain_compressors = \<lparr>zstd_enabled = True, zstd_encode_all = Inr, zstd_read = (\<lambda>c n. Inr (take n c)),
     lz4_compress = (\<lambda>d. rev (u32_to_be (word_of_nat (length d))) @ d),
     lz4_decompress = (\<lambda>c. Inr (drop 4 c)), gzip_encode = Inr, gzip_read = (\<lambda>c n. Inr (take n c))\<rparr>"

definition plain_env :: "unit codec_env" where
  "plain_env = \<lparr>ce_suite = plain_suite, ce_compressors = plain_compressors,
     ce_message = plain_message, ce_frames = plain_frames\<rparr>"

definition plain_request :: "ProxyRequest bitcode" where
  "plain_request =
     \<lparr>bc_serialize = (\<lambda>r. case r of
        RequestData p \<Rightarrow> if dp_stream_id p = [] \<and> \<not> dp_is_end p then Inr (dp_data p) else Inl ''packet''
      | _ \<Rightarrow> Inl ''kind''),
      bc_deserialize = (\<lambda>bs. Inr (RequestData \<lparr>dp_stream_id = [], dp_data = bs, dp_is_end = False\<rparr>))\<rparr>"

lemma plain_frames_ok: "frame_codec_ok plain_frames"
proof -
  have "unat (word_of_nat n :: u32) = n" if "n \<le> MAX_MESSAGE_SIZE" for n
    using that by (simp add: unat_of_nat MAX_MESSAGE_SIZE_def)
  then show ?thesis
    by (auto simp: frame_codec_ok_def plain_frames_def Let_def split: if_splits)
qed

lemma plain_message_ok: "bitcode_roundtrip plain_message"
proof -
  have "(if message_type_flag t = 1 then MTAuthRequest else if message_type_flag t = 2 then MTAuthResponse
    else if message_type_flag t = 3 then MTConnectRequest
    else if message_type_flag t = 4 then MTConnectResponse else MTData) = t" for t
    by (cases t) simp_all
  then show ?thesis
    by (auto simp: bitcode_roundtrip_def plain_message_def)
qed

lemma plain_env_ok: "env_ok plain_env"
  unfolding env_ok_def plain_env_def
  using plain_suite_ok plain_frames_ok plain_message_ok
  by (simp add: compressors_ok_def plain_compressors_def)

lemma plain_request_ok: "bitcode_roundtrip plain_request"
  by (auto simp: bitcode_roundtrip_def plain_request_def split: ProxyRequest.splits if_splits)

section \<open>Properties\<close>

text \<open>
  C10. Streams of framed messages are read back exactly: whatever one end encodes into its
  buffer with some cipher key (or none) and some compression mode, the other end with the
  same key decodes to the same messages in the same order, consuming exactly those bytes and
  leaving the rest of the buffer alone. The receiver's own compression mode does not matter.
\<close>

theorem framed_stream_roundtrip:
  assumes "env_ok env" and "bitcode_roundtrip bc" and "st_cipher st2 = st_cipher st1"
    and "\<forall>(nonce, x)\<in>set xs. length nonce = NONCE_SIZE \<and>
      (\<forall>p. bc_serialize bc x = Inr p \<longrightarrow> length p \<le> MAX_MESSAGE_SIZE)"
    and "encode_stream env bc ty st1 xs [] = Inr out"
  shows "decode_stream env bc st2 (length xs) (fc_init (ce_frames env)) (out @ rest) =
    (rest, map (\<lambda>(nonce, x). Inr (Some x)) xs)"
  using stream_roundtrip [OF assms] by auto

theorem framed_stream_roundtrip_witness:
  "\<exists>out. encode_stream plain_env plain_request request_type
     \<lparr>st_cipher = Some [1], st_compression = 2\<rparr>
     [(replicate 12 3, RequestData \<lparr>dp_stream_id = [], dp_data = [7, 8], dp_is_end = False\<rparr>)] [] = Inr out \<and>
   decode_stream plain_env plain_request \<lparr>st_cipher = Some [1], st_compression = 0\<rparr> 1 () (out @ [9]) =
     ([9], [Inr (Some (RequestData \<lparr>dp_stream_id = [], dp_data = [7, 8], dp_is_end = False\<rparr>))])"
proof -
  let ?x = "(replicate 12 3, RequestData \<lparr>dp_stream_id = [], dp_data = [7, 8], dp_is_end = False\<rparr>)"
  let ?st = "\<lparr>st_cipher = Some [1], st_compression = 2\<rparr>"
  obtain out where out: "encode_stream plain_env plain_request request_type ?st [?x] [] = Inr out"
    by (simp add: typed_encode_def message_encode_def message_new_def plain_request_def plain_env_def
        plain_suite_def plain_message_def plain_frames_def cipher_encrypt_def needs_crypto_def
        compression_mode_def from_flag_def MIN_COMPRESSION_SIZE_def MAX_MESSAGE_SIZE_def)
  have init: "fc_init (ce_frames plain_env) = ()"
    by simp
  show ?thesis
    using framed_stream_roundtrip [OF plain_env_ok plain_request_ok _ _ out, of
        "\<lparr>st_cipher = Some [1], st_compression = 0\<rparr>" "[9]"] out
    by (auto simp: NONCE_SIZE_def plain_request_def MAX_MESSAGE_SIZE_def simp del: decode_stream.simps)
qed

text \<open>
  C21. Once a connection has its key, every message it accepts was encrypted under that key:
  the decoded frame carries a nonce followed by an encryption, and installing another key
  later has no effect.
\<close>

theorem framed_authentic:
  assumes "aead_ok (ce_suite env)"
    and "message_decode env (set_cipher (set_cipher st key) key') fs src = (pos, Inr (Some m))"
    and "st_cipher st = None"
  shows "\<exists>f m0 nonce ct tag p.
    snd (fc_decode (ce_frames env) fs src) = Inr (Some f) \<and>
    bc_deserialize (ce_message env) f = Inr m0 \<and> msg_payload m0 = nonce @ ct @ tag \<and>
    length nonce = NONCE_SIZE \<and> gcm_encrypt (ce_suite env) key nonce [] p = Some (ct, tag) \<and>
    (msg_payload m = p \<or> decompress (ce_compressors env) p (from_flag (msg_compression m0)) = Inr (msg_payload m))"
proof -
  have key: "st_cipher (set_cipher (set_cipher st key) key') = Some key"
    using assms(3) by (simp add: set_cipher_def)
  obtain f m0 p where f: "snd (fc_decode (ce_frames env) fs src) = Inr (Some f)"
    "bc_deserialize (ce_message env) f = Inr m0"
    "cipher_decrypt (ce_suite env) key (msg_payload m0) = Inr p"
    "msg_payload m = p \<or> decompress (ce_compressors env) p (from_flag (msg_compression m0)) = Inr (msg_payload m)"
    using message_decode_keyed [OF assms(2) key] .
  let ?n = "take NONCE_SIZE (msg_payload m0)"
  have "length ?n = NONCE_SIZE"
    and dec: "gcm_decrypt (ce_suite env) key ?n [] (drop NONCE_SIZE (msg_payload m0)) = Some p"
    using f(3) by (auto simp: cipher_decrypt_def split: if_splits)
  moreover obtain ct tag where "gcm_encrypt (ce_suite env) key ?n [] p = Some (ct, tag)"
    "drop NONCE_SIZE (msg_payload m0) = ct @ tag"
    using aead_okD(5) [OF assms(1) dec] by blast
  ultimately show ?thesis
    using f by (metis append_take_drop_id)
qed

theorem framed_authentic_witness:
  "\<exists>m. message_decode plain_env (set_cipher (set_cipher cipher_state_new [1]) [2]) ()
       ([0, 0, 0, 32] @ [1, 5, 0] @ replicate 12 3 @ [7] @ replicate 16 0) = (((), []), Inr (Some m)) \<and>
     msg_payload m = [7]"
proof -
  have ok: "aead_ok (ce_suite plain_env)"
    using plain_env_ok by (simp add: env_ok_def)
  let ?src = "[0, 0, 0, 32] @ [1, 5, 0] @ replicate 12 3 @ [7] @ replicate 16 0 :: bytes"
  let ?m = "\<lparr>msg_version = 1, msg_type = MTData, msg_compression = 0, msg_payload = [7]\<rparr>"
  have dec: "message_decode plain_env (set_cipher (set_cipher cipher_state_new [1]) [2]) () ?src =
      (((), []), Inr (Some ?m))"
    by (simp add: message_decode_def plain_env_def plain_frames_def plain_message_def plain_suite_def
        set_cipher_def cipher_state_new_def cipher_decrypt_def needs_crypto_def NONCE_SIZE_def
        u32_from_be_def nat_of_be_def Let_def eval_bytes)
  from framed_authentic [OF ok dec] show ?thesis
    using dec by (auto simp: cipher_state_new_def)
qed

end
