(* ===== verification/Config.thy ===== *)
theory Config
  imports Framed_Codec
begin

text \<open>
  Configuration values: the Yamux settings of both sides (\<open>common/src/yamux_settings.rs\<close>),
  the outer transport mode (\<open>common/src/transport.rs\<close>), the proxy configuration with its
  defaults (\<open>proxy/src/config/proxy_config.rs\<close>) and the identifier generator
  (\<open>common/src/lib.rs\<close>). Durations are milliseconds. Reading a TOML file is the work of the
  \<open>toml\<close> crate; the records are what it produces.
\<close>

definition from_secs :: "u64 \<Rightarrow> nat" where
  "from_secs s = unat s * 1000"

section \<open>Yamux settings\<close>

definition DEFAULT_YAMUX_SESSIONS :: nat where "DEFAULT_YAMUX_SESSIONS = 5"
definition DEFAULT_YAMUX_MAX_STREAMS_PER_SESSION :: nat where "DEFAULT_YAMUX_MAX_STREAMS_PER_SESSION = 32"
definition DEFAULT_YAMUX_OPEN_STREAM_TIMEOUT_SECS :: u64 where "DEFAULT_YAMUX_OPEN_STREAM_TIMEOUT_SECS = 10"
definition DEFAULT_YAMUX_KEEPALIVE_INTERVAL_SECS :: u64 where "DEFAULT_YAMUX_KEEPALIVE_INTERVAL_SECS = 30"
definition DEFAULT_YAMUX_CONNECTION_WRITE_TIMEOUT_SECS :: u64 where "DEFAULT_YAMUX_CONNECTION_WRITE_TIMEOUT_SECS = 300"
definition MIN_YAMUX_STREAM_WINDOW_SIZE_KB :: nat where "MIN_YAMUX_STREAM_WINDOW_SIZE_KB = 256"
definition DEFAULT_YAMUX_STREAM_WINDOW_SIZE_KB :: nat where "DEFAULT_YAMUX_STREAM_WINDOW_SIZE_KB = 8192"
definition DEFAULT_YAMUX_SERVER_MAX_STREAMS_PER_SESSION :: nat where "DEFAULT_YAMUX_SERVER_MAX_STREAMS_PER_SESSION = 128"
definition DEFAULT_YAMUX_SERVER_CONNECTION_WRITE_TIMEOUT_SECS :: u64 where "DEFAULT_YAMUX_SERVER_CONNECTION_WRITE_TIMEOUT_SECS = 300"
definition DEFAULT_YAMUX_SERVER_STREAM_WINDOW_SIZE_KB :: nat where "DEFAULT_YAMUX_SERVER_STREAM_WINDOW_SIZE_KB = 8192"

lemmas yamux_constants =
  DEFAULT_YAMUX_SESSIONS_def DEFAULT_YAMUX_MAX_STREAMS_PER_SESSION_def
  DEFAULT_YAMUX_OPEN_STREAM_TIMEOUT_SECS_def DEFAULT_YAMUX_KEEPALIVE_INTERVAL_SECS_def
  DEFAULT_YAMUX_CONNECTION_WRITE_TIMEOUT_SECS_def MIN_YAMUX_STREAM_WINDOW_SIZE_KB_def
  DEFAULT_YAMUX_STREAM_WINDOW_SIZE_KB_def DEFAULT_YAMUX_SERVER_MAX_STREAMS_PER_SESSION_def
  DEFAULT_YAMUX_SERVER_CONNECTION_WRITE_TIMEOUT_SECS_def
  DEFAULT_YAMUX_SERVER_STREAM_WINDOW_SIZE_KB_def

record YamuxServerConfig =
  ys_max_streams_per_session :: nat
  ys_keepalive_interval_secs :: u64
  ys_connection_write_timeout_secs :: u64
  ys_stream_window_size_kb :: nat

definition yamux_server_config_default :: YamuxServerConfig where
  "yamux_server_config_default =
     \<lparr>ys_max_streams_per_session = DEFAULT_YAMUX_SERVER_MAX_STREAMS_PER_SESSION,
      ys_keepalive_interval_secs = DEFAULT_YAMUX_KEEPALIVE_INTERVAL_SECS,
      ys_connection_write_timeout_secs = DEFAULT_YAMUX_SERVER_CONNECTION_WRITE_TIMEOUT_SECS,
      ys_stream_window_size_kb = DEFAULT_YAMUX_SERVER_STREAM_WINDOW_SIZE_KB\<rparr>"

record YamuxTransportConfig =
  yt_sessions :: nat
  yt_max_streams_per_session :: nat
  yt_open_stream_timeout_secs :: u64
  yt_keepalive_interval_secs :: u64
  yt_connection_write_timeout_secs :: u64
  yt_stream_window_size_kb :: nat

definition yamux_transport_config_default :: YamuxTransportConfig where
  "yamux_transport_config_default =
     \<lparr>yt_sessions = DEFAULT_YAMUX_SESSIONS,
      yt_max_streams_per_session = DEFAULT_YAMUX_MAX_STREAMS_PER_SESSION,
      yt_open_stream_timeout_secs = DEFAULT_YAMUX_OPEN_STREAM_TIMEOUT_SECS,
      yt_keepalive_interval_secs = DEFAULT_YAMUX_KEEPALIVE_INTERVAL_SECS,
      yt_connection_write_timeout_secs = DEFAULT_YAMUX_CONNECTION_WRITE_TIMEOUT_SECS,
      yt_stream_window_size_kb = DEFAULT_YAMUX_STREAM_WINDOW_SIZE_KB\<rparr>"

record YamuxSettings =
  yx_max_streams_per_session :: nat
  yx_open_stream_timeout :: nat
  yx_keepalive_interval :: "nat option"
  yx_connection_write_timeout :: nat
  yx_stream_window_size_kb :: nat

definition server_settings :: "YamuxServerConfig \<Rightarrow> YamuxSettings" where
  "server_settings c =
     \<lparr>yx_max_streams_per_session = max (ys_max_streams_per_session c) 1,
      yx_open_stream_timeout = from_secs DEFAULT_YAMUX_OPEN_STREAM_TIMEOUT_SECS,
      yx_keepalive_interval = (if ys_keepalive_interval_secs c = 0 then None
        else Some (from_secs (ys_keepalive_interval_secs c))),
      yx_connection_write_timeout = from_secs (max (ys_connection_write_timeout_secs c) 1),
      yx_stream_window_size_kb = max (ys_stream_window_size_kb c) MIN_YAMUX_STREAM_WINDOW_SIZE_KB\<rparr>"

definition session_count :: "YamuxTransportConfig \<Rightarrow> nat" where
  "session_count c = max (yt_sessions c) 1"

definition transport_settings :: "YamuxTransportConfig \<Rightarrow> YamuxSettings" where
  "transport_settings c =
     \<lparr>yx_max_streams_per_session = max (yt_max_streams_per_session c) 1,
      yx_open_stream_timeout = from_secs (max (yt_open_stream_timeout_secs c) 1),
      yx_keepalive_interval = (if yt_keepalive_interval_secs c = 0 then None
        else Some (from_secs (yt_keepalive_interval_secs c))),
      yx_connection_write_timeout = from_secs (max (yt_connection_write_timeout_secs c) 1),
      yx_stream_window_size_kb = max (yt_stream_window_size_kb c) MIN_YAMUX_STREAM_WINDOW_SIZE_KB\<rparr>"

record YamuxConfig =
  yc_udp :: YamuxTransportConfig

definition udp_session_count :: "YamuxConfig \<Rightarrow> nat" where
  "udp_session_count c = session_count (yc_udp c)"

definition udp_settings :: "YamuxConfig \<Rightarrow> YamuxSettings" where
  "udp_settings c = transport_settings (yc_udp c)"

text \<open>The configuration value of \<open>tokio_yamux\<close> that the settings are turned into.\<close>

record TokioYamuxConfig =
  ty_accept_backlog :: nat
  ty_enable_keepalive :: bool
  ty_keepalive_interval :: nat
  ty_connection_write_timeout :: nat
  ty_max_stream_count :: nat
  ty_max_stream_window_size :: u32

definition saturating_mul_usize :: "nat \<Rightarrow> nat \<Rightarrow> nat" where
  "saturating_mul_usize a b = min (a * b) usize_max"

definition to_tokio_config :: "YamuxSettings \<Rightarrow> TokioYamuxConfig" where
  "to_tokio_config s =
     (let max_streams = max (yx_max_streams_per_session s) 1;
          window = min (saturating_mul_usize
            (max (yx_stream_window_size_kb s) MIN_YAMUX_STREAM_WINDOW_SIZE_KB) 1024) (2 ^ 32 - 1)
      in \<lparr>ty_accept_backlog = max_streams,
          ty_enable_keepalive = (yx_keepalive_interval s \<noteq> None),
          ty_keepalive_interval = (case yx_keepalive_interval s of
             Some d \<Rightarrow> d | None \<Rightarrow> from_secs DEFAULT_YAMUX_KEEPALIVE_INTERVAL_SECS),
          ty_connection_write_timeout = yx_connection_write_timeout s,
          ty_max_stream_count = max_streams,
          ty_max_stream_window_size = word_of_nat window\<rparr>)"

section \<open>Transport mode\<close>

datatype TransportMode = ModeAuto | ModeUdp | ModeTcp

fun transport_mode_str :: "TransportMode \<Rightarrow> string" where
  "transport_mode_str ModeAuto = ''auto''"
| "transport_mode_str ModeUdp = ''udp''"
| "transport_mode_str ModeTcp = ''tcp''"

definition uses_native_udp_for :: "TransportMode \<Rightarrow> TransportProtocol \<Rightarrow> bool" where
  "uses_native_udp_for m t \<longleftrightarrow> (m = ModeAuto \<or> m = ModeUdp) \<and> t = Udp"

definition automatically_falls_back_to_tcp :: "TransportMode \<Rightarrow> bool" where
  "automatically_falls_back_to_tcp m \<longleftrightarrow> m = ModeAuto"

section \<open>Proxy configuration\<close>

record ProxyConfig =
  pc_listen_addr :: string
  pc_users_path :: string
  pc_async_runtime_stack_size_mb :: nat
  pc_log_level :: string
  pc_log_dir :: "string option"
  pc_log_file :: string
  pc_runtime_threads :: "nat option"
  pc_compression_mode :: string
  pc_replay_attack_tolerance :: i64
  pc_yamux :: YamuxServerConfig
  pc_yamux_session_idle_timeout_secs :: u64
  pc_forward_mode :: bool
  pc_upstream_proxy_addrs :: "string list option"
  pc_upstream_username :: "string option"
  pc_upstream_private_key_path :: "string option"
  pc_outbound_interface :: "string option"
  pc_dns_upstream_addr :: "string option"
  pc_connect_timeout_secs :: u64
  pc_tcp_relay_idle_timeout_secs :: u64
  pc_tcp_relay_half_close_idle_timeout_secs :: u64
  pc_auth_timeout_secs :: u64
  pc_udp_relay_idle_timeout_secs :: u64
  pc_udp_relay_channel_size :: nat
  pc_udp_relay_max_flows :: nat
  pc_udp_session_limit :: nat
  pc_udp_session_channel_size :: nat
  pc_udp_session_max_flows :: nat

text \<open>The configuration of a file that sets only the listen address: every serde default.\<close>

definition proxy_config_default :: "string \<Rightarrow> ProxyConfig" where
  "proxy_config_default addr =
     \<lparr>pc_listen_addr = addr, pc_users_path = ''users.toml'', pc_async_runtime_stack_size_mb = 2,
      pc_log_level = ''info'', pc_log_dir = None, pc_log_file = ''proxy.log'',
      pc_runtime_threads = Some 8, pc_compression_mode = ''none'',
      pc_replay_attack_tolerance = 300, pc_yamux = yamux_server_config_default,
      pc_yamux_session_idle_timeout_secs = 300, pc_forward_mode = False,
      pc_upstream_proxy_addrs = None, pc_upstream_username = None,
      pc_upstream_private_key_path = None, pc_outbound_interface = None,
      pc_dns_upstream_addr = None, pc_connect_timeout_secs = 30,
      pc_tcp_relay_idle_timeout_secs = 60, pc_tcp_relay_half_close_idle_timeout_secs = 30,
      pc_auth_timeout_secs = 30, pc_udp_relay_idle_timeout_secs = 60,
      pc_udp_relay_channel_size = 64, pc_udp_relay_max_flows = 256, pc_udp_session_limit = 4096,
      pc_udp_session_channel_size = 256, pc_udp_session_max_flows = 256\<rparr>"

definition get_compression_mode :: "ProxyConfig \<Rightarrow> CompressionMode" where
  "get_compression_mode c = compression_from_str (pc_compression_mode c)"

section \<open>Identifiers\<close>

text \<open>\<open>generate_id\<close>: the counter is the process-wide atomic, threaded through as a state.\<close>

definition generate_id :: "u64 \<Rightarrow> i64 \<Rightarrow> u64 \<times> string" where
  "generate_id counter timestamp =
     (counter + 1, int_to_string (sint timestamp) @ ''-'' @ nat_to_string (unat counter))"

section \<open>Properties\<close>

lemma max_one_pos: "0 < unat (max (w :: u64) 1)"
proof -
  have "1 \<le> max w 1"
    by simp
  then have "unat (1 :: u64) \<le> unat (max w 1)"
    by (simp only: word_le_nat_alt)
  then show ?thesis
    by simp
qed

definition tokio_usable :: "YamuxSettings \<Rightarrow> bool" where
  "tokio_usable s \<longleftrightarrow>
     (let c = to_tokio_config s in
       0 < ty_max_stream_count c \<and> ty_accept_backlog c = ty_max_stream_count c \<and>
       0 < ty_connection_write_timeout c \<and> 0 < yx_open_stream_timeout s \<and>
       0 < ty_keepalive_interval c \<and>
       unat (ty_max_stream_window_size c) =
         max (256 * 1024) (min (yx_stream_window_size_kb s * 1024) (2 ^ 32 - 1)))"

lemma window_size:
  "unat (word_of_nat (min (saturating_mul_usize (max kb MIN_YAMUX_STREAM_WINDOW_SIZE_KB) 1024) (2 ^ 32 - 1)) :: u32) =
   max (256 * 1024) (min (kb * 1024) (2 ^ 32 - 1))"
proof -
  have "min (saturating_mul_usize (max kb MIN_YAMUX_STREAM_WINDOW_SIZE_KB) 1024) (2 ^ 32 - 1) =
      max (256 * 1024) (min (kb * 1024) (2 ^ 32 - 1))"
    by (simp add: saturating_mul_usize_def MIN_YAMUX_STREAM_WINDOW_SIZE_KB_def usize_max_def
        min_def max_def)
  then show ?thesis
    by (simp add: unat_of_nat max_def min_def)
qed

lemma tokio_usableI:
  assumes "0 < yx_open_stream_timeout s" and "0 < yx_connection_write_timeout s"
    and "yx_keepalive_interval s \<noteq> Some 0"
  shows "tokio_usable s"
  using assms window_size [of "yx_stream_window_size_kb s"]
  by (auto simp: tokio_usable_def to_tokio_config_def Let_def from_secs_def
      DEFAULT_YAMUX_KEEPALIVE_INTERVAL_SECS_def split: option.splits)

text \<open>
  Whatever numbers a configuration file holds, the settings handed to the multiplexer are
  usable: at least one stream and as many pending ones, positive timeouts and keepalive
  interval, and a stream window that is the configured one clamped between 256 KiB and the
  largest 32-bit value, without wrap-around.
\<close>

theorem yamux_settings_usable:
  "tokio_usable (server_settings sc) \<and> tokio_usable (transport_settings tc) \<and>
   ty_enable_keepalive (to_tokio_config (server_settings sc)) = (ys_keepalive_interval_secs sc \<noteq> 0) \<and>
   ty_enable_keepalive (to_tokio_config (transport_settings tc)) = (yt_keepalive_interval_secs tc \<noteq> 0)"
  using max_one_pos
  by (auto intro!: tokio_usableI simp: server_settings_def transport_settings_def from_secs_def
      DEFAULT_YAMUX_OPEN_STREAM_TIMEOUT_SECS_def unat_eq_zero to_tokio_config_def Let_def)

end
