(* ===== verification/Users.thy ===== *)
theory Users
  imports Config
begin

text \<open>
  The users of the proxy (\<open>proxy/src/config/user_config.rs\<close>, \<open>users_config.rs\<close>,
  \<open>proxy/src/user_manager.rs\<close>): expiry times, the consistency check made at start-up and the
  lookup used by authentication. The RFC 3339 parser of the \<open>time\<close> crate is a parameter. Error
  texts are given in ASCII.
\<close>

section \<open>Errors and user entries\<close>

datatype ProxyError =
    ErrIo string
  | ErrProtocol ProtocolError
  | ErrConnection string
  | ErrAuthentication string
  | ErrUserNotFound string
  | ErrConfiguration string

type_synonym 'a proxy_result = "ProxyError + 'a"

record UserConfig =
  uc_username :: string
  uc_public_key_pem :: string
  uc_expires_at :: "string option"

type_synonym rfc3339 = "string \<Rightarrow> string + i64"

definition parse_expires_at :: "rfc3339 \<Rightarrow> string \<Rightarrow> string \<Rightarrow> i64 proxy_result" where
  "parse_expires_at rfc username expires_at =
     (let text = trim expires_at
      in if text = [] then Err (ErrConfiguration ''expires_at must not be empty'')
         else case parse_i64 text of
           Some timestamp \<Rightarrow> Ok (word_of_int timestamp)
         | None \<Rightarrow> map_err (\<lambda>e. ErrConfiguration ''invalid expires_at'') (rfc text))"

definition expires_at_unix_timestamp :: "rfc3339 \<Rightarrow> UserConfig \<Rightarrow> i64 option proxy_result" where
  "expires_at_unix_timestamp rfc u =
     (case uc_expires_at u of
        None \<Rightarrow> Ok None
      | Some e \<Rightarrow> and_then (parse_expires_at rfc (uc_username u) e) (\<lambda>t. Ok (Some t)))"

definition is_expired_at :: "rfc3339 \<Rightarrow> UserConfig \<Rightarrow> i64 \<Rightarrow> bool proxy_result" where
  "is_expired_at rfc u current_timestamp =
     and_then (expires_at_unix_timestamp rfc u) (\<lambda>t. Ok
       (case t of None \<Rightarrow> False | Some e \<Rightarrow> i64_ge current_timestamp e))"

text \<open>A TOML value as the deserialiser sees it; a date-time is given by its text.\<close>

datatype TomlValue = TomlString string | TomlDatetime string | TomlInteger i64 | TomlOther

definition deserialize_expires_at :: "TomlValue option \<Rightarrow> string + string option" where
  "deserialize_expires_at v =
     (case v of
        None \<Rightarrow> Ok None
      | Some (TomlString s) \<Rightarrow> Ok (Some s)
      | Some (TomlDatetime s) \<Rightarrow> Ok (Some s)
      | Some (TomlInteger i) \<Rightarrow> Ok (Some (int_to_string (sint i)))
      | Some TomlOther \<Rightarrow>
          Err ''expires_at must be a RFC3339 datetime string or Unix timestamp'')"

section \<open>The user table\<close>

text \<open>\<open>UsersConfig\<close> is a \<open>BTreeMap\<close>: an association list, in key order, with distinct keys.\<close>

record UsersConfig =
  us_users :: "(string \<times> UserConfig) list"

definition normalize_username :: "string \<Rightarrow> string proxy_result" where
  "normalize_username name =
     (let username = trim name
      in if username = [] then Err (ErrConfiguration ''username must not be empty'')
         else if list_ex (\<lambda>c. c \<in> set [CHR ''/'', CHR 0x5C, CHR '':'', CHR ''*'', CHR ''?'',
                   CHR 0x22, CHR ''<'', CHR ''>'', CHR ''|'']) username \<or>
                 contains_str ''..'' username \<or> has_control username
           then Err (ErrConfiguration (''username contains illegal path characters: '' @ username))
         else Ok username)"

fun validate_entries :: "rfc3339 \<Rightarrow> (string \<times> UserConfig) list \<Rightarrow> unit proxy_result" where
  "validate_entries rfc [] = Ok ()"
| "validate_entries rfc ((key, user) # rest) =
     and_then (normalize_username (uc_username user)) (\<lambda>normalized.
       if key \<noteq> normalized then Err (ErrConfiguration ''key and username differ'')
       else and_then (expires_at_unix_timestamp rfc user) (\<lambda>_. validate_entries rfc rest))"

definition validate_users :: "rfc3339 \<Rightarrow> UsersConfig \<Rightarrow> unit proxy_result" where
  "validate_users rfc us = validate_entries rfc (us_users us)"

record UserManager =
  um_users :: UsersConfig

text \<open>\<open>UserManager::new\<close> after the file has been read.\<close>

definition user_manager_new :: "rfc3339 \<Rightarrow> UsersConfig \<Rightarrow> UserManager proxy_result" where
  "user_manager_new rfc us = and_then (validate_users rfc us) (\<lambda>_. Ok \<lparr>um_users = us\<rparr>)"

definition get_user :: "UserManager \<Rightarrow> string \<Rightarrow> UserConfig option proxy_result" where
  "get_user um username = Ok (map_of (us_users (um_users um)) username)"

section \<open>Facts\<close>

lemma trim_id:
  assumes "\<And>w. w \<in> set whitespace \<Longrightarrow> \<not> prefix w s" and "\<And>w. w \<in> set whitespace \<Longrightarrow> \<not> suffix w s"
  shows "trim s = s"
proof -
  have "find (\<lambda>w. prefix w s) whitespace = None"
    using assms(1) by (simp add: find_None_iff)
  then have start: "trim_start s = s"
    by (simp add: trim_start.simps [of s])
  have none: "find (\<lambda>w. w \<noteq> [] \<and> suffix w s) whitespace = None"
    using assms(2) by (auto simp: find_None_iff)
  have "foldl (\<lambda>t n. case find (\<lambda>w. w \<noteq> [] \<and> suffix w t) whitespace of
       None \<Rightarrow> t | Some w \<Rightarrow> take (length t - length w) t) s ns = s" for ns :: "nat list"
    by (induction ns) (simp_all add: none)
  then show ?thesis
    by (simp add: trim_def trim_end_def start)
qed

definition plain_char :: "char \<Rightarrow> bool" where
  "plain_char c \<longleftrightarrow> is_digit c \<or> c = CHR ''-''"

lemma whitespace_not_plain:
  "list_all (\<lambda>w. w \<noteq> [] \<and> \<not> plain_char (hd w) \<and> \<not> plain_char (last w)) whitespace"
  by (simp add: whitespace_def plain_char_def is_digit_def)

lemma trim_plain:
  assumes "list_all plain_char s"
  shows "trim s = s"
proof (rule trim_id)
  fix w
  assume "w \<in> set whitespace"
  then have w: "w \<noteq> []" "\<not> plain_char (hd w)" "\<not> plain_char (last w)"
    using whitespace_not_plain by (auto simp: list_all_iff)
  show "\<not> prefix w s"
  proof
    assume "prefix w s"
    then have "hd w \<in> set s"
      using w(1) by (auto simp: prefix_def)
    then show False
      using w(2) assms by (auto simp: list_all_iff)
  qed
  show "\<not> suffix w s"
  proof
    assume "suffix w s"
    then have "last w \<in> set s"
      using w(1) by (auto simp: suffix_def)
    then show False
      using w(3) assms by (auto simp: list_all_iff)
  qed
qed

lemma int_to_string_plain: "list_all plain_char (int_to_string i)" "int_to_string i \<noteq> []"
  using nat_to_string_digits [of "nat i"] nat_to_string_digits [of "nat (- i)"]
  by (auto simp: int_to_string_def plain_char_def list_all_iff)

lemma validate_entries_Ok:
  assumes "validate_entries rfc es = Inr ()" and "map_of es name = Some u"
  shows "normalize_username (uc_username u) = Inr name \<and>
    (\<exists>t. expires_at_unix_timestamp rfc u = Inr t)"
  using assms by (induction es) (auto split: if_splits)

section \<open>Properties\<close>

text \<open>
  An expiry written as a TOML integer is exactly that Unix time: the user is valid before
  it and expired from it on, for every 64-bit value, negative ones included.
\<close>

theorem expiry_integer_exact:
  "and_then (deserialize_expires_at (Some (TomlInteger t)))
     (\<lambda>e. map_err (\<lambda>_. ''error'') (is_expired_at rfc
        \<lparr>uc_username = name, uc_public_key_pem = pem, uc_expires_at = e\<rparr> now)) =
   Inr (sint t \<le> sint now)"
proof -
  have "parse_i64 (int_to_string (sint t)) = Some (sint t)"
    using sint_ge [of t] sint_lt [of t] by (intro parse_int_to_string) simp_all
  then show ?thesis
    using int_to_string_plain [of "sint t"] trim_plain
    by (simp add: deserialize_expires_at_def is_expired_at_def expires_at_unix_timestamp_def
        parse_expires_at_def i64_ge_def)
qed

text \<open>
  C36. What the start-up check guarantees to authentication: every user the table returns is
  stored under its trimmed, non-empty name without path separators, and deciding whether the
  user has expired cannot fail.
\<close>

theorem validated_users_sound:
  assumes "user_manager_new rfc us = Inr um" and "get_user um name = Inr (Some u)"
  shows "name = trim (uc_username u) \<and> name \<noteq> [] \<and> CHR ''/'' \<notin> set name \<and>
    \<not> contains_str ''..'' name \<and> \<not> has_control name \<and> is_ok (is_expired_at rfc u now)"
proof -
  have "um = \<lparr>um_users = us\<rparr>" "validate_entries rfc (us_users us) = Inr ()"
    using assms(1) by (auto simp: user_manager_new_def validate_users_def)
  moreover have "map_of (us_users (um_users um)) name = Some u"
    using assms(2) by (simp add: get_user_def)
  ultimately have "normalize_username (uc_username u) = Inr name"
    "\<exists>t. expires_at_unix_timestamp rfc u = Inr t"
    using validate_entries_Ok by auto
  then show ?thesis
    by (auto simp: normalize_username_def Let_def is_expired_at_def list_ex_iff split: if_splits)
qed

definition alice :: UserConfig where
  "alice = \<lparr>uc_username = ''alice'', uc_public_key_pem = ''pem'', uc_expires_at = None\<rparr>"

text \<open>The same entry with white space around the name: it passes the check too.\<close>

definition padded_alice :: UserConfig where
  "padded_alice = \<lparr>uc_username = '' alice '', uc_public_key_pem = ''pem'', uc_expires_at = None\<rparr>"

lemma normalize_alice:
  "normalize_username ''alice'' = Inr ''alice''" "normalize_username '' alice '' = Inr ''alice''"
  by code_simp+

theorem validated_users_sound_witness:
  "\<exists>um. user_manager_new (\<lambda>_. Inl ''bad'') \<lparr>us_users = [(''alice'', alice)]\<rparr> = Inr um \<and>
     get_user um ''alice'' = Inr (Some alice) \<and> is_ok (is_expired_at (\<lambda>_. Inl ''bad'') alice 0)"
proof -
  have um: "user_manager_new (\<lambda>_. Inl ''bad'') \<lparr>us_users = [(''alice'', alice)]\<rparr> =
      Inr \<lparr>um_users = \<lparr>us_users = [(''alice'', alice)]\<rparr>\<rparr>"
    using normalize_alice(1)
    by (simp add: user_manager_new_def validate_users_def alice_def expires_at_unix_timestamp_def)
  moreover have "get_user \<lparr>um_users = \<lparr>us_users = [(''alice'', alice)]\<rparr>\<rparr> ''alice'' = Inr (Some alice)"
    by (simp add: get_user_def)
  ultimately show ?thesis
    using validated_users_sound [OF um] by blast
qed

end
