(* ===== verification/Rsa_Legacy.thy ===== *)
theory Rsa_Legacy
  imports Framed_Codec
begin

text \<open>
  The raw RSA operations of the framed handshake (\<open>protocol/src/crypto/rsa_key_pair.rs\<close>,
  \<open>protocol/src/crypto/utils.rs\<close>): the agent pads its session key and applies the private
  exponent; the proxy applies the public exponent and strips the padding. The big-integer
  functions of the \<open>rsa\<close> crate are a record of functions with their documented meaning. Then
  \<open>CryptoManager\<close>, which holds an optional key pair and an optional cipher.
\<close>

section \<open>Big integers\<close>

record biguint =
  bu_from_bytes_be :: "bytes \<Rightarrow> nat"
  bu_to_bytes_be :: "nat \<Rightarrow> bytes"
  bu_modpow :: "nat \<Rightarrow> nat \<Rightarrow> nat \<Rightarrow> nat"

text \<open>The shortest big-endian representation; zero is one zero byte.\<close>

fun min_be :: "nat \<Rightarrow> bytes" where
  "min_be n = (if n < 256 then [word_of_nat n] else min_be (n div 256) @ [word_of_nat n])"

declare min_be.simps [simp del]

definition biguint_ok :: "biguint \<Rightarrow> bool" where
  "biguint_ok bu \<longleftrightarrow> (\<forall>bs. bu_from_bytes_be bu bs = nat_of_be bs) \<and>
     (\<forall>n. bu_to_bytes_be bu n = min_be n) \<and>
     (\<forall>b x n. 0 < n \<longrightarrow> bu_modpow bu b x n = b ^ x mod n)"

section \<open>Keys and the two operations\<close>

record RsaPublicKey =
  rsa_n :: nat
  rsa_e :: nat

record RsaPrivateKey =
  rsa_pub :: RsaPublicKey
  rsa_d :: nat
  rsa_size :: nat

definition encrypt_with_private_key :: "biguint \<Rightarrow> RsaPrivateKey \<Rightarrow> bytes \<Rightarrow> ProtocolError + bytes" where
  "encrypt_with_private_key bu key d =
     (let key_size = rsa_size key
      in if length d > wrapping_sub_usize key_size 11
         then Err (PEncryption ''Data too large for key size'')
         else
           let padding_len = wrapping_sub_usize (wrapping_sub_usize key_size (length d)) 3;
               padded = [0, 1] @ replicate padding_len 0xFF @ [0] @ d;
               c = bu_modpow bu (bu_from_bytes_be bu padded) (rsa_d key) (rsa_n (rsa_pub key));
               c_bytes = bu_to_bytes_be bu c
           in Ok (replicate (wrapping_sub_usize key_size (length c_bytes)) 0 @ c_bytes))"

text \<open>The loop that looks for the separator, from index 2.\<close>

fun find_separator :: "nat \<Rightarrow> bytes \<Rightarrow> nat option" where
  "find_separator i [] = None"
| "find_separator i (b # bs) = (if b = 0 then Some (i + 1) else find_separator (i + 1) bs)"

definition decrypt_with_public_key :: "biguint \<Rightarrow> RsaPublicKey \<Rightarrow> bytes \<Rightarrow> ProtocolError + bytes" where
  "decrypt_with_public_key bu key d =
     (let m = bu_modpow bu (bu_from_bytes_be bu d) (rsa_e key) (rsa_n key);
          m_bytes = bu_to_bytes_be bu m
      in if length m_bytes < 11 then Err (PDecryption ''Invalid padding'')
         else case find_separator 2 (drop 2 m_bytes) of
           Some start \<Rightarrow>
             if start < length m_bytes then Ok (drop start m_bytes)
             else Err (PDecryption ''Invalid PKCS#1 padding'')
         | None \<Rightarrow> Err (PDecryption ''Invalid PKCS#1 padding''))"

text \<open>A valid key pair: the size is the length of the modulus and the exponents are inverse.\<close>

definition rsa_key_ok :: "RsaPrivateKey \<Rightarrow> bool" where
  "rsa_key_ok key \<longleftrightarrow>
     256 ^ (rsa_size key - 1) \<le> rsa_n (rsa_pub key) \<and> rsa_n (rsa_pub key) < 256 ^ rsa_size key \<and>
     11 \<le> rsa_size key \<and> rsa_size key \<le> usize_max \<and>
     (\<forall>m<rsa_n (rsa_pub key). (m ^ rsa_d key mod rsa_n (rsa_pub key)) ^ rsa_e (rsa_pub key)
        mod rsa_n (rsa_pub key) = m)"

section \<open>Facts\<close>

lemma min_be_nonempty: "min_be n \<noteq> []"
  by (simp add: min_be.simps [of n])

lemma nat_of_be_min_be: "nat_of_be (min_be n) = n"
proof (induction n rule: min_be.induct)
  case (1 n)
  show ?case
  proof (cases "n < 256")
    case True
    then show ?thesis
      using nat_of_be_snoc [of "[]" "word_of_nat n"] by (simp add: min_be.simps [of n] unat_of_nat)
  next
    case False
    then show ?thesis
      using 1 by (simp add: min_be.simps [of n] unat_of_nat)
  qed
qed

lemma length_min_be: "n < 256 ^ k \<Longrightarrow> 0 < k \<Longrightarrow> length (min_be n) \<le> k"
proof (induction k arbitrary: n)
  case 0
  then show ?case by simp
next
  case (Suc k)
  show ?case
  proof (cases "n < 256")
    case True
    then show ?thesis
      by (simp add: min_be.simps [of n])
  next
    case False
    then have "0 < k"
      using Suc.prems(1) by (cases k) auto
    moreover have "n div 256 < 256 ^ k"
      using Suc.prems(1) by (simp add: less_mult_imp_div_less mult.commute)
    ultimately show ?thesis
      using Suc.IH [of "n div 256"] False by (simp add: min_be.simps [of n])
  qed
qed

lemma nat_of_be_append: "nat_of_be (as @ bs) = nat_of_be as * 256 ^ length bs + nat_of_be bs"
proof (induction bs rule: rev_induct)
  case Nil
  then show ?case by simp
next
  case (snoc b bs)
  have "nat_of_be (as @ bs @ [b]) = nat_of_be (as @ bs) * 256 + unat b"
    using nat_of_be_snoc [of "as @ bs" b] by simp
  then show ?case
    using snoc by (simp add: algebra_simps)
qed

lemma nat_of_be_zeros: "nat_of_be (replicate j 0 @ bs) = nat_of_be bs"
proof -
  have "nat_of_be (replicate j 0) = 0"
    by (induction j) (simp_all add: nat_of_be_def)
  then show ?thesis
    by (simp add: nat_of_be_append)
qed

lemma min_be_of_bytes:
  assumes "bs \<noteq> []" and "hd bs \<noteq> 0"
  shows "min_be (nat_of_be bs) = bs"
  using assms
proof (induction bs rule: rev_induct)
  case Nil
  then show ?case by simp
next
  case (snoc b bs)
  have u: "unat b < 256"
    by simp
  have w: "(word_of_nat (nat_of_be bs * 256 + unat b) :: u8) = b"
    using be_bytes_nat_of_be [of "bs @ [b]" "Suc (length bs)"] by simp
  show ?case
  proof (cases "bs = []")
    case True
    then show ?thesis
      using u w by (simp add: min_be.simps [of "unat b"] nat_of_be_def)
  next
    case False
    then have "hd bs \<noteq> 0"
      using snoc.prems by simp
    then have IH: "min_be (nat_of_be bs) = bs"
      using snoc.IH False by blast
    have "nat_of_be bs \<noteq> 0"
    proof
      assume "nat_of_be bs = 0"
      then have "bs = [0]"
        using IH by (simp add: min_be.simps [of 0])
      then show False
        using \<open>hd bs \<noteq> 0\<close> by simp
    qed
    then show ?thesis
      using IH u w False by (simp add: min_be.simps [of "nat_of_be bs * 256 + unat b"] del: of_nat_add of_nat_mult)
  qed
qed

lemma find_separator_first:
  assumes "0 \<notin> set p"
  shows "find_separator i (p @ 0 # rest) = Some (i + length p + 1)"
  using assms by (induction p arbitrary: i) auto

lemma find_separator_Some:
  "find_separator i bs = Some j \<longleftrightarrow> (\<exists>p rest. 0 \<notin> set p \<and> bs = p @ 0 # rest \<and> j = i + length p + 1)"
proof (induction bs arbitrary: i)
  case Nil
  then show ?case by simp
next
  case (Cons b bs)
  show ?case
  proof (cases "b = 0")
    case True
    have "(\<exists>p rest. 0 \<notin> set p \<and> 0 # bs = p @ 0 # rest \<and> j = i + length p + 1) \<longleftrightarrow> j = i + 1"
      by (auto simp: Cons_eq_append_conv intro: exI [of _ "[]"])
    then show ?thesis
      using True by auto
  next
    case False
    have "(\<exists>p rest. 0 \<notin> set p \<and> b # bs = p @ 0 # rest \<and> j = i + length p + 1) \<longleftrightarrow>
        (\<exists>p rest. 0 \<notin> set p \<and> bs = p @ 0 # rest \<and> j = Suc i + length p + 1)"
      using False by (auto simp: Cons_eq_append_conv) (metis length_Cons set_ConsD add_Suc_right list.size(4))
    then show ?thesis
      using False Cons.IH [of "i + 1"] by simp
  qed
qed

lemma encrypt_private_shape:
  assumes bu: "biguint_ok bu" and key: "rsa_key_ok key" and d: "length d + 11 \<le> rsa_size key"
  defines "block \<equiv> 1 # replicate (rsa_size key - length d - 3) 0xFF @ 0 # d"
  shows "\<exists>c. encrypt_with_private_key bu key d = Inr c \<and> length c = rsa_size key \<and>
    nat_of_be c = nat_of_be block ^ rsa_d key mod rsa_n (rsa_pub key) \<and>
    nat_of_be block < rsa_n (rsa_pub key)"
proof -
  let ?k = "rsa_size key" and ?n = "rsa_n (rsa_pub key)"
  note K = key [unfolded rsa_key_ok_def]
  have "wrapping_sub_usize ?k (length d) = ?k - length d"
    using K d by (intro wrapping_sub_usize_exact) auto
  moreover have "wrapping_sub_usize (?k - length d) 3 = ?k - length d - 3"
    using K d by (intro wrapping_sub_usize_exact) auto
  ultimately have sub: "wrapping_sub_usize ?k 11 = ?k - 11"
    "wrapping_sub_usize (wrapping_sub_usize ?k (length d)) 3 = ?k - length d - 3"
    using K by (simp_all add: wrapping_sub_usize_exact)
  have len: "length block = ?k - 1"
    using d by (simp add: block_def)
  have "nat_of_be block < 256 ^ (?k - 1)"
    using nat_of_be_less [of block] len by simp
  then have lt: "nat_of_be block < ?n"
    using K by linarith
  let ?c = "nat_of_be block ^ rsa_d key mod ?n"
  have "?c < ?n"
    using lt by simp
  then have "?c < 256 ^ ?k"
    using K by linarith
  then have fits: "length (min_be ?c) \<le> ?k"
    using length_min_be K by simp
  have "nat_of_be ([0] @ block) = nat_of_be block"
    using nat_of_be_zeros [of 1 block] by simp
  then have "encrypt_with_private_key bu key d =
      Inr (replicate (?k - length (min_be ?c)) 0 @ min_be ?c)"
    using bu K sub d fits lt
    by (simp add: encrypt_with_private_key_def Let_def biguint_ok_def block_def wrapping_sub_usize_exact)
  then show ?thesis
    using fits lt by (simp add: nat_of_be_zeros nat_of_be_min_be)
qed

lemma rsa_roundtrip:
  assumes "biguint_ok bu" and "rsa_key_ok key" and "d \<noteq> []" and "length d + 11 \<le> rsa_size key"
  shows "\<exists>c. encrypt_with_private_key bu key d = Inr c \<and> length c = rsa_size key \<and>
    decrypt_with_public_key bu (rsa_pub key) c = Inr d"
proof -
  let ?pad = "rsa_size key - length d - 3"
  let ?block = "1 # replicate ?pad 0xFF @ 0 # d :: bytes"
  obtain c where c: "encrypt_with_private_key bu key d = Inr c" "length c = rsa_size key"
    "nat_of_be c = nat_of_be ?block ^ rsa_d key mod rsa_n (rsa_pub key)"
    "nat_of_be ?block < rsa_n (rsa_pub key)"
    using encrypt_private_shape [OF assms(1,2,4)] by blast
  have "nat_of_be c ^ rsa_e (rsa_pub key) mod rsa_n (rsa_pub key) = nat_of_be ?block"
    using assms(2) c(3,4) by (simp add: rsa_key_ok_def)
  moreover have "min_be (nat_of_be ?block) = ?block"
    by (rule min_be_of_bytes) simp_all
  ultimately have m: "bu_to_bytes_be bu (bu_modpow bu (bu_from_bytes_be bu c) (rsa_e (rsa_pub key))
      (rsa_n (rsa_pub key))) = ?block"
    using assms(1) c(4) by (simp add: biguint_ok_def)
  obtain q where q: "?pad = Suc q"
    using assms(4) by (cases ?pad) auto
  have blk: "?block = 1 # 0xFF # replicate q 0xFF @ 0 # d"
    by (simp only: q replicate_Suc append_Cons)
  have "8 \<le> q + length d"
    using q assms(3,4) by (cases d) auto
  moreover have "find_separator 2 (replicate q 0xFF @ 0 # d) = Some (2 + q + 1)"
    using find_separator_first [of "replicate q 0xFF" 2 d] by simp
  ultimately have "decrypt_with_public_key bu (rsa_pub key) c = Inr d"
    using assms(3) unfolding decrypt_with_public_key_def Let_def m [unfolded blk] by simp
  then show ?thesis
    using c(1,2) by blast
qed

section \<open>Properties\<close>

text \<open>
  C35. The session key survives the raw RSA handshake: for a valid key pair and any non-empty
  data that fits, what the agent makes with the private key is one modulus long and the proxy
  recovers exactly the data with the public key, whatever bytes (zeros included) it has.
\<close>

theorem rsa_session_key_roundtrip:
  assumes "biguint_ok bu" and "rsa_key_ok key" and "d \<noteq> []" and "length d + 11 \<le> rsa_size key"
  shows "\<exists>c. encrypt_with_private_key bu key d = Inr c \<and> length c = rsa_size key \<and>
    decrypt_with_public_key bu (rsa_pub key) c = Inr d"
  by (rule rsa_roundtrip [OF assms])

text \<open>Big-integer functions with the documented meaning, and a small key pair for the witness.\<close>

definition plain_biguint :: biguint where
  "plain_biguint = \<lparr>bu_from_bytes_be = nat_of_be, bu_to_bytes_be = min_be,
     bu_modpow = (\<lambda>b x n. b ^ x mod n)\<rparr>"

definition unit_key :: RsaPrivateKey where
  "unit_key = \<lparr>rsa_pub = \<lparr>rsa_n = 256 ^ 12 - 1, rsa_e = 1\<rparr>, rsa_d = 1, rsa_size = 12\<rparr>"

lemma plain_biguint_ok: "biguint_ok plain_biguint"
  by (simp add: biguint_ok_def plain_biguint_def)

theorem rsa_session_key_roundtrip_witness:
  "\<exists>c. encrypt_with_private_key plain_biguint unit_key [7] = Inr c \<and>
     decrypt_with_public_key plain_biguint (rsa_pub unit_key) c = Inr [7]"
proof -
  have "rsa_key_ok unit_key"
    by (simp add: rsa_key_ok_def unit_key_def usize_max_def)
  from rsa_session_key_roundtrip [OF plain_biguint_ok this, of "[7]"] show ?thesis
    by (auto simp: unit_key_def)
qed

definition forged_block :: bytes where
  "forged_block = min_be 1965107320635166833119749739"

text \<open>
  The public-key side does not check the padding it strips: with the public key alone one
  can make a 35-byte block that it accepts as carrying a 32-byte session key, for every modulus
  longer than that and the public exponent 3. The block is not the result of the private-key
  operation on any data: it has no \<open>01 FF\<close> padding.
\<close>

theorem rsa_padding_not_checked:
  assumes "biguint_ok bu" and "256 ^ 35 \<le> n"
  shows "\<exists>key. length key = 32 \<and>
    decrypt_with_public_key bu \<lparr>rsa_n = n, rsa_e = 3\<rparr> forged_block = Inr key \<and>
    take 2 (min_be (nat_of_be forged_block ^ 3 mod n)) \<noteq> [1, 0xFF]"
proof -
  let ?m = "nat_of_be forged_block ^ 3"
  have m: "?m = 1965107320635166833119749739 ^ 3"
    by (simp add: forged_block_def nat_of_be_min_be)
  have "1965107320635166833119749739 ^ 3 < (256 :: nat) ^ 35"
    by simp
  then have small: "?m mod n = ?m"
    using assms(2) m by (metis mod_less order_less_le_trans)
  have bytes: "min_be ?m = [1, 0, 0, 0, 0, 0, 0, 0, 0, 0, 0, 0, 22, 56, 250, 228, 179, 1, 17, 14, 210,
      64, 225, 118, 140, 131, 201, 228, 121, 41, 44, 118, 221, 211, 83]"
    unfolding m by (simp add: min_be.simps)
  have "bu_to_bytes_be bu (bu_modpow bu (bu_from_bytes_be bu forged_block) 3 n) = min_be (?m mod n)"
    using assms by (simp add: biguint_ok_def)
  then show ?thesis
    unfolding decrypt_with_public_key_def Let_def RsaPublicKey.simps
    by (simp only: small bytes) simp
qed

theorem rsa_padding_not_checked_witness:
  "\<exists>key. length key = 32 \<and>
    decrypt_with_public_key plain_biguint \<lparr>rsa_n = 256 ^ 256 - 189, rsa_e = 3\<rparr> forged_block = Inr key"
proof -
  have "(256 :: nat) ^ 35 \<le> 256 ^ 256 - 189"
    by simp
  from rsa_padding_not_checked [OF plain_biguint_ok this] show ?thesis
    by blast
qed

section \<open>The crypto manager\<close>

text \<open>
  \<open>CryptoManager\<close>. The encryption and decryption of a key pair (PKCS 1 v1.5) are functions of
  the \<open>rsa\<close> crate and come with the key pair.
\<close>

record RsaKeyPair =
  kp_encrypt :: "bytes \<Rightarrow> string + bytes"
  kp_decrypt :: "bytes \<Rightarrow> string + bytes"

definition keypair_encrypt :: "RsaKeyPair \<Rightarrow> bytes \<Rightarrow> ProtocolError + bytes" where
  "keypair_encrypt kp d = map_err PEncryption (kp_encrypt kp d)"

definition keypair_decrypt :: "RsaKeyPair \<Rightarrow> bytes \<Rightarrow> ProtocolError + bytes" where
  "keypair_decrypt kp d = map_err PDecryption (kp_decrypt kp d)"

record CryptoManager =
  cm_rsa_keypair :: "RsaKeyPair option"
  cm_aes_cipher :: "bytes option"

definition crypto_manager_new :: CryptoManager where
  "crypto_manager_new = \<lparr>cm_rsa_keypair = None, cm_aes_cipher = None\<rparr>"

definition with_rsa_keypair :: "CryptoManager \<Rightarrow> RsaKeyPair \<Rightarrow> CryptoManager" where
  "with_rsa_keypair cm kp = cm\<lparr>cm_rsa_keypair := Some kp\<rparr>"

definition with_aes_cipher :: "CryptoManager \<Rightarrow> bytes \<Rightarrow> CryptoManager" where
  "with_aes_cipher cm key = cm\<lparr>cm_aes_cipher := Some key\<rparr>"

definition set_aes_cipher :: "CryptoManager \<Rightarrow> bytes \<Rightarrow> CryptoManager" where
  "set_aes_cipher cm key = cm\<lparr>cm_aes_cipher := Some key\<rparr>"

definition rsa_encrypt :: "CryptoManager \<Rightarrow> bytes \<Rightarrow> ProtocolError + bytes" where
  "rsa_encrypt cm d =
     and_then (ok_or (cm_rsa_keypair cm) (PInvalidKey ''RSA keypair not set'')) (\<lambda>kp.
       keypair_encrypt kp d)"

definition rsa_decrypt :: "CryptoManager \<Rightarrow> bytes \<Rightarrow> ProtocolError + bytes" where
  "rsa_decrypt cm d =
     and_then (ok_or (cm_rsa_keypair cm) (PInvalidKey ''RSA keypair not set'')) (\<lambda>kp.
       keypair_decrypt kp d)"

definition aes_encrypt :: "crypto_suite \<Rightarrow> CryptoManager \<Rightarrow> bytes \<Rightarrow> bytes \<Rightarrow> ProtocolError + bytes" where
  "aes_encrypt cs cm nonce d =
     and_then (ok_or (cm_aes_cipher cm) (PInvalidKey ''AES cipher not set'')) (\<lambda>key.
       cipher_encrypt cs key nonce d)"

definition aes_decrypt :: "crypto_suite \<Rightarrow> CryptoManager \<Rightarrow> bytes \<Rightarrow> ProtocolError + bytes" where
  "aes_decrypt cs cm d =
     and_then (ok_or (cm_aes_cipher cm) (PInvalidKey ''AES cipher not set'')) (\<lambda>key.
       cipher_decrypt cs key d)"

definition hash_password :: "crypto_suite \<Rightarrow> string \<Rightarrow> bytes \<Rightarrow> bytes" where
  "hash_password cs password salt = sha256 cs (str_bytes password @ salt)"

lemma crypto_manager_roundtrip:
  assumes "aead_ok cs" and "length nonce = NONCE_SIZE"
    and "aes_encrypt cs (with_aes_cipher cm key) nonce d = Inr c"
  shows "aes_decrypt cs (set_aes_cipher cm' key) c = Inr d"
  using assms cipher_roundtrip [OF assms(1,2)]
  by (auto simp: aes_encrypt_def aes_decrypt_def with_aes_cipher_def set_aes_cipher_def)

end
