(* ===== verification/Udp_Auth.thy ===== *)
theory Udp_Auth
  imports Udp_Crypto
begin

text \<open>
  The clear-text handshake packets of a native UDP session
  (\<open>protocol/src/udp_transport/auth.rs\<close>): the first flight with a signature over a transcript,
  the answer with the encrypted session secret, and the check that ties the secret to the
  handshake it answers.
\<close>

section \<open>Data\<close>

record UdpAuthInit =
  ai_username :: string
  ai_timestamp :: i64
  ai_client_nonce :: bytes
  ai_proof :: bytes

record UdpAuthOk =
  ao_encrypted_session_secret :: bytes

record UdpSessionSecret =
  ss_session_id :: UdpSessionId
  ss_client_nonce :: bytes
  ss_master_key :: bytes
  ss_server_nonce :: bytes

definition validate_handshake_context ::
  "UdpSessionSecret \<Rightarrow> UdpSessionId \<Rightarrow> bytes \<Rightarrow> unit udp_result" where
  "validate_handshake_context secret session_id client_nonce =
     (if ss_session_id secret = session_id \<and> ss_client_nonce secret = client_nonce then Ok ()
      else Err AuthenticationFailed)"

section \<open>The signed transcript\<close>

definition username_len_field :: "nat \<Rightarrow> u32" where
  "username_len_field n = (if n < 2 ^ 32 then word_of_nat n else - 1)"

text \<open>The bytes that are fed to the hash, in order.\<close>

definition auth_transcript :: "UdpSessionId \<Rightarrow> string \<Rightarrow> i64 \<Rightarrow> bytes \<Rightarrow> bytes" where
  "auth_transcript session_id username timestamp client_nonce =
     str_bytes ''ppaass/native-udp/auth-proof/v1'' @ [0] @ session_id @
     u32_to_be (username_len_field (length (str_bytes username))) @ str_bytes username @
     u64_to_be timestamp @ client_nonce"

definition udp_auth_proof_digest ::
  "crypto_suite \<Rightarrow> UdpSessionId \<Rightarrow> string \<Rightarrow> i64 \<Rightarrow> bytes \<Rightarrow> bytes" where
  "udp_auth_proof_digest cs session_id username timestamp client_nonce =
     sha256 cs (auth_transcript session_id username timestamp client_nonce)"

section \<open>Packets\<close>

definition encode_auth_packet ::
  "'a bitcode \<Rightarrow> UdpPacketKind \<Rightarrow> UdpSessionId \<Rightarrow> 'a \<Rightarrow> bytes udp_result" where
  "encode_auth_packet bc kind session_id v =
     and_then (map_err Serialization (bc_serialize bc v)) (\<lambda>payload.
       let datagram_len = UDP_TRANSPORT_HEADER_LEN + length payload
       in if datagram_len > UDP_MAX_DATAGRAM_SIZE then Err (DatagramTooLarge datagram_len)
          else and_then (header_encode
                 (header_new kind session_id 0 0 0 1 (word_of_nat (length payload))))
               (\<lambda>h. Ok (h @ payload)))"

definition decode_auth_packet ::
  "'a bitcode \<Rightarrow> UdpPacketKind \<Rightarrow> bytes \<Rightarrow> (UdpPacketHeader \<times> 'a) udp_result" where
  "decode_auth_packet bc expected_kind datagram =
     (if length datagram > UDP_MAX_DATAGRAM_SIZE then Err (DatagramTooLarge (length datagram))
      else if length datagram < UDP_TRANSPORT_HEADER_LEN
        then Err (DatagramTooShort (length datagram))
      else and_then (header_decode datagram) (\<lambda>header.
        if hdr_kind header \<noteq> expected_kind
          then Err (UnexpectedPacketKind (kind_to_u8 expected_kind) (kind_to_u8 (hdr_kind header)))
        else
          let payload = drop UDP_TRANSPORT_HEADER_LEN datagram
          in if unat (hdr_total_len header) \<noteq> length payload
               then Err (InvalidHeader ''authentication payload length does not match total_len'')
             else and_then (map_err Serialization (bc_deserialize bc payload))
                    (\<lambda>v. Ok (header, v))))"

definition encode_auth_init :: "UdpAuthInit bitcode \<Rightarrow> UdpSessionId \<Rightarrow> UdpAuthInit \<Rightarrow> bytes udp_result" where
  "encode_auth_init bc session_id auth = encode_auth_packet bc AuthInit session_id auth"

definition decode_auth_init :: "UdpAuthInit bitcode \<Rightarrow> bytes \<Rightarrow> (UdpPacketHeader \<times> UdpAuthInit) udp_result" where
  "decode_auth_init bc datagram = decode_auth_packet bc AuthInit datagram"

definition encode_auth_ok :: "UdpAuthOk bitcode \<Rightarrow> UdpSessionId \<Rightarrow> UdpAuthOk \<Rightarrow> bytes udp_result" where
  "encode_auth_ok bc session_id auth = encode_auth_packet bc AuthOk session_id auth"

definition decode_auth_ok :: "UdpAuthOk bitcode \<Rightarrow> bytes \<Rightarrow> (UdpPacketHeader \<times> UdpAuthOk) udp_result" where
  "decode_auth_ok bc datagram = decode_auth_packet bc AuthOk datagram"

definition encode_session_secret :: "UdpSessionSecret bitcode \<Rightarrow> UdpSessionSecret \<Rightarrow> bytes udp_result" where
  "encode_session_secret bc secret = map_err Serialization (bc_serialize bc secret)"

definition decode_session_secret :: "UdpSessionSecret bitcode \<Rightarrow> bytes \<Rightarrow> UdpSessionSecret udp_result" where
  "decode_session_secret bc bs = map_err Serialization (bc_deserialize bc bs)"

section \<open>Facts\<close>


lemma length_str_bytes [simp]: "length (str_bytes s) = length s"
  by (simp add: str_bytes_def)

lemma of_char_u8_inj: "(of_char c :: u8) = of_char d \<longleftrightarrow> c = d"
proof
  assume "(of_char c :: u8) = of_char d"
  then have "unat (word_of_nat (of_char c) :: u8) = unat (word_of_nat (of_char d) :: u8)"
    by (simp only: of_nat_of_char)
  then show "c = d"
    by (simp add: unat_of_nat)
qed simp

lemma str_bytes_inj: "str_bytes s = str_bytes t \<longleftrightarrow> s = t"
  unfolding str_bytes_def by (rule inj_map_eq_map) (simp add: inj_def of_char_u8_inj)

lemma auth_header_valid:
  assumes "kind \<noteq> Encrypted" and "n \<le> UDP_MAX_DATAGRAM_SIZE - UDP_TRANSPORT_HEADER_LEN"
  shows "header_valid (header_new kind sid 0 0 0 1 (word_of_nat n))"
proof -
  have "n < 2 ^ 32"
    using assms(2) by (simp add: udp_limits)
  then have "unat (word_of_nat n :: u32) = n"
    by (simp add: unat_of_nat)
  moreover have "max_total_len_for kind = UDP_MAX_DATAGRAM_SIZE - UDP_TRANSPORT_HEADER_LEN"
    using assms(1) by (cases kind) (simp_all add: max_total_len_for_def)
  ultimately show ?thesis
    using assms by (simp add: header_valid_iff header_new_def UDP_MAX_FRAGMENTS_def)
qed

lemma auth_packet_decodes:
  assumes "bitcode_roundtrip bc" and "kind \<noteq> Encrypted" and "length sid = 16"
    and "encode_auth_packet bc kind sid v = Inr d"
  shows "length d \<le> UDP_MAX_DATAGRAM_SIZE \<and>
    (\<exists>h. decode_auth_packet bc kind d = Inr (h, v) \<and> hdr_session_id h = sid \<and> hdr_kind h = kind) \<and>
    (\<forall>k. k \<noteq> kind \<longrightarrow>
       decode_auth_packet bc k d = Inl (UnexpectedPacketKind (kind_to_u8 k) (kind_to_u8 kind)))"
proof -
  obtain p where p: "bc_serialize bc v = Inr p"
    "UDP_TRANSPORT_HEADER_LEN + length p \<le> UDP_MAX_DATAGRAM_SIZE"
    and "\<exists>e. header_encode (header_new kind sid 0 0 0 1 (word_of_nat (length p))) = Inr e \<and> d = e @ p"
    using assms(4) by (auto simp: encode_auth_packet_def Let_def split: if_splits)
  then obtain e where e: "header_encode (header_new kind sid 0 0 0 1 (word_of_nat (length p))) = Inr e"
    "d = e @ p"
    by blast
  let ?h = "header_new kind sid 0 0 0 1 (word_of_nat (length p))"
  have shape: "header_shape ?h"
    using assms(3) by (simp add: header_shape_def header_new_def udp_limits)
  have len: "length e = UDP_TRANSPORT_HEADER_LEN"
    using header_encode_length [OF e(1) shape] .
  have dec: "header_decode d = Inr ?h"
    using header.dec_enc [OF e(1) shape] e(2) by simp
  have w: "unat (word_of_nat (length p) :: u32) = length p"
    using p(2) by (simp add: unat_of_nat udp_limits)
  have sel: "hdr_kind ?h = kind" "hdr_session_id ?h = sid" "hdr_total_len ?h = word_of_nat (length p)"
    by (simp_all add: header_new_def)
  show ?thesis
    using dec sel e(2) len p w bitcode_roundtripD [OF assms(1) p(1)]
    by (simp add: decode_auth_packet_def)
qed

section \<open>Properties\<close>

text \<open>
  Handshake packets round-trip: a packet that could be encoded is within the datagram
  limit and decodes, as its own kind, to the same value under a header that carries the
  session identifier; decoded as the other handshake kind it is refused.
\<close>

theorem auth_packet_roundtrip:
  assumes "bitcode_roundtrip bc" and "kind \<noteq> Encrypted" and "length sid = 16"
    and "encode_auth_packet bc kind sid v = Inr d"
  shows "length d \<le> UDP_MAX_DATAGRAM_SIZE \<and>
    (\<exists>h. decode_auth_packet bc kind d = Inr (h, v) \<and> hdr_session_id h = sid \<and> hdr_kind h = kind) \<and>
    (\<forall>k. k \<noteq> kind \<longrightarrow>
       decode_auth_packet bc k d = Inl (UnexpectedPacketKind (kind_to_u8 k) (kind_to_u8 kind)))"
  by (rule auth_packet_decodes [OF assms])

text \<open>A serialiser of authentication answers for the witness.\<close>

definition plain_auth_ok :: "UdpAuthOk bitcode" where
  "plain_auth_ok = \<lparr>bc_serialize = (\<lambda>v. Inr (ao_encrypted_session_secret v)),
     bc_deserialize = (\<lambda>bs. Inr \<lparr>ao_encrypted_session_secret = bs\<rparr>)\<rparr>"

theorem auth_packet_roundtrip_witness:
  "\<exists>d h. encode_auth_packet plain_auth_ok AuthOk (replicate 16 1) \<lparr>ao_encrypted_session_secret = [8]\<rparr> = Inr d \<and>
     decode_auth_packet plain_auth_ok AuthOk d = Inr (h, \<lparr>ao_encrypted_session_secret = [8]\<rparr>)"
proof -
  have bc: "bitcode_roundtrip plain_auth_ok"
    by (auto simp: bitcode_roundtrip_def plain_auth_ok_def)
  obtain d where d: "encode_auth_packet plain_auth_ok AuthOk (replicate 16 1)
      \<lparr>ao_encrypted_session_secret = [8]\<rparr> = Inr d"
    using header_encode_valid [OF auth_header_valid [of AuthOk 1 "replicate 16 1"]]
    by (simp add: encode_auth_packet_def plain_auth_ok_def udp_limits)
  show ?thesis
    using auth_packet_roundtrip [OF bc _ _ d] d by auto
qed

text \<open>
  C23. The signed transcript is unambiguous: two handshakes with the same transcript bytes
  have the same session identifier, user name, timestamp and client nonce, whatever the user
  names (their length is not limited). A signature over the transcript therefore covers all
  four values.
\<close>

theorem auth_transcript_unambiguous:
  assumes "length sid = 16" and "length sid' = 16" and "length n = 32" and "length n' = 32"
    and "auth_transcript sid u t n = auth_transcript sid' u' t' n'"
  shows "sid = sid' \<and> u = u' \<and> t = t' \<and> n = n'"
proof -
  have "sid @ u32_to_be (username_len_field (length u)) @ str_bytes u @ u64_to_be t @ n =
      sid' @ u32_to_be (username_len_field (length u')) @ str_bytes u' @ u64_to_be t' @ n'"
    using assms(5) by (simp only: auth_transcript_def length_str_bytes same_append_eq)
  then have sid: "sid = sid'" and
    "u32_to_be (username_len_field (length u)) @ str_bytes u @ u64_to_be t @ n =
     u32_to_be (username_len_field (length u')) @ str_bytes u' @ u64_to_be t' @ n'"
    using append_same_length [of sid sid'] assms(1,2) by simp_all
  then have rest: "str_bytes u @ u64_to_be t @ n = str_bytes u' @ u64_to_be t' @ n'"
    using append_same_length
      [of "u32_to_be (username_len_field (length u))" "u32_to_be (username_len_field (length u'))"]
    by simp
  have "length (str_bytes u) = length (str_bytes u')"
    using arg_cong [OF rest, of length] assms(3,4) by (simp only: length_append length_u_to_be)
  from append_same_length [THEN iffD1, OF this rest]
  have u: "str_bytes u = str_bytes u'" and tail: "u64_to_be t @ n = u64_to_be t' @ n'"
    by blast+
  from append_same_length [THEN iffD1, OF _ tail] have "u64_to_be t = u64_to_be t'" "n = n'"
    by (simp_all only: length_u_to_be)
  then have "t = t'" "n = n'"
    by (metis u_from_to_be(3))+
  then show ?thesis
    using sid u by (simp only: str_bytes_inj)
qed

theorem auth_transcript_unambiguous_witness:
  "auth_transcript (replicate 16 0) ''ab'' 5 (replicate 32 0) \<noteq>
   auth_transcript (replicate 16 0) ''a'' 5 (replicate 32 0)"
proof
  assume "auth_transcript (replicate 16 0) ''ab'' 5 (replicate 32 0) =
    auth_transcript (replicate 16 0) ''a'' 5 (replicate 32 0)"
  from auth_transcript_unambiguous [OF _ _ _ _ this] show False
    by simp
qed

end
