(* ===== verification/Proxy_Auth.thy ===== *)
theory Proxy_Auth
  imports Users Rsa_Legacy Udp_Auth
begin

text \<open>
  Authentication on both transports. The framed handshake: the agent side
  (\<open>AuthenticatedConnection::authenticate_stream\<close> of \<open>common\<close>) and the proxy side
  (\<open>proxy/src/connection/mod.rs\<close>, \<open>auth.rs\<close>, \<open>responses.rs\<close> and the authentication block of
  \<open>handle_protocol_stream\<close> in \<open>server.rs\<close>). The check of a native UDP first flight
  (\<open>validate_udp_auth\<close> of \<open>proxy/src/native_udp/auth.rs\<close>).

  A connection is modelled above the codec: what the framed reader yields is a list of events,
  what is written is a list of responses, each with the cipher in force when it was encoded.
  The big-integer functions, the PEM parser and the RFC 3339 parser are parameters; the clock
  and the identifier counter are arguments.
\<close>

section \<open>The connection of the proxy\<close>

text \<open>
  An event of the reader: a request, a failure of the stream, or a stretch of silence longer
  than the timeout of the pending read. The end of the list is the end of the stream.
\<close>

datatype read_event = ReadItem ProxyRequest | ReadFailed string | ReadElapsed

record ServerConnection =
  sc_incoming :: "read_event list"
  sc_sent :: "(ProxyResponse \<times> bytes option) list"
  sc_send_results :: "string option list"
  sc_user_config :: "UserConfig option"
  sc_cipher_state :: CipherState
  sc_pending_auth_request :: "AuthRequest option"
  sc_proxy_config :: ProxyConfig

text \<open>
  \<open>sc_send_results\<close> are the outcomes of the coming writes: \<open>Some e\<close> is a write that fails; once
  the list is used up writes succeed.
\<close>

definition server_connection_new ::
  "read_event list \<Rightarrow> string option list \<Rightarrow> CompressionMode \<Rightarrow> ProxyConfig \<Rightarrow> ServerConnection" where
  "server_connection_new incoming results mode config =
     \<lparr>sc_incoming = incoming, sc_sent = [], sc_send_results = results, sc_user_config = None,
      sc_cipher_state = cipher_state_with_compression mode, sc_pending_auth_request = None,
      sc_proxy_config = config\<rparr>"

type_synonym 'a conn_result = "ServerConnection \<times> 'a proxy_result"

fun next_request :: "read_event list \<Rightarrow> read_event list \<times> ProxyRequest option proxy_result" where
  "next_request [] = ([], Ok None)"
| "next_request (ReadItem r # es) = (es, Ok (Some r))"
| "next_request (ReadFailed e # es) = (es, Err (ErrProtocol (PIo e)))"
| "next_request (ReadElapsed # es) = next_request es"

definition read_request :: "ServerConnection \<Rightarrow> ProxyRequest option conn_result" where
  "read_request sc =
     (case next_request (sc_incoming sc) of (es, r) \<Rightarrow> (sc\<lparr>sc_incoming := es\<rparr>, r))"

definition send_response :: "ServerConnection \<Rightarrow> ProxyResponse \<Rightarrow> unit conn_result" where
  "send_response sc response =
     (case sc_send_results sc of
        Some e # rs \<Rightarrow>
          (sc\<lparr>sc_send_results := rs\<rparr>, Err (ErrConnection (''Failed to send response: '' @ e)))
      | rs \<Rightarrow>
          (sc\<lparr>sc_send_results := drop 1 rs,
              sc_sent := sc_sent sc @ [(response, st_cipher (sc_cipher_state sc))]\<rparr>, Ok ()))"

definition send_auth_error :: "ServerConnection \<Rightarrow> string \<Rightarrow> unit conn_result" where
  "send_auth_error sc text = send_response sc
     (ResponseAuth \<lparr>as_success = False, as_message = text, as_session_id = None\<rparr>)"

definition send_connect_error :: "ServerConnection \<Rightarrow> string \<Rightarrow> string \<Rightarrow> unit conn_result" where
  "send_connect_error sc request_id text = send_response sc
     (ResponseConnect \<lparr>cs_request_id = request_id, cs_success = False, cs_message = text\<rparr>)"

definition send_connect_success :: "ServerConnection \<Rightarrow> string \<Rightarrow> string \<Rightarrow> unit conn_result" where
  "send_connect_success sc request_id text = send_response sc
     (ResponseConnect \<lparr>cs_request_id = request_id, cs_success = True, cs_message = text\<rparr>)"

section \<open>Authentication of a framed connection\<close>

record auth_env =
  av_biguint :: biguint
  av_public_key_pem :: "string \<Rightarrow> string + RsaPublicKey"
  av_rfc3339 :: rfc3339

definition peek_auth_username :: "ServerConnection \<Rightarrow> string conn_result" where
  "peek_auth_username sc = try_st (read_request sc) (\<lambda>sc request.
     case request of
       None \<Rightarrow> (sc, Err (ErrConnection ''Connection closed''))
     | Some (RequestAuth auth_request) \<Rightarrow>
         (sc\<lparr>sc_pending_auth_request := Some auth_request\<rparr>, Ok (ar_username auth_request))
     | Some _ \<Rightarrow> (sc, Err (ErrAuthentication ''Expected auth request'')))"

definition reject_auth :: "ServerConnection \<Rightarrow> string \<Rightarrow> unit conn_result" where
  "reject_auth sc text =
     try_st (send_auth_error sc text) (\<lambda>sc _. (sc, Err (ErrAuthentication text)))"

definition recover_session_key :: "auth_env \<Rightarrow> UserConfig \<Rightarrow> AuthRequest \<Rightarrow> bytes proxy_result" where
  "recover_session_key env user_config auth_request =
     and_then (map_err (\<lambda>e. ErrAuthentication (''Invalid public key: '' @ e))
                (av_public_key_pem env (uc_public_key_pem user_config))) (\<lambda>user_public_key.
     and_then (map_err (\<lambda>e. ErrAuthentication ''Failed to decrypt AES key'')
                (decrypt_with_public_key (av_biguint env) user_public_key
                   (ar_encrypted_aes_key auth_request))) (\<lambda>aes_key_bytes.
       if length aes_key_bytes = AES_KEY_SIZE then Ok aes_key_bytes
       else Err (ErrAuthentication ''Invalid AES key length'')))"

definition authenticate ::
  "auth_env \<Rightarrow> i64 \<Rightarrow> u64 \<Rightarrow> ProxyConfig \<Rightarrow> UserConfig \<Rightarrow> ServerConnection \<Rightarrow> unit conn_result" where
  "authenticate env current_time counter proxy_config user_config sc =
     (case sc_pending_auth_request sc of
        None \<Rightarrow> (sc, Err (ErrAuthentication ''No pending auth request''))
      | Some auth_request \<Rightarrow>
        let sc = sc\<lparr>sc_pending_auth_request := None\<rparr>
        in if ar_username auth_request \<noteq> uc_username user_config
             then reject_auth sc ''Username mismatch''
           else if i64_gt (i64_wrapping_abs (current_time - ar_timestamp auth_request))
                     (pc_replay_attack_tolerance proxy_config)
             then reject_auth sc ''Timestamp expired''
           else case is_expired_at (av_rfc3339 env) user_config current_time of
               Inl e \<Rightarrow> (sc, Inl e)
             | Inr True \<Rightarrow> reject_auth sc ''User expired''
             | Inr False \<Rightarrow>
                 (case recover_session_key env user_config auth_request of
                    Inl e \<Rightarrow> (sc, Inl e)
                  | Inr aes_key \<Rightarrow>
                      try_st (send_response sc (ResponseAuth
                          \<lparr>as_success = True, as_message = ''Authentication successful'',
                           as_session_id = Some (snd (generate_id counter current_time))\<rparr>))
                        (\<lambda>sc _. (sc\<lparr>sc_user_config := Some user_config,
                            sc_cipher_state := set_cipher (sc_cipher_state sc) aes_key\<rparr>, Ok ()))))"

text \<open>
  The timed block of \<open>handle_protocol_stream\<close>: \<open>None\<close> when the authentication timeout elapses
  first. The request is the only thing the block waits for.
\<close>

definition authentication_phase ::
  "auth_env \<Rightarrow> i64 \<Rightarrow> u64 \<Rightarrow> UserManager \<Rightarrow> ServerConnection \<Rightarrow>
     ServerConnection \<times> string proxy_result option" where
  "authentication_phase env current_time counter user_manager sc =
     (case sc_incoming sc of
        ReadElapsed # es \<Rightarrow> (sc, None)
      | _ \<Rightarrow> (case try_st (peek_auth_username sc) (\<lambda>sc username.
          case get_user user_manager username of
            Inr (Some user_config) \<Rightarrow>
              try_st (authenticate env current_time counter (sc_proxy_config sc) user_config sc)
                (\<lambda>sc _. (sc, Ok username))
          | Inr None \<Rightarrow>
              try_st (send_auth_error sc ''User not found'')
                (\<lambda>sc _. (sc, Err (ErrUserNotFound username)))
          | Inl e \<Rightarrow>
              try_st (send_auth_error sc ''Internal error'') (\<lambda>sc _. (sc, Inl e)))
        of (sc, r) \<Rightarrow> (sc, Some r)))"

section \<open>The agent side of the framed handshake\<close>

text \<open>
  What the agent reads back: a response, an error of the stream, its end, or nothing within the
  timeout. \<open>io_error\<close> keeps the kind of the \<open>io::Error\<close> and, where the text carries data, that
  text.
\<close>

datatype io_error =
    PermissionDenied string | ConnectionAborted | ConnectionRefused string | TimedOut
  | InvalidData string | InvalidInput | NotConnected | WriteZero | AddrNotAvailable | Other string

datatype agent_reply = Reply ProxyResponse | ReplyFailed io_error | ReplyClosed | ReplyElapsed

record agent_identity =
  id_username :: string
  id_private_key :: "string + RsaPrivateKey"
  id_compression :: CompressionMode

definition agent_auth_request ::
  "biguint \<Rightarrow> agent_identity \<Rightarrow> bytes \<Rightarrow> i64 \<Rightarrow> io_error + AuthRequest" where
  "agent_auth_request bu config aes_key timestamp =
     and_then (map_err InvalidData (id_private_key config)) (\<lambda>rsa_keypair.
     and_then (map_err (\<lambda>e. Other ''encrypt'') (encrypt_with_private_key bu rsa_keypair aes_key))
       (\<lambda>encrypted_aes_key. Ok
          \<lparr>ar_username = id_username config, ar_timestamp = timestamp,
           ar_encrypted_aes_key = encrypted_aes_key\<rparr>))"

definition agent_auth_response :: "CipherState \<Rightarrow> bytes \<Rightarrow> agent_reply \<Rightarrow> io_error + CipherState" where
  "agent_auth_response cipher_state aes_key reply =
     (case reply of
        ReplyFailed e \<Rightarrow> Err e
      | ReplyClosed \<Rightarrow> Err ConnectionAborted
      | ReplyElapsed \<Rightarrow> Err TimedOut
      | Reply (ResponseAuth auth_resp) \<Rightarrow>
          if as_success auth_resp then Ok (set_cipher cipher_state aes_key)
          else Err (PermissionDenied (as_message auth_resp))
      | Reply _ \<Rightarrow> Err (InvalidData ''expected AuthResponse''))"

text \<open>
  \<open>authenticate_stream\<close>: the request goes to \<open>exchange\<close>, the rest of the world, which fails to
  take it or gives a reply.
\<close>

definition authenticate_stream ::
  "biguint \<Rightarrow> agent_identity \<Rightarrow> bytes \<Rightarrow> i64 \<Rightarrow> (ProxyRequest \<Rightarrow> string + agent_reply) \<Rightarrow>
     io_error + CipherState" where
  "authenticate_stream bu config aes_key timestamp exchange =
     and_then (agent_auth_request bu config aes_key timestamp) (\<lambda>auth_request.
     and_then (map_err Other (exchange (RequestAuth auth_request))) (\<lambda>reply.
       agent_auth_response (cipher_state_with_compression (id_compression config)) aes_key reply))"

section \<open>Admission of a native UDP first flight\<close>

definition validate_udp_auth ::
  "rfc3339 \<Rightarrow> i64 \<Rightarrow> ProxyConfig \<Rightarrow> UserConfig \<Rightarrow> UdpAuthInit \<Rightarrow> unit proxy_result" where
  "validate_udp_auth rfc now config user auth =
     (if ai_username auth \<noteq> uc_username user then Err (ErrAuthentication ''Username mismatch'')
      else if i64_abs_diff now (ai_timestamp auth) > nat (max (sint (pc_replay_attack_tolerance config)) 0)
        then Err (ErrAuthentication ''Timestamp expired'')
      else and_then (is_expired_at rfc user now) (\<lambda>expired.
        if expired then Err (ErrAuthentication ''User expired'') else Ok ()))"

section \<open>Facts\<close>

text \<open>The conditions under which a request authenticates a user, and the key it carries.\<close>

definition auth_grants ::
  "auth_env \<Rightarrow> i64 \<Rightarrow> ProxyConfig \<Rightarrow> UserConfig \<Rightarrow> AuthRequest \<Rightarrow> bytes \<Rightarrow> bool" where
  "auth_grants env now config user req key \<longleftrightarrow>
     ar_username req = uc_username user \<and>
     \<not> i64_gt (i64_wrapping_abs (now - ar_timestamp req)) (pc_replay_attack_tolerance config) \<and>
     is_expired_at (av_rfc3339 env) user now = Inr False \<and>
     recover_session_key env user req = Inr key"

text \<open>A response that refuses authentication.\<close>

fun auth_refusal :: "ProxyResponse \<Rightarrow> bool" where
  "auth_refusal (ResponseAuth r) \<longleftrightarrow> \<not> as_success r \<and> as_session_id r = None"
| "auth_refusal _ \<longleftrightarrow> False"

definition auth_success :: "string \<Rightarrow> ProxyResponse" where
  "auth_success sid = ResponseAuth \<lparr>as_success = True, as_message = ''Authentication successful'',
     as_session_id = Some sid\<rparr>"

lemma send_response_cases:
  obtains (sent) "send_response sc m = (sc\<lparr>sc_send_results := drop 1 (sc_send_results sc),
        sc_sent := sc_sent sc @ [(m, st_cipher (sc_cipher_state sc))]\<rparr>, Inr ())"
    "\<forall>e rs. sc_send_results sc \<noteq> Some e # rs"
  | (failed) e rs where "sc_send_results sc = Some e # rs"
    "send_response sc m = (sc\<lparr>sc_send_results := rs\<rparr>,
       Inl (ErrConnection (''Failed to send response: '' @ e)))"
  by (cases "sc_send_results sc"; cases "hd (sc_send_results sc)")
    (auto simp: send_response_def split: option.splits)

lemma recover_session_key_length:
  "recover_session_key env user req = Inr key \<Longrightarrow> length key = AES_KEY_SIZE"
  by (auto simp: recover_session_key_def split: if_splits)

text \<open>Nothing but the record of writes changes when authentication is refused.\<close>

definition refused :: "ServerConnection \<Rightarrow> ServerConnection \<Rightarrow> bool" where
  "refused sc sc' \<longleftrightarrow>
     sc_cipher_state sc' = sc_cipher_state sc \<and> sc_user_config sc' = sc_user_config sc \<and>
     sc_pending_auth_request sc' = None \<and> sc_incoming sc' = sc_incoming sc \<and>
     (sc_sent sc' = sc_sent sc \<or>
      (\<exists>m. auth_refusal m \<and>
         sc_sent sc' = sc_sent sc @ [(m, st_cipher (sc_cipher_state sc))]))"

lemma reject_auth_refused:
  assumes "sc_pending_auth_request sc = None"
  shows "\<exists>sc' e. reject_auth sc t = (sc', Inl e) \<and> refused sc sc'"
proof -
  let ?m = "ResponseAuth \<lparr>as_success = False, as_message = t, as_session_id = None\<rparr>"
  show ?thesis
  proof (cases rule: send_response_cases [where sc = sc and m = ?m])
    case sent
    then show ?thesis
      using assms by (simp add: reject_auth_def send_auth_error_def refused_def)
  next
    case (failed e rs)
    then show ?thesis
      using assms by (simp add: reject_auth_def send_auth_error_def refused_def)
  qed
qed

lemma authenticate_granted:
  assumes "sc_pending_auth_request sc = Some req" and "auth_grants env now config user req key"
  shows "authenticate env now counter config user sc =
    try_st (send_response (sc\<lparr>sc_pending_auth_request := None\<rparr>)
        (auth_success (snd (generate_id counter now))))
      (\<lambda>sc _. (sc\<lparr>sc_user_config := Some user,
          sc_cipher_state := set_cipher (sc_cipher_state sc) key\<rparr>, Inr ()))"
  using assms by (simp add: authenticate_def auth_grants_def auth_success_def Let_def)

lemma authenticate_refused:
  assumes "sc_pending_auth_request sc = Some req" and "\<nexists>key. auth_grants env now config user req key"
  shows "\<exists>sc' e. authenticate env now counter config user sc = (sc', Inl e) \<and>
    refused (sc\<lparr>sc_pending_auth_request := None\<rparr>) sc'"
proof -
  let ?sc = "sc\<lparr>sc_pending_auth_request := None\<rparr>"
  have rej: "\<exists>sc' e. reject_auth ?sc t = (sc', Inl e) \<and> refused ?sc sc'" for t
    by (rule reject_auth_refused) simp
  have same: "refused ?sc ?sc"
    by (simp add: refused_def)
  show ?thesis
  proof (cases "is_expired_at (av_rfc3339 env) user now")
    case (Inl e)
    then show ?thesis
      using assms(1) rej same by (simp add: authenticate_def Let_def)
  next
    case (Inr b)
    then show ?thesis
      using assms rej same
      by (cases "recover_session_key env user req"; cases b)
        (auto simp: authenticate_def Let_def auth_grants_def)
  qed
qed

lemma authentication_phase_first:
  "authentication_phase env now counter um sc =
     (case sc_incoming sc of
        ReadItem (RequestAuth req) # es \<Rightarrow>
          let sc = sc\<lparr>sc_incoming := es, sc_pending_auth_request := Some req\<rparr>
          in map_prod id Some (case map_of (us_users (um_users um)) (ar_username req) of
              Some user \<Rightarrow> try_st (authenticate env now counter (sc_proxy_config sc) user sc)
                (\<lambda>sc _. (sc, Inr (ar_username req)))
            | None \<Rightarrow> try_st (send_auth_error sc ''User not found'')
                (\<lambda>sc _. (sc, Inl (ErrUserNotFound (ar_username req)))))
      | ReadItem _ # es \<Rightarrow>
          (sc\<lparr>sc_incoming := es\<rparr>, Some (Inl (ErrAuthentication ''Expected auth request'')))
      | ReadFailed e # es \<Rightarrow> (sc\<lparr>sc_incoming := es\<rparr>, Some (Inl (ErrProtocol (PIo e))))
      | ReadElapsed # es \<Rightarrow> (sc, None)
      | [] \<Rightarrow> (sc, Some (Inl (ErrConnection ''Connection closed''))))"
  by (auto simp: authentication_phase_def peek_auth_username_def read_request_def get_user_def
      Let_def split_beta map_prod_def split: list.splits read_event.splits ProxyRequest.splits option.splits)

lemma authentication_phase_granted:
  assumes "sc_incoming sc = ReadItem (RequestAuth req) # es"
    and "map_of (us_users (um_users um)) (ar_username req) = Some user"
    and "auth_grants env now (sc_proxy_config sc) user req key"
    and "\<forall>e rs. sc_send_results sc \<noteq> Some e # rs"
  shows "\<exists>sc'. authentication_phase env now counter um sc = (sc', Some (Inr (ar_username req))) \<and>
    sc_cipher_state sc' = set_cipher (sc_cipher_state sc) key \<and> sc_user_config sc' = Some user \<and>
    sc_incoming sc' = es \<and>
    sc_sent sc' = sc_sent sc @
      [(auth_success (snd (generate_id counter now)), st_cipher (sc_cipher_state sc))]"
proof -
  let ?sc = "sc\<lparr>sc_incoming := es, sc_pending_auth_request := Some req\<rparr>"
  have "authenticate env now counter (sc_proxy_config sc) user ?sc =
      try_st (send_response (?sc\<lparr>sc_pending_auth_request := None\<rparr>)
          (auth_success (snd (generate_id counter now))))
        (\<lambda>sc _. (sc\<lparr>sc_user_config := Some user,
            sc_cipher_state := set_cipher (sc_cipher_state sc) key\<rparr>, Inr ()))"
    using assms(3) by (intro authenticate_granted) simp_all
  moreover have "send_response (?sc\<lparr>sc_pending_auth_request := None\<rparr>) m =
      (?sc\<lparr>sc_pending_auth_request := None, sc_send_results := drop 1 (sc_send_results sc),
        sc_sent := sc_sent sc @ [(m, st_cipher (sc_cipher_state sc))]\<rparr>, Inr ())" for m
    using assms(4)
    by (cases rule: send_response_cases [where m = m and
        sc = "?sc\<lparr>sc_pending_auth_request := None\<rparr>"]) auto
  ultimately show ?thesis
    using assms(1,2) by (simp add: authentication_phase_first Let_def)
qed

lemma phase_not_granted:
  assumes "authentication_phase env now counter um sc = (sc', r)"
    and "\<forall>name. r \<noteq> Some (Inr name)" and "sc_sent sc = []"
  shows "sc_cipher_state sc' = sc_cipher_state sc \<and> sc_user_config sc' = sc_user_config sc \<and>
    (\<forall>m\<in>set (sc_sent sc'). auth_refusal (fst m))"
proof (cases "\<exists>req es. sc_incoming sc = ReadItem (RequestAuth req) # es")
  case False
  then show ?thesis
    using assms(1,3) unfolding authentication_phase_first
    by (auto split: list.splits read_event.splits ProxyRequest.splits)
next
  case True
  then obtain req es where inc: "sc_incoming sc = ReadItem (RequestAuth req) # es"
    by blast
  let ?sc = "sc\<lparr>sc_incoming := es, sc_pending_auth_request := Some req\<rparr>"
  show ?thesis
  proof (cases "map_of (us_users (um_users um)) (ar_username req)")
    case None
    then show ?thesis
      using assms inc
      by (cases rule: send_response_cases [where sc = ?sc and m = "ResponseAuth
          \<lparr>as_success = False, as_message = ''User not found'', as_session_id = None\<rparr>"])
        (auto simp: authentication_phase_first send_auth_error_def Let_def)
  next
    case (Some user)
    show ?thesis
    proof (cases "\<exists>key. auth_grants env now (sc_proxy_config sc) user req key")
      case True
      then obtain key where "auth_grants env now (sc_proxy_config sc) user req key"
        by blast
      then have "authenticate env now counter (sc_proxy_config sc) user ?sc =
          try_st (send_response (?sc\<lparr>sc_pending_auth_request := None\<rparr>)
              (auth_success (snd (generate_id counter now))))
            (\<lambda>sc _. (sc\<lparr>sc_user_config := Some user,
                sc_cipher_state := set_cipher (sc_cipher_state sc) key\<rparr>, Inr ()))"
        by (intro authenticate_granted) simp_all
      then show ?thesis
        using assms inc Some
        by (cases rule: send_response_cases [where sc = "?sc\<lparr>sc_pending_auth_request := None\<rparr>"
            and m = "auth_success (snd (generate_id counter now))"])
          (auto simp: authentication_phase_first Let_def)
    next
      case False
      then have "\<exists>sc' e. authenticate env now counter (sc_proxy_config sc) user ?sc = (sc', Inl e) \<and>
          refused (?sc\<lparr>sc_pending_auth_request := None\<rparr>) sc'"
        by (intro authenticate_refused) simp_all
      then show ?thesis
        using assms inc Some
        by (auto simp: authentication_phase_first Let_def refused_def)
    qed
  qed
qed

lemma phase_granted_only:
  assumes "authentication_phase env now counter um sc = (sc', Some (Inr name))"
  shows "\<exists>req es user key. sc_incoming sc = ReadItem (RequestAuth req) # es \<and>
    ar_username req = name \<and> map_of (us_users (um_users um)) name = Some user \<and>
    auth_grants env now (sc_proxy_config sc) user req key \<and>
    (\<forall>e rs. sc_send_results sc \<noteq> Some e # rs)"
proof -
  obtain req es where inc: "sc_incoming sc = ReadItem (RequestAuth req) # es"
    using assms unfolding authentication_phase_first
    by (auto split: list.splits read_event.splits ProxyRequest.splits)
  let ?sc = "sc\<lparr>sc_incoming := es, sc_pending_auth_request := Some req\<rparr>"
  obtain user where user: "map_of (us_users (um_users um)) (ar_username req) = Some user"
    using assms inc by (cases "map_of (us_users (um_users um)) (ar_username req)";
        cases "send_auth_error ?sc ''User not found''")
      (auto simp: authentication_phase_first Let_def try_st_def split: sum.splits)
  have "\<exists>key. auth_grants env now (sc_proxy_config sc) user req key"
  proof (rule ccontr)
    assume "\<nexists>key. auth_grants env now (sc_proxy_config sc) user req key"
    then have "\<exists>sc' e. authenticate env now counter (sc_proxy_config sc) user ?sc = (sc', Inl e) \<and>
        refused (?sc\<lparr>sc_pending_auth_request := None\<rparr>) sc'"
      by (intro authenticate_refused) simp_all
    then show False
      using assms inc user by (auto simp: authentication_phase_first Let_def)
  qed
  then obtain key where key: "auth_grants env now (sc_proxy_config sc) user req key"
    by blast
  then have auth: "authenticate env now counter (sc_proxy_config sc) user ?sc =
      try_st (send_response (?sc\<lparr>sc_pending_auth_request := None\<rparr>)
          (auth_success (snd (generate_id counter now))))
        (\<lambda>sc _. (sc\<lparr>sc_user_config := Some user,
            sc_cipher_state := set_cipher (sc_cipher_state sc) key\<rparr>, Inr ()))"
    by (intro authenticate_granted) simp_all
  have "\<forall>e rs. sc_send_results sc \<noteq> Some e # rs"
    using assms inc user auth
    by (cases rule: send_response_cases [where sc = "?sc\<lparr>sc_pending_auth_request := None\<rparr>"
        and m = "auth_success (snd (generate_id counter now))"])
      (auto simp: authentication_phase_first Let_def)
  then show ?thesis
    using assms inc user key auth
    by (cases rule: send_response_cases [where sc = "?sc\<lparr>sc_pending_auth_request := None\<rparr>"
        and m = "auth_success (snd (generate_id counter now))"])
      (auto simp: authentication_phase_first Let_def)
qed

subsection \<open>The refusal a request gets\<close>

text \<open>
  What the agent is told, by the first condition its request fails: nothing when the request is
  granted, and nothing either when the stored expiry does not parse or the session key cannot be
  recovered, since those errors end the connection without a response.
\<close>

definition refusal_text ::
  "auth_env \<Rightarrow> i64 \<Rightarrow> ProxyConfig \<Rightarrow> UserManager \<Rightarrow> AuthRequest \<Rightarrow> string option" where
  "refusal_text env now config um req =
     (case get_user um (ar_username req) of
        Inl e \<Rightarrow> Some ''Internal error''
      | Inr None \<Rightarrow> Some ''User not found''
      | Inr (Some user) \<Rightarrow>
          if ar_username req \<noteq> uc_username user then Some ''Username mismatch''
          else if i64_gt (i64_wrapping_abs (now - ar_timestamp req)) (pc_replay_attack_tolerance config)
            then Some ''Timestamp expired''
          else if is_expired_at (av_rfc3339 env) user now = Inr True then Some ''User expired''
          else None)"

fun write_ok :: "string option list \<Rightarrow> bool" where
  "write_ok (Some e # rs) \<longleftrightarrow> False"
| "write_ok rs \<longleftrightarrow> True"

fun refusal_sent :: "string option \<Rightarrow> string option list \<Rightarrow> ProxyResponse list" where
  "refusal_sent (Some text) rs =
     (if write_ok rs then [ResponseAuth \<lparr>as_success = False, as_message = text, as_session_id = None\<rparr>] else [])"
| "refusal_sent None rs = []"

lemma write_ok_iff: "write_ok rs \<longleftrightarrow> (\<forall>e rs'. rs \<noteq> Some e # rs')"
  by (cases rs rule: write_ok.cases) auto

lemma send_auth_error_sent:
  "sc_sent (fst (send_auth_error sc text)) = sc_sent sc @
     map (\<lambda>m. (m, st_cipher (sc_cipher_state sc))) (refusal_sent (Some text) (sc_send_results sc))"
  by (cases "sc_send_results sc" rule: write_ok.cases) (simp_all add: send_auth_error_def send_response_def)

lemma reject_auth_sent: "sc_sent (fst (reject_auth sc text)) = sc_sent (fst (send_auth_error sc text))"
  by (simp add: reject_auth_def try_st_def split_beta split: sum.splits)

lemma authenticate_sent:
  assumes "sc_pending_auth_request sc = Some req" and "get_user um (ar_username req) = Inr (Some user)"
    and "\<nexists>key. auth_grants env now config user req key"
  shows "sc_sent (fst (authenticate env now counter config user sc)) = sc_sent sc @
    map (\<lambda>m. (m, st_cipher (sc_cipher_state sc)))
      (refusal_sent (refusal_text env now config um req) (sc_send_results sc))"
proof (cases "is_expired_at (av_rfc3339 env) user now")
  case (Inl e)
  then show ?thesis
    using assms(1,2)
    by (simp add: authenticate_def refusal_text_def reject_auth_sent send_auth_error_sent Let_def
        del: refusal_sent.simps(1))
next
  case (Inr expired)
  then show ?thesis
    using assms
    by (cases "recover_session_key env user req"; cases expired)
      (auto simp: authenticate_def refusal_text_def reject_auth_sent send_auth_error_sent Let_def auth_grants_def
        simp del: refusal_sent.simps(1))
qed

lemma granted_no_refusal:
  "get_user um (ar_username req) = Inr (Some user) \<Longrightarrow> auth_grants env now config user req key \<Longrightarrow>
     refusal_text env now config um req = None"
  by (simp add: refusal_text_def auth_grants_def)

lemma phase_not_granted_sent:
  assumes "authentication_phase env now counter um sc = (sc', r)"
    and "\<forall>name. r \<noteq> Some (Inr name)"
  shows "sc_sent sc' = sc_sent sc @ map (\<lambda>m. (m, st_cipher (sc_cipher_state sc)))
    (case sc_incoming sc of
       ReadItem (RequestAuth req) # es \<Rightarrow>
         refusal_sent (refusal_text env now (sc_proxy_config sc) um req) (sc_send_results sc)
     | _ \<Rightarrow> [])"
proof (cases "\<exists>req es. sc_incoming sc = ReadItem (RequestAuth req) # es")
  case False
  then show ?thesis
    using assms(1) unfolding authentication_phase_first
    by (auto split: list.splits read_event.splits ProxyRequest.splits)
next
  case True
  then obtain req es where inc: "sc_incoming sc = ReadItem (RequestAuth req) # es"
    by blast
  let ?sc = "sc\<lparr>sc_incoming := es, sc_pending_auth_request := Some req\<rparr>"
  have sent: "sc_sent (fst (try_st p (\<lambda>sc _. (sc, f sc)))) = sc_sent (fst p)"
    for p :: "'a conn_result" and f :: "ServerConnection \<Rightarrow> string proxy_result"
    by (cases p; cases "snd p") (auto simp: try_st_def)
  show ?thesis
  proof (cases "map_of (us_users (um_users um)) (ar_username req)")
    case None
    then have "sc' = fst (try_st (send_auth_error ?sc ''User not found'')
        (\<lambda>sc _. (sc, Inl (ErrUserNotFound (ar_username req)) :: string proxy_result)))"
      using assms(1) inc by (auto simp: authentication_phase_first Let_def map_prod_def split_beta)
    then show ?thesis
      using None inc
      by (simp add: sent send_auth_error_sent refusal_text_def get_user_def del: refusal_sent.simps)
  next
    case (Some user)
    then have sc': "sc' = fst (try_st (authenticate env now counter (sc_proxy_config sc) user ?sc)
        (\<lambda>sc _. (sc, Inr (ar_username req) :: string proxy_result)))"
      using assms(1) inc by (auto simp: authentication_phase_first Let_def map_prod_def split_beta)
    show ?thesis
    proof (cases "\<exists>key. auth_grants env now (sc_proxy_config sc) user req key")
      case True
      then obtain key where key: "auth_grants env now (sc_proxy_config sc) user req key"
        by blast
      have "\<not> (\<forall>e rs. sc_send_results sc \<noteq> Some e # rs)"
        using authentication_phase_granted [OF inc Some key, of counter] assms by auto
      then show ?thesis
        using sc' inc Some key authenticate_granted [of ?sc req env now "sc_proxy_config sc" user key]
          granted_no_refusal [of um req user env now "sc_proxy_config sc" key]
        by (auto simp: sent get_user_def send_response_def try_st_def)
    next
      case False
      then show ?thesis
        using sc' inc Some authenticate_sent [of ?sc req um user env now "sc_proxy_config sc" counter]
        by (simp add: sent get_user_def)
    qed
  qed
qed

lemma phase_granted_iff:
  assumes "authentication_phase env now counter um sc = (sc', r)"
  shows "r = Some (Inr name) \<longleftrightarrow> (\<exists>req es user key. sc_incoming sc = ReadItem (RequestAuth req) # es \<and>
    ar_username req = name \<and> get_user um name = Inr (Some user) \<and>
    auth_grants env now (sc_proxy_config sc) user req key \<and> write_ok (sc_send_results sc))"
    (is "_ \<longleftrightarrow> ?granted")
proof
  assume "r = Some (Inr name)"
  then show ?granted
    using phase_granted_only [of env now counter um sc sc' name] assms
    by (auto simp: write_ok_iff get_user_def)
next
  assume ?granted
  then show "r = Some (Inr name)"
    using authentication_phase_granted [of sc _ _ um _ env now _ counter] assms
    by (auto simp: write_ok_iff get_user_def)
qed

lemma fresh_within_tolerance:
  assumes "\<bar>sint now - sint t\<bar> \<le> sint tol"
  shows "\<not> i64_gt (i64_wrapping_abs (now - t)) tol"
proof -
  have b: "sint tol < 2 ^ 63"
    using sint_lt [of tol] by simp
  have d: "sint (now - t) = sint now - sint t"
    using assms b by (simp add: sint_word_ariths signed_take_bit_int_eq_self)
  have "sint (- (now - t)) = - sint (now - t)"
    using assms b d by (simp add: sint_word_ariths signed_take_bit_int_eq_self)
  then show ?thesis
    using assms d by (auto simp: i64_gt_def i64_wrapping_abs_def)
qed

lemma half_turn_apart: "i64_abs_diff now (now + 2 ^ 63) = 2 ^ 63"
proof (cases "0 \<le> sint now")
  case True
  have "sint (now + 0x8000000000000000) = sint now - 2 ^ 63"
    using True sint_lt [of now] by (simp add: sint_word_ariths signed_take_bit_int_eq_self)
  then show ?thesis
    by (simp add: i64_abs_diff_def)
next
  case False
  have "(2 :: i64) ^ 63 = - 0x8000000000000000"
    by simp
  then have "now + 2 ^ 63 = now - (0x8000000000000000 :: i64)"
    by (simp only: add_uminus_conv_diff)
  moreover have "sint (now - 0x8000000000000000) = sint now + 2 ^ 63"
    using False sint_ge [of now] by (simp add: sint_word_ariths signed_take_bit_int_eq_self)
  ultimately show ?thesis
    by (simp only: i64_abs_diff_def) simp
qed

text \<open>A world for the examples: one user, whose key is \<open>key\<close>, under the name \<open>alice\<close>.\<close>

definition small_key :: RsaPrivateKey where
  "small_key = \<lparr>rsa_pub = \<lparr>rsa_n = 256 ^ 43 - 1, rsa_e = 1\<rparr>, rsa_d = 1, rsa_size = 43\<rparr>"

definition plain_auth_env :: auth_env where
  "plain_auth_env = \<lparr>av_biguint = plain_biguint, av_public_key_pem = (\<lambda>_. Inr (rsa_pub small_key)),
     av_rfc3339 = (\<lambda>_. Inl ''bad'')\<rparr>"

definition alice_only :: UserManager where
  "alice_only = \<lparr>um_users = \<lparr>us_users = [(''alice'', alice)]\<rparr>\<rparr>"

definition alice_agent :: agent_identity where
  "alice_agent = \<lparr>id_username = ''alice'', id_private_key = Inr small_key,
     id_compression = CompressNone\<rparr>"

lemma small_key_ok: "rsa_key_ok small_key"
  by (simp add: rsa_key_ok_def small_key_def usize_max_def)

lemma alice_not_expired: "is_expired_at rfc alice now = Inr False"
  by (simp add: is_expired_at_def expires_at_unix_timestamp_def alice_def)

lemma alice_request:
  "\<exists>c. decrypt_with_public_key plain_biguint (rsa_pub small_key) c = Inr (replicate 32 7)"
proof -
  have "length (replicate 32 (7 :: u8)) + 11 \<le> rsa_size small_key" "replicate 32 (7 :: u8) \<noteq> []"
    by (simp_all add: small_key_def)
  then show ?thesis
    using rsa_roundtrip [OF plain_biguint_ok small_key_ok] by blast
qed

lemma alice_recovers:
  assumes "decrypt_with_public_key plain_biguint (rsa_pub small_key) c = Inr (replicate 32 7)"
    and "ar_encrypted_aes_key req = c"
  shows "recover_session_key plain_auth_env alice req = Inr (replicate 32 7)"
  using assms by (simp add: recover_session_key_def plain_auth_env_def AES_KEY_SIZE_def)

section \<open>Properties\<close>

text \<open>
  C6. A framed connection is authenticated exactly when its first message is an authentication
  request that grants access - a user of the table under the name it gives, a fresh timestamp, an
  account that has not expired, a session key that the user's public key recovers - and the
  response can be written. Then the session key is installed, and the one response sent is a
  success, in clear. In every other case no key and no user is installed; a request that fails a
  condition is answered, in clear, with exactly the text of the first condition it fails, and
  nothing else is ever sent: not on a foreign message, a closed or failed stream, a timeout, an
  expiry that does not parse, a session key that cannot be recovered, or a failing write.
\<close>

theorem authentication_phase_exact:
  assumes "authentication_phase env now counter um (server_connection_new es rs mode config) = (sc, r)"
  shows "(r = Some (Inr name) \<longleftrightarrow> (\<exists>req rest user key. es = ReadItem (RequestAuth req) # rest \<and>
      ar_username req = name \<and> get_user um name = Inr (Some user) \<and>
      auth_grants env now config user req key \<and> write_ok rs)) \<and>
    (case r of
      Some (Inr name) \<Rightarrow> \<exists>req rest user key. es = ReadItem (RequestAuth req) # rest \<and>
        name = ar_username req \<and> get_user um name = Inr (Some user) \<and>
        auth_grants env now config user req key \<and> length key = 32 \<and>
        st_cipher (sc_cipher_state sc) = Some key \<and> sc_user_config sc = Some user \<and>
        sc_sent sc = [(auth_success (snd (generate_id counter now)), None)]
    | _ \<Rightarrow> st_cipher (sc_cipher_state sc) = None \<and> sc_user_config sc = None \<and>
        sc_sent sc = map (\<lambda>m. (m, None)) (case es of
          ReadItem (RequestAuth req) # rest \<Rightarrow> refusal_sent (refusal_text env now config um req) rs
        | _ \<Rightarrow> []))"
    (is "?exact \<and> ?outcome")
proof
  let ?sc = "server_connection_new es rs mode config"
  show ?exact
    using phase_granted_iff [OF assms] by (simp add: server_connection_new_def)
  show ?outcome
  proof (cases "\<exists>name. r = Some (Inr name)")
    case True
    then obtain name where r: "r = Some (Inr name)"
      by blast
    obtain req rest user key where g: "es = ReadItem (RequestAuth req) # rest" "ar_username req = name"
        "map_of (us_users (um_users um)) name = Some user" "auth_grants env now config user req key"
        "\<forall>e rs'. rs \<noteq> Some e # rs'"
      using phase_granted_only [OF assms [unfolded r]] by (auto simp: server_connection_new_def)
    then obtain sc' where sc': "authentication_phase env now counter um ?sc =
          (sc', Some (Inr (ar_username req)))"
        "sc_cipher_state sc' = set_cipher (sc_cipher_state ?sc) key" "sc_user_config sc' = Some user"
        "sc_sent sc' = sc_sent ?sc @
          [(auth_success (snd (generate_id counter now)), st_cipher (sc_cipher_state ?sc))]"
      using authentication_phase_granted [of ?sc req rest um user env now key counter]
      by (auto simp: server_connection_new_def)
    have "sc' = sc"
      using assms sc'(1) by simp
    then show ?thesis
      using r g sc' recover_session_key_length [of env user req key]
      by (auto simp: get_user_def auth_grants_def AES_KEY_SIZE_def server_connection_new_def
          cipher_state_with_compression_def set_cipher_def)
  next
    case False
    then have none: "\<forall>name. r \<noteq> Some (Inr name)"
      by blast
    have new: "sc_incoming ?sc = es" "sc_send_results ?sc = rs" "sc_proxy_config ?sc = config" "sc_sent ?sc = []"
        "st_cipher (sc_cipher_state ?sc) = None" "sc_user_config ?sc = None"
      by (simp_all add: server_connection_new_def cipher_state_with_compression_def)
    have "st_cipher (sc_cipher_state sc) = None \<and> sc_user_config sc = None"
      using phase_not_granted [OF assms none] new by simp
    then show ?thesis
      using none phase_not_granted_sent [OF assms none, unfolded new append_Nil]
      by (simp split: option.splits sum.splits)
  qed
qed

theorem authentication_phase_exact_witness:
  "(\<exists>c sc. authentication_phase plain_auth_env 100 0 alice_only (server_connection_new
        [ReadItem (RequestAuth \<lparr>ar_username = ''alice'', ar_timestamp = 100, ar_encrypted_aes_key = c\<rparr>)]
        [] CompressNone (proxy_config_default ''addr'')) = (sc, Some (Inr ''alice'')) \<and>
      st_cipher (sc_cipher_state sc) \<noteq> None) \<and>
   (\<exists>sc r. authentication_phase plain_auth_env 100 0 alice_only (server_connection_new
        [ReadItem (RequestAuth \<lparr>ar_username = ''bob'', ar_timestamp = 100, ar_encrypted_aes_key = []\<rparr>)]
        [] CompressNone (proxy_config_default ''addr'')) = (sc, r) \<and>
      st_cipher (sc_cipher_state sc) = None \<and>
      sc_sent sc = [(ResponseAuth \<lparr>as_success = False, as_message = ''User not found'',
        as_session_id = None\<rparr>, None)])"
proof
  obtain c where c: "decrypt_with_public_key plain_biguint (rsa_pub small_key) c = Inr (replicate 32 7)"
    using alice_request by blast
  let ?req = "\<lparr>ar_username = ''alice'', ar_timestamp = 100, ar_encrypted_aes_key = c\<rparr>"
  let ?sc = "server_connection_new [ReadItem (RequestAuth ?req)] [] CompressNone (proxy_config_default ''addr'')"
  obtain sc r where run: "authentication_phase plain_auth_env 100 0 alice_only ?sc = (sc, r)"
    by fastforce
  have grants: "auth_grants plain_auth_env 100 (proxy_config_default ''addr'') alice ?req (replicate 32 7)"
    using alice_recovers [OF c, of ?req] alice_not_expired
    by (simp add: auth_grants_def alice_def i64_gt_def i64_wrapping_abs_def proxy_config_default_def)
  have user: "get_user alice_only ''alice'' = Inr (Some alice)"
    by (simp add: get_user_def alice_only_def)
  have r: "r = Some (Inr ''alice'')"
    by (rule authentication_phase_exact [OF run, THEN conjunct1, THEN iffD2])
      (use grants user in \<open>intro exI conjI; simp\<close>)
  obtain key where "st_cipher (sc_cipher_state sc) = Some key"
    using authentication_phase_exact [OF run [unfolded r], THEN conjunct2]
    by (simp only: option.case sum.case) blast
  then show "\<exists>c sc. authentication_phase plain_auth_env 100 0 alice_only (server_connection_new
        [ReadItem (RequestAuth \<lparr>ar_username = ''alice'', ar_timestamp = 100, ar_encrypted_aes_key = c\<rparr>)]
        [] CompressNone (proxy_config_default ''addr'')) = (sc, Some (Inr ''alice'')) \<and>
      st_cipher (sc_cipher_state sc) \<noteq> None"
    using run [unfolded r] by (intro exI conjI) (assumption, simp)
next
  let ?req = "\<lparr>ar_username = ''bob'', ar_timestamp = 100, ar_encrypted_aes_key = []\<rparr>"
  let ?sc = "server_connection_new [ReadItem (RequestAuth ?req)] [] CompressNone (proxy_config_default ''addr'')"
  obtain sc r where run: "authentication_phase plain_auth_env 100 0 alice_only ?sc = (sc, r)"
    by fastforce
  have nobody: "get_user alice_only ''bob'' = Inr None"
    by (simp add: get_user_def alice_only_def)
  have none: "\<forall>name. r \<noteq> Some (Inr name)"
  proof (intro allI notI)
    fix name
    assume "r = Some (Inr name)"
    then show False
      using authentication_phase_exact [OF run, THEN conjunct1, THEN iffD1, of name] nobody by auto
  qed
  have "st_cipher (sc_cipher_state sc) = None \<and> sc_sent sc = [(ResponseAuth \<lparr>as_success = False,
      as_message = ''User not found'', as_session_id = None\<rparr>, None)]"
    using none nobody authentication_phase_exact [OF run, THEN conjunct2]
    by (cases r; cases "the r") (simp_all add: refusal_text_def)
  then show "\<exists>sc r. authentication_phase plain_auth_env 100 0 alice_only (server_connection_new
        [ReadItem (RequestAuth \<lparr>ar_username = ''bob'', ar_timestamp = 100, ar_encrypted_aes_key = []\<rparr>)]
        [] CompressNone (proxy_config_default ''addr'')) = (sc, r) \<and>
      st_cipher (sc_cipher_state sc) = None \<and>
      sc_sent sc = [(ResponseAuth \<lparr>as_success = False, as_message = ''User not found'',
        as_session_id = None\<rparr>, None)]"
    using run by blast
qed

text \<open>
  C26. The two ends of the framed handshake agree: an agent that holds the private key of a user
  of the table, whose clock is within the tolerance of the proxy's and whose account has not
  expired, is accepted, and afterwards both ends encrypt with the session key the agent chose.
\<close>

theorem framed_handshake_agrees:
  assumes "biguint_ok (av_biguint env)" and "rsa_key_ok key" and "43 \<le> rsa_size key"
    and "get_user um (id_username agent) = Inr (Some user)" and "uc_username user = id_username agent"
    and "id_private_key agent = Inr key"
    and "av_public_key_pem env (uc_public_key_pem user) = Inr (rsa_pub key)"
    and "\<bar>sint now - sint t\<bar> \<le> sint (pc_replay_attack_tolerance config)"
    and "is_expired_at (av_rfc3339 env) user now = Inr False" and "length aes_key = 32"
  shows "\<exists>req sc response. agent_auth_request (av_biguint env) agent aes_key t = Inr req \<and>
    authentication_phase env now counter um
      (server_connection_new [ReadItem (RequestAuth req)] [] mode config) =
      (sc, Some (Inr (id_username agent))) \<and>
    sc_sent sc = [(response, None)] \<and> st_cipher (sc_cipher_state sc) = Some aes_key \<and>
    authenticate_stream (av_biguint env) agent aes_key t
        (\<lambda>m. if m = RequestAuth req then Inr (Reply response) else Inl ''other'') =
      Inr (set_cipher (cipher_state_with_compression (id_compression agent)) aes_key)"
proof -
  obtain c where c: "encrypt_with_private_key (av_biguint env) key aes_key = Inr c"
      "decrypt_with_public_key (av_biguint env) (rsa_pub key) c = Inr aes_key"
    using rsa_roundtrip [OF assms(1,2), of aes_key] assms(3,10) by fastforce
  define req where "req = \<lparr>ar_username = id_username agent, ar_timestamp = t, ar_encrypted_aes_key = c\<rparr>"
  have req: "agent_auth_request (av_biguint env) agent aes_key t = Inr req"
    using assms(6) c(1) by (simp add: agent_auth_request_def req_def)
  have grants: "auth_grants env now config user req aes_key"
    using assms c(2) fresh_within_tolerance [OF assms(8)]
    by (simp add: auth_grants_def req_def recover_session_key_def AES_KEY_SIZE_def)
  let ?sc = "server_connection_new [ReadItem (RequestAuth req)] [] mode config"
  obtain sc where "authentication_phase env now counter um ?sc = (sc, Some (Inr (ar_username req)))"
      "sc_cipher_state sc = set_cipher (sc_cipher_state ?sc) aes_key"
      "sc_sent sc = sc_sent ?sc @
        [(auth_success (snd (generate_id counter now)), st_cipher (sc_cipher_state ?sc))]"
    using authentication_phase_granted [of ?sc req "[]" um user env now aes_key counter] grants assms(4)
    by (auto simp: server_connection_new_def get_user_def req_def)
  then show ?thesis
    using req by (intro exI [of _ req] exI [of _ sc]
        exI [of _ "auth_success (snd (generate_id counter now))"])
      (simp add: server_connection_new_def set_cipher_def cipher_state_with_compression_def
        authenticate_stream_def agent_auth_response_def auth_success_def req_def)
qed

theorem framed_handshake_agrees_witness:
  "\<exists>req sc response. agent_auth_request plain_biguint alice_agent (replicate 32 7) 100 = Inr req \<and>
    authentication_phase plain_auth_env 90 0 alice_only
      (server_connection_new [ReadItem (RequestAuth req)] [] CompressNone (proxy_config_default ''addr'')) =
      (sc, Some (Inr ''alice'')) \<and>
    sc_sent sc = [(response, None)] \<and> st_cipher (sc_cipher_state sc) = Some (replicate 32 7) \<and>
    authenticate_stream plain_biguint alice_agent (replicate 32 7) 100
        (\<lambda>m. if m = RequestAuth req then Inr (Reply response) else Inl ''other'') =
      Inr (set_cipher (cipher_state_with_compression CompressNone) (replicate 32 7))"
proof -
  have "get_user alice_only (id_username alice_agent) = Inr (Some alice)"
    by (simp add: get_user_def alice_only_def alice_agent_def)
  from framed_handshake_agrees [OF _ small_key_ok _ this, of plain_auth_env 90 100
      "proxy_config_default ''addr''" "replicate 32 7" 0 CompressNone]
  show ?thesis
    using plain_biguint_ok alice_not_expired
    by (simp add: plain_auth_env_def alice_agent_def small_key_def alice_def proxy_config_default_def)
qed

text \<open>
  C37. The timestamp is not bound to the rest of the request: whoever has recorded one request
  that was accepted can put a current timestamp into it and is accepted again, at any later time
  while the account is valid, with the same session key.
\<close>

theorem recorded_request_replays:
  assumes "authentication_phase env t0 counter um
      (server_connection_new [ReadItem (RequestAuth req)] rs mode config) = (sc, Some (Inr name))"
    and "get_user um (ar_username req) = Inr (Some user)"
    and "is_expired_at (av_rfc3339 env) user now = Inr False"
    and "0 \<le> sint (pc_replay_attack_tolerance config)"
  shows "\<exists>sc'. authentication_phase env now counter' um
      (server_connection_new [ReadItem (RequestAuth (req\<lparr>ar_timestamp := now\<rparr>))] [] mode config) =
      (sc', Some (Inr name)) \<and>
    st_cipher (sc_cipher_state sc') = st_cipher (sc_cipher_state sc)"
proof -
  let ?sc = "server_connection_new [ReadItem (RequestAuth req)] rs mode config"
  let ?req = "req\<lparr>ar_timestamp := now\<rparr>"
  let ?sc' = "server_connection_new [ReadItem (RequestAuth ?req)] [] mode config"
  obtain key where key: "auth_grants env t0 config user req key" "ar_username req = name"
      "\<forall>e rs'. rs \<noteq> Some e # rs'"
    using phase_granted_only [OF assms(1)] assms(2) by (auto simp: server_connection_new_def get_user_def)
  have old: "st_cipher (sc_cipher_state sc) = Some key"
    using authentication_phase_granted [of ?sc req "[]" um user env t0 key counter] key assms(1,2)
    by (auto simp: server_connection_new_def get_user_def set_cipher_def
        cipher_state_with_compression_def)
  have "auth_grants env now config user ?req key"
    using key(1) assms(3,4) fresh_within_tolerance [of now now "pc_replay_attack_tolerance config"]
    by (simp add: auth_grants_def recover_session_key_def)
  then show ?thesis
    using authentication_phase_granted [of ?sc' ?req "[]" um user env now key counter'] key(2) assms(2) old
    by (auto simp: server_connection_new_def get_user_def set_cipher_def
        cipher_state_with_compression_def)
qed

theorem recorded_request_replays_witness:
  "\<exists>c sc sc'. authentication_phase plain_auth_env 100 0 alice_only (server_connection_new
        [ReadItem (RequestAuth \<lparr>ar_username = ''alice'', ar_timestamp = 100, ar_encrypted_aes_key = c\<rparr>)]
        [] CompressNone (proxy_config_default ''addr'')) = (sc, Some (Inr ''alice'')) \<and>
    authentication_phase plain_auth_env 1000000 1 alice_only (server_connection_new
        [ReadItem (RequestAuth \<lparr>ar_username = ''alice'', ar_timestamp = 1000000, ar_encrypted_aes_key = c\<rparr>)]
        [] CompressNone (proxy_config_default ''addr'')) = (sc', Some (Inr ''alice'')) \<and>
    st_cipher (sc_cipher_state sc') = st_cipher (sc_cipher_state sc)"
proof -
  obtain c where c: "decrypt_with_public_key plain_biguint (rsa_pub small_key) c = Inr (replicate 32 7)"
    using alice_request by blast
  let ?req = "\<lparr>ar_username = ''alice'', ar_timestamp = 100, ar_encrypted_aes_key = c\<rparr>"
  let ?sc = "server_connection_new [ReadItem (RequestAuth ?req)] [] CompressNone (proxy_config_default ''addr'')"
  have user: "get_user alice_only ''alice'' = Inr (Some alice)"
    by (simp add: get_user_def alice_only_def)
  have "auth_grants plain_auth_env 100 (proxy_config_default ''addr'') alice ?req (replicate 32 7)"
    using alice_recovers [OF c, of ?req] alice_not_expired
    by (simp add: auth_grants_def alice_def i64_gt_def i64_wrapping_abs_def proxy_config_default_def)
  then obtain sc where sc: "authentication_phase plain_auth_env 100 0 alice_only ?sc = (sc, Some (Inr ''alice''))"
    using authentication_phase_granted [of ?sc ?req "[]" alice_only alice plain_auth_env 100
        "replicate 32 7" 0] user
    by (auto simp: server_connection_new_def get_user_def)
  show ?thesis
    using recorded_request_replays [OF sc, of alice 1000000 1] sc user alice_not_expired
    by (auto simp: proxy_config_default_def)
qed

text \<open>
  The framed freshness check wraps: a timestamp as far from the clock as 64 bits allow is
  accepted under every tolerance, where the native UDP check refuses it.
\<close>

theorem freshness_check_wraps:
  assumes "get_user um (ar_username req) = Inr (Some user)" and "ar_username req = uc_username user"
    and "is_expired_at (av_rfc3339 env) user now = Inr False"
    and "recover_session_key env user req = Inr key" and "ar_timestamp req = now + 2 ^ 63"
    and "ai_timestamp auth = now + 2 ^ 63"
  shows "i64_abs_diff now (ar_timestamp req) = 2 ^ 63 \<and>
    snd (authentication_phase env now counter um
      (server_connection_new [ReadItem (RequestAuth req)] [] mode config)) =
      Some (Inr (ar_username req)) \<and>
    validate_udp_auth (av_rfc3339 env) now config user auth \<noteq> Inr ()"
proof -
  have min: "now - (now + 2 ^ 63) = (- 0x8000000000000000 :: i64)"
    by simp
  have far: "i64_abs_diff now (now + 2 ^ 63) = 2 ^ 63"
    by (rule half_turn_apart)
  have "\<not> i64_gt (i64_wrapping_abs (- 0x8000000000000000)) tol" for tol
    using sint_ge [of tol] by (simp add: i64_gt_def i64_wrapping_abs_def)
  then have "auth_grants env now config user req key"
    using assms(2-5) min by (simp add: auth_grants_def)
  then have "snd (authentication_phase env now counter um
      (server_connection_new [ReadItem (RequestAuth req)] [] mode config)) =
      Some (Inr (ar_username req))"
    using authentication_phase_granted [of "server_connection_new [ReadItem (RequestAuth req)] [] mode config"
        req "[]" um user env now key counter] assms(1)
    by (auto simp: server_connection_new_def get_user_def)
  moreover have "validate_udp_auth (av_rfc3339 env) now config user auth \<noteq> Inr ()"
    using far assms(6) sint_lt [of "pc_replay_attack_tolerance config"]
    by (auto simp: validate_udp_auth_def)
  ultimately show ?thesis
    using far assms(5) by simp
qed

theorem freshness_check_wraps_witness:
  "\<exists>c. snd (authentication_phase plain_auth_env 100 0 alice_only (server_connection_new
        [ReadItem (RequestAuth \<lparr>ar_username = ''alice'', ar_timestamp = 100 + 2 ^ 63, ar_encrypted_aes_key = c\<rparr>)]
        [] CompressNone (proxy_config_default ''addr''))) = Some (Inr ''alice'')"
proof -
  obtain c where c: "decrypt_with_public_key plain_biguint (rsa_pub small_key) c = Inr (replicate 32 7)"
    using alice_request by blast
  let ?req = "\<lparr>ar_username = ''alice'', ar_timestamp = 100 + 2 ^ 63, ar_encrypted_aes_key = c\<rparr>"
  have "get_user alice_only (ar_username ?req) = Inr (Some alice)" "ar_username ?req = uc_username alice"
    by (simp_all add: get_user_def alice_only_def alice_def)
  from freshness_check_wraps [OF this alice_not_expired alice_recovers [OF c], of 100
      "\<lparr>ai_username = [], ai_timestamp = 100 + 2 ^ 63, ai_client_nonce = [], ai_proof = []\<rparr>"
      0 CompressNone "proxy_config_default ''addr''"]
  show ?thesis
    by (intro exI [of _ c]) simp
qed

text \<open>
  A user whose name in the table has white space around it passes the start-up check and can
  never authenticate, whatever is sent: the lookup needs the trimmed name, the comparison the
  untrimmed one.
\<close>

theorem padded_user_locked_out:
  assumes "user_manager_new rfc us = Inr um" and "get_user um name = Inr (Some user)"
    and "uc_username user \<noteq> trim (uc_username user)"
  shows "snd (authentication_phase env now counter um (server_connection_new es rs mode config)) \<noteq>
    Some (Inr name)"
proof
  let ?p = "authentication_phase env now counter um (server_connection_new es rs mode config)"
  assume "snd ?p = Some (Inr name)"
  then have "?p = (fst ?p, Some (Inr name))"
    by (simp add: prod_eq_iff)
  then have "name = uc_username user"
    using phase_granted_only [of env now counter um "server_connection_new es rs mode config" "fst ?p" name]
      assms(2) by (auto simp: get_user_def auth_grants_def)
  moreover have "normalize_username (uc_username user) = Inr name"
    using assms(1,2) validate_entries_Ok [of rfc "us_users us" name user]
    by (auto simp: user_manager_new_def validate_users_def get_user_def)
  ultimately show False
    using assms(3) by (auto simp: normalize_username_def Let_def split: if_splits)
qed

theorem padded_user_locked_out_witness:
  "\<exists>um. user_manager_new (\<lambda>_. Inl ''bad'') \<lparr>us_users = [(''alice'', padded_alice)]\<rparr> = Inr um \<and>
     snd (authentication_phase plain_auth_env 100 0 um (server_connection_new [] [] CompressNone
        (proxy_config_default ''addr''))) \<noteq> Some (Inr ''alice'')"
proof -
  let ?um = "\<lparr>um_users = \<lparr>us_users = [(''alice'', padded_alice)]\<rparr>\<rparr>"
  have um: "user_manager_new (\<lambda>_. Inl ''bad'') \<lparr>us_users = [(''alice'', padded_alice)]\<rparr> = Inr ?um"
    using normalize_alice(2)
    by (simp add: user_manager_new_def validate_users_def padded_alice_def expires_at_unix_timestamp_def)
  moreover have "get_user ?um ''alice'' = Inr (Some padded_alice)"
    by (simp add: get_user_def)
  moreover have "uc_username padded_alice \<noteq> trim (uc_username padded_alice)"
    using normalize_alice(2)
    by (auto simp: padded_alice_def normalize_username_def Let_def split: if_splits)
  ultimately show ?thesis
    using padded_user_locked_out [OF um] by blast
qed

end
