(* ===== verification/Net_Addr.thy ===== *)
theory Net_Addr
  imports Rust_Std
begin

text \<open>
  Internet addresses as the Rust standard library reads and prints them (\<open>core::net\<close>): an address
  is the list of its octets, in network order. Only what the sources use: \<open>FromStr\<close> for
  \<open>Ipv4Addr\<close>, \<open>Ipv6Addr\<close> and \<open>IpAddr\<close>, \<open>Display\<close> for these and for \<open>SocketAddr\<close>, the classification
  methods, and the string searches that find a port.
\<close>

section \<open>Addresses\<close>

datatype IpAddr = V4 bytes | V6 bytes

record SocketAddr =
  sa_ip :: IpAddr
  sa_port :: u16

fun ip_ok :: "IpAddr \<Rightarrow> bool" where
  "ip_ok (V4 o4) \<longleftrightarrow> length o4 = 4"
| "ip_ok (V6 o6) \<longleftrightarrow> length o6 = 16"

fun is_ipv4 :: "IpAddr \<Rightarrow> bool" where
  "is_ipv4 (V4 _) \<longleftrightarrow> True"
| "is_ipv4 (V6 _) \<longleftrightarrow> False"

fun segments :: "bytes \<Rightarrow> nat list" where
  "segments (a # b # bs) = (unat a * 256 + unat b) # segments bs"
| "segments _ = []"

fun octets_of_segments :: "nat list \<Rightarrow> bytes" where
  "octets_of_segments [] = []"
| "octets_of_segments (g # gs) = word_of_nat (g div 256) # word_of_nat g # octets_of_segments gs"

section \<open>Reading\<close>

definition decimal_digit :: "char \<Rightarrow> nat option" where
  "decimal_digit c = (if is_digit c then Some (digit_val c) else None)"

definition hex_digit :: "char \<Rightarrow> nat option" where
  "hex_digit c =
     (let n = (of_char c :: nat)
      in if is_digit c then Some (digit_val c)
         else if 97 \<le> n \<and> n \<le> 102 then Some (n - 87)
         else if 65 \<le> n \<and> n \<le> 70 then Some (n - 55)
         else None)"

text \<open>\<open>read_number\<close>: digits, at most so many, a value that fits, leading zeros allowed or not.\<close>

definition read_number ::
  "(char \<Rightarrow> nat option) \<Rightarrow> nat \<Rightarrow> nat \<Rightarrow> nat \<Rightarrow> bool \<Rightarrow> string \<Rightarrow> (nat \<times> string) option" where
  "read_number digit radix max_digits max_value allow_zero_prefix s =
     (let ds = takeWhile (\<lambda>c. digit c \<noteq> None) s;
          v = foldl (\<lambda>a c. a * radix + the (digit c)) 0 ds
      in if ds = [] \<or> length ds > max_digits \<or> v > max_value \<or>
            \<not> allow_zero_prefix \<and> hd ds = CHR ''0'' \<and> length ds > 1
         then None else Some (v, drop (length ds) s))"

definition read_octet :: "string \<Rightarrow> (nat \<times> string) option" where
  "read_octet s = read_number decimal_digit 10 3 255 False s"

definition read_group :: "string \<Rightarrow> (nat \<times> string) option" where
  "read_group s = read_number hex_digit 16 4 65535 True s"

fun read_given_char :: "char \<Rightarrow> string \<Rightarrow> string option" where
  "read_given_char c [] = None"
| "read_given_char c (d # s) = (if d = c then Some s else None)"

definition read_separator :: "char \<Rightarrow> nat \<Rightarrow> (string \<Rightarrow> 'a option) \<Rightarrow> string \<Rightarrow> 'a option" where
  "read_separator c i inner s =
     (if i = 0 then inner s else Option.bind (read_given_char c s) inner)"

definition read_ipv4_addr :: "string \<Rightarrow> (nat list \<times> string) option" where
  "read_ipv4_addr s =
     Option.bind (read_octet s) (\<lambda>(a, s1).
     Option.bind (read_separator (CHR ''.'') 1 read_octet s1) (\<lambda>(b, s2).
     Option.bind (read_separator (CHR ''.'') 2 read_octet s2) (\<lambda>(c, s3).
     Option.bind (read_separator (CHR ''.'') 3 read_octet s3) (\<lambda>(d, s4).
       Some ([a, b, c, d], s4)))))"

text \<open>
  \<open>read_groups\<close> with the index of the next group and the number of groups that still fit; an
  embedded IPv4 address needs two of them.
\<close>

fun read_groups :: "nat \<Rightarrow> nat \<Rightarrow> string \<Rightarrow> nat list \<times> bool \<times> string" where
  "read_groups i 0 s = ([], False, s)"
| "read_groups i (Suc n) s =
     (case (if 0 < n then read_separator (CHR '':'') i read_ipv4_addr s else None) of
        Some (o4, rest) \<Rightarrow> ([o4 ! 0 * 256 + o4 ! 1, o4 ! 2 * 256 + o4 ! 3], True, rest)
      | None \<Rightarrow>
          (case read_separator (CHR '':'') i read_group s of
             Some (g, rest) \<Rightarrow>
               (case read_groups (Suc i) n rest of (gs, v4, rest') \<Rightarrow> (g # gs, v4, rest'))
           | None \<Rightarrow> ([], False, s)))"

definition read_ipv6_addr :: "string \<Rightarrow> (nat list \<times> string) option" where
  "read_ipv6_addr s =
     (case read_groups 0 8 s of (head, head_ipv4, s1) \<Rightarrow>
        if length head = 8 then Some (head, s1)
        else if head_ipv4 then None
        else Option.bind (read_given_char (CHR '':'') s1) (\<lambda>s2.
             Option.bind (read_given_char (CHR '':'') s2) (\<lambda>s3.
               case read_groups 0 (8 - (length head + 1)) s3 of (tail, _, s4) \<Rightarrow>
                 Some (head @ replicate (8 - length head - length tail) 0 @ tail, s4))))"

definition parse_with :: "(string \<Rightarrow> ('a \<times> string) option) \<Rightarrow> string \<Rightarrow> 'a option" where
  "parse_with reader s = (case reader s of Some (v, []) \<Rightarrow> Some v | _ \<Rightarrow> None)"

definition parse_ipv4 :: "string \<Rightarrow> bytes option" where
  "parse_ipv4 s =
     (if length s > 15 then None else map_option (map word_of_nat) (parse_with read_ipv4_addr s))"

definition parse_ipv6 :: "string \<Rightarrow> bytes option" where
  "parse_ipv6 s = map_option octets_of_segments (parse_with read_ipv6_addr s)"

definition read_ip_addr :: "string \<Rightarrow> (IpAddr \<times> string) option" where
  "read_ip_addr s =
     (case read_ipv4_addr s of
        Some (o4, rest) \<Rightarrow> Some (V4 (map word_of_nat o4), rest)
      | None \<Rightarrow> map_option (\<lambda>(g, rest). (V6 (octets_of_segments g), rest)) (read_ipv6_addr s))"

definition parse_ip :: "string \<Rightarrow> IpAddr option" where
  "parse_ip s = parse_with read_ip_addr s"

text \<open>\<open>str::parse\<close> for unsigned integers: an optional plus sign, digits, a value that fits.\<close>

definition parse_uint :: "nat \<Rightarrow> string \<Rightarrow> nat option" where
  "parse_uint max_value s =
     (case parse_digits (case s of c # cs \<Rightarrow> if c = CHR ''+'' then cs else s | [] \<Rightarrow> s) of
        Some n \<Rightarrow> if n \<le> max_value then Some n else None
      | None \<Rightarrow> None)"

section \<open>Printing\<close>

definition hex_char :: "nat \<Rightarrow> char" where
  "hex_char n = (if n < 10 then chr (48 + n) else chr (87 + n))"

fun hex_to_string :: "nat \<Rightarrow> string" where
  "hex_to_string n =
     (if n < 16 then [hex_char n] else hex_to_string (n div 16) @ [hex_char (n mod 16)])"

declare hex_to_string.simps [simp del]

fun join :: "string \<Rightarrow> string list \<Rightarrow> string" where
  "join sep [] = []"
| "join sep [s] = s"
| "join sep (s # t # ss) = s @ sep @ join sep (t # ss)"

definition show_ipv4 :: "bytes \<Rightarrow> string" where
  "show_ipv4 o4 = join ''.'' (map (nat_to_string \<circ> unat) o4)"

text \<open>The longest run of zero segments, the first of equal length: start and length.\<close>

fun longest_zeros :: "nat \<Rightarrow> nat \<times> nat \<Rightarrow> nat \<times> nat \<Rightarrow> nat list \<Rightarrow> nat \<times> nat" where
  "longest_zeros i current longest [] = longest"
| "longest_zeros i (cs, cl) longest (g # gs) =
     (if g = 0 then
        (let current = (if cl = 0 then i else cs, cl + 1);
             longest' = (if cl + 1 > snd longest then current else longest)
         in longest_zeros (i + 1) current longest' gs)
      else longest_zeros (i + 1) (0, 0) longest gs)"

definition show_segments :: "nat list \<Rightarrow> string" where
  "show_segments gs = join '':'' (map hex_to_string gs)"

definition show_ipv6 :: "bytes \<Rightarrow> string" where
  "show_ipv6 o6 =
     (if take 12 o6 = replicate 10 0 @ [0xFF, 0xFF] then ''::ffff:'' @ show_ipv4 (drop 12 o6)
      else
        let gs = segments o6; (start, len) = longest_zeros 0 (0, 0) (0, 0) gs
        in if len > 1
           then show_segments (take start gs) @ ''::'' @ show_segments (drop (start + len) gs)
           else show_segments gs)"

fun show_ip :: "IpAddr \<Rightarrow> string" where
  "show_ip (V4 o4) = show_ipv4 o4"
| "show_ip (V6 o6) = show_ipv6 o6"

definition show_u16 :: "u16 \<Rightarrow> string" where
  "show_u16 w = nat_to_string (unat w)"

definition show_socket_addr :: "SocketAddr \<Rightarrow> string" where
  "show_socket_addr a =
     (case sa_ip a of
        V4 o4 \<Rightarrow> show_ipv4 o4 @ '':'' @ show_u16 (sa_port a)
      | V6 o6 \<Rightarrow> ''['' @ show_ipv6 o6 @ '']:'' @ show_u16 (sa_port a))"

section \<open>Searching text\<close>

definition strip_prefix :: "string \<Rightarrow> string \<Rightarrow> string option" where
  "strip_prefix p s = (if prefix p s then Some (drop (length p) s) else None)"

definition ends_with :: "string \<Rightarrow> string \<Rightarrow> bool" where
  "ends_with s p \<longleftrightarrow> suffix p s"

text \<open>\<open>rsplit_once\<close>: around the last occurrence.\<close>

fun split_once :: "string \<Rightarrow> string \<Rightarrow> (string \<times> string) option" where
  "split_once p [] = (if p = [] then Some ([], []) else None)"
| "split_once p (c # s) =
     (if prefix p (c # s) then Some ([], drop (length p) (c # s))
      else map_option (\<lambda>(a, b). (c # a, b)) (split_once p s))"

fun rsplit_once :: "string \<Rightarrow> string \<Rightarrow> (string \<times> string) option" where
  "rsplit_once p [] = (if p = [] then Some ([], []) else None)"
| "rsplit_once p (c # s) =
     (case rsplit_once p s of
        Some (a, b) \<Rightarrow> Some (c # a, b)
      | None \<Rightarrow> if prefix p (c # s) then Some ([], drop (length p) (c # s)) else None)"

definition trim_end_char :: "char \<Rightarrow> string \<Rightarrow> string" where
  "trim_end_char c s = rev (dropWhile (\<lambda>d. d = c) (rev s))"

definition to_ascii_lowercase :: "string \<Rightarrow> string" where
  "to_ascii_lowercase s = map (\<lambda>c. if 65 \<le> (of_char c :: nat) \<and> (of_char c :: nat) \<le> 90
     then chr (of_char c + 32) else c) s"

definition to_ascii_uppercase :: "string \<Rightarrow> string" where
  "to_ascii_uppercase s = map (\<lambda>c. if 97 \<le> (of_char c :: nat) \<and> (of_char c :: nat) \<le> 122
     then chr (of_char c - 32) else c) s"

text \<open>\<open>split_whitespace\<close>, through the white space characters of the prelude.\<close>

fun split_ws :: "nat \<Rightarrow> string \<Rightarrow> string \<Rightarrow> string list" where
  "split_ws 0 word s = (if word @ s = [] then [] else [word @ s])"
| "split_ws (Suc n) word s =
     (case s of
        [] \<Rightarrow> (if word = [] then [] else [word])
      | c # cs \<Rightarrow>
          (case find (\<lambda>w. w \<noteq> [] \<and> prefix w s) whitespace of
             Some w \<Rightarrow> (if word = [] then [] else [word]) @ split_ws n [] (drop (length w) s)
           | None \<Rightarrow> split_ws n (word @ [c]) cs))"

definition split_whitespace :: "string \<Rightarrow> string list" where
  "split_whitespace s = split_ws (length s + 1) [] s"

section \<open>Facts\<close>

text \<open>A text that starts like neither kind of address.\<close>

lemma parse_ip_name:
  assumes "hex_digit c = None" and "c \<noteq> CHR '':''"
  shows "parse_ip (c # s) = None" "parse_ip [] = None"
proof -
  have "decimal_digit c = None"
    using assms(1) by (auto simp: hex_digit_def decimal_digit_def Let_def split: if_splits)
  then have "read_ipv4_addr (c # s) = None" "read_ipv4_addr [] = None"
    by (simp_all add: read_ipv4_addr_def read_octet_def read_number_def)
  moreover have "read_group (c # s) = None" "read_group [] = None"
    using assms(1) by (simp_all add: read_group_def read_number_def)
  moreover have "(8 :: nat) = Suc 7"
    by simp
  ultimately show "parse_ip (c # s) = None" "parse_ip [] = None"
    using assms(2)
    by (simp_all only: parse_ip_def parse_with_def read_ip_addr_def read_ipv6_addr_def
        read_groups.simps read_separator_def) simp_all
qed

end
