(* ===== verification/Targets.thy ===== *)
theory Targets
  imports Users Net_Addr
begin

text \<open>
  Which address the proxy connects to for a request (\<open>proxy/src/connection/target.rs\<close>): the text
  of a target, the DNS server that stands behind the virtual address \<open>ProxyDns\<close> from the
  configuration or the operating system, and the port appended where the text has none. The
  contents of \<open>/etc/resolv.conf\<close> and the answers of the Windows calls are arguments. The texts of
  errors, Chinese in the sources, are given in English.
\<close>

unbundle bit_operations_syntax

section \<open>Text of a target\<close>

definition show_port :: "u16 \<Rightarrow> string" where
  "show_port p = show_u16 p"

definition format_ipv6 :: "bytes \<Rightarrow> string" where
  "format_ipv6 addr = show_segments (segments addr)"

fun format_target_addr :: "Address \<Rightarrow> string" where
  "format_target_addr (Domain host port) = host @ '':'' @ show_port port"
| "format_target_addr (Ipv4 addr port) = show_ipv4 addr @ '':'' @ show_port port"
| "format_target_addr (Ipv6 addr port) = ''['' @ format_ipv6 addr @ '']:'' @ show_port port"
| "format_target_addr (ProxyDns port) = ''proxy-dns:'' @ show_port port"
| "format_target_addr UdpRelay = ''udp-relay''"

fun relay_target_addr :: "Address \<Rightarrow> string proxy_result" where
  "relay_target_addr (ProxyDns _) =
     Err (ErrConnection ''UDP relay packet contains virtual target address'')"
| "relay_target_addr UdpRelay =
     Err (ErrConnection ''UDP relay packet contains virtual target address'')"
| "relay_target_addr address = Ok (format_target_addr address)"

section \<open>Ports\<close>

definition has_explicit_port :: "string \<Rightarrow> bool" where
  "has_explicit_port value =
     (case (case strip_prefix ''['' value of Some rest \<Rightarrow> rsplit_once '']:'' rest | None \<Rightarrow> None) of
        Some (_, port) \<Rightarrow> parse_uint 65535 port \<noteq> None
      | None \<Rightarrow>
          (case rsplit_once '':'' value of
             Some (host, port) \<Rightarrow> CHR '':'' \<notin> set host \<and> parse_uint 65535 port \<noteq> None
           | None \<Rightarrow> False))"

definition endpoint_with_port :: "string \<Rightarrow> u16 \<Rightarrow> string" where
  "endpoint_with_port text default_port =
     (let value = trim text
      in if has_explicit_port value then value
         else case parse_ip value of
           Some ip \<Rightarrow> show_socket_addr \<lparr>sa_ip = ip, sa_port = default_port\<rparr>
         | None \<Rightarrow>
             if CHR '':'' \<in> set value then ''['' @ value @ '']:'' @ show_port default_port
             else value @ '':'' @ show_port default_port)"

section \<open>The DNS server of a Unix system\<close>

text \<open>\<open>str::lines\<close>: the pieces between line ends, a line feed with or without a carriage return.\<close>

fun lines :: "string \<Rightarrow> string list" where
  "lines [] = []"
| "lines (c # s) =
     (if c = CHR 0x0A then [] # lines s
      else if c = CHR 0x0D \<and> s \<noteq> [] \<and> hd s = CHR 0x0A then [] # lines (tl s)
      else case lines s of
        [] \<Rightarrow> [[c]]
      | l # ls \<Rightarrow> (c # l) # ls)"

definition before_comment :: "string \<Rightarrow> string" where
  "before_comment line = takeWhile (\<lambda>c. c \<noteq> CHR ''#'' \<and> c \<noteq> CHR '';'') line"

definition parse_resolv_nameserver :: "string \<Rightarrow> string option" where
  "parse_resolv_nameserver line =
     (case split_whitespace (trim (before_comment line)) of
        key # value # _ \<Rightarrow> if key = ''nameserver'' then Some value else None
      | _ \<Rightarrow> None)"

fun find_map :: "('a \<Rightarrow> 'b option) \<Rightarrow> 'a list \<Rightarrow> 'b option" where
  "find_map f [] = None"
| "find_map f (x # xs) = (case f x of Some y \<Rightarrow> Some y | None \<Rightarrow> find_map f xs)"

definition system_dns_nameserver_unix :: "string + string \<Rightarrow> string proxy_result" where
  "system_dns_nameserver_unix resolv_conf =
     and_then (map_err (\<lambda>e. ErrConfiguration (''cannot read /etc/resolv.conf: '' @ e)) resolv_conf)
       (\<lambda>text. ok_or (find_map parse_resolv_nameserver (lines text))
          (ErrConfiguration ''no nameserver in the system DNS configuration''))"

section \<open>The DNS server of a Windows system\<close>

definition ERROR_SUCCESS :: u32 where "ERROR_SUCCESS = 0"
definition ERROR_BUFFER_OVERFLOW :: u32 where "ERROR_BUFFER_OVERFLOW = 111"
definition IfOperStatusUp :: u32 where "IfOperStatusUp = 1"
definition IF_TYPE_SOFTWARE_LOOPBACK :: u32 where "IF_TYPE_SOFTWARE_LOOPBACK = 24"
definition IF_TYPE_TUNNEL :: u32 where "IF_TYPE_TUNNEL = 131"
definition MAX_ATTEMPTS :: nat where "MAX_ATTEMPTS = 3"

text \<open>An adapter as the linked list of the call holds it, and a socket address by family and bytes.\<close>

datatype sock_address = NullAddress | SockIn nat bytes | SockIn6 nat bytes | SockOther

record adapter =
  ad_oper_status :: u32
  ad_if_type :: u32
  ad_if_index :: u32
  ad_ipv6_if_index :: u32
  ad_dns_servers :: "sock_address list"

fun socket_address_to_ip :: "sock_address \<Rightarrow> IpAddr option" where
  "socket_address_to_ip NullAddress = None"
| "socket_address_to_ip (SockIn len octets) = (if 16 \<le> len then Some (V4 octets) else None)"
| "socket_address_to_ip (SockIn6 len octets) = (if 28 \<le> len then Some (V6 octets) else None)"
| "socket_address_to_ip SockOther = None"

text \<open>The address classes of the standard library.\<close>

fun is_unspecified :: "IpAddr \<Rightarrow> bool" where
  "is_unspecified (V4 a) \<longleftrightarrow> a = replicate 4 0"
| "is_unspecified (V6 a) \<longleftrightarrow> a = replicate 16 0"

fun is_loopback :: "IpAddr \<Rightarrow> bool" where
  "is_loopback (V4 a) \<longleftrightarrow> a ! 0 = 127"
| "is_loopback (V6 a) \<longleftrightarrow> a = replicate 15 0 @ [1]"

fun is_multicast :: "IpAddr \<Rightarrow> bool" where
  "is_multicast (V4 a) \<longleftrightarrow> 224 \<le> a ! 0 \<and> a ! 0 \<le> 239"
| "is_multicast (V6 a) \<longleftrightarrow> a ! 0 = 0xFF"

fun is_unicast_link_local :: "IpAddr \<Rightarrow> bool" where
  "is_unicast_link_local (V4 a) \<longleftrightarrow> False"
| "is_unicast_link_local (V6 a) \<longleftrightarrow> a ! 0 = 0xFE \<and> a ! 1 AND 0xC0 = 0x80"

fun dns_ip_is_usable :: "IpAddr \<Rightarrow> bool" where
  "dns_ip_is_usable (V4 a) \<longleftrightarrow>
     \<not> is_unspecified (V4 a) \<and> \<not> is_loopback (V4 a) \<and> \<not> is_multicast (V4 a)"
| "dns_ip_is_usable (V6 a) \<longleftrightarrow>
     \<not> is_unspecified (V6 a) \<and> \<not> is_loopback (V6 a) \<and> \<not> is_multicast (V6 a) \<and>
     \<not> is_unicast_link_local (V6 a)"

definition windows_adapter_can_resolve :: "adapter \<Rightarrow> bool" where
  "windows_adapter_can_resolve a \<longleftrightarrow>
     ad_oper_status a = IfOperStatusUp \<and> ad_if_type a \<noteq> IF_TYPE_SOFTWARE_LOOPBACK \<and>
     ad_if_type a \<noteq> IF_TYPE_TUNNEL"

definition windows_adapter_matches_if_index :: "adapter \<Rightarrow> u32 list \<Rightarrow> bool" where
  "windows_adapter_matches_if_index a preferred_if_indices \<longleftrightarrow>
     (if preferred_if_indices = [] then False
      else ad_if_index a \<in> set preferred_if_indices \<or>
        (ad_ipv6_if_index a \<noteq> 0 \<and> ad_ipv6_if_index a \<in> set preferred_if_indices))"

definition usable_ip :: "sock_address \<Rightarrow> IpAddr option" where
  "usable_ip s =
     (case socket_address_to_ip s of
        Some ip \<Rightarrow> if dns_ip_is_usable ip then Some ip else None
      | None \<Rightarrow> None)"

definition adapter_dns :: "u32 list \<Rightarrow> bool \<Rightarrow> adapter \<Rightarrow> IpAddr option" where
  "adapter_dns preferred_if_indices preferred_only a =
     (if windows_adapter_can_resolve a \<and>
         (\<not> preferred_only \<or> windows_adapter_matches_if_index a preferred_if_indices \<or>
          preferred_if_indices = [])
      then find_map usable_ip (ad_dns_servers a) else None)"

definition find_windows_dns_server :: "adapter list \<Rightarrow> u32 list \<Rightarrow> IpAddr option" where
  "find_windows_dns_server adapters preferred_if_indices =
     find_map (\<lambda>preferred_only. find_map (adapter_dns preferred_if_indices preferred_only) adapters)
       [True, False]"

record route =
  ro_prefix :: u8
  ro_destination :: IpAddr
  ro_if_index :: "u32 option"

fun default_route_loop :: "route list \<Rightarrow> u32 list \<Rightarrow> u32 list" where
  "default_route_loop [] indices = indices"
| "default_route_loop (r # rs) indices =
     (if ro_prefix r \<noteq> 0 then default_route_loop rs indices
      else if \<not> is_unspecified (ro_destination r) then default_route_loop rs indices
      else case ro_if_index r of
        Some i \<Rightarrow> default_route_loop rs (if i \<in> set indices then indices else indices @ [i])
      | None \<Rightarrow> default_route_loop rs indices)"

definition windows_default_route_if_indices :: "(string + string + route list) \<Rightarrow> u32 list" where
  "windows_default_route_if_indices routes =
     (case routes of
        Inr (Inr rs) \<Rightarrow> default_route_loop rs []
      | _ \<Rightarrow> [])"

text \<open>The retry loop; each attempt is what one call answers.\<close>

fun windows_attempts :: "nat \<Rightarrow> u32 list \<Rightarrow> (nat \<Rightarrow> u32 \<times> adapter list) \<Rightarrow> nat \<Rightarrow> string proxy_result" where
  "windows_attempts 0 preferred call i =
     Err (ErrConfiguration ''cannot read the Windows DNS configuration: buffer too small'')"
| "windows_attempts (Suc n) preferred call i =
     (let (status, adapters) = call i
      in if status = ERROR_BUFFER_OVERFLOW then windows_attempts n preferred call (i + 1)
         else if status \<noteq> ERROR_SUCCESS then
           Err (ErrConfiguration (''cannot read the Windows DNS configuration: '' @ nat_to_string (unat status)))
         else case find_windows_dns_server adapters preferred of
           Some ip \<Rightarrow> Ok (show_ip ip)
         | None \<Rightarrow> Err (ErrConfiguration ''no nameserver in the Windows DNS configuration''))"

definition system_dns_nameserver_windows ::
  "(string + string + route list) \<Rightarrow> (nat \<Rightarrow> u32 \<times> adapter list) \<Rightarrow> string proxy_result" where
  "system_dns_nameserver_windows routes call =
     windows_attempts MAX_ATTEMPTS (windows_default_route_if_indices routes) call 0"

section \<open>The target of a request\<close>

definition proxy_dns_target_addr :: "string proxy_result \<Rightarrow> ProxyConfig \<Rightarrow> u16 \<Rightarrow> string proxy_result" where
  "proxy_dns_target_addr system_dns_nameserver proxy_config port =
     (case map_option trim (pc_dns_upstream_addr proxy_config) of
        Some addr \<Rightarrow>
          if addr \<noteq> [] then Ok (endpoint_with_port addr port)
          else and_then system_dns_nameserver (\<lambda>ns. Ok (endpoint_with_port ns port))
      | None \<Rightarrow> and_then system_dns_nameserver (\<lambda>ns. Ok (endpoint_with_port ns port)))"

fun target_addr_for_address :: "string proxy_result \<Rightarrow> ProxyConfig \<Rightarrow> Address \<Rightarrow> string proxy_result" where
  "target_addr_for_address dns proxy_config (ProxyDns port) = proxy_dns_target_addr dns proxy_config port"
| "target_addr_for_address dns proxy_config UdpRelay =
     Err (ErrConnection ''virtual target address cannot be used as a TCP target'')"
| "target_addr_for_address dns proxy_config address = Ok (format_target_addr address)"

section \<open>Facts\<close>

lemma find_map_Some: "find_map f xs = Some y \<Longrightarrow> \<exists>x\<in>set xs. f x = Some y"
  by (induction xs) (auto split: option.splits)

lemma find_map_None: "find_map f xs = None \<longleftrightarrow> (\<forall>x\<in>set xs. f x = None)"
  by (induction xs) (auto split: option.splits)

lemma port_digits: "list_all is_digit (show_port p)" "show_port p \<noteq> []"
  using nat_to_string_digits [of "unat p"] by (simp_all add: show_port_def show_u16_def)

lemma parse_port: "parse_uint 65535 (show_port p) \<noteq> None"
proof -
  have le: "unat p \<le> 65535"
    using unsigned_less [of p, where 'a = nat] by simp
  obtain c cs where s: "nat_to_string (unat p) = c # cs" "is_digit c"
    using nat_to_string_digits [of "unat p"] by (cases "nat_to_string (unat p)") auto
  then have "c \<noteq> CHR ''+''"
    using not_digit_sign by auto
  then show ?thesis
    using le s parse_nat_to_string [of "unat p"] by (simp add: parse_uint_def show_port_def show_u16_def)
qed

lemma rsplit_absent: "hd q \<notin> set b \<Longrightarrow> q \<noteq> [] \<Longrightarrow> rsplit_once q b = None"
  by (induction b) (auto simp: prefix_def Cons_eq_append_conv)

lemma rsplit_Some: "rsplit_once q s = Some (a, b) \<Longrightarrow> s = a @ q @ b"
  by (induction s arbitrary: a) (auto split: option.splits if_splits simp: prefix_def)

text \<open>The last occurrence of a separator whose first character does not come again.\<close>

lemma rsplit_last:
  assumes "q \<noteq> []" and "hd q \<notin> set b" and "hd q \<notin> set (tl q)"
  shows "rsplit_once q (a @ q @ b) = Some (a, b)"
proof (induction a)
  case Nil
  obtain c q' where q: "q = c # q'"
    using assms(1) by (cases q) auto
  have "rsplit_once q (q' @ b) = None"
    using assms(2,3) q by (intro rsplit_absent) auto
  then show ?case
    by (simp add: q)
qed simp

lemma not_digit_marks: "\<not> is_digit (CHR '':'')" "\<not> is_digit (CHR '']'')" "\<not> is_digit (CHR ''['')"
  by (simp_all add: is_digit_def)

lemma port_no_marks: "CHR '':'' \<notin> set (show_port p)" "CHR '']'' \<notin> set (show_port p)"
  using port_digits(1) [of p] not_digit_marks by (auto simp: list_all_iff)

lemma bracketed_port: "has_explicit_port (''['' @ v @ '']:'' @ show_port p)"
proof -
  have "rsplit_once '']:'' (v @ '']:'' @ show_port p) = Some (v, show_port p)"
    by (rule rsplit_last) (simp_all add: port_no_marks)
  then show ?thesis
    using parse_port [of p] by (simp add: has_explicit_port_def strip_prefix_def)
qed

text \<open>A bracket after the first character is the only way to a bracketed port.\<close>

lemma plain_port:
  assumes "CHR '':'' \<notin> set v"
  shows "has_explicit_port (v @ '':'' @ show_port p)"
proof (cases "\<exists>w. v = ''['' @ w @ '']''")
  case True
  then show ?thesis
    using bracketed_port [of _ p] by auto
next
  case False
  have colon: "rsplit_once '':'' (v @ '':'' @ show_port p) = Some (v, show_port p)"
    by (rule rsplit_last) (simp_all add: port_no_marks)
  have "rsplit_once '']:'' (w @ '':'' @ show_port p) = None" if "CHR '':'' \<notin> set w" "w = [] \<or> last w \<noteq> CHR '']''" for w
    using that
  proof (induction w)
    case Nil
    then show ?case
      using rsplit_absent [of "'']:''" "'':'' @ show_port p"] by (simp add: port_no_marks)
  next
    case (Cons c w)
    then show ?case
      by (cases w) (auto split: if_splits)
  qed
  moreover have "w = [] \<or> last w \<noteq> CHR '']''" if "v = CHR ''['' # w" for w
    using that False by (cases w rule: rev_cases) auto
  ultimately have "rsplit_once '']:'' (w @ '':'' @ show_port p) = None" if "v = CHR ''['' # w" for w
    using that assms by simp
  then have "(case strip_prefix ''['' (v @ '':'' @ show_port p) of
      Some rest \<Rightarrow> rsplit_once '']:'' rest | None \<Rightarrow> None) = None"
    by (cases v) (simp_all add: strip_prefix_def)
  then show ?thesis
    using colon parse_port [of p] assms by (simp add: has_explicit_port_def)
qed

lemma digits_no_colon: "CHR '':'' \<notin> set (nat_to_string n)"
  using nat_to_string_digits [of n] not_digit_marks by (auto simp: list_all_iff)

lemma join_chars: "set (join q ss) \<subseteq> set q \<union> \<Union> (set ` set ss)"
  by (induction q ss rule: join.induct) auto

lemma ipv4_no_colon: "CHR '':'' \<notin> set (show_ipv4 o4)"
proof
  assume "CHR '':'' \<in> set (show_ipv4 o4)"
  then have "CHR '':'' \<in> set ''.'' \<union> \<Union> (set ` set (map (nat_to_string \<circ> unat) o4))"
    using join_chars unfolding show_ipv4_def by blast
  then show False
    using digits_no_colon by auto
qed

text \<open>A bracketed text without a port has none by the rule of the code either.\<close>

lemma bracketed_no_split:
  assumes "CHR '']'' \<notin> set addr"
  shows "rsplit_once '']:'' (addr @ '']'') = None"
proof (cases "rsplit_once '']:'' (addr @ '']'')")
  case (Some ab)
  have eq: "addr @ '']'' = fst ab @ '']:'' @ snd ab"
    by (rule rsplit_Some) (simp add: Some)
  have "butlast (fst ab @ '']:'' @ snd ab) = fst ab @ CHR '']'' # butlast (CHR '':'' # snd ab)"
    by (simp add: butlast_append)
  then have "addr = fst ab @ CHR '']'' # butlast (CHR '':'' # snd ab)"
    unfolding eq [symmetric] by simp
  then have "set addr = set (fst ab @ CHR '']'' # butlast (CHR '':'' # snd ab))"
    by (rule arg_cong)
  then have "CHR '']'' \<in> set addr"
    by (simp only: set_append list.set) blast
  then show ?thesis
    using assms by blast
qed

lemma parse_uint_bracket:
  assumes "q \<noteq> []" and "last q = CHR '']''"
  shows "parse_uint 65535 q = None"
proof -
  have "parse_digits r = None" if "r \<noteq> []" "last r = CHR '']''" for r
    using that not_digit_marks(2) last_in_set [of r] by (auto simp: parse_digits_def list_all_iff)
  then show ?thesis
    using assms by (cases q) (auto simp: parse_uint_def split: if_splits)
qed

lemma bracketed_colon_split:
  assumes "rsplit_once '':'' (w @ '']'') = Some (a, b)"
  shows "b \<noteq> [] \<and> last b = CHR '']''"
proof -
  have "last (w @ '']'') = last (a @ '':'' @ b)"
    using rsplit_Some [OF assms] by (rule arg_cong)
  then show ?thesis
    by (cases "b = []") simp_all
qed

lemma bracketed_no_port:
  assumes "CHR '']'' \<notin> set addr"
  shows "\<not> has_explicit_port (''['' @ addr @ '']'')"
proof -
  have "has_explicit_port (''['' @ addr @ '']'') =
      (case rsplit_once '':'' (''['' @ addr @ '']'') of
        Some (host, port) \<Rightarrow> CHR '':'' \<notin> set host \<and> parse_uint 65535 port \<noteq> None | None \<Rightarrow> False)"
    using bracketed_no_split [OF assms] by (simp only: has_explicit_port_def strip_prefix_def) simp
  also have "\<dots> = False"
  proof (cases "rsplit_once '':'' ((''['' @ addr) @ '']'')")
    case None
    then show ?thesis
      by (simp only: append_assoc option.case)
  next
    case (Some ab)
    then have "parse_uint 65535 (snd ab) = None"
      using bracketed_colon_split [of "''['' @ addr" "fst ab" "snd ab"] parse_uint_bracket by simp
    then show ?thesis
      using Some by (simp only: append_assoc option.case case_prod_beta) simp
  qed
  finally show ?thesis
    by simp
qed

section \<open>Properties\<close>

text \<open>
  C40. Every endpoint carries a port: what the proxy hands to the resolver for a DNS server, from
  whatever text the configuration or the system gives, has an explicit port, and it is the
  requested one unless the text brought its own.
\<close>

theorem endpoint_has_port:
  "has_explicit_port (endpoint_with_port text port) \<and>
   (if has_explicit_port (trim text) then endpoint_with_port text port = trim text
    else \<exists>host. endpoint_with_port text port = host @ '':'' @ show_port port)"
proof (cases "has_explicit_port (trim text)")
  case True
  then show ?thesis
    by (simp add: endpoint_with_port_def)
next
  case False
  show ?thesis
  proof (cases "parse_ip (trim text)")
    case None
    then show ?thesis
      using False plain_port [of "trim text" port] bracketed_port [of "trim text" port]
      by (auto simp: endpoint_with_port_def Let_def intro: exI [of _ "''['' @ trim text @ '']''"])
  next
    case (Some ip)
    then show ?thesis
      using False plain_port [OF ipv4_no_colon, of _ port] bracketed_port [of _ port]
      by (cases ip) (auto simp: endpoint_with_port_def show_socket_addr_def show_port_def
          intro: exI [of _ "''['' @ show_ipv6 _ @ '']''"])
  qed
qed

text \<open>
  A bracketed IPv6 address without a port is bracketed again: the configured DNS server
  \<open>[2001:db8::1]\<close> becomes \<open>[[2001:db8::1]]:53\<close>, which names no host.
\<close>

theorem bracketed_ipv6_doubled:
  assumes "trim text = ''['' @ addr @ '']''" and "CHR '':'' \<in> set addr" and "CHR '']'' \<notin> set addr"
  shows "endpoint_with_port text port = ''[['' @ addr @ '']]:'' @ show_port port"
proof -
  have "parse_ip (''['' @ addr @ '']'') = None"
    using parse_ip_name(1) [of "CHR ''[''" "addr @ '']''"] by (simp add: hex_digit_def is_digit_def)
  moreover have "CHR '':'' \<in> set (''['' @ addr @ '']'')"
    using assms(2) by simp
  ultimately show ?thesis
    unfolding endpoint_with_port_def Let_def assms(1) using bracketed_no_port [OF assms(3)] by simp
qed

theorem bracketed_ipv6_doubled_witness:
  "endpoint_with_port ''[2001:db8::1]'' 53 = ''[[2001:db8::1]]:53''"
proof -
  have "trim ''[2001:db8::1]'' = ''['' @ ''2001:db8::1'' @ '']''" "show_port 53 = ''53''"
    by code_simp+
  then show ?thesis
    using bracketed_ipv6_doubled [of "''[2001:db8::1]''" "''2001:db8::1''" 53] by simp
qed

text \<open>
  The Windows search for a DNS server is complete and prefers the default route: whenever some
  adapter that is up, and neither a loopback nor a tunnel, has a usable address, the search
  answers with a usable address of such an adapter; and if that adapter is on the default route,
  so is the one whose address is the answer.
\<close>

theorem windows_dns_search:
  assumes "a \<in> set adapters" and "windows_adapter_can_resolve a" and "s \<in> set (ad_dns_servers a)"
    and "socket_address_to_ip s = Some ip" and "dns_ip_is_usable ip"
  shows "\<exists>found b t. find_windows_dns_server adapters preferred = Some found \<and> dns_ip_is_usable found \<and>
    b \<in> set adapters \<and> windows_adapter_can_resolve b \<and> t \<in> set (ad_dns_servers b) \<and>
    socket_address_to_ip t = Some found \<and>
    (windows_adapter_matches_if_index a preferred \<longrightarrow> windows_adapter_matches_if_index b preferred)"
proof -
  have usable: "adapter_dns preferred only a \<noteq> None"
    if "\<not> only \<or> windows_adapter_matches_if_index a preferred \<or> preferred = []" for only
    using assms that by (auto simp: adapter_dns_def find_map_None usable_ip_def intro!: bexI [of _ s])
  have source: "windows_adapter_can_resolve b \<and> dns_ip_is_usable found \<and>
      (\<exists>t\<in>set (ad_dns_servers b). socket_address_to_ip t = Some found) \<and>
      (only \<longrightarrow> preferred = [] \<or> windows_adapter_matches_if_index b preferred)"
    if "adapter_dns preferred only b = Some found" for only b found
    using that by (auto simp: adapter_dns_def usable_ip_def dest!: find_map_Some split: if_splits option.splits)
  show ?thesis
  proof (cases "find_map (adapter_dns preferred True) adapters")
    case None
    then have no: "\<not> windows_adapter_matches_if_index a preferred"
      using usable [of True] assms(1) by (auto simp: find_map_None)
    obtain found where f: "find_map (adapter_dns preferred False) adapters = Some found"
      using usable [of False] assms(1) find_map_None by (metis not_None_eq)
    then obtain b where "b \<in> set adapters" "adapter_dns preferred False b = Some found"
      using find_map_Some by fastforce
    then show ?thesis
      using None no f source [of False b found] by (auto simp: find_windows_dns_server_def)
  next
    case (Some found)
    then obtain b where "b \<in> set adapters" "adapter_dns preferred True b = Some found"
      using find_map_Some by fastforce
    moreover have "preferred = [] \<Longrightarrow> \<not> windows_adapter_matches_if_index a preferred"
      by (simp add: windows_adapter_matches_if_index_def)
    ultimately show ?thesis
      using Some source [of True b found] by (auto simp: find_windows_dns_server_def)
  qed
qed

theorem windows_dns_search_witness:
  "\<exists>found. find_windows_dns_server
     [\<lparr>ad_oper_status = 1, ad_if_type = 131, ad_if_index = 7, ad_ipv6_if_index = 0, ad_dns_servers = [SockIn 16 [10, 0, 0, 1]]\<rparr>,
      \<lparr>ad_oper_status = 1, ad_if_type = 6, ad_if_index = 8, ad_ipv6_if_index = 0, ad_dns_servers = [SockIn 16 [127, 0, 0, 1], SockIn 16 [8, 8, 8, 8]]\<rparr>]
     [8] = Some found"
proof -
  let ?b = "\<lparr>ad_oper_status = 1, ad_if_type = 131, ad_if_index = 7, ad_ipv6_if_index = 0,
    ad_dns_servers = [SockIn 16 [10, 0, 0, 1]]\<rparr>"
  let ?a = "\<lparr>ad_oper_status = 1, ad_if_type = 6, ad_if_index = 8, ad_ipv6_if_index = 0,
    ad_dns_servers = [SockIn 16 [127, 0, 0, 1], SockIn 16 [8, 8, 8, 8]]\<rparr>"
  have "windows_adapter_can_resolve ?a" "dns_ip_is_usable (V4 [8, 8, 8, 8])"
    by code_simp+
  from windows_dns_search [where adapters = "[?b, ?a]", OF _ this(1) _ _ this(2), where s = "SockIn 16 [8, 8, 8, 8]", of "[8]"]
  show ?thesis
    by auto
qed

end
