(* ===== verification/Udp_Relay.thy ===== *)
theory Udp_Relay
  imports Proxy_Auth Targets
begin

text \<open>
  The shared UDP relay of the proxy (\<open>proxy/src/connection/udp_relay_flow.rs\<close> and
  \<open>udp_relay.rs\<close>): a table of flows, each with a task and a socket of its own, and the loop that
  moves packets between the agent's connection and the flows. The \<open>mpsc\<close> channels of tokio and
  the sockets are third-party: the outcome of a \<open>try_send\<close>, of connecting, of a socket call is an
  argument of the step that makes it. A sender is named by the number of the task that receives.
\<close>

section \<open>Admission of flows\<close>

datatype FlowAdmission = Existing | AtCapacity | Create

text \<open>
  What a table of flows relies on: a flow is created exactly when it is new and there is room.
\<close>

locale flow_admission =
  fixes classify :: "bool \<Rightarrow> nat \<Rightarrow> nat \<Rightarrow> FlowAdmission"
  assumes create_iff: "classify exists n limit = Create \<longleftrightarrow> \<not> exists \<and> n < limit"
    and existing_iff: "classify exists n limit = Existing \<longleftrightarrow> exists"
begin

lemma at_capacity_iff: "classify exists n limit = AtCapacity \<longleftrightarrow> \<not> exists \<and> limit \<le> n"
  using create_iff existing_iff by (metis FlowAdmission.exhaust FlowAdmission.distinct(1,3,5) leD leI)

lemma admitted_bounded:
  assumes "alist_ok table" and "length table \<le> limit"
    and "classify (map_of table k \<noteq> None) (length table) limit = Create"
  shows "alist_ok (AList.update k v table) \<and> length (AList.update k v table) \<le> limit \<and>
    map_of (AList.update k v table) k = Some v"
  using assms create_iff by (simp add: length_update_new update_conv)

end

type_synonym UdpRelayFlowAdmission = FlowAdmission

definition classify_udp_relay_flow_admission :: "bool \<Rightarrow> nat \<Rightarrow> nat \<Rightarrow> UdpRelayFlowAdmission" where
  "classify_udp_relay_flow_admission flow_exists active_flow_count max_flows =
     (if flow_exists then Existing
      else if active_flow_count \<ge> max_flows then AtCapacity
      else Create)"

interpretation relay_admission: flow_admission classify_udp_relay_flow_admission
  by unfold_locales (simp_all add: classify_udp_relay_flow_admission_def)

section \<open>The flow table\<close>

text \<open>The three outcomes of \<open>try_send\<close>.\<close>

datatype send_outcome = SendOk | SendFull | SendClosed

record relay_task =
  rt_flow_id :: u64
  rt_address :: Address
  rt_target :: string

record UdpRelayFlowSet =
  fs_flows :: "(u64 \<times> nat) list"
  fs_idle_timeout :: nat
  fs_channel_size :: nat
  fs_max_flows :: nat
  fs_spawned :: "relay_task list"
  fs_queued :: "(nat \<times> bytes) list"

definition udp_relay_channel_size :: "ProxyConfig \<Rightarrow> nat" where
  "udp_relay_channel_size config = max (pc_udp_relay_channel_size config) 1"

definition flow_set_new :: "ProxyConfig \<Rightarrow> UdpRelayFlowSet" where
  "flow_set_new config =
     \<lparr>fs_flows = [], fs_idle_timeout = from_secs (pc_udp_relay_idle_timeout_secs config),
      fs_channel_size = udp_relay_channel_size config, fs_max_flows = pc_udp_relay_max_flows config,
      fs_spawned = [], fs_queued = []\<rparr>"

definition flow_set_remove :: "UdpRelayFlowSet \<Rightarrow> u64 \<Rightarrow> UdpRelayFlowSet" where
  "flow_set_remove fs flow_id = fs\<lparr>fs_flows := AList.delete flow_id (fs_flows fs)\<rparr>"

text \<open>\<open>connect\<close> is the outcome of connecting a UDP socket to a target.\<close>

definition spawn_udp_relay_flow ::
  "(string \<Rightarrow> string + unit) \<Rightarrow> u64 \<Rightarrow> Address \<Rightarrow> relay_task proxy_result" where
  "spawn_udp_relay_flow connect flow_id address =
     and_then (relay_target_addr address) (\<lambda>target_addr.
     and_then (map_err (\<lambda>e. ErrConnection (''Failed to connect UDP relay target: '' @ e)) (connect target_addr))
       (\<lambda>_. Ok \<lparr>rt_flow_id = flow_id, rt_address = address, rt_target = target_addr\<rparr>))"

definition create_flow ::
  "(string \<Rightarrow> string + unit) \<Rightarrow> UdpRelayFlowSet \<Rightarrow> u64 \<Rightarrow> Address \<Rightarrow> UdpRelayFlowSet \<times> bool" where
  "create_flow connect fs flow_id address =
     (if length (fs_flows fs) \<ge> fs_max_flows fs then (fs, False)
      else case spawn_udp_relay_flow connect flow_id address of
        Inr task \<Rightarrow>
          (fs\<lparr>fs_spawned := fs_spawned fs @ [task],
              fs_flows := AList.update flow_id (length (fs_spawned fs)) (fs_flows fs)\<rparr>, True)
      | Inl e \<Rightarrow> (fs, False))"

definition queue_data :: "send_outcome \<Rightarrow> UdpRelayFlowSet \<Rightarrow> u64 \<Rightarrow> bytes \<Rightarrow> UdpRelayFlowSet" where
  "queue_data outcome fs flow_id data =
     (case map_of (fs_flows fs) flow_id of
        None \<Rightarrow> fs
      | Some task \<Rightarrow>
          (case outcome of
             SendOk \<Rightarrow> fs\<lparr>fs_queued := fs_queued fs @ [(task, data)]\<rparr>
           | SendFull \<Rightarrow> fs
           | SendClosed \<Rightarrow> fs\<lparr>fs_flows := AList.delete flow_id (fs_flows fs)\<rparr>))"

definition dispatch ::
  "(string \<Rightarrow> string + unit) \<Rightarrow> send_outcome \<Rightarrow> UdpRelayFlowSet \<Rightarrow> UdpRelayPacket \<Rightarrow> UdpRelayFlowSet" where
  "dispatch connect outcome fs relay_packet =
     (let flow_id = up_flow_id relay_packet
      in case classify_udp_relay_flow_admission (map_of (fs_flows fs) flow_id \<noteq> None)
                (length (fs_flows fs)) (fs_max_flows fs) of
           Existing \<Rightarrow> queue_data outcome fs flow_id (up_data relay_packet)
         | AtCapacity \<Rightarrow> fs
         | Create \<Rightarrow>
             (case create_flow connect fs flow_id (up_address relay_packet) of
                (fs, created) \<Rightarrow>
                  if \<not> created then fs else queue_data outcome fs flow_id (up_data relay_packet)))"

section \<open>The task of a flow\<close>

datatype UdpRelayResponseQueueResult = Queued | Full | Closed

fun try_queue_udp_relay_response :: "send_outcome \<Rightarrow> UdpRelayResponseQueueResult" where
  "try_queue_udp_relay_response SendOk = Queued"
| "try_queue_udp_relay_response SendFull = Full"
| "try_queue_udp_relay_response SendClosed = Closed"

text \<open>
  What a task waits for: its idle timer, a packet of the queue or its end with the outcome of the
  timed send (\<open>None\<close> when it takes too long), a datagram of the target or an error with the
  outcome of queueing the response.
\<close>

datatype flow_event =
    FlowIdle
  | FlowInput bytes "(string + unit) option"
  | FlowInputClosed
  | FlowRead bytes send_outcome
  | FlowReadFailed string

record flow_state =
  ft_deadline :: nat
  ft_sent :: "bytes list"
  ft_responses :: "UdpRelayPacket list"

fun flow_step :: "relay_task \<Rightarrow> nat \<Rightarrow> nat \<Rightarrow> flow_event \<Rightarrow> flow_state \<Rightarrow> flow_state \<times> bool" where
  "flow_step task idle_timeout now FlowIdle st = (st, False)"
| "flow_step task idle_timeout now FlowInputClosed st = (st, False)"
| "flow_step task idle_timeout now (FlowInput data sent) st =
     (case sent of
        Some (Inr _) \<Rightarrow> (st\<lparr>ft_sent := ft_sent st @ [data], ft_deadline := now + idle_timeout\<rparr>, True)
      | Some (Inl _) \<Rightarrow> (st, False)
      | None \<Rightarrow> (st, False))"
| "flow_step task idle_timeout now (FlowRead data outcome) st =
     (let response = \<lparr>up_flow_id = rt_flow_id task, up_address = rt_address task, up_data = data\<rparr>
      in case try_queue_udp_relay_response outcome of
           Queued \<Rightarrow>
             (st\<lparr>ft_responses := ft_responses st @ [response], ft_deadline := now + idle_timeout\<rparr>, True)
         | Full \<Rightarrow> (st, True)
         | Closed \<Rightarrow> (st, False))"
| "flow_step task idle_timeout now (FlowReadFailed e) st = (st, False)"

text \<open>The task up to its end: then, and only then, it reports its flow as done.\<close>

fun flow_task :: "relay_task \<Rightarrow> nat \<Rightarrow> (nat \<times> flow_event) list \<Rightarrow> flow_state \<Rightarrow> flow_state \<times> u64 option" where
  "flow_task task idle_timeout [] st = (st, None)"
| "flow_task task idle_timeout ((now, e) # es) st =
     (case flow_step task idle_timeout now e st of
        (st', True) \<Rightarrow> flow_task task idle_timeout es st'
      | (st', False) \<Rightarrow> (st', Some (rt_flow_id task)))"

section \<open>The relay loop\<close>

definition UDP_RELAY_RESPONSE_BATCH_LIMIT :: nat where
  "UDP_RELAY_RESPONSE_BATCH_LIMIT = 32"

definition relay_packet_encode :: "UdpRelayPacket bitcode \<Rightarrow> UdpRelayPacket \<Rightarrow> ProtocolError + bytes" where
  "relay_packet_encode bc packet = map_err PSerialization (bc_serialize bc packet)"

definition relay_packet_decode :: "UdpRelayPacket bitcode \<Rightarrow> bytes \<Rightarrow> ProtocolError + UdpRelayPacket" where
  "relay_packet_decode bc data = map_err PSerialization (bc_deserialize bc data)"

text \<open>Handing a response to the framed writer without a flush; the error is the writer's own.\<close>

definition feed_response :: "ServerConnection \<Rightarrow> ProxyResponse \<Rightarrow> ServerConnection \<times> (string + unit)" where
  "feed_response sc response =
     (case sc_send_results sc of
        Some e # rs \<Rightarrow> (sc\<lparr>sc_send_results := rs\<rparr>, Err e)
      | rs \<Rightarrow>
          (sc\<lparr>sc_send_results := drop 1 rs,
              sc_sent := sc_sent sc @ [(response, st_cipher (sc_cipher_state sc))]\<rparr>, Ok ()))"

definition feed_udp_relay_response ::
  "UdpRelayPacket bitcode \<Rightarrow> string \<Rightarrow> ServerConnection \<Rightarrow> UdpRelayPacket \<Rightarrow> unit conn_result" where
  "feed_udp_relay_response bc stream_id sc packet =
     (case relay_packet_encode bc packet of
        Inl e \<Rightarrow> (sc, Err (ErrProtocol e))
      | Inr encoded \<Rightarrow>
          (case feed_response sc (ResponseData
              \<lparr>dp_stream_id = stream_id, dp_data = encoded, dp_is_end = False\<rparr>) of
             (sc, r) \<Rightarrow>
               (sc, map_err (\<lambda>e. ErrConnection (''Failed to queue UDP relay response: '' @ e)) r)))"

text \<open>
  The batch: the first response and what the queue holds, up to the limit; the queue that is left.
  \<open>flush\<close> is the outcome of the final flush.
\<close>

fun batch_loop ::
  "UdpRelayPacket bitcode \<Rightarrow> string \<Rightarrow> nat \<Rightarrow> ServerConnection \<Rightarrow> UdpRelayPacket list \<Rightarrow>
     ServerConnection \<times> UdpRelayPacket list \<times> unit proxy_result" where
  "batch_loop bc stream_id 0 sc queue = (sc, queue, Ok ())"
| "batch_loop bc stream_id (Suc n) sc [] = (sc, [], Ok ())"
| "batch_loop bc stream_id (Suc n) sc (response # queue) =
     (case feed_udp_relay_response bc stream_id sc response of
        (sc, Inl e) \<Rightarrow> (sc, queue, Err e)
      | (sc, Inr _) \<Rightarrow> batch_loop bc stream_id n sc queue)"

definition send_udp_relay_response_batch ::
  "UdpRelayPacket bitcode \<Rightarrow> string \<Rightarrow> string + unit \<Rightarrow> ServerConnection \<Rightarrow> UdpRelayPacket \<Rightarrow>
     UdpRelayPacket list \<Rightarrow> ServerConnection \<times> UdpRelayPacket list \<times> unit proxy_result" where
  "send_udp_relay_response_batch bc stream_id flush sc first_response queue =
     (case feed_udp_relay_response bc stream_id sc first_response of
        (sc, Inl e) \<Rightarrow> (sc, queue, Err e)
      | (sc, Inr _) \<Rightarrow>
          (case batch_loop bc stream_id (UDP_RELAY_RESPONSE_BATCH_LIMIT - 1) sc queue of
             (sc, queue, Inl e) \<Rightarrow> (sc, queue, Err e)
           | (sc, queue, Inr _) \<Rightarrow>
               (sc, queue, map_err (\<lambda>e. ErrConnection (''Failed to flush UDP relay responses: '' @ e)) flush)))"

text \<open>
  The batch under its timeout: \<open>Some k\<close> is a timeout once \<open>k\<close> responses have been fed. The
  response that was being fed then has left the queue and is lost with the cancelled future;
  there is none when the limit was reached or the queue was empty, since the flush was waiting.
\<close>

definition send_udp_relay_response_batch_with_timeout ::
  "UdpRelayPacket bitcode \<Rightarrow> string \<Rightarrow> nat \<Rightarrow> nat option \<Rightarrow> string + unit \<Rightarrow> ServerConnection \<Rightarrow>
     UdpRelayPacket \<Rightarrow> UdpRelayPacket list \<Rightarrow>
     ServerConnection \<times> UdpRelayPacket list \<times> unit proxy_result" where
  "send_udp_relay_response_batch_with_timeout bc stream_id write_timeout elapsed flush sc first_response queue =
     (case elapsed of
        None \<Rightarrow> send_udp_relay_response_batch bc stream_id flush sc first_response queue
      | Some k \<Rightarrow>
          (case batch_loop bc stream_id (min k UDP_RELAY_RESPONSE_BATCH_LIMIT) sc (first_response # queue) of
             (sc, queue, Inl e) \<Rightarrow> (sc, queue, Err e)
           | (sc, queue, Inr _) \<Rightarrow>
               (sc, if k < UDP_RELAY_RESPONSE_BATCH_LIMIT then drop 1 queue else queue,
                Err (ErrConnection (''Timed out writing UDP relay responses after '' @
                  nat_to_string (write_timeout div 1000) @ '' seconds'')))))"

text \<open>
  The state of the loop. \<open>rl_queue\<close> is the response channel; a flow task adds to it when its
  \<open>try_send\<close> succeeds, which is an event of its own here.
\<close>

record relay_loop =
  rl_conn :: ServerConnection
  rl_flows :: UdpRelayFlowSet
  rl_queue :: "UdpRelayPacket list"
  rl_deadline :: nat

datatype relay_event =
    RelayIdle
  | RelayRequest nat "(string + ProxyRequest) option" "string \<Rightarrow> string + unit" send_outcome
  | RelayResponse nat "nat option" "string + unit"
  | RelayDone u64
  | FlowQueued UdpRelayPacket

datatype 'a loop_outcome = Continue | Break | Return 'a

fun relay_request ::
  "UdpRelayPacket bitcode \<Rightarrow> string \<Rightarrow> nat \<Rightarrow> (string \<Rightarrow> string + unit) \<Rightarrow> send_outcome \<Rightarrow>
     relay_loop \<Rightarrow> ProxyRequest \<Rightarrow> relay_loop \<times> unit proxy_result loop_outcome" where
  "relay_request bc stream_id now connect outcome st (RequestData packet) =
     (if dp_stream_id packet \<noteq> stream_id then (st, Continue)
      else if dp_is_end packet \<and> dp_data packet = [] then (st, Break)
      else if dp_data packet = [] then (st, Continue)
      else let st = st\<lparr>rl_deadline := now + fs_idle_timeout (rl_flows st)\<rparr>
           in case relay_packet_decode bc (dp_data packet) of
                Inl e \<Rightarrow> (st, Continue)
              | Inr relay_packet \<Rightarrow>
                  (st\<lparr>rl_flows := dispatch connect outcome (rl_flows st) relay_packet\<rparr>, Continue))"
| "relay_request bc stream_id now connect outcome st _ = (st, Continue)"

fun relay_step ::
  "UdpRelayPacket bitcode \<Rightarrow> string \<Rightarrow> relay_event \<Rightarrow> relay_loop \<Rightarrow>
     relay_loop \<times> unit proxy_result loop_outcome" where
  "relay_step bc stream_id RelayIdle st = (st, Break)"
| "relay_step bc stream_id (RelayRequest now request connect outcome) st =
     (case request of
        Some (Inr r) \<Rightarrow> relay_request bc stream_id now connect outcome st r
      | Some (Inl e) \<Rightarrow> (st, Return (Err (ErrProtocol (PIo e))))
      | None \<Rightarrow> (st, Break))"
| "relay_step bc stream_id (RelayResponse now elapsed flush) st =
     (case rl_queue st of
        [] \<Rightarrow> (st, Break)
      | response # queue \<Rightarrow>
          (case send_udp_relay_response_batch_with_timeout bc stream_id (fs_idle_timeout (rl_flows st))
                  elapsed flush (rl_conn st) response queue of
             (sc, queue, Inl e) \<Rightarrow> (st\<lparr>rl_conn := sc, rl_queue := queue\<rparr>, Return (Err e))
           | (sc, queue, Inr _) \<Rightarrow>
               (st\<lparr>rl_conn := sc, rl_queue := queue,
                   rl_deadline := now + fs_idle_timeout (rl_flows st)\<rparr>, Continue)))"

| "relay_step bc stream_id (RelayDone flow_id) st =
     (st\<lparr>rl_flows := flow_set_remove (rl_flows st) flow_id\<rparr>, Continue)"
| "relay_step bc stream_id (FlowQueued packet) st =
     (st\<lparr>rl_queue := rl_queue st @ [packet]\<rparr>, Continue)"

fun relay_run ::
  "UdpRelayPacket bitcode \<Rightarrow> string \<Rightarrow> relay_event list \<Rightarrow> relay_loop \<Rightarrow>
     relay_loop \<times> unit proxy_result option" where
  "relay_run bc stream_id [] st = (st, None)"
| "relay_run bc stream_id (e # es) st =
     (case relay_step bc stream_id e st of
        (st, Continue) \<Rightarrow> relay_run bc stream_id es st
      | (st, Break) \<Rightarrow> (st, Some (Ok ()))
      | (st, Return r) \<Rightarrow> (st, Some r))"

definition handle_udp_relay_connect ::
  "UdpRelayPacket bitcode \<Rightarrow> nat \<Rightarrow> relay_event list \<Rightarrow> ConnectRequest \<Rightarrow> ServerConnection \<Rightarrow>
     ServerConnection \<times> unit proxy_result option" where
  "handle_udp_relay_connect bc now events connect_request sc =
     (case send_connect_success sc (cr_request_id connect_request) ''UDP relay connected'' of
        (sc, Inl e) \<Rightarrow> (sc, Some (Err e))
      | (sc, Inr _) \<Rightarrow>
          let flow_set = flow_set_new (sc_proxy_config sc)
          in case relay_run bc (cr_request_id connect_request) events
               \<lparr>rl_conn = sc, rl_flows = flow_set, rl_queue = [],
                rl_deadline = now + fs_idle_timeout flow_set\<rparr> of
               (st, r) \<Rightarrow> (rl_conn st, r))"

section \<open>The flow table stays consistent\<close>

text \<open>
  At most the configured number of flows; a flow's sender belongs to the task of that flow; every
  task has a real target.
\<close>

definition flow_set_inv :: "UdpRelayFlowSet \<Rightarrow> bool" where
  "flow_set_inv fs \<longleftrightarrow> alist_ok (fs_flows fs) \<and> length (fs_flows fs) \<le> fs_max_flows fs \<and>
     (\<forall>flow_id task. map_of (fs_flows fs) flow_id = Some task \<longrightarrow>
        task < length (fs_spawned fs) \<and> rt_flow_id (fs_spawned fs ! task) = flow_id) \<and>
     (\<forall>task\<in>set (fs_spawned fs). relay_target_addr (rt_address task) = Ok (rt_target task))"

lemma flow_set_inv_new: "flow_set_inv (flow_set_new config)"
  by (simp add: flow_set_inv_def flow_set_new_def)

lemma flow_set_inv_remove: "flow_set_inv fs \<Longrightarrow> flow_set_inv (flow_set_remove fs flow_id)"
  using length_delete_le [of flow_id "fs_flows fs"]
  by (auto simp: flow_set_inv_def flow_set_remove_def delete_conv)

lemma flow_set_inv_queue: "flow_set_inv fs \<Longrightarrow> flow_set_inv (queue_data outcome fs flow_id data)"
  using flow_set_inv_remove [of fs flow_id]
  by (auto simp: queue_data_def flow_set_remove_def flow_set_inv_def split: option.splits send_outcome.splits)

lemma spawn_Ok:
  "spawn_udp_relay_flow connect flow_id address = Inr task \<Longrightarrow>
     rt_flow_id task = flow_id \<and> rt_address task = address \<and> relay_target_addr address = Ok (rt_target task)"
  by (auto simp: spawn_udp_relay_flow_def)

lemma flow_set_inv_create:
  assumes "flow_set_inv fs" and "map_of (fs_flows fs) flow_id = None"
  shows "flow_set_inv (fst (create_flow connect fs flow_id address))"
proof (cases "length (fs_flows fs) \<ge> fs_max_flows fs \<or> (\<exists>e. spawn_udp_relay_flow connect flow_id address = Inl e)")
  case True
  then show ?thesis
    using assms by (auto simp: create_flow_def split: sum.splits)
next
  case False
  then obtain task where "spawn_udp_relay_flow connect flow_id address = Inr task"
    by (cases "spawn_udp_relay_flow connect flow_id address") auto
  then show ?thesis
    using False assms spawn_Ok [of connect flow_id address task]
    by (auto simp: create_flow_def flow_set_inv_def update_conv nth_append length_update_new split: if_splits
        intro: less_SucI)
qed

lemma flow_set_inv_dispatch:
  assumes "flow_set_inv fs"
  shows "flow_set_inv (dispatch connect outcome fs packet)"
proof (cases "classify_udp_relay_flow_admission (map_of (fs_flows fs) (up_flow_id packet) \<noteq> None)
    (length (fs_flows fs)) (fs_max_flows fs)")
  case Create
  then have "map_of (fs_flows fs) (up_flow_id packet) = None"
    using relay_admission.create_iff by blast
  then show ?thesis
    using Create flow_set_inv_create [OF assms, of "up_flow_id packet" connect "up_address packet"]
    by (auto simp: dispatch_def Let_def split: prod.splits intro: flow_set_inv_queue)
qed (use assms in \<open>simp_all add: dispatch_def flow_set_inv_queue\<close>)

lemma flow_set_inv_step:
  assumes "flow_set_inv (rl_flows st)"
  shows "flow_set_inv (rl_flows (fst (relay_step bc stream_id e st)))"
proof (cases e)
  case (RelayRequest now request connect outcome)
  have "flow_set_inv (rl_flows (fst (relay_request bc stream_id now connect outcome st r)))" for r
    using assms by (cases r) (simp_all add: Let_def flow_set_inv_dispatch split: sum.splits)
  then show ?thesis
    using RelayRequest assms by (simp split: option.splits sum.splits)
qed (use assms in \<open>simp_all add: flow_set_inv_remove split: list.splits prod.splits sum.splits\<close>)

lemma flow_set_inv_run:
  "flow_set_inv (rl_flows st) \<Longrightarrow> flow_set_inv (rl_flows (fst (relay_run bc stream_id es st)))"
proof (induction es arbitrary: st)
  case (Cons e es)
  have "flow_set_inv (rl_flows (fst (relay_step bc stream_id e st)))"
    using Cons.prems by (rule flow_set_inv_step)
  then show ?case
    using Cons.IH by (auto split: prod.splits loop_outcome.splits)
qed simp

section \<open>Responses\<close>

definition relay_response :: "UdpRelayPacket bitcode \<Rightarrow> string \<Rightarrow> UdpRelayPacket \<Rightarrow> ProxyResponse \<Rightarrow> bool" where
  "relay_response bc stream_id packet response \<longleftrightarrow> (\<exists>encoded. bc_serialize bc packet = Inr encoded \<and>
     response = ResponseData \<lparr>dp_stream_id = stream_id, dp_data = encoded, dp_is_end = False\<rparr>)"

text \<open>The responses written between two states of the connection carry these packets, in order.\<close>

definition wrote :: "UdpRelayPacket bitcode \<Rightarrow> string \<Rightarrow> UdpRelayPacket list \<Rightarrow> ServerConnection \<Rightarrow> ServerConnection \<Rightarrow> bool" where
  "wrote bc stream_id ps sc sc' \<longleftrightarrow> (\<exists>rs. map fst (sc_sent sc') = map fst (sc_sent sc) @ rs \<and>
     list_all2 (relay_response bc stream_id) ps rs)"

lemma wrote_Nil: "wrote bc stream_id [] sc sc"
  by (simp add: wrote_def)

lemma wrote_trans:
  "wrote bc stream_id ps sc sc' \<Longrightarrow> wrote bc stream_id qs sc' sc'' \<Longrightarrow> wrote bc stream_id (ps @ qs) sc sc''"
  unfolding wrote_def using list_all2_appendI by (metis append_assoc)

lemma feed_wrote:
  assumes "feed_udp_relay_response bc stream_id sc p = (sc', Inr u)"
  shows "wrote bc stream_id [p] sc sc'"
  using assms
  by (auto simp: feed_udp_relay_response_def relay_packet_encode_def feed_response_def wrote_def relay_response_def
      map_err_def split: sum.splits list.splits option.splits)

lemma batch_wrote:
  "batch_loop bc stream_id n sc queue = (sc', queue', Inr u) \<Longrightarrow>
     \<exists>ps. wrote bc stream_id ps sc sc' \<and> queue = ps @ queue' \<and> length ps \<le> n"
proof (induction bc stream_id n sc queue rule: batch_loop.induct)
  case (3 bc stream_id n sc response queue)
  then obtain sc1 v where feed: "feed_udp_relay_response bc stream_id sc response = (sc1, Inr v)"
    by (auto split: prod.splits sum.splits)
  then obtain ps where ps: "wrote bc stream_id ps sc1 sc'" "queue = ps @ queue'" "length ps \<le> n"
    using 3 by auto
  then show ?case
    using wrote_trans [OF feed_wrote [OF feed] ps(1)] by (intro exI [of _ "response # ps"]) simp
qed (auto intro: wrote_Nil)

lemma response_step_wrote:
  assumes "relay_step bc stream_id (RelayResponse now elapsed flush) st = (st', Continue)"
  shows "\<exists>ps. wrote bc stream_id ps (rl_conn st) (rl_conn st') \<and> rl_queue st = ps @ rl_queue st' \<and>
    ps \<noteq> [] \<and> length ps \<le> UDP_RELAY_RESPONSE_BATCH_LIMIT"
proof -
  obtain p queue where q: "rl_queue st = p # queue"
    using assms by (cases "rl_queue st") auto
  obtain sc1 sc2 queue2 u v where f: "feed_udp_relay_response bc stream_id (rl_conn st) p = (sc1, Inr u)"
      and b: "batch_loop bc stream_id (UDP_RELAY_RESPONSE_BATCH_LIMIT - 1) sc1 queue = (sc2, queue2, Inr v)"
      and st': "rl_conn st' = sc2" "rl_queue st' = queue2"
    using assms q
    by (auto simp: send_udp_relay_response_batch_with_timeout_def send_udp_relay_response_batch_def
        split: option.splits prod.splits sum.splits)
  from batch_wrote [OF b] obtain ps where ps: "wrote bc stream_id ps sc1 sc2" "queue = ps @ queue2"
      "length ps \<le> UDP_RELAY_RESPONSE_BATCH_LIMIT - 1"
    by blast
  then show ?thesis
    using wrote_trans [OF feed_wrote [OF f] ps(1)] q st'
    by (intro exI [of _ "p # ps"]) (auto simp: UDP_RELAY_RESPONSE_BATCH_LIMIT_def)
qed

fun queued_by :: "relay_event \<Rightarrow> UdpRelayPacket list" where
  "queued_by (FlowQueued p) = [p]"
| "queued_by _ = []"

lemma relay_step_wrote:
  assumes "relay_step bc stream_id e st = (st', Continue)"
  shows "\<exists>ps. wrote bc stream_id ps (rl_conn st) (rl_conn st') \<and>
    rl_queue st @ queued_by e = ps @ rl_queue st'"
proof (cases e)
  case (RelayResponse now elapsed flush)
  then show ?thesis
    using response_step_wrote [of bc stream_id now elapsed flush st st'] assms by auto
next
  case (RelayRequest now request connect outcome)
  have "rl_conn s = rl_conn st \<and> rl_queue s = rl_queue st"
    if "relay_request bc stream_id now connect outcome st r = (s, oc)" for r s oc
    using that by (cases r) (auto simp: Let_def split: sum.splits if_splits)
  then show ?thesis
    using assms RelayRequest by (intro exI [of _ "[]"]) (auto simp: wrote_Nil split: option.splits sum.splits)
qed (use assms in \<open>auto simp: wrote_Nil intro!: exI [of _ "[]"]\<close>)

lemma relay_run_wrote:
  assumes "relay_run bc stream_id es st = (st', None)"
  shows "\<exists>ps. wrote bc stream_id ps (rl_conn st) (rl_conn st') \<and>
    rl_queue st @ concat (map queued_by es) = ps @ rl_queue st'"
  using assms
proof (induction es arbitrary: st)
  case (Cons e es)
  then obtain st1 where step: "relay_step bc stream_id e st = (st1, Continue)"
      and run: "relay_run bc stream_id es st1 = (st', None)"
    by (auto split: prod.splits loop_outcome.splits)
  obtain ps where ps: "wrote bc stream_id ps (rl_conn st) (rl_conn st1)"
      "rl_queue st @ queued_by e = ps @ rl_queue st1"
    using relay_step_wrote [OF step] by blast
  obtain qs where qs: "wrote bc stream_id qs (rl_conn st1) (rl_conn st')"
      "rl_queue st1 @ concat (map queued_by es) = qs @ rl_queue st'"
    using Cons.IH [OF run] by blast
  have "rl_queue st @ concat (map queued_by (e # es)) = (rl_queue st @ queued_by e) @ concat (map queued_by es)"
    by simp
  also have "\<dots> = ps @ qs @ rl_queue st'"
    by (simp only: ps(2) append_assoc qs(2))
  finally show ?case
    using wrote_trans [OF ps(1) qs(1)] by (metis append_assoc)
qed (simp add: wrote_Nil exI [of _ "[]"])

section \<open>The options of the table never change\<close>

lemma max_flows_remove [simp]: "fs_max_flows (flow_set_remove fs flow_id) = fs_max_flows fs"
  by (simp add: flow_set_remove_def)

lemma max_flows_queue [simp]: "fs_max_flows (queue_data outcome fs flow_id data) = fs_max_flows fs"
  by (simp add: queue_data_def split: option.splits send_outcome.splits)

lemma max_flows_create: "fs_max_flows (fst (create_flow connect fs flow_id address)) = fs_max_flows fs"
  by (simp add: create_flow_def split: sum.splits)

lemma max_flows_dispatch [simp]: "fs_max_flows (dispatch connect outcome fs packet) = fs_max_flows fs"
  using max_flows_create [of connect fs "up_flow_id packet" "up_address packet"]
  by (auto simp: dispatch_def Let_def split: FlowAdmission.splits prod.splits)

lemma max_flows_step:
  "fs_max_flows (rl_flows (fst (relay_step bc stream_id e st))) = fs_max_flows (rl_flows st)"
proof (cases e)
  case (RelayRequest now request connect outcome)
  have "fs_max_flows (rl_flows (fst (relay_request bc stream_id now connect outcome st r))) =
      fs_max_flows (rl_flows st)" for r
    by (cases r) (simp_all add: Let_def split: sum.splits)
  then show ?thesis
    using RelayRequest by (simp split: option.splits sum.splits)
qed (simp_all split: list.splits prod.splits sum.splits)

lemma max_flows_run:
  "fs_max_flows (rl_flows (fst (relay_run bc stream_id es st))) = fs_max_flows (rl_flows st)"
proof (induction es arbitrary: st)
  case (Cons e es)
  have "fs_max_flows (rl_flows (fst (relay_step bc stream_id e st))) = fs_max_flows (rl_flows st)"
    by (rule max_flows_step)
  then show ?case
    using Cons.IH by (auto split: prod.splits loop_outcome.splits)
qed simp

lemma relay_target_addr_Ok:
  "relay_target_addr address = Ok target \<longleftrightarrow>
     (case address of ProxyDns _ \<Rightarrow> False | UdpRelay \<Rightarrow> False | _ \<Rightarrow> target = format_target_addr address)"
  by (cases address) auto

section \<open>Properties\<close>

text \<open>
  C30. Whatever the agent sends and the flows report, the relay never has more flows than
  \<open>udp_relay_max_flows\<close> of its configuration, each flow sends to the task opened for it, and every
  task ever opened has a domain or an IP address for its target, never one of the two virtual
  addresses, and its socket is connected to exactly that target.
\<close>

theorem relay_flows_bounded:
  "case relay_run bc stream_id es \<lparr>rl_conn = sc, rl_flows = flow_set_new config, rl_queue = [],
      rl_deadline = deadline\<rparr> of
     (st, r) \<Rightarrow> length (fs_flows (rl_flows st)) \<le> pc_udp_relay_max_flows config \<and>
       list_all (\<lambda>(flow_id, task). task < length (fs_spawned (rl_flows st)) \<and>
         rt_flow_id (fs_spawned (rl_flows st) ! task) = flow_id) (fs_flows (rl_flows st)) \<and>
       list_all (\<lambda>task. case rt_address task of
           ProxyDns _ \<Rightarrow> False
         | UdpRelay \<Rightarrow> False
         | address \<Rightarrow> rt_target task = format_target_addr address) (fs_spawned (rl_flows st))"
proof -
  let ?st = "\<lparr>rl_conn = sc, rl_flows = flow_set_new config, rl_queue = [], rl_deadline = deadline\<rparr>"
  obtain st r where run: "relay_run bc stream_id es ?st = (st, r)"
    by fastforce
  have inv: "flow_set_inv (rl_flows st)"
    using flow_set_inv_run [of ?st bc stream_id es] run by (simp add: flow_set_inv_new)
  have limit: "fs_max_flows (rl_flows st) = pc_udp_relay_max_flows config"
    using max_flows_run [of bc stream_id es ?st] unfolding run by (simp add: flow_set_new_def)
  have "list_all (\<lambda>task. relay_target_addr (rt_address task) = Ok (rt_target task)) (fs_spawned (rl_flows st))"
    using inv by (simp add: flow_set_inv_def list_all_iff)
  then have targets: "list_all (\<lambda>task. case rt_address task of ProxyDns _ \<Rightarrow> False | UdpRelay \<Rightarrow> False
      | address \<Rightarrow> rt_target task = format_target_addr address) (fs_spawned (rl_flows st))"
    by (rule list.pred_mono_strong) (auto simp: relay_target_addr_Ok split: Address.splits)
  show ?thesis
    using inv targets run limit
    by (auto simp: flow_set_inv_def list_all_iff alist_ok_def map_of_is_SomeI)
qed

text \<open>
  C31. Responses reach the agent in the order the flows queued them, none lost, none twice, none
  made up, all on the stream of the relay: while the loop runs, what it has written since is
  exactly what was queued less what is still in the queue.
\<close>

theorem relay_responses_fifo:
  assumes "relay_run bc stream_id es st = (st', None)" and "rl_queue st = []"
  shows "\<exists>ps rs. concat (map queued_by es) = ps @ rl_queue st' \<and>
    map fst (sc_sent (rl_conn st')) = map fst (sc_sent (rl_conn st)) @ rs \<and>
    list_all2 (relay_response bc stream_id) ps rs"
  using relay_run_wrote [OF assms(1)] assms(2) by (auto simp: wrote_def)

text \<open>
  A late report of an ended flow removes the flow that has replaced it: when a packet finds
  the old task gone, the flow is dropped and the next packet opens it again with a new task and a
  new socket; the report of the old task then takes the new flow out of the table, although its
  task has just been given data.
\<close>

theorem stale_done_removes_successor:
  assumes "map_of (fs_flows fs) flow_id = Some old"
    and "length (fs_flows fs) \<le> fs_max_flows fs"
    and "alist_ok (fs_flows fs)"
    and "up_flow_id p = flow_id" and "up_flow_id q = flow_id"
    and "relay_target_addr (up_address q) = Ok target" and "connect target = Inr ()"
  shows "\<exists>fs2. dispatch connect SendOk (dispatch connect SendClosed fs p) q = fs2 \<and>
    map_of (fs_flows fs2) flow_id = Some (length (fs_spawned fs)) \<and>
    (length (fs_spawned fs), up_data q) \<in> set (fs_queued fs2) \<and>
    map_of (fs_flows (flow_set_remove fs2 flow_id)) flow_id = None"
proof -
  have gone: "dispatch connect SendClosed fs p = fs\<lparr>fs_flows := AList.delete flow_id (fs_flows fs)\<rparr>"
    using assms(1,4) relay_admission.existing_iff [of True]
    by (simp add: dispatch_def queue_data_def classify_udp_relay_flow_admission_def)
  have "Suc (length (AList.delete flow_id (fs_flows fs))) \<le> fs_max_flows fs"
    using length_delete_present [OF assms(3,1)] assms(2) by simp
  then have "dispatch connect SendOk (dispatch connect SendClosed fs p) q =
      (let fs = fs\<lparr>fs_flows := AList.update flow_id (length (fs_spawned fs)) (AList.delete flow_id (fs_flows fs)),
          fs_spawned := fs_spawned fs @ [\<lparr>rt_flow_id = flow_id, rt_address = up_address q, rt_target = target\<rparr>],
          fs_queued := fs_queued fs @ [(length (fs_spawned fs), up_data q)]\<rparr> in fs)"
    using assms(5-7) unfolding gone
    by (simp add: dispatch_def queue_data_def classify_udp_relay_flow_admission_def create_flow_def
        spawn_udp_relay_flow_def update_conv delete_conv)
  then show ?thesis
    by (simp add: flow_set_remove_def update_conv delete_conv)
qed

theorem stale_done_removes_successor_witness:
  "\<exists>fs p fs2. dispatch (\<lambda>_. Inr ()) SendOk (dispatch (\<lambda>_. Inr ()) SendClosed fs p) p = fs2 \<and>
     map_of (fs_flows fs) 7 = Some 0 \<and> map_of (fs_flows fs2) 7 = Some 1 \<and>
     map_of (fs_flows (flow_set_remove fs2 7)) 7 = None"
proof -
  let ?fs = "\<lparr>fs_flows = [(7, 0)], fs_idle_timeout = 60000, fs_channel_size = 64, fs_max_flows = 256,
    fs_spawned = [\<lparr>rt_flow_id = 7, rt_address = Domain ''dns'' 53, rt_target = ''dns:53''\<rparr>], fs_queued = []\<rparr>"
  let ?p = "\<lparr>up_flow_id = 7, up_address = Domain ''dns'' 53, up_data = [1]\<rparr>"
  show ?thesis
    using stale_done_removes_successor [of ?fs 7 0 ?p ?p _ "\<lambda>_. Inr ()"]
    by - (rule exI [of _ ?fs], rule exI [of _ ?p], auto simp: alist_ok_def)
qed

theorem relay_responses_fifo_witness:
  "\<exists>bc sc st' p. relay_run bc ''1'' [FlowQueued p, RelayResponse 5 None (Inr ())]
       \<lparr>rl_conn = sc, rl_flows = flow_set_new (proxy_config_default ''addr''), rl_queue = [], rl_deadline = 0\<rparr> =
       (st', None) \<and>
     up_data p = [1] \<and> rl_queue st' = [] \<and>
     map fst (sc_sent (rl_conn st')) =
       map fst (sc_sent sc) @ [ResponseData \<lparr>dp_stream_id = ''1'', dp_data = [1], dp_is_end = False\<rparr>]"
proof -
  let ?bc = "\<lparr>bc_serialize = \<lambda>p. Inr (up_data p), bc_deserialize = \<lambda>_. Inl []\<rparr> :: UdpRelayPacket bitcode"
  let ?sc = "server_connection_new [] [] CompressNone (proxy_config_default ''addr'')"
  let ?st = "\<lparr>rl_conn = ?sc, rl_flows = flow_set_new (proxy_config_default ''addr''), rl_queue = [], rl_deadline = 0\<rparr>"
  let ?p = "\<lparr>up_flow_id = 7, up_address = Domain ''dns'' 53, up_data = [1]\<rparr>"
  obtain st' where st': "relay_run ?bc ''1'' [FlowQueued ?p, RelayResponse 5 None (Inr ())] ?st = (st', None)"
      "rl_queue st' = []"
    by (simp add: send_udp_relay_response_batch_with_timeout_def send_udp_relay_response_batch_def
        feed_udp_relay_response_def relay_packet_encode_def feed_response_def server_connection_new_def
        UDP_RELAY_RESPONSE_BATCH_LIMIT_def numeral_eq_Suc)
  obtain ps rs where "[?p] = ps @ []"
      and rs: "map fst (sc_sent (rl_conn st')) = map fst (sc_sent ?sc) @ rs"
        "list_all2 (relay_response ?bc ''1'') ps rs"
    using relay_responses_fifo [OF st'(1)] st'(2) by auto
  then have "list_all2 (relay_response ?bc ''1'') [?p] rs"
    by simp
  then have "rs = [ResponseData \<lparr>dp_stream_id = ''1'', dp_data = [1], dp_is_end = False\<rparr>]"
    by (auto simp: list_all2_Cons1 relay_response_def)
  then show ?thesis
    using st' rs(1) by (intro exI [of _ ?bc] exI [of _ ?sc] exI [of _ st'] exI [of _ ?p]) simp
qed

end
