(* ===== verification/Native_Udp_Channel.thy ===== *)
theory Native_Udp_Channel
  imports Udp_Relay
begin

text \<open>
  The workers behind the channels of a native UDP session (\<open>proxy/src/native_udp/channel.rs\<close>): one
  for a connected target, one for the shared relay, one for the forward mode, and the choice
  between them. A worker is a function of what its \<open>select!\<close> yields; it collects the events it
  sends to the session, the messages it queues for the agent and what it writes to its target.
\<close>

section \<open>Events and responses\<close>

datatype ChannelEvent =
    ConnectResult u64 UdpSessionMessage
  | ChannelClosed u64 "string option"

definition connect_response :: "u64 \<Rightarrow> string option \<Rightarrow> UdpSessionMessage" where
  "connect_response flow_id error = ConnectResponseMsg flow_id (error = None) error"

definition udp_idle_timeout :: "ProxyConfig \<Rightarrow> nat" where
  "udp_idle_timeout config = from_secs (max (pc_udp_relay_idle_timeout_secs config) 1)"

text \<open>The record of a worker: its events, its messages for the agent, its writes, its idle timer.\<close>

record worker =
  wk_events :: "ChannelEvent list"
  wk_outbound :: "UdpSessionMessage list"
  wk_written :: "bytes list"
  wk_deadline :: nat

definition idle_worker :: "nat \<Rightarrow> worker" where
  "idle_worker deadline = \<lparr>wk_events = [], wk_outbound = [], wk_written = [], wk_deadline = deadline\<rparr>"

text \<open>\<open>open\<close>: the session still receives events.\<close>

definition send_connect_result :: "bool \<Rightarrow> u64 \<Rightarrow> string option \<Rightarrow> worker \<Rightarrow> worker \<times> bool" where
  "send_connect_result open flow_id error w =
     (if open then (w\<lparr>wk_events := wk_events w @ [ConnectResult flow_id (connect_response flow_id error)]\<rparr>, True)
      else (w, False))"

definition send_channel_closed :: "bool \<Rightarrow> u64 \<Rightarrow> string option \<Rightarrow> worker \<Rightarrow> worker" where
  "send_channel_closed open flow_id reason w =
     (if open then w\<lparr>wk_events := wk_events w @ [ChannelClosed flow_id reason]\<rparr> else w)"

definition try_queue_target_response :: "send_outcome \<Rightarrow> u64 \<Rightarrow> bytes \<Rightarrow> worker \<Rightarrow> worker \<times> bool" where
  "try_queue_target_response outcome flow_id data w =
     (case outcome of
        SendOk \<Rightarrow> (w\<lparr>wk_outbound := wk_outbound w @ [Data flow_id data]\<rparr>, True)
      | SendFull \<Rightarrow> (w, True)
      | SendClosed \<Rightarrow> (w, False))"

definition reset_idle :: "nat \<Rightarrow> worker \<Rightarrow> worker" where
  "reset_idle deadline w = w\<lparr>wk_deadline := deadline\<rparr>"

section \<open>A connected target\<close>

datatype channel_input =
    ChIdle
  | ChInput nat bytes "string + unit"
  | ChInputClosed
  | ChReceived nat bytes send_outcome
  | ChReceiveFailed string

fun connected_step :: "u64 \<Rightarrow> nat \<Rightarrow> channel_input \<Rightarrow> worker \<Rightarrow> worker \<times> string option loop_outcome" where
  "connected_step flow_id timeout ChIdle w = (w, Return (Some ''UDP channel idle timeout''))"
| "connected_step flow_id timeout ChInputClosed w = (w, Return None)"
| "connected_step flow_id timeout (ChInput now data sent) w =
     (case sent of
        Inr _ \<Rightarrow> (reset_idle (now + timeout) (w\<lparr>wk_written := wk_written w @ [data]\<rparr>), Continue)
      | Inl e \<Rightarrow> (w, Return (Some (''UDP target send failed: '' @ e))))"
| "connected_step flow_id timeout (ChReceived now data outcome) w =
     (case try_queue_target_response outcome flow_id data w of
        (w, keep_open) \<Rightarrow>
          if \<not> keep_open then (w, Return None) else (reset_idle (now + timeout) w, Continue))"
| "connected_step flow_id timeout (ChReceiveFailed e) w =
     (w, Return (Some (''UDP target receive failed: '' @ e)))"

text \<open>A worker's loop, up to its close reason; \<open>None\<close> while it runs.\<close>

fun worker_loop :: "('i \<Rightarrow> 's \<Rightarrow> 's \<times> string option loop_outcome) \<Rightarrow> 'i list \<Rightarrow> 's \<Rightarrow> 's \<times> string option option" where
  "worker_loop step [] w = (w, None)"
| "worker_loop step (i # inputs) w =
     (case step i w of
        (w, Continue) \<Rightarrow> worker_loop step inputs w
      | (w, Break) \<Rightarrow> (w, Some None)
      | (w, Return reason) \<Rightarrow> (w, Some reason))"

definition close_worker :: "bool \<Rightarrow> u64 \<Rightarrow> worker \<times> string option option \<Rightarrow> worker \<times> bool" where
  "close_worker open flow_id p =
     (case p of
        (w, None) \<Rightarrow> (w, False)
      | (w, Some reason) \<Rightarrow> (send_channel_closed open flow_id reason w, True))"

text \<open>
  What a worker depends on: the configuration, the system's DNS server, the text of an error,
  whether the session listens at its connect result and at its end, and how connecting ends.
\<close>

record worker_env =
  we_config :: ProxyConfig
  we_dns :: "string proxy_result"
  we_show_error :: "ProxyError \<Rightarrow> string"
  we_connect :: "string \<Rightarrow> string + unit"
  we_upstream :: "Address \<Rightarrow> string + unit"
  we_open_result :: bool
  we_open_close :: bool
  we_start :: nat

definition run_connected_udp_channel ::
  "worker_env \<Rightarrow> u64 \<Rightarrow> Address \<Rightarrow> channel_input list \<Rightarrow> worker \<times> bool" where
  "run_connected_udp_channel env flow_id address inputs =
     (let timeout = udp_idle_timeout (we_config env);
          w = idle_worker (we_start env + timeout)
      in case target_addr_for_address (we_dns env) (we_config env) address of
           Inl e \<Rightarrow> (fst (send_connect_result (we_open_result env) flow_id (Some (we_show_error env e)) w), True)
         | Inr target \<Rightarrow>
             (case we_connect env target of
                Inl e \<Rightarrow>
                  (fst (send_connect_result (we_open_result env) flow_id
                     (Some (''Failed to connect UDP target: '' @ e)) w), True)
              | Inr _ \<Rightarrow>
                  (case send_connect_result (we_open_result env) flow_id None w of
                     (w, False) \<Rightarrow> (w, True)
                   | (w, True) \<Rightarrow>
                       close_worker (we_open_close env) flow_id
                         (worker_loop (connected_step flow_id timeout) inputs w))))"

section \<open>The relay channel\<close>

record relay_worker =
  rw_worker :: worker
  rw_flows :: UdpRelayFlowSet

datatype relay_input =
    RcIdle
  | RcInput nat bytes "string \<Rightarrow> string + unit" send_outcome
  | RcInputClosed
  | RcResponse nat UdpRelayPacket send_outcome
  | RcDone u64

fun relay_channel_step ::
  "UdpRelayPacket bitcode \<Rightarrow> u64 \<Rightarrow> nat \<Rightarrow> relay_input \<Rightarrow> relay_worker \<Rightarrow>
     relay_worker \<times> string option loop_outcome" where
  "relay_channel_step bc flow_id timeout RcIdle s = (s, Return (Some ''UDP relay channel idle timeout''))"
| "relay_channel_step bc flow_id timeout RcInputClosed s = (s, Return None)"
| "relay_channel_step bc flow_id timeout (RcInput now data connect outcome) s =
     (case relay_packet_decode bc data of
        Inl e \<Rightarrow> (s, Continue)
      | Inr relay_packet \<Rightarrow>
          (s\<lparr>rw_flows := dispatch connect outcome (rw_flows s) relay_packet,
             rw_worker := reset_idle (now + timeout) (rw_worker s)\<rparr>, Continue))"
| "relay_channel_step bc flow_id timeout (RcResponse now packet outcome) s =
     (case relay_packet_encode bc packet of
        Inl e \<Rightarrow> (s, Continue)
      | Inr encoded \<Rightarrow>
          (case try_queue_target_response outcome flow_id encoded (rw_worker s) of
             (w, False) \<Rightarrow> (s\<lparr>rw_worker := w\<rparr>, Return None)
           | (w, True) \<Rightarrow> (s\<lparr>rw_worker := reset_idle (now + timeout) w\<rparr>, Continue)))"
| "relay_channel_step bc flow_id timeout (RcDone done_flow_id) s =
     (s\<lparr>rw_flows := flow_set_remove (rw_flows s) done_flow_id\<rparr>, Continue)"

definition run_udp_relay_channel ::
  "UdpRelayPacket bitcode \<Rightarrow> worker_env \<Rightarrow> u64 \<Rightarrow> relay_input list \<Rightarrow> worker \<times> bool" where
  "run_udp_relay_channel bc env flow_id inputs =
     (let flow_set = flow_set_new (we_config env);
          timeout = max (fs_idle_timeout flow_set) 1000
      in case send_connect_result (we_open_result env) flow_id None (idle_worker (we_start env + timeout)) of
           (w, False) \<Rightarrow> (w, True)
         | (w, True) \<Rightarrow>
             (case worker_loop (relay_channel_step bc flow_id timeout) inputs
                     \<lparr>rw_worker = w, rw_flows = flow_set\<rparr> of
                (s, r) \<Rightarrow> close_worker (we_open_close env) flow_id (rw_worker s, r)))"

section \<open>The forward channel\<close>

datatype forward_input =
    FwIdle
  | FwInput nat bytes "string + unit" "string + unit"
  | FwInputClosed
  | FwReceived nat bytes send_outcome
  | FwReceiveFailed string

fun forward_step :: "u64 \<Rightarrow> nat \<Rightarrow> forward_input \<Rightarrow> worker \<Rightarrow> worker \<times> string option loop_outcome" where
  "forward_step flow_id timeout FwIdle w = (w, Return (Some ''Upstream UDP channel idle timeout''))"
| "forward_step flow_id timeout FwInputClosed w = (w, Return None)"
| "forward_step flow_id timeout (FwInput now data written flushed) w =
     (case written of
        Inl e \<Rightarrow> (w, Return (Some (''Upstream UDP write failed: '' @ e)))
      | Inr _ \<Rightarrow>
          let w = w\<lparr>wk_written := wk_written w @ [data]\<rparr>
          in case flushed of
               Inl e \<Rightarrow> (w, Return (Some (''Upstream UDP flush failed: '' @ e)))
             | Inr _ \<Rightarrow> (reset_idle (now + timeout) w, Continue))"
| "forward_step flow_id timeout (FwReceived now data outcome) w =
     (if data = [] then (w, Return (Some ''Upstream UDP channel closed''))
      else case try_queue_target_response outcome flow_id data w of
        (w, False) \<Rightarrow> (w, Return None)
      | (w, True) \<Rightarrow> (reset_idle (now + timeout) w, Continue))"
| "forward_step flow_id timeout (FwReceiveFailed e) w =
     (w, Return (Some (''Upstream UDP read failed: '' @ e)))"

definition run_forward_channel ::
  "worker_env \<Rightarrow> u64 \<Rightarrow> Address \<Rightarrow> forward_input list \<Rightarrow> worker \<times> bool" where
  "run_forward_channel env flow_id address inputs =
     (let timeout = udp_idle_timeout (we_config env);
          w = idle_worker (we_start env + timeout)
      in case we_upstream env address of
           Inl e \<Rightarrow>
             (fst (send_connect_result (we_open_result env) flow_id
                (Some (''Upstream UDP connect failed: '' @ e)) w), True)
         | Inr _ \<Rightarrow>
             (case send_connect_result (we_open_result env) flow_id None w of
                (w, False) \<Rightarrow> (w, True)
              | (w, True) \<Rightarrow>
                  close_worker (we_open_close env) flow_id
                    (worker_loop (forward_step flow_id timeout) inputs w)))"

section \<open>The choice of worker\<close>

record channel_trace =
  tr_connected :: "channel_input list"
  tr_relay :: "relay_input list"
  tr_forward :: "forward_input list"

definition run_channel_worker ::
  "UdpRelayPacket bitcode \<Rightarrow> worker_env \<Rightarrow> u64 \<Rightarrow> Address \<Rightarrow> channel_trace \<Rightarrow> worker \<times> bool" where
  "run_channel_worker bc env flow_id address trace =
     (if pc_forward_mode (we_config env) then run_forward_channel env flow_id address (tr_forward trace)
      else if address = UdpRelay then run_udp_relay_channel bc env flow_id (tr_relay trace)
      else run_connected_udp_channel env flow_id address (tr_connected trace))"

section \<open>Facts\<close>

text \<open>
  The life of a worker as the session sees it: a refusal and nothing else, or an acceptance,
  followed at its end by one closing event.
\<close>

definition worker_refused :: "u64 \<Rightarrow> ChannelEvent list \<Rightarrow> bool" where
  "worker_refused flow_id es \<longleftrightarrow> (\<exists>error. es = [ConnectResult flow_id (ConnectResponseMsg flow_id False (Some error))])"

definition worker_accepted :: "u64 \<Rightarrow> bool \<Rightarrow> ChannelEvent list \<Rightarrow> bool" where
  "worker_accepted flow_id ended es \<longleftrightarrow>
     (if ended then \<exists>reason. es = [ConnectResult flow_id (ConnectResponseMsg flow_id True None), ChannelClosed flow_id reason]
      else es = [ConnectResult flow_id (ConnectResponseMsg flow_id True None)])"

lemma worker_loop_preserves:
  assumes "\<And>i w. P w \<Longrightarrow> P (fst (step i w))" and "P w"
  shows "P (fst (worker_loop step inputs w))"
  using assms(2)
proof (induction inputs arbitrary: w)
  case (Cons i inputs)
  then have "P (fst (step i w))"
    using assms(1) by blast
  then show ?case
    using Cons.IH by (auto split: prod.splits loop_outcome.splits)
qed simp

lemma queue_keeps_events [simp]:
  "wk_events (fst (try_queue_target_response outcome flow_id data w)) = wk_events w"
  by (simp add: try_queue_target_response_def split: send_outcome.splits)

lemma queue_outbound:
  "set (wk_outbound (fst (try_queue_target_response outcome flow_id data w))) \<subseteq> insert (Data flow_id data) (set (wk_outbound w))"
  by (auto simp: try_queue_target_response_def split: send_outcome.splits)

lemma reset_idle_simps [simp]:
  "wk_events (reset_idle d w) = wk_events w" "wk_outbound (reset_idle d w) = wk_outbound w"
  by (simp_all add: reset_idle_def)

text \<open>A step adds no event, and only data of its own flow.\<close>

definition own_data :: "u64 \<Rightarrow> worker \<Rightarrow> bool" where
  "own_data flow_id w \<longleftrightarrow> (\<forall>m\<in>set (wk_outbound w). \<exists>d. m = Data flow_id d)"

lemma own_data_queue: "own_data flow_id w \<Longrightarrow> own_data flow_id (fst (try_queue_target_response outcome flow_id data w))"
  by (auto simp: own_data_def try_queue_target_response_def split: send_outcome.splits)

lemma own_data_simps [simp]:
  "own_data flow_id (reset_idle d w) = own_data flow_id w"
  "own_data flow_id (w\<lparr>wk_written := x\<rparr>) = own_data flow_id w"
  "own_data flow_id (idle_worker d)"
  by (simp_all add: own_data_def idle_worker_def)

lemma connected_step_keeps:
  assumes "wk_events w = es \<and> own_data flow_id w"
  shows "wk_events (fst (connected_step flow_id timeout i w)) = es \<and> own_data flow_id (fst (connected_step flow_id timeout i w))"
  using assms own_data_queue [of flow_id w] queue_keeps_events [of _ flow_id _ w]
  by (cases i) (auto simp: case_prod_beta split: sum.splits)

lemma forward_step_keeps:
  assumes "wk_events w = es \<and> own_data flow_id w"
  shows "wk_events (fst (forward_step flow_id timeout i w)) = es \<and> own_data flow_id (fst (forward_step flow_id timeout i w))"
proof (cases i)
  case (FwReceived now data outcome)
  then show ?thesis
    using assms own_data_queue [of flow_id w outcome data] queue_keeps_events [of outcome flow_id data w]
    by (cases "try_queue_target_response outcome flow_id data w") (auto split: bool.splits)
qed (use assms in \<open>auto simp: Let_def split: sum.splits\<close>)

lemma relay_channel_step_keeps:
  assumes "wk_events (rw_worker s) = es \<and> own_data flow_id (rw_worker s)"
  shows "wk_events (rw_worker (fst (relay_channel_step bc flow_id timeout i s))) = es \<and>
    own_data flow_id (rw_worker (fst (relay_channel_step bc flow_id timeout i s)))"
proof (cases i)
  case (RcResponse now packet outcome)
  show ?thesis
  proof (cases "relay_packet_encode bc packet")
    case (Inr d)
    obtain w b where q: "try_queue_target_response outcome flow_id d (rw_worker s) = (w, b)"
      by fastforce
    then have "wk_events w = es \<and> own_data flow_id w"
      using assms own_data_queue [of flow_id "rw_worker s" outcome d]
        queue_keeps_events [of outcome flow_id d "rw_worker s"] by simp
    then show ?thesis
      using RcResponse Inr q by (cases b) simp_all
  qed (use RcResponse assms in simp)
qed (use assms in \<open>auto split: sum.splits\<close>)

lemma close_worker_accepted:
  assumes "wk_events (fst p) = [ConnectResult flow_id (ConnectResponseMsg flow_id True None)] \<and> own_data flow_id (fst p)"
    and "close_worker True flow_id p = (w, ended)"
  shows "worker_accepted flow_id ended (wk_events w) \<and> own_data flow_id w"
  using assms
  by (cases p) (auto simp: close_worker_def send_channel_closed_def worker_accepted_def own_data_def split: option.splits)

lemma accepted_start:
  assumes "send_connect_result True flow_id None (idle_worker d) = (w, b)"
  shows "b \<and> wk_events w = [ConnectResult flow_id (ConnectResponseMsg flow_id True None)] \<and> own_data flow_id w"
  using assms by (auto simp: send_connect_result_def idle_worker_def connect_response_def own_data_def)

lemma refused_start:
  "worker_refused flow_id (wk_events (fst (send_connect_result True flow_id (Some e) (idle_worker d)))) \<and>
   own_data flow_id (fst (send_connect_result True flow_id (Some e) (idle_worker d)))"
  by (simp add: send_connect_result_def idle_worker_def connect_response_def worker_refused_def own_data_def)

lemma connected_life:
  assumes "we_open_result env" and "we_open_close env"
    and "run_connected_udp_channel env flow_id address inputs = (w, ended)"
  shows "(ended \<and> worker_refused flow_id (wk_events w) \<or> worker_accepted flow_id ended (wk_events w)) \<and> own_data flow_id w"
proof -
  let ?timeout = "udp_idle_timeout (we_config env)"
  obtain w0 b where start: "send_connect_result True flow_id None (idle_worker (we_start env + ?timeout)) = (w0, b)"
    by fastforce
  have keep: "wk_events (fst (worker_loop (connected_step flow_id ?timeout) inputs w0)) = wk_events w0 \<and>
      own_data flow_id (fst (worker_loop (connected_step flow_id ?timeout) inputs w0))"
    by (rule worker_loop_preserves, rule connected_step_keeps) (use accepted_start [OF start] in simp_all)
  show ?thesis
  proof (cases "\<exists>target. target_addr_for_address (we_dns env) (we_config env) address = Inr target \<and> we_connect env target = Inr ()")
    case True
    then have closed: "close_worker True flow_id (worker_loop (connected_step flow_id ?timeout) inputs w0) = (w, ended)"
      using assms start accepted_start [OF start] by (auto simp: run_connected_udp_channel_def)
    show ?thesis
      using close_worker_accepted [OF _ closed] keep accepted_start [OF start] by simp
  next
    case False
    then show ?thesis
      using assms refused_start
      by (auto simp: run_connected_udp_channel_def Let_def split: sum.splits)
  qed
qed

lemma forward_life:
  assumes "we_open_result env" and "we_open_close env"
    and "run_forward_channel env flow_id address inputs = (w, ended)"
  shows "(ended \<and> worker_refused flow_id (wk_events w) \<or> worker_accepted flow_id ended (wk_events w)) \<and> own_data flow_id w"
proof -
  let ?timeout = "udp_idle_timeout (we_config env)"
  obtain w0 b where start: "send_connect_result True flow_id None (idle_worker (we_start env + ?timeout)) = (w0, b)"
    by fastforce
  have keep: "wk_events (fst (worker_loop (forward_step flow_id ?timeout) inputs w0)) = wk_events w0 \<and>
      own_data flow_id (fst (worker_loop (forward_step flow_id ?timeout) inputs w0))"
    by (rule worker_loop_preserves, rule forward_step_keeps) (use accepted_start [OF start] in simp_all)
  show ?thesis
  proof (cases "we_upstream env address")
    case (Inr u)
    then have closed: "close_worker True flow_id (worker_loop (forward_step flow_id ?timeout) inputs w0) = (w, ended)"
      using assms start accepted_start [OF start] by (auto simp: run_forward_channel_def)
    show ?thesis
      using close_worker_accepted [OF _ closed] keep accepted_start [OF start] by simp
  next
    case Inl
    then show ?thesis
      using assms refused_start by (auto simp: run_forward_channel_def Let_def)
  qed
qed

lemma relay_life:
  assumes "we_open_result env" and "we_open_close env"
    and "run_udp_relay_channel bc env flow_id inputs = (w, ended)"
  shows "worker_accepted flow_id ended (wk_events w) \<and> own_data flow_id w"
proof -
  let ?timeout = "max (fs_idle_timeout (flow_set_new (we_config env))) 1000"
  obtain w0 b where start: "send_connect_result True flow_id None (idle_worker (we_start env + ?timeout)) = (w0, b)"
    by fastforce
  obtain s r where loop: "worker_loop (relay_channel_step bc flow_id ?timeout) inputs
      \<lparr>rw_worker = w0, rw_flows = flow_set_new (we_config env)\<rparr> = (s, r)"
    by fastforce
  have "wk_events (rw_worker s) = wk_events w0 \<and> own_data flow_id (rw_worker s)"
    using worker_loop_preserves [where P = "\<lambda>s. wk_events (rw_worker s) = wk_events w0 \<and> own_data flow_id (rw_worker s)"
        and step = "relay_channel_step bc flow_id ?timeout" and w = "\<lparr>rw_worker = w0, rw_flows = flow_set_new (we_config env)\<rparr>"
        and inputs = inputs, OF relay_channel_step_keeps]
      loop accepted_start [OF start] by simp
  moreover have "close_worker True flow_id (rw_worker s, r) = (w, ended)"
    using assms start accepted_start [OF start] loop by (auto simp: run_udp_relay_channel_def Let_def)
  ultimately show ?thesis
    using close_worker_accepted [of "(rw_worker s, r)" flow_id w ended] accepted_start [OF start] by simp
qed

section \<open>Properties\<close>

text \<open>
  C29. Every worker, of whichever kind, tells the session how it fares exactly once: it refuses
  the flow and ends, or accepts it and, when it ends, reports the end once. All it queues for the
  agent is data of its own flow.
\<close>

theorem worker_lifecycle:
  assumes "we_open_result env" and "we_open_close env"
    and "run_channel_worker bc env flow_id address trace = (w, ended)"
  shows "(ended \<and> worker_refused flow_id (wk_events w) \<or> worker_accepted flow_id ended (wk_events w)) \<and>
    list_all (\<lambda>m. \<exists>d. m = Data flow_id d) (wk_outbound w)"
proof -
  have "(ended \<and> worker_refused flow_id (wk_events w) \<or> worker_accepted flow_id ended (wk_events w)) \<and> own_data flow_id w"
    using assms(3) connected_life [OF assms(1,2)] forward_life [OF assms(1,2)] relay_life [OF assms(1,2)]
    unfolding run_channel_worker_def by (simp split: if_splits)
  then show ?thesis
    by (simp add: own_data_def list_all_iff)
qed

theorem worker_lifecycle_witness:
  "\<exists>w ended. run_channel_worker \<lparr>bc_serialize = \<lambda>p. Inr (up_data p), bc_deserialize = \<lambda>_. Inl []\<rparr>
       \<lparr>we_config = proxy_config_default ''addr'', we_dns = Inl (ErrConfiguration ''none''), we_show_error = \<lambda>_. ''error'',
        we_connect = \<lambda>_. Inr (), we_upstream = \<lambda>_. Inr (), we_open_result = True, we_open_close = True, we_start = 0\<rparr>
       7 (Domain ''dns'' 53) \<lparr>tr_connected = [ChInput 1 [1] (Inr ()), ChReceived 2 [2] SendOk, ChIdle], tr_relay = [], tr_forward = []\<rparr> =
       (w, ended) \<and>
     (ended \<and> worker_refused 7 (wk_events w) \<or> worker_accepted 7 ended (wk_events w)) \<and>
     list_all (\<lambda>m. \<exists>d. m = Data 7 d) (wk_outbound w)"
proof -
  let ?bc = "\<lparr>bc_serialize = \<lambda>p. Inr (up_data p), bc_deserialize = \<lambda>_. Inl []\<rparr> :: UdpRelayPacket bitcode"
  let ?env = "\<lparr>we_config = proxy_config_default ''addr'', we_dns = Inl (ErrConfiguration ''none''), we_show_error = \<lambda>_. ''error'',
    we_connect = \<lambda>_. Inr (), we_upstream = \<lambda>_. Inr (), we_open_result = True, we_open_close = True, we_start = 0\<rparr>"
  let ?tr = "\<lparr>tr_connected = [ChInput 1 [1] (Inr ()), ChReceived 2 [2] SendOk, ChIdle], tr_relay = [], tr_forward = []\<rparr>"
  obtain w ended where run: "run_channel_worker ?bc ?env 7 (Domain ''dns'' 53) ?tr = (w, ended)"
    by fastforce
  from worker_lifecycle [OF _ _ this] run show ?thesis
    by (intro exI conjI) (rule run, simp_all)
qed

end
