(* ===== verification/Udp_Handshake.thy ===== *)
theory Udp_Handshake
  imports Proxy_Auth
begin

text \<open>
  The handshake of a native UDP session: the proxy's \<open>prepare_session\<close>
  (\<open>proxy/src/native_udp/auth.rs\<close>), the client's \<open>authenticate_udp_session\<close> with its
  retransmission loop (\<open>common/src/client_connection/udp.rs\<close>), and the RSA-PSS and RSA-OAEP
  wrappers they call (\<open>protocol/src/crypto\<close>). The operations of the \<open>rsa\<close> crate take the bytes
  they draw from the random number generator as an argument; all other random values are
  arguments too.
\<close>

section \<open>The RSA wrappers\<close>

record udp_auth_env =
  uv_suite :: crypto_suite
  uv_init :: "UdpAuthInit bitcode"
  uv_ok :: "UdpAuthOk bitcode"
  uv_secret :: "UdpSessionSecret bitcode"
  uv_public_key_pem :: "string \<Rightarrow> string + RsaPublicKey"
  uv_rfc3339 :: rfc3339
  uv_pss_sign :: "RsaPrivateKey \<Rightarrow> bytes \<Rightarrow> bytes \<Rightarrow> string + bytes"
  uv_pss_verify :: "RsaPublicKey \<Rightarrow> bytes \<Rightarrow> bytes \<Rightarrow> string + unit"
  uv_oaep_encrypt :: "RsaPublicKey \<Rightarrow> bytes \<Rightarrow> bytes \<Rightarrow> string + bytes"
  uv_oaep_decrypt :: "RsaPrivateKey \<Rightarrow> bytes \<Rightarrow> string + bytes"

definition sign_pss_sha256 :: "udp_auth_env \<Rightarrow> RsaPrivateKey \<Rightarrow> bytes \<Rightarrow> bytes \<Rightarrow> ProtocolError + bytes" where
  "sign_pss_sha256 env key rnd m =
     map_err PEncryption (uv_pss_sign env key rnd (sha256 (uv_suite env) m))"

definition verify_pss_sha256 :: "udp_auth_env \<Rightarrow> RsaPublicKey \<Rightarrow> bytes \<Rightarrow> bytes \<Rightarrow> ProtocolError + unit" where
  "verify_pss_sha256 env key m signature =
     map_err PAuthenticationFailed (uv_pss_verify env key (sha256 (uv_suite env) m) signature)"

definition encrypt_oaep_sha256 :: "udp_auth_env \<Rightarrow> RsaPublicKey \<Rightarrow> bytes \<Rightarrow> bytes \<Rightarrow> ProtocolError + bytes" where
  "encrypt_oaep_sha256 env key rnd plaintext =
     map_err PEncryption (uv_oaep_encrypt env key rnd plaintext)"

definition decrypt_oaep_sha256 :: "udp_auth_env \<Rightarrow> RsaPrivateKey \<Rightarrow> bytes \<Rightarrow> ProtocolError + bytes" where
  "decrypt_oaep_sha256 env key ciphertext = map_err PDecryption (uv_oaep_decrypt env key ciphertext)"

text \<open>What the operations of the \<open>rsa\<close> crate promise for one key pair.\<close>

definition rsa_crate_ok :: "udp_auth_env \<Rightarrow> RsaPrivateKey \<Rightarrow> bool" where
  "rsa_crate_ok env key \<longleftrightarrow>
     (\<forall>rnd h sig. uv_pss_sign env key rnd h = Inr sig \<longrightarrow>
        uv_pss_verify env (rsa_pub key) h sig = Inr ()) \<and>
     (\<forall>rnd m c. uv_oaep_encrypt env (rsa_pub key) rnd m = Inr c \<longrightarrow>
        uv_oaep_decrypt env key c = Inr m)"

section \<open>The proxy\<close>

record PreparedSession =
  ps_codec :: UdpSessionCodec
  ps_auth_ok_datagram :: bytes

text \<open>The random values of one call.\<close>

record session_rng =
  sr_master_key :: bytes
  sr_server_nonce :: bytes
  sr_oaep :: bytes

definition auth_error :: "'e + 'a \<Rightarrow> 'a proxy_result" where
  "auth_error r = map_err (\<lambda>e. ErrAuthentication ''UDP authentication'') r"

definition prepare_session ::
  "udp_auth_env \<Rightarrow> i64 \<Rightarrow> session_rng \<Rightarrow> ProxyConfig \<Rightarrow> UserManager \<Rightarrow> UdpSessionId \<Rightarrow> UdpAuthInit \<Rightarrow>
     PreparedSession proxy_result" where
  "prepare_session env now rng config user_manager session_id auth =
     and_then (get_user user_manager (ai_username auth)) (\<lambda>found.
     and_then (ok_or found (ErrUserNotFound (ai_username auth))) (\<lambda>user.
     and_then (validate_udp_auth (uv_rfc3339 env) now config user auth) (\<lambda>_.
     and_then (auth_error (uv_public_key_pem env (uc_public_key_pem user))) (\<lambda>user_public_key.
     let expected_proof = udp_auth_proof_digest (uv_suite env) session_id (ai_username auth)
           (ai_timestamp auth) (ai_client_nonce auth)
     in
     and_then (auth_error (verify_pss_sha256 env user_public_key expected_proof (ai_proof auth))) (\<lambda>_.
     let secret = \<lparr>ss_session_id = session_id, ss_client_nonce = ai_client_nonce auth,
           ss_master_key = sr_master_key rng, ss_server_nonce = sr_server_nonce rng\<rparr>
     in
     and_then (auth_error (encode_session_secret (uv_secret env) secret)) (\<lambda>encoded_secret.
     and_then (auth_error (encrypt_oaep_sha256 env user_public_key (sr_oaep rng) encoded_secret))
       (\<lambda>encrypted_session_secret.
     and_then (auth_error (encode_auth_ok (uv_ok env) session_id
         \<lparr>ao_encrypted_session_secret = encrypted_session_secret\<rparr>)) (\<lambda>auth_ok_datagram.
     and_then (auth_error (codec_new (uv_suite env) Proxy session_id (sr_master_key rng)
         (ai_client_nonce auth) (sr_server_nonce rng))) (\<lambda>codec.
       Ok \<lparr>ps_codec = codec, ps_auth_ok_datagram = auth_ok_datagram\<rparr>)))))))))"

section \<open>The client\<close>

definition AUTH_INITIAL_RETRY :: nat where
  "AUTH_INITIAL_RETRY = 200"

definition CONTROL_MAX_RETRY :: nat where
  "CONTROL_MAX_RETRY = 2000"

definition udp_protocol_error :: "UdpTransportError + 'a \<Rightarrow> io_error + 'a" where
  "udp_protocol_error r = map_err (\<lambda>e. InvalidData ''native UDP'') r"

text \<open>The values a client draws and reads before the first flight.\<close>

record client_rng =
  cl_session_id :: UdpSessionId
  cl_client_nonce :: bytes
  cl_pss :: bytes

definition client_auth_init ::
  "udp_auth_env \<Rightarrow> agent_identity \<Rightarrow> client_rng \<Rightarrow> i64 \<Rightarrow> io_error + RsaPrivateKey \<times> bytes" where
  "client_auth_init env config rng timestamp =
     and_then (map_err InvalidData (id_private_key config)) (\<lambda>rsa.
     let digest = udp_auth_proof_digest (uv_suite env) (cl_session_id rng) (id_username config)
           timestamp (cl_client_nonce rng)
     in
     and_then (map_err (\<lambda>e. Other ''sign'') (sign_pss_sha256 env rsa (cl_pss rng) digest)) (\<lambda>proof.
     and_then (udp_protocol_error (encode_auth_init (uv_init env) (cl_session_id rng)
         \<lparr>ai_username = id_username config, ai_timestamp = timestamp,
          ai_client_nonce = cl_client_nonce rng, ai_proof = proof\<rparr>)) (\<lambda>request.
       Ok (rsa, request))))"

text \<open>
  One received datagram: \<open>None\<close> is \<open>continue\<close>, the datagram is ignored; otherwise the call
  returns.
\<close>

definition client_receive ::
  "udp_auth_env \<Rightarrow> RsaPrivateKey \<Rightarrow> client_rng \<Rightarrow> bytes \<Rightarrow> (io_error + UdpSessionCodec) option" where
  "client_receive env rsa rng datagram =
     (if length datagram > UDP_MAX_DATAGRAM_SIZE then None
      else case decode_auth_ok (uv_ok env) datagram of
        Inl _ \<Rightarrow> None
      | Inr (header, auth_ok) \<Rightarrow>
          if hdr_session_id header \<noteq> cl_session_id rng then None
          else case decrypt_oaep_sha256 env rsa (ao_encrypted_session_secret auth_ok) of
            Inl _ \<Rightarrow> None
          | Inr secret_bytes \<Rightarrow>
              (case decode_session_secret (uv_secret env) secret_bytes of
                 Inl _ \<Rightarrow> None
               | Inr secret \<Rightarrow>
                   if \<not> is_ok (validate_handshake_context secret (cl_session_id rng) (cl_client_nonce rng))
                   then None
                   else Some (udp_protocol_error (codec_new (uv_suite env) Agent (cl_session_id rng)
                          (ss_master_key secret) (cl_client_nonce rng) (ss_server_nonce secret)))))"

text \<open>
  One round of the outer loop: the outcome of the send and the time once it is done, what the
  socket yields (with the times in milliseconds), and the time when the inner loop has ended.
\<close>

datatype recv_event = Received nat bytes | RecvFailed nat

record auth_round =
  rd_send :: "io_error option"
  rd_sent :: nat
  rd_events :: "recv_event list"
  rd_end :: nat

fun inner_loop ::
  "udp_auth_env \<Rightarrow> RsaPrivateKey \<Rightarrow> client_rng \<Rightarrow> nat \<Rightarrow> recv_event list \<Rightarrow>
     (io_error + UdpSessionCodec) option" where
  "inner_loop env rsa rng attempt_deadline [] = None"
| "inner_loop env rsa rng attempt_deadline (RecvFailed t # es) = None"
| "inner_loop env rsa rng attempt_deadline (Received t datagram # es) =
     (if attempt_deadline \<le> t then None
      else case client_receive env rsa rng datagram of
        None \<Rightarrow> inner_loop env rsa rng attempt_deadline es
      | Some r \<Rightarrow> Some r)"

text \<open>\<open>None\<close>: the rounds given do not reach the end of the call.\<close>

fun outer_loop ::
  "udp_auth_env \<Rightarrow> RsaPrivateKey \<Rightarrow> client_rng \<Rightarrow> nat \<Rightarrow> nat \<Rightarrow> auth_round list \<Rightarrow>
     (io_error + UdpSessionId \<times> UdpSessionCodec) option" where
  "outer_loop env rsa rng deadline retry_delay [] = None"
| "outer_loop env rsa rng deadline retry_delay (rd # rds) =
     (case rd_send rd of
        Some e \<Rightarrow> Some (Err e)
      | None \<Rightarrow>
        (case inner_loop env rsa rng (min (rd_sent rd + retry_delay) deadline) (rd_events rd) of
           Some r \<Rightarrow> Some (and_then r (\<lambda>codec. Ok (cl_session_id rng, codec)))
         | None \<Rightarrow>
             if deadline \<le> rd_end rd then Some (Err TimedOut)
             else outer_loop env rsa rng deadline (min (retry_delay * 2) CONTROL_MAX_RETRY) rds))"

definition authenticate_udp_session ::
  "udp_auth_env \<Rightarrow> agent_identity \<Rightarrow> client_rng \<Rightarrow> i64 \<Rightarrow> nat \<Rightarrow> nat \<Rightarrow> auth_round list \<Rightarrow>
     (io_error + UdpSessionId \<times> UdpSessionCodec) option" where
  "authenticate_udp_session env config rng timestamp timeout now rounds =
     (case client_auth_init env config rng timestamp of
        Inl e \<Rightarrow> Some (Err e)
      | Inr (rsa, request) \<Rightarrow>
          outer_loop env rsa rng (now + timeout) AUTH_INITIAL_RETRY rounds)"

section \<open>Facts\<close>

lemma auth_error_simps [simp]: "auth_error (Inr x) = Inr x" "auth_error r = Inr x \<longleftrightarrow> r = Inr x"
  by (simp_all add: auth_error_def)

lemma udp_protocol_error_simps [simp]:
  "udp_protocol_error (Inr x) = Inr x" "udp_protocol_error r = Inr x \<longleftrightarrow> r = Inr x"
  by (simp_all add: udp_protocol_error_def)

lemma default_config_accepted: "reassembler_new reassembly_config_default = Inr (from_valid_config reassembly_config_default)"
  by (simp add: reassembler_new_def reassembly_config_default_def)

definition fresh_codec :: "UdpSessionRole \<Rightarrow> UdpSessionId \<Rightarrow> UdpDirectionalKeyMaterial \<Rightarrow> UdpSessionCodec" where
  "fresh_codec role sid keys = \<lparr>co_crypto = from_key_material role sid keys,
     co_reassembler = from_valid_config reassembly_config_default, co_next_message_id = 0,
     co_message_id_exhausted = False\<rparr>"

lemma codec_new_derived:
  assumes "derive cs master sid cn sn = Inr keys"
  shows "codec_new cs role sid master cn sn = Inr (fresh_codec role sid keys)"
  using assms default_config_accepted
  by (simp add: codec_new_def codec_with_reassembly_config_def session_crypto_new_def fresh_codec_def)

text \<open>The first flight of the client is what the proxy decodes and verifies.\<close>

lemma first_flight_verifies:
  assumes "rsa_crate_ok env key" and "bitcode_roundtrip (uv_init env)"
    and "length (cl_session_id rng) = 16" and "id_private_key agent = Inr key"
    and "client_auth_init env agent rng t = Inr (rsa, request)"
  shows "rsa = key \<and> (\<exists>h auth. decode_auth_init (uv_init env) request = Inr (h, auth) \<and>
    hdr_session_id h = cl_session_id rng \<and> ai_username auth = id_username agent \<and>
    ai_timestamp auth = t \<and> ai_client_nonce auth = cl_client_nonce rng \<and>
    verify_pss_sha256 env (rsa_pub key) (udp_auth_proof_digest (uv_suite env) (cl_session_id rng)
      (id_username agent) t (cl_client_nonce rng)) (ai_proof auth) = Inr ())"
proof -
  let ?digest = "udp_auth_proof_digest (uv_suite env) (cl_session_id rng) (id_username agent) t
    (cl_client_nonce rng)"
  obtain pf where sig: "uv_pss_sign env key (cl_pss rng) (sha256 (uv_suite env) ?digest) = Inr pf"
      "encode_auth_packet (uv_init env) AuthInit (cl_session_id rng)
        \<lparr>ai_username = id_username agent, ai_timestamp = t, ai_client_nonce = cl_client_nonce rng,
         ai_proof = pf\<rparr> = Inr request" "rsa = key"
    using assms(4,5)
    by (auto simp: client_auth_init_def Let_def sign_pss_sha256_def encode_auth_init_def)
  have "verify_pss_sha256 env (rsa_pub key) ?digest pf = Inr ()"
    using assms(1) sig(1) by (auto simp: rsa_crate_ok_def verify_pss_sha256_def)
  then show ?thesis
    using auth_packet_decodes [OF assms(2) _ assms(3) sig(2)] sig(3)
    by (auto simp: decode_auth_init_def)
qed

text \<open>What the client makes of the answer of the proxy.\<close>

lemma answer_accepted:
  assumes "rsa_crate_ok env key" and "bitcode_roundtrip (uv_ok env)" and "bitcode_roundtrip (uv_secret env)"
    and "length (cl_session_id rng) = 16"
    and "encode_session_secret (uv_secret env) \<lparr>ss_session_id = cl_session_id rng,
        ss_client_nonce = cl_client_nonce rng, ss_master_key = mk, ss_server_nonce = sn\<rparr> = Inr es"
    and "encrypt_oaep_sha256 env (rsa_pub key) rnd es = Inr ct"
    and "encode_auth_ok (uv_ok env) (cl_session_id rng) \<lparr>ao_encrypted_session_secret = ct\<rparr> = Inr d"
    and "derive (uv_suite env) mk (cl_session_id rng) (cl_client_nonce rng) sn = Inr keys"
  shows "client_receive env key rng d = Some (Inr (fresh_codec Agent (cl_session_id rng) keys))"
proof -
  obtain h where h: "length d \<le> UDP_MAX_DATAGRAM_SIZE" "hdr_session_id h = cl_session_id rng"
      "decode_auth_ok (uv_ok env) d = Inr (h, \<lparr>ao_encrypted_session_secret = ct\<rparr>)"
    using auth_packet_decodes [OF assms(2) _ assms(4) assms(7) [unfolded encode_auth_ok_def]]
    by (auto simp: decode_auth_ok_def)
  have "decrypt_oaep_sha256 env key ct = Inr es"
    using assms(1,6) by (auto simp: rsa_crate_ok_def encrypt_oaep_sha256_def decrypt_oaep_sha256_def)
  moreover have "decode_session_secret (uv_secret env) es = Inr \<lparr>ss_session_id = cl_session_id rng,
      ss_client_nonce = cl_client_nonce rng, ss_master_key = mk, ss_server_nonce = sn\<rparr>"
    using assms(3,5) bitcode_roundtripD by (fastforce simp: encode_session_secret_def decode_session_secret_def)
  ultimately show ?thesis
    using h codec_new_derived [OF assms(8)]
    by (simp add: client_receive_def validate_handshake_context_def)
qed

section \<open>Facts on the retransmission loop\<close>

text \<open>
  An answer to this handshake, whoever sent it: an \<open>AuthOk\<close> datagram of this session whose sealed
  secret opens with the private key and names this session and this client nonce.
\<close>

definition handshake_answer ::
  "udp_auth_env \<Rightarrow> RsaPrivateKey \<Rightarrow> client_rng \<Rightarrow> bytes \<Rightarrow> UdpSessionSecret \<Rightarrow> bool" where
  "handshake_answer env rsa rng d secret \<longleftrightarrow> length d \<le> UDP_MAX_DATAGRAM_SIZE \<and>
     (\<exists>h auth_ok bytes. decode_auth_ok (uv_ok env) d = Inr (h, auth_ok) \<and>
        hdr_session_id h = cl_session_id rng \<and>
        decrypt_oaep_sha256 env rsa (ao_encrypted_session_secret auth_ok) = Inr bytes \<and>
        decode_session_secret (uv_secret env) bytes = Inr secret \<and>
        ss_session_id secret = cl_session_id rng \<and> ss_client_nonce secret = cl_client_nonce rng)"

text \<open>The session such an answer gives, as the call returns it.\<close>

definition answer_codec :: "udp_auth_env \<Rightarrow> client_rng \<Rightarrow> UdpSessionSecret \<Rightarrow> io_error + UdpSessionCodec" where
  "answer_codec env rng secret = udp_protocol_error (codec_new (uv_suite env) Agent (cl_session_id rng)
     (ss_master_key secret) (cl_client_nonce rng) (ss_server_nonce secret))"

lemma client_receive_None:
  "client_receive env rsa rng d = None \<longleftrightarrow> (\<nexists>secret. handshake_answer env rsa rng d secret)"
  by (auto simp: client_receive_def handshake_answer_def validate_handshake_context_def
      split: if_splits sum.splits prod.splits)

lemma client_receive_answer:
  "handshake_answer env rsa rng d secret \<Longrightarrow> client_receive env rsa rng d = Some (answer_codec env rng secret)"
  by (auto simp: client_receive_def handshake_answer_def answer_codec_def validate_handshake_context_def)

text \<open>An event that brings no answer.\<close>

fun no_answer :: "udp_auth_env \<Rightarrow> RsaPrivateKey \<Rightarrow> client_rng \<Rightarrow> recv_event \<Rightarrow> bool" where
  "no_answer env rsa rng (Received t d) \<longleftrightarrow> (\<nexists>secret. handshake_answer env rsa rng d secret)"
| "no_answer env rsa rng (RecvFailed t) \<longleftrightarrow> True"

fun received_before :: "nat \<Rightarrow> recv_event \<Rightarrow> bool" where
  "received_before t (Received t' d) \<longleftrightarrow> t' < t"
| "received_before t (RecvFailed t') \<longleftrightarrow> False"

definition receive_failed :: "auth_round \<Rightarrow> bool" where
  "receive_failed rd \<longleftrightarrow> list_ex (\<lambda>e. case e of Received t d \<Rightarrow> False | RecvFailed t \<Rightarrow> True) (rd_events rd)"

lemma inner_loop_ignores:
  assumes "list_all (no_answer env rsa rng) es" and "list_all (received_before dl) es" and "t < dl"
    and "client_receive env rsa rng d = Some r"
  shows "inner_loop env rsa rng dl (es @ Received t d # es') = Some r"
  using assms
proof (induction es)
  case (Cons e es)
  then show ?case
    by (cases e) (simp_all add: iffD2 [OF client_receive_None])
qed simp

lemma inner_loop_fruitless:
  "list_all (no_answer env rsa rng) es \<Longrightarrow> inner_loop env rsa rng dl es = None"
  by (induction env rsa rng dl es rule: inner_loop.induct) (auto simp: iffD2 [OF client_receive_None])

lemma inner_loop_Some:
  "inner_loop env rsa rng dl es = Some r \<Longrightarrow>
     \<exists>t d secret. Received t d \<in> set es \<and> t < dl \<and> handshake_answer env rsa rng d secret \<and>
       r = answer_codec env rng secret"
proof (induction env rsa rng dl es rule: inner_loop.induct)
  case (3 env rsa rng dl t d es)
  show ?case
  proof (cases "client_receive env rsa rng d")
    case None
    then show ?thesis
      using 3 by (auto split: if_splits)
  next
    case (Some x)
    then obtain secret where "handshake_answer env rsa rng d secret"
      using client_receive_None [of env rsa rng d] by auto
    then show ?thesis
      using 3(2) client_receive_answer [of env rsa rng d secret]
      by (intro exI [of _ t] exI [of _ d] exI [of _ secret]) (simp split: if_splits)
  qed
qed simp_all

text \<open>A round in which the request is sent and no answer comes back.\<close>

definition fruitless :: "udp_auth_env \<Rightarrow> RsaPrivateKey \<Rightarrow> client_rng \<Rightarrow> nat \<Rightarrow> auth_round \<Rightarrow> bool" where
  "fruitless env rsa rng deadline rd \<longleftrightarrow> rd_send rd = None \<and> rd_end rd < deadline \<and>
     list_all (no_answer env rsa rng) (rd_events rd)"

lemma min_scaled: "1 \<le> n \<Longrightarrow> min (min a m * n) m = min (a * n) (m :: nat)"
proof (cases "a \<le> m")
  case False
  assume "1 \<le> n"
  then have "m * 1 \<le> m * n" "m * 1 \<le> a * n"
    using False by (intro mult_le_mono; simp)+
  then have "min (m * n) m = m" "min (a * n) m = m"
    by (simp_all only: min_absorb2 mult_1_right)
  moreover have "min a m = m"
    using False by simp
  ultimately show ?thesis
    by simp
qed simp

lemma outer_loop_fruitless:
  assumes "list_all (fruitless env rsa rng deadline) rds" and "delay \<le> CONTROL_MAX_RETRY"
  shows "outer_loop env rsa rng deadline delay (rds @ rest) =
    outer_loop env rsa rng deadline (min (delay * 2 ^ length rds) CONTROL_MAX_RETRY) rest"
  using assms
proof (induction rds arbitrary: delay)
  case Nil
  then show ?case
    by simp
next
  case (Cons rd rds)
  have "min (min (delay * 2) CONTROL_MAX_RETRY * 2 ^ length rds) CONTROL_MAX_RETRY =
      min (delay * 2 ^ length (rd # rds)) CONTROL_MAX_RETRY"
    by (subst min_scaled) (simp_all add: mult.assoc)
  then show ?case
    using Cons.IH [of "min (delay * 2) CONTROL_MAX_RETRY"] Cons.prems
    by (auto simp: fruitless_def inner_loop_fruitless not_le)
qed

text \<open>
  What a clock and a timed receive guarantee of the rounds: time does not run backwards, and a
  round lasts until its own deadline unless a receive fails, which ends it at once.
\<close>

fun rounds_timed :: "nat \<Rightarrow> nat \<Rightarrow> nat \<Rightarrow> auth_round list \<Rightarrow> bool" where
  "rounds_timed deadline retry_delay now [] \<longleftrightarrow> True"
| "rounds_timed deadline retry_delay now (rd # rds) \<longleftrightarrow>
     now \<le> rd_sent rd \<and> rd_sent rd \<le> rd_end rd \<and>
     (receive_failed rd \<or> min (rd_sent rd + retry_delay) deadline \<le> rd_end rd) \<and>
     rounds_timed deadline (min (retry_delay * 2) CONTROL_MAX_RETRY) (rd_end rd) rds"

lemma outer_loop_late:
  "rd \<in> set rds \<Longrightarrow> deadline \<le> rd_end rd \<Longrightarrow> outer_loop env rsa rng deadline delay rds \<noteq> None"
proof (induction rds arbitrary: delay)
  case (Cons rd' rds)
  then show ?case
    by (cases "rd = rd'") (auto split: option.splits)
qed simp

lemma outer_loop_waits:
  assumes "rounds_timed deadline delay now rds" and "AUTH_INITIAL_RETRY \<le> delay"
    and "outer_loop env rsa rng deadline delay rds = None"
  shows "now + AUTH_INITIAL_RETRY * length (filter (\<lambda>rd. \<not> receive_failed rd) rds) \<le> last (now # map rd_end rds)"
  using assms
proof (induction rds arbitrary: delay now)
  case (Cons rd rds)
  have next_delay: "AUTH_INITIAL_RETRY \<le> min (delay * 2) CONTROL_MAX_RETRY"
    using Cons.prems(2) by (simp add: AUTH_INITIAL_RETRY_def CONTROL_MAX_RETRY_def)
  have rest: "rd_end rd < deadline"
      "outer_loop env rsa rng deadline (min (delay * 2) CONTROL_MAX_RETRY) rds = None"
    using Cons.prems(3) by (auto split: option.splits if_splits)
  have "rd_end rd + AUTH_INITIAL_RETRY * length (filter (\<lambda>rd. \<not> receive_failed rd) rds) \<le>
      last (rd_end rd # map rd_end rds)"
    using Cons.IH [OF _ next_delay rest(2)] Cons.prems(1) by simp
  moreover have "now + (if receive_failed rd then 0 else AUTH_INITIAL_RETRY) \<le> rd_end rd"
    using Cons.prems(1,2) rest(1) by (auto simp: min_le_iff_disj)
  ultimately show ?case
    by (simp split: if_splits)
qed simp

text \<open>Why a round ends the call, and with what.\<close>

definition decides ::
  "udp_auth_env \<Rightarrow> RsaPrivateKey \<Rightarrow> client_rng \<Rightarrow> nat \<Rightarrow> auth_round \<Rightarrow>
     io_error + UdpSessionId \<times> UdpSessionCodec \<Rightarrow> bool" where
  "decides env rsa rng deadline rd r \<longleftrightarrow>
     deadline \<le> rd_end rd \<and> r = Inl TimedOut \<or> (\<exists>e. rd_send rd = Some e \<and> r = Inl e) \<or>
     (\<exists>t d secret. Received t d \<in> set (rd_events rd) \<and> t < deadline \<and> handshake_answer env rsa rng d secret \<and>
        r = and_then (answer_codec env rng secret) (\<lambda>codec. Ok (cl_session_id rng, codec)))"

lemma outer_loop_result:
  "outer_loop env rsa rng deadline delay rds = Some r \<Longrightarrow> \<exists>rd\<in>set rds. decides env rsa rng deadline rd r"
proof (induction rds arbitrary: delay)
  case (Cons rd rds)
  show ?case
  proof (cases "decides env rsa rng deadline rd r")
    case False
    then have "rd_send rd = None"
      using Cons.prems by (cases "rd_send rd") (auto simp: decides_def)
    moreover have "inner_loop env rsa rng (min (rd_sent rd + delay) deadline) (rd_events rd) = None"
    proof (rule ccontr)
      assume "inner_loop env rsa rng (min (rd_sent rd + delay) deadline) (rd_events rd) \<noteq> None"
      then obtain x where x: "inner_loop env rsa rng (min (rd_sent rd + delay) deadline) (rd_events rd) = Some x"
        by blast
      then have "r = and_then x (\<lambda>codec. Ok (cl_session_id rng, codec))"
        using Cons.prems \<open>rd_send rd = None\<close> by simp
      then show False
        using inner_loop_Some [OF x] False unfolding decides_def by (metis min_less_iff_conj)
    qed
    ultimately have "outer_loop env rsa rng deadline (min (delay * 2) CONTROL_MAX_RETRY) rds = Some r"
      using Cons.prems False by (auto simp: decides_def split: if_splits)
    then show ?thesis
      using Cons.IH by auto
  qed simp
qed simp

lemma decides_error:
  "decides env rsa rng deadline rd (Inl TimedOut) \<Longrightarrow> deadline \<le> rd_end rd \<or> rd_send rd = Some TimedOut"
  by (auto simp: decides_def answer_codec_def udp_protocol_error_def map_err_def and_then_def split: sum.splits)

lemma decides_session:
  "decides env rsa rng deadline rd (Inr (sid, codec)) \<Longrightarrow> sid = cl_session_id rng \<and>
     (\<exists>t d secret. Received t d \<in> set (rd_events rd) \<and> t < deadline \<and>
        handshake_answer env rsa rng d secret \<and> answer_codec env rng secret = Inr codec)"
  by (auto simp: decides_def eq_commute [of "Inr _" "and_then _ _"])

lemma client_auth_init_error: "client_auth_init env config rng timestamp \<noteq> Inl TimedOut"
  by (auto simp: client_auth_init_def and_then_def map_err_def udp_protocol_error_def Let_def split: sum.splits)

text \<open>
  A world for the examples: OAEP and PSS that only frame their input, and serialisers for the
  messages of one user.
\<close>

definition plain_udp_env :: udp_auth_env where
  "plain_udp_env = \<lparr>uv_suite = plain_suite,
     uv_init = \<lparr>bc_serialize = (\<lambda>v. if ai_username v = ''alice'' \<and> ai_proof v = [1]
          then Inr (u64_to_be (ai_timestamp v) @ ai_client_nonce v) else Inl ''size''),
        bc_deserialize = (\<lambda>bs. Inr \<lparr>ai_username = ''alice'', ai_timestamp = u64_from_be (take 8 bs),
          ai_client_nonce = drop 8 bs, ai_proof = [1]\<rparr>)\<rparr>,
     uv_ok = plain_auth_ok,
     uv_secret = \<lparr>bc_serialize = (\<lambda>v. if length (ss_session_id v) = 16 \<and> ss_client_nonce v = replicate 32 2
          \<and> length (ss_master_key v) = 32
          then Inr (ss_session_id v @ ss_master_key v @ ss_server_nonce v) else Inl ''size''),
        bc_deserialize = (\<lambda>bs. Inr \<lparr>ss_session_id = take 16 bs, ss_client_nonce = replicate 32 2,
          ss_master_key = take 32 (drop 16 bs), ss_server_nonce = drop 48 bs\<rparr>)\<rparr>,
     uv_public_key_pem = (\<lambda>_. Inr (rsa_pub small_key)), uv_rfc3339 = (\<lambda>_. Inl ''bad''),
     uv_pss_sign = (\<lambda>k rnd h. Inr [1]), uv_pss_verify = (\<lambda>k h s. if s = [1] then Inr () else Inl ''bad''),
     uv_oaep_encrypt = (\<lambda>k rnd m. Inr (0 # m)), uv_oaep_decrypt = (\<lambda>k c. Inr (tl c))\<rparr>"

definition plain_client_rng :: client_rng where
  "plain_client_rng = \<lparr>cl_session_id = replicate 16 3, cl_client_nonce = replicate 32 2, cl_pss = []\<rparr>"

definition plain_session_rng :: session_rng where
  "plain_session_rng = \<lparr>sr_master_key = replicate 32 4, sr_server_nonce = replicate 32 5, sr_oaep = []\<rparr>"

lemma plain_udp_env_ok:
  "rsa_crate_ok plain_udp_env key" "bitcode_roundtrip (uv_init plain_udp_env)"
  "bitcode_roundtrip (uv_ok plain_udp_env)" "bitcode_roundtrip (uv_secret plain_udp_env)"
  by (auto simp: rsa_crate_ok_def bitcode_roundtrip_def plain_udp_env_def plain_auth_ok_def
      split: if_splits)

lemma plain_request:
  obtains request where "client_auth_init plain_udp_env alice_agent plain_client_rng 100 = Inr (small_key, request)"
  using header_encode_valid [OF auth_header_valid [of AuthInit 40 "replicate 16 3"]]
  by (simp add: client_auth_init_def alice_agent_def sign_pss_sha256_def plain_udp_env_def
      plain_client_rng_def encode_auth_init_def encode_auth_packet_def udp_limits length_u_to_be)

lemma plain_answer:
  obtains d where "encode_auth_ok (uv_ok plain_udp_env) (replicate 16 3) \<lparr>ao_encrypted_session_secret =
    0 # replicate 16 3 @ replicate 32 4 @ replicate 32 5\<rparr> = Inr d"
  using header_encode_valid [OF auth_header_valid [of AuthOk 81 "replicate 16 3"]]
  by (simp add: encode_auth_ok_def encode_auth_packet_def plain_udp_env_def plain_auth_ok_def udp_limits)

lemma plain_derived:
  obtains keys where "derive (uv_suite plain_udp_env) (replicate 32 4) (replicate 16 3) (replicate 32 2)
    (replicate 32 5) = Inr keys"
proof -
  have "is_ok (derive (uv_suite plain_udp_env) (replicate 32 4) (replicate 16 3) (replicate 32 2) (replicate 32 5))"
    by (simp add: derive_def expand_label_def plain_udp_env_def plain_suite_def
        str_bytes_def KEY_LEN_def NONCE_PREFIX_LEN_def)
  then show thesis
    using that by (auto simp: is_ok_iff)
qed

lemma plain_handshake_inputs:
  "get_user alice_only (id_username alice_agent) = Inr (Some alice)"
  "uc_username alice = id_username alice_agent"
  "is_expired_at (uv_rfc3339 plain_udp_env) alice 90 = Inr False"
  "uv_public_key_pem plain_udp_env (uc_public_key_pem alice) = Inr (rsa_pub small_key)"
  by (simp_all add: get_user_def alice_only_def alice_agent_def alice_def alice_not_expired [unfolded alice_def] plain_udp_env_def)

lemma handshake_agrees:
  assumes "rsa_crate_ok env key" and "bitcode_roundtrip (uv_init env)" and "bitcode_roundtrip (uv_ok env)"
    and "bitcode_roundtrip (uv_secret env)" and "length (cl_session_id rng) = 16"
    and "id_private_key agent = Inr key" and "client_auth_init env agent rng t = Inr (rsa, request)"
    and "get_user um (id_username agent) = Inr (Some user)" and "uc_username user = id_username agent"
    and "\<bar>sint now - sint t\<bar> \<le> sint (pc_replay_attack_tolerance config)"
    and "is_expired_at (uv_rfc3339 env) user now = Inr False"
    and "uv_public_key_pem env (uc_public_key_pem user) = Inr (rsa_pub key)"
    and "encode_session_secret (uv_secret env) \<lparr>ss_session_id = cl_session_id rng,
        ss_client_nonce = cl_client_nonce rng, ss_master_key = sr_master_key srng,
        ss_server_nonce = sr_server_nonce srng\<rparr> = Inr es"
    and "encrypt_oaep_sha256 env (rsa_pub key) (sr_oaep srng) es = Inr ct"
    and "encode_auth_ok (uv_ok env) (cl_session_id rng) \<lparr>ao_encrypted_session_secret = ct\<rparr> = Inr d"
    and "derive (uv_suite env) (sr_master_key srng) (cl_session_id rng) (cl_client_nonce rng)
        (sr_server_nonce srng) = Inr keys"
  shows "\<exists>h auth p a. decode_auth_init (uv_init env) request = Inr (h, auth) \<and>
    hdr_session_id h = cl_session_id rng \<and>
    prepare_session env now srng config um (cl_session_id rng) auth =
      Inr \<lparr>ps_codec = p, ps_auth_ok_datagram = d\<rparr> \<and>
    client_receive env rsa rng d = Some (Inr a) \<and>
    peers (co_crypto a) (co_crypto p) \<and> peers (co_crypto p) (co_crypto a) \<and>
    send_pos (co_crypto a) = 0 \<and> send_pos (co_crypto p) = 0"
proof -
  obtain h auth where flight: "rsa = key" "decode_auth_init (uv_init env) request = Inr (h, auth)"
      "hdr_session_id h = cl_session_id rng" "ai_username auth = id_username agent"
      "ai_timestamp auth = t" "ai_client_nonce auth = cl_client_nonce rng"
      "verify_pss_sha256 env (rsa_pub key) (udp_auth_proof_digest (uv_suite env) (cl_session_id rng)
        (id_username agent) t (cl_client_nonce rng)) (ai_proof auth) = Inr ()"
    using first_flight_verifies [OF assms(1,2,5,6,7)] by blast
  have "validate_udp_auth (uv_rfc3339 env) now config user auth = Inr ()"
    using flight(4,5) assms(9-11) by (simp add: validate_udp_auth_def i64_abs_diff_def)
  then have "prepare_session env now srng config um (cl_session_id rng) auth =
      Inr \<lparr>ps_codec = fresh_codec Proxy (cl_session_id rng) keys, ps_auth_ok_datagram = d\<rparr>"
    using assms(8,12-15) flight(4-7) codec_new_derived [OF assms(16)]
    by (simp add: prepare_session_def Let_def)
  then show ?thesis
    using flight(1,2,3) answer_accepted [OF assms(1,3,4,5,13,14,15,16)]
    by (auto simp: fresh_codec_def from_key_material_peers)
      (simp_all add: from_key_material_def send_pos_def)
qed

section \<open>Properties\<close>

text \<open>
  C7. The native UDP handshake: what the client sends first is admitted by the proxy when the
  user is in the table under that name, the clocks agree within the tolerance and the account is
  valid; the datagram the proxy answers with is accepted by the client; and the two codecs that
  result are the two ends of one session, each sending with the keys the other receives with,
  from sequence number zero.
\<close>

theorem udp_handshake_agrees:
  assumes "rsa_crate_ok env key" and "bitcode_roundtrip (uv_init env)" and "bitcode_roundtrip (uv_ok env)"
    and "bitcode_roundtrip (uv_secret env)" and "length (cl_session_id rng) = 16"
    and "id_private_key agent = Inr key" and "client_auth_init env agent rng t = Inr (rsa, request)"
    and "get_user um (id_username agent) = Inr (Some user)" and "uc_username user = id_username agent"
    and "\<bar>sint now - sint t\<bar> \<le> sint (pc_replay_attack_tolerance config)"
    and "is_expired_at (uv_rfc3339 env) user now = Inr False"
    and "uv_public_key_pem env (uc_public_key_pem user) = Inr (rsa_pub key)"
    and "encode_session_secret (uv_secret env) \<lparr>ss_session_id = cl_session_id rng,
        ss_client_nonce = cl_client_nonce rng, ss_master_key = sr_master_key srng,
        ss_server_nonce = sr_server_nonce srng\<rparr> = Inr es"
    and "encrypt_oaep_sha256 env (rsa_pub key) (sr_oaep srng) es = Inr ct"
    and "encode_auth_ok (uv_ok env) (cl_session_id rng) \<lparr>ao_encrypted_session_secret = ct\<rparr> = Inr d"
    and "derive (uv_suite env) (sr_master_key srng) (cl_session_id rng) (cl_client_nonce rng)
        (sr_server_nonce srng) = Inr keys"
  shows "\<exists>h auth p a. decode_auth_init (uv_init env) request = Inr (h, auth) \<and>
    hdr_session_id h = cl_session_id rng \<and>
    prepare_session env now srng config um (cl_session_id rng) auth =
      Inr \<lparr>ps_codec = p, ps_auth_ok_datagram = d\<rparr> \<and>
    client_receive env rsa rng d = Some (Inr a) \<and>
    peers (co_crypto a) (co_crypto p) \<and> peers (co_crypto p) (co_crypto a) \<and>
    send_pos (co_crypto a) = 0 \<and> send_pos (co_crypto p) = 0"
  by (rule handshake_agrees [OF assms])

theorem udp_handshake_agrees_witness:
  "\<exists>rsa request h auth p a d. client_auth_init plain_udp_env alice_agent plain_client_rng 100 = Inr (rsa, request) \<and>
    decode_auth_init (uv_init plain_udp_env) request = Inr (h, auth) \<and>
    prepare_session plain_udp_env 90 plain_session_rng (proxy_config_default ''addr'') alice_only
      (replicate 16 3) auth = Inr \<lparr>ps_codec = p, ps_auth_ok_datagram = d\<rparr> \<and>
    client_receive plain_udp_env rsa plain_client_rng d = Some (Inr a) \<and>
    peers (co_crypto a) (co_crypto p)"
proof -
  let ?sid = "replicate 16 3 :: bytes" and ?es = "replicate 16 3 @ replicate 32 4 @ replicate 32 5 :: bytes"
  obtain request where request: "client_auth_init plain_udp_env alice_agent plain_client_rng 100 =
      Inr (small_key, request)"
    by (rule plain_request)
  obtain d where d: "encode_auth_ok (uv_ok plain_udp_env) ?sid \<lparr>ao_encrypted_session_secret = 0 # ?es\<rparr> = Inr d"
    by (rule plain_answer)
  obtain keys where keys: "derive (uv_suite plain_udp_env) (replicate 32 4) ?sid (replicate 32 2)
      (replicate 32 5) = Inr keys"
    by (rule plain_derived)
  have user: "get_user alice_only (id_username alice_agent) = Inr (Some alice)"
    by (simp add: get_user_def alice_only_def alice_agent_def)
  have "\<exists>h auth p a. decode_auth_init (uv_init plain_udp_env) request = Inr (h, auth) \<and>
      hdr_session_id h = cl_session_id plain_client_rng \<and>
      prepare_session plain_udp_env 90 plain_session_rng (proxy_config_default ''addr'') alice_only
        (cl_session_id plain_client_rng) auth = Inr \<lparr>ps_codec = p, ps_auth_ok_datagram = d\<rparr> \<and>
      client_receive plain_udp_env small_key plain_client_rng d = Some (Inr a) \<and>
      peers (co_crypto a) (co_crypto p) \<and> peers (co_crypto p) (co_crypto a) \<and>
      send_pos (co_crypto a) = 0 \<and> send_pos (co_crypto p) = 0"
  proof (rule udp_handshake_agrees [OF plain_udp_env_ok _ _ request user])
    show "encode_auth_ok (uv_ok plain_udp_env) (cl_session_id plain_client_rng)
        \<lparr>ao_encrypted_session_secret = 0 # ?es\<rparr> = Inr d"
      using d by (simp add: plain_client_rng_def)
    show "derive (uv_suite plain_udp_env) (sr_master_key plain_session_rng)
        (cl_session_id plain_client_rng) (cl_client_nonce plain_client_rng)
        (sr_server_nonce plain_session_rng) = Inr keys"
      using keys by (simp add: plain_client_rng_def plain_session_rng_def)
  qed (simp_all add: plain_client_rng_def plain_session_rng_def alice_agent_def alice_def
      alice_not_expired [unfolded alice_def] proxy_config_default_def plain_udp_env_def encode_session_secret_def
      encrypt_oaep_sha256_def)
  then show ?thesis
    using request by (auto simp: plain_client_rng_def)
qed

text \<open>
  C24. The client cannot be distracted while it waits: in whatever round of the retransmission
  schedule (200 ms, doubled up to 2 s), the first answer to this handshake that arrives in time
  decides the call, and the session is the one of its secret, however many other datagrams came
  before it - oversized, malformed, of another session, sealed with another key, or with a secret
  for another nonce - and however many earlier rounds ended with nothing or with a receive error.
\<close>

theorem handshake_survives_junk:
  assumes "client_auth_init env config rng timestamp = Inr (rsa, request)"
    and "list_all (\<lambda>rd. rd_send rd = None \<and> rd_end rd < now + timeout \<and>
        list_all (no_answer env rsa rng) (rd_events rd)) earlier"
    and "rd_send rd = None" and "rd_events rd = junk @ Received t d # tail"
    and "attempt_deadline = min (rd_sent rd +
        min (AUTH_INITIAL_RETRY * 2 ^ length earlier) CONTROL_MAX_RETRY) (now + timeout)"
    and "list_all (no_answer env rsa rng) junk" and "list_all (received_before attempt_deadline) junk"
    and "t < attempt_deadline" and "handshake_answer env rsa rng d secret"
  shows "authenticate_udp_session env config rng timestamp timeout now (earlier @ rd # later) =
    Some (and_then (answer_codec env rng secret) (\<lambda>codec. Ok (cl_session_id rng, codec)))"
proof -
  have "AUTH_INITIAL_RETRY \<le> CONTROL_MAX_RETRY"
    by (simp add: AUTH_INITIAL_RETRY_def CONTROL_MAX_RETRY_def)
  moreover have "list_all (fruitless env rsa rng (now + timeout)) earlier"
    using assms(2) by (simp add: fruitless_def [abs_def])
  ultimately show ?thesis
    using assms(1,3,4) inner_loop_ignores [OF assms(6-8) client_receive_answer [OF assms(9)], of tail]
    by (simp add: authenticate_udp_session_def outer_loop_fruitless assms(5))
qed

theorem handshake_survives_junk_witness:
  "\<exists>d a. authenticate_udp_session plain_udp_env alice_agent plain_client_rng 100 5000 0
      [\<lparr>rd_send = None, rd_sent = 0, rd_events = [Received 10 [1, 2, 3]], rd_end = 200\<rparr>,
       \<lparr>rd_send = None, rd_sent = 200, rd_events = [Received 250 [], Received 300 d], rd_end = 300\<rparr>] =
    Some (Inr (replicate 16 3, a))"
proof -
  let ?sid = "replicate 16 3 :: bytes" and ?es = "replicate 16 3 @ replicate 32 4 @ replicate 32 5 :: bytes"
  have short: "\<not> handshake_answer plain_udp_env small_key plain_client_rng x secret" if "length x < 46" for x secret
  proof -
    have "\<exists>e. decode_auth_ok (uv_ok plain_udp_env) x = Inl e"
      using that by (simp add: decode_auth_ok_def decode_auth_packet_def udp_limits)
    then show ?thesis
      by (auto simp: handshake_answer_def)
  qed
  obtain request where request: "client_auth_init plain_udp_env alice_agent plain_client_rng 100 =
      Inr (small_key, request)"
    by (rule plain_request)
  obtain d where d: "encode_auth_ok (uv_ok plain_udp_env) ?sid \<lparr>ao_encrypted_session_secret = 0 # ?es\<rparr> = Inr d"
    by (rule plain_answer)
  obtain keys where keys: "derive (uv_suite plain_udp_env) (replicate 32 4) ?sid (replicate 32 2)
      (replicate 32 5) = Inr keys"
    by (rule plain_derived)
  have rec: "client_receive plain_udp_env small_key plain_client_rng d =
      Some (Inr (fresh_codec Agent (cl_session_id plain_client_rng) keys))"
    by (rule answer_accepted [OF plain_udp_env_ok(1,3,4), where mk = "replicate 32 4" and
          sn = "replicate 32 5" and es = ?es and ct = "0 # ?es" and rnd = "[]"])
      (use d keys in \<open>simp_all add: plain_client_rng_def plain_udp_env_def encode_session_secret_def
        encrypt_oaep_sha256_def\<close>)
  then obtain secret where secret: "handshake_answer plain_udp_env small_key plain_client_rng d secret"
    using client_receive_None [of plain_udp_env small_key plain_client_rng d] by auto
  let ?second = "\<lparr>rd_send = None, rd_sent = 200, rd_events = [Received 250 [], Received 300 d], rd_end = 300\<rparr>"
  let ?first = "\<lparr>rd_send = None, rd_sent = 0, rd_events = [Received 10 [1, 2, 3]], rd_end = 200\<rparr>"
  have "authenticate_udp_session plain_udp_env alice_agent plain_client_rng 100 5000 0 ([?first] @ ?second # []) =
      Some (and_then (the (client_receive plain_udp_env small_key plain_client_rng d))
        (\<lambda>codec. Ok (cl_session_id plain_client_rng, codec)))"
    unfolding client_receive_answer [OF secret] option.sel
    by (rule handshake_survives_junk [OF request, where earlier = "[?first]" and rd = ?second and
            junk = "[Received 250 []]" and attempt_deadline = 600 and t = 300 and tail = "[]", OF _ _ _ _ _ _ _ secret])
      (simp_all add: AUTH_INITIAL_RETRY_def CONTROL_MAX_RETRY_def short)
  then show ?thesis
    unfolding rec
    by (intro exI [of _ d] exI [of _ "fresh_codec Agent (cl_session_id plain_client_rng) keys"])
      (simp only: append_Cons append_Nil, simp add: plain_client_rng_def)
qed

text \<open>
  C25. The handshake ends by its deadline, and for a reason. Whatever arrives and however often a
  receive fails, the call has returned once a round ends at or after the deadline, and once more
  rounds than the timeout divided by 200 ms have run their time; only rounds cut short by a
  receive error are not bounded in number. What it returns is an error of its own input, the
  error of a failing send, the timeout only when the deadline has passed, or the session of an
  answer that came before the deadline.
\<close>

theorem handshake_terminates:
  assumes "rounds_timed (now + timeout) AUTH_INITIAL_RETRY now rounds"
  shows "(case authenticate_udp_session env config rng timestamp timeout now rounds of
      None \<Rightarrow> list_all (\<lambda>rd. rd_end rd < now + timeout) rounds \<and>
        length (filter (\<lambda>rd. \<not> receive_failed rd) rounds) \<le> timeout div AUTH_INITIAL_RETRY
    | Some (Inl e) \<Rightarrow> e = TimedOut \<longrightarrow>
        (\<exists>rd\<in>set rounds. now + timeout \<le> rd_end rd \<or> rd_send rd = Some TimedOut)
    | Some (Inr (sid, codec)) \<Rightarrow> sid = cl_session_id rng \<and>
        (\<exists>rsa request rd t d secret. client_auth_init env config rng timestamp = Inr (rsa, request) \<and>
          rd \<in> set rounds \<and> Received t d \<in> set (rd_events rd) \<and> t < now + timeout \<and>
          handshake_answer env rsa rng d secret \<and> answer_codec env rng secret = Inr codec))"
proof (cases "client_auth_init env config rng timestamp")
  case (Inl e)
  then show ?thesis
    using client_auth_init_error [of env config rng timestamp]
    by (auto simp: authenticate_udp_session_def)
next
  case (Inr p)
  then obtain rsa request where init: "client_auth_init env config rng timestamp = Inr (rsa, request)"
    by (cases p) simp
  then have call: "authenticate_udp_session env config rng timestamp timeout now rounds =
      outer_loop env rsa rng (now + timeout) AUTH_INITIAL_RETRY rounds"
    by (simp add: authenticate_udp_session_def)
  show ?thesis
  proof (cases "outer_loop env rsa rng (now + timeout) AUTH_INITIAL_RETRY rounds")
    case None
    then have early: "rd_end rd < now + timeout" if "rd \<in> set rounds" for rd
      using outer_loop_late [of rd rounds "now + timeout" env rsa rng AUTH_INITIAL_RETRY] that by force
    then have "last (now # map rd_end rounds) \<le> now + timeout"
      by (cases rounds rule: rev_cases) (auto intro: less_imp_le)
    then have "AUTH_INITIAL_RETRY * length (filter (\<lambda>rd. \<not> receive_failed rd) rounds) \<le> timeout"
      using outer_loop_waits [OF assms _ None] by simp
    then have "length (filter (\<lambda>rd. \<not> receive_failed rd) rounds) \<le> timeout div AUTH_INITIAL_RETRY"
      by (simp add: less_eq_div_iff_mult_less_eq AUTH_INITIAL_RETRY_def mult.commute)
    then show ?thesis
      using None early by (simp add: call list_all_iff)
  next
    case (Some r)
    then obtain rd where rd: "rd \<in> set rounds" "decides env rsa rng (now + timeout) rd r"
      using outer_loop_result by blast
    show ?thesis
    proof (cases r)
      case (Inl e)
      then show ?thesis
        using rd decides_error [of env rsa rng "now + timeout" rd] Some by (auto simp: call)
    next
      case (Inr q)
      then show ?thesis
        using rd decides_session [of env rsa rng "now + timeout" rd "fst q" "snd q"] Some init
        by (cases q) (auto simp: call)
    qed
  qed
qed

theorem handshake_terminates_witness:
  "authenticate_udp_session plain_udp_env alice_agent plain_client_rng 100 500 0
     [\<lparr>rd_send = None, rd_sent = 0, rd_events = [], rd_end = 200\<rparr>,
      \<lparr>rd_send = None, rd_sent = 201, rd_events = [RecvFailed 210], rd_end = 210\<rparr>,
      \<lparr>rd_send = None, rd_sent = 211, rd_events = [], rd_end = 500\<rparr>] \<noteq> None"
proof -
  let ?rounds = "[\<lparr>rd_send = None, rd_sent = 0, rd_events = [], rd_end = 200\<rparr>,
      \<lparr>rd_send = None, rd_sent = 201, rd_events = [RecvFailed 210], rd_end = 210\<rparr>,
      \<lparr>rd_send = None, rd_sent = 211, rd_events = [], rd_end = 500\<rparr>]"
  have "rounds_timed (0 + 500) AUTH_INITIAL_RETRY 0 ?rounds"
    by (simp add: AUTH_INITIAL_RETRY_def CONTROL_MAX_RETRY_def receive_failed_def)
  from handshake_terminates [OF this, where env = plain_udp_env and config = alice_agent and
      rng = plain_client_rng and timestamp = 100] show ?thesis
    by (auto split: option.splits)
qed

text \<open>
  A receive error skips the pause between two requests: as long as sending succeeds and every
  receive fails at once - a connected socket does so when its peer's port is closed - the call
  sends any number of requests without time passing, and the growing delay has no effect.
\<close>

theorem receive_error_resends_at_once:
  assumes "client_auth_init env config rng timestamp = Inr (rsa, request)" and "0 < timeout"
  shows "rounds_timed (now + timeout) AUTH_INITIAL_RETRY now
      (replicate n \<lparr>rd_send = None, rd_sent = now, rd_events = [RecvFailed now], rd_end = now\<rparr>) \<and>
    authenticate_udp_session env config rng timestamp timeout now
      (replicate n \<lparr>rd_send = None, rd_sent = now, rd_events = [RecvFailed now], rd_end = now\<rparr>) = None"
proof -
  let ?rd = "\<lparr>rd_send = None, rd_sent = now, rd_events = [RecvFailed now], rd_end = now\<rparr>"
  have "rounds_timed (now + timeout) delay now (replicate n ?rd)" for delay
    by (induction n arbitrary: delay) (simp_all add: receive_failed_def)
  moreover have "outer_loop env rsa rng (now + timeout) delay (replicate n ?rd) = None" for delay
    using assms(2) by (induction n arbitrary: delay) simp_all
  ultimately show ?thesis
    using assms(1) by (simp add: authenticate_udp_session_def)
qed

theorem receive_error_resends_at_once_witness:
  "authenticate_udp_session plain_udp_env alice_agent plain_client_rng 100 5000 0
     (replicate 1000 \<lparr>rd_send = None, rd_sent = 0, rd_events = [RecvFailed 0], rd_end = 0\<rparr>) = None"
proof -
  obtain request where "client_auth_init plain_udp_env alice_agent plain_client_rng 100 = Inr (small_key, request)"
    by (rule plain_request)
  from receive_error_resends_at_once [OF this, of 5000 0 1000] show ?thesis
    by simp
qed

end
