(* ===== verification/Native_Udp_Session.thy ===== *)
theory Native_Udp_Session
  imports Native_Udp_Channel Udp_Handshake
begin

text \<open>
  A native UDP session of the proxy (\<open>proxy/src/native_udp/session.rs\<close>): the loop that decrypts
  the agent's datagrams, opens, feeds and closes the channels of its flows, and encrypts what the
  channels answer. A worker is named by the number of its task; which worker received which data
  and which tasks were aborted is part of the state. The socket's \<open>send_to\<close> and the outcome of a
  \<open>try_send\<close> are arguments of the step.
\<close>

section \<open>Admission\<close>

definition classify_flow_admission :: "bool \<Rightarrow> nat \<Rightarrow> nat \<Rightarrow> FlowAdmission" where
  "classify_flow_admission flow_exists active_flow_count max_flows =
     (if flow_exists then Existing
      else if active_flow_count \<ge> max_flows then AtCapacity
      else Create)"

interpretation session_admission: flow_admission classify_flow_admission
  by unfold_locales (simp_all add: classify_flow_admission_def)

section \<open>State\<close>

record ChannelState =
  cn_input_tx :: "nat option"
  cn_abort_handle :: nat

record udp_session =
  us_codec :: UdpSessionCodec
  us_channels :: "(u64 \<times> ChannelState) list"
  us_deadline :: nat
  us_sent :: "bytes list"
  us_workers :: "(u64 \<times> Address) list"
  us_inputs :: "(nat \<times> bytes) list"
  us_aborted :: "nat list"

record session_env =
  sv_suite :: crypto_suite
  sv_bitcode :: "UdpSessionMessage bitcode"
  sv_config :: ProxyConfig

type_synonym send_to = "bytes \<Rightarrow> string + nat"

section \<open>Sending\<close>

fun send_datagrams :: "send_to \<Rightarrow> udp_session \<Rightarrow> bytes list \<Rightarrow> udp_session \<times> unit proxy_result" where
  "send_datagrams send_to st [] = (st, Ok ())"
| "send_datagrams send_to st (datagram # datagrams) =
     (case send_to datagram of
        Inl e \<Rightarrow> (st, Err (ErrIo e))
      | Inr sent \<Rightarrow>
          if sent \<noteq> length datagram then (st, Err (ErrConnection ''partial native UDP send''))
          else send_datagrams send_to (st\<lparr>us_sent := us_sent st @ [datagram]\<rparr>) datagrams)"

definition send_session_message ::
  "session_env \<Rightarrow> send_to \<Rightarrow> udp_session \<Rightarrow> UdpSessionMessage \<Rightarrow> udp_session \<times> unit proxy_result" where
  "send_session_message env send_to st message =
     (case encode_message (sv_suite env) (sv_bitcode env) (us_codec st) message of
        (codec, Inl e) \<Rightarrow> (st\<lparr>us_codec := codec\<rparr>, Err (ErrConnection ''native UDP encoding''))
      | (codec, Inr datagrams) \<Rightarrow> send_datagrams send_to (st\<lparr>us_codec := codec\<rparr>) datagrams)"

text \<open>A send followed by \<open>?\<close> at the end of a branch.\<close>

definition send_then_continue ::
  "session_env \<Rightarrow> send_to \<Rightarrow> udp_session \<Rightarrow> UdpSessionMessage \<Rightarrow> udp_session \<times> unit proxy_result loop_outcome" where
  "send_then_continue env send_to st message =
     (case send_session_message env send_to st message of
        (st, Inl e) \<Rightarrow> (st, Return (Err e))
      | (st, Inr _) \<Rightarrow> (st, Continue))"

section \<open>Messages of the agent\<close>

definition open_channel :: "udp_session \<Rightarrow> u64 \<Rightarrow> Address \<Rightarrow> bytes \<Rightarrow> udp_session" where
  "open_channel st flow_id address data =
     (let worker = length (us_workers st)
      in st\<lparr>us_workers := us_workers st @ [(flow_id, address)],
            us_inputs := us_inputs st @ [(worker, data)],
            us_channels := AList.update flow_id
              \<lparr>cn_input_tx = Some worker, cn_abort_handle = worker\<rparr> (us_channels st)\<rparr>)"

definition feed_channel :: "send_outcome \<Rightarrow> udp_session \<Rightarrow> u64 \<Rightarrow> bytes \<Rightarrow> udp_session" where
  "feed_channel outcome st flow_id data =
     (case map_of (us_channels st) flow_id of
        None \<Rightarrow> st
      | Some channel \<Rightarrow>
          (case cn_input_tx channel of
             None \<Rightarrow> st
           | Some worker \<Rightarrow>
               (case outcome of
                  SendOk \<Rightarrow> st\<lparr>us_inputs := us_inputs st @ [(worker, data)]\<rparr>
                | SendFull \<Rightarrow> st
                | SendClosed \<Rightarrow>
                    st\<lparr>us_channels := AList.update flow_id (channel\<lparr>cn_input_tx := None\<rparr>) (us_channels st)\<rparr>)))"

definition close_channel :: "udp_session \<Rightarrow> u64 \<Rightarrow> udp_session" where
  "close_channel st flow_id =
     (case map_of (us_channels st) flow_id of
        None \<Rightarrow> st
      | Some channel \<Rightarrow>
          st\<lparr>us_channels := AList.delete flow_id (us_channels st),
             us_aborted := us_aborted st @ [cn_abort_handle channel]\<rparr>)"

fun session_message ::
  "session_env \<Rightarrow> send_outcome \<Rightarrow> send_to \<Rightarrow> udp_session \<Rightarrow> UdpSessionMessage \<Rightarrow>
     udp_session \<times> unit proxy_result loop_outcome" where
  "session_message env outcome send_to st (OpenData flow_id address data) =
     (case classify_flow_admission (map_of (us_channels st) flow_id \<noteq> None)
             (length (us_channels st)) (pc_udp_session_max_flows (sv_config env)) of
        Existing \<Rightarrow> (st, Continue)
      | AtCapacity \<Rightarrow>
          send_then_continue env send_to st (connect_response flow_id
            (Some (''native UDP session flow limit reached ('' @
               nat_to_string (pc_udp_session_max_flows (sv_config env)) @ '')'')))
      | Create \<Rightarrow> (open_channel st flow_id address data, Continue))"
| "session_message env outcome send_to st (Data flow_id data) = (feed_channel outcome st flow_id data, Continue)"
| "session_message env outcome send_to st (Close flow_id reason) = (close_channel st flow_id, Continue)"
| "session_message env outcome send_to st (Ping token) = send_then_continue env send_to st (Pong token)"
| "session_message env outcome send_to st (Pong token) = (st, Continue)"
| "session_message env outcome send_to st (ConnectResponseMsg flow_id success error) = (st, Continue)"

section \<open>Events of the channels\<close>

fun connect_succeeded :: "UdpSessionMessage \<Rightarrow> bool" where
  "connect_succeeded (ConnectResponseMsg flow_id success error) = success"
| "connect_succeeded _ = False"

fun channel_event ::
  "session_env \<Rightarrow> send_to \<Rightarrow> udp_session \<Rightarrow> ChannelEvent \<Rightarrow> udp_session \<times> unit proxy_result loop_outcome" where
  "channel_event env send_to st (ConnectResult flow_id response) =
     (case map_of (us_channels st) flow_id of
        None \<Rightarrow> (st, Continue)
      | Some channel \<Rightarrow>
          send_then_continue env send_to
            (if \<not> connect_succeeded response
             then st\<lparr>us_channels := AList.update flow_id (channel\<lparr>cn_input_tx := None\<rparr>) (us_channels st)\<rparr>
             else st) response)"
| "channel_event env send_to st (ChannelClosed flow_id reason) =
     (case map_of (us_channels st) flow_id of
        None \<Rightarrow> (st, Continue)
      | Some _ \<Rightarrow>
          send_then_continue env send_to
            (st\<lparr>us_channels := AList.delete flow_id (us_channels st)\<rparr>) (Close flow_id reason))"

section \<open>The loop\<close>

datatype session_event =
    SessionIdle
  | SessionInbound nat bytes send_outcome send_to
  | SessionInboundClosed
  | SessionOutbound UdpSessionMessage send_to
  | SessionChannel ChannelEvent send_to
  | SessionJoined

fun session_step :: "session_env \<Rightarrow> session_event \<Rightarrow> udp_session \<Rightarrow> udp_session \<times> unit proxy_result loop_outcome" where
  "session_step env SessionIdle st = (st, Break)"
| "session_step env (SessionInbound now datagram outcome send_to) st =
     (case decode_datagram_at (sv_suite env) (sv_bitcode env) (us_codec st) datagram now of
        (codec, Inl e) \<Rightarrow> (st\<lparr>us_codec := codec\<rparr>, Continue)
      | (codec, Inr message) \<Rightarrow>
          let st = st\<lparr>us_codec := codec, us_deadline := now + udp_idle_timeout (sv_config env)\<rparr>
          in case message of
               None \<Rightarrow> (st, Continue)
             | Some m \<Rightarrow> session_message env outcome send_to st m)"
| "session_step env SessionInboundClosed st = (st, Break)"
| "session_step env (SessionOutbound message send_to) st = send_then_continue env send_to st message"
| "session_step env (SessionChannel e send_to) st = channel_event env send_to st e"
| "session_step env SessionJoined st = (st, Continue)"

definition abort_all :: "udp_session \<Rightarrow> udp_session" where
  "abort_all st = st\<lparr>us_aborted := us_aborted st @ [0..<length (us_workers st)]\<rparr>"

definition drain_channels :: "udp_session \<Rightarrow> udp_session" where
  "drain_channels st =
     st\<lparr>us_channels := [], us_aborted := us_aborted st @ map (cn_abort_handle \<circ> snd) (us_channels st)\<rparr>"

text \<open>
  A session that leaves the loop aborts its channels and its tasks; one that leaves with an error
  drops its \<open>JoinSet\<close>, which aborts the tasks. \<open>None\<close>: the session is still running.
\<close>

fun session_loop ::
  "session_env \<Rightarrow> session_event list \<Rightarrow> udp_session \<Rightarrow> udp_session \<times> unit proxy_result option" where
  "session_loop env [] st = (st, None)"
| "session_loop env (e # es) st =
     (case session_step env e st of
        (st, Continue) \<Rightarrow> session_loop env es st
      | (st, Break) \<Rightarrow> (abort_all (drain_channels st), Some (Ok ()))
      | (st, Return r) \<Rightarrow> (abort_all st, Some r))"

definition session_start :: "session_env \<Rightarrow> nat \<Rightarrow> UdpSessionCodec \<Rightarrow> udp_session" where
  "session_start env now codec =
     \<lparr>us_codec = codec, us_channels = [], us_deadline = now + udp_idle_timeout (sv_config env),
      us_sent = [], us_workers = [], us_inputs = [], us_aborted = []\<rparr>"

definition run_session ::
  "session_env \<Rightarrow> nat \<Rightarrow> UdpSessionCodec \<Rightarrow> session_event list \<Rightarrow> udp_session \<times> unit proxy_result option" where
  "run_session env now codec es = session_loop env es (session_start env now codec)"

section \<open>Frames\<close>

text \<open>Sending touches the codec and the datagrams sent, and nothing else.\<close>

definition same_flows :: "udp_session \<Rightarrow> udp_session \<Rightarrow> bool" where
  "same_flows a b \<longleftrightarrow> us_channels b = us_channels a \<and> us_workers b = us_workers a \<and>
     us_inputs b = us_inputs a \<and> us_aborted b = us_aborted a \<and> us_deadline b = us_deadline a"

lemma same_flows_refl [simp]: "same_flows a a"
  by (simp add: same_flows_def)

lemma same_flows_codec [simp]: "same_flows a (b\<lparr>us_codec := c\<rparr>) = same_flows a b"
  by (simp add: same_flows_def)

lemma send_datagrams_same: "send_datagrams send_to st ds = (st', r) \<Longrightarrow> same_flows st st'"
proof (induction ds arbitrary: st)
  case (Cons d ds)
  then show ?case
    by (auto simp: same_flows_def split: sum.splits if_splits)
qed simp

lemma send_message_same: "send_session_message env send_to st m = (st', r) \<Longrightarrow> same_flows st st'"
  using send_datagrams_same [of send_to _ _ st' r]
  by (auto simp: send_session_message_def same_flows_def split: prod.splits sum.splits)

lemma send_continue_same: "send_then_continue env send_to st m = (st', r) \<Longrightarrow> same_flows st st'"
  by (auto simp: send_then_continue_def split: prod.splits sum.splits dest: send_message_same)

section \<open>The channels stay consistent\<close>

text \<open>
  At most the configured number of channels; a channel holds the task of its own flow and feeds
  no other; the task of a channel in the table has not been aborted.
\<close>

definition channel_ok :: "udp_session \<Rightarrow> u64 \<Rightarrow> ChannelState \<Rightarrow> bool" where
  "channel_ok st flow_id c \<longleftrightarrow> cn_abort_handle c < length (us_workers st) \<and>
     fst (us_workers st ! cn_abort_handle c) = flow_id \<and> cn_abort_handle c \<notin> set (us_aborted st) \<and>
     (cn_input_tx c = None \<or> cn_input_tx c = Some (cn_abort_handle c))"

definition session_inv :: "session_env \<Rightarrow> udp_session \<Rightarrow> bool" where
  "session_inv env st \<longleftrightarrow> alist_ok (us_channels st) \<and>
     length (us_channels st) \<le> pc_udp_session_max_flows (sv_config env) \<and>
     (\<forall>flow_id c. map_of (us_channels st) flow_id = Some c \<longrightarrow> channel_ok st flow_id c) \<and>
     set (us_aborted st) \<subseteq> {..<length (us_workers st)}"

lemma session_invD:
  "session_inv env st \<Longrightarrow> map_of (us_channels st) flow_id = Some c \<Longrightarrow> channel_ok st flow_id c"
  by (simp add: session_inv_def)

lemma session_inv_sent:
  assumes "session_inv env st"
  shows "session_inv env (fst (send_then_continue env send_to st m))"
  using send_continue_same [of env send_to st m "fst (send_then_continue env send_to st m)"
      "snd (send_then_continue env send_to st m)"] assms
  by (simp add: same_flows_def session_inv_def channel_ok_def)

lemma session_inv_start: "session_inv env (session_start env now codec)"
  by (simp add: session_inv_def session_start_def)

lemma session_inv_same: "same_flows a b \<Longrightarrow> session_inv env a \<Longrightarrow> session_inv env b"
  by (simp add: same_flows_def session_inv_def channel_ok_def)

lemma session_inv_open:
  assumes "session_inv env st" and "classify_flow_admission (map_of (us_channels st) flow_id \<noteq> None)
      (length (us_channels st)) (pc_udp_session_max_flows (sv_config env)) = Create"
  shows "session_inv env (open_channel st flow_id address data)"
proof -
  let ?n = "length (us_workers st)"
  have old: "channel_ok (open_channel st flow_id address data) k c"
    if "map_of (us_channels st) k = Some c" for k c
    using assms(1) that
    by (auto simp: session_inv_def channel_ok_def open_channel_def Let_def nth_append less_Suc_eq)
  have new: "channel_ok (open_channel st flow_id address data) flow_id \<lparr>cn_input_tx = Some ?n, cn_abort_handle = ?n\<rparr>"
    using assms(1) by (auto simp: session_inv_def channel_ok_def open_channel_def Let_def)
  show ?thesis
    using assms session_admission.admitted_bounded [OF _ _ assms(2)] old new
    by (auto simp: session_inv_def open_channel_def Let_def update_conv split: if_splits)
qed

lemma session_inv_silence:
  assumes "session_inv env st" and "map_of (us_channels st) flow_id = Some c"
  shows "session_inv env (st\<lparr>us_channels := AList.update flow_id (c\<lparr>cn_input_tx := None\<rparr>) (us_channels st)\<rparr>)"
  using assms length_update_old [OF assms(2)]
  by (auto simp: session_inv_def channel_ok_def update_conv split: if_splits)

lemma session_inv_feed:
  "session_inv env st \<Longrightarrow> session_inv env (feed_channel outcome st flow_id data)"
  using session_inv_silence [of env st flow_id]
  by (auto simp: feed_channel_def session_inv_def channel_ok_def split: option.splits send_outcome.splits)

lemma session_inv_delete:
  "session_inv env st \<Longrightarrow> session_inv env (st\<lparr>us_channels := AList.delete flow_id (us_channels st)\<rparr>)"
  using length_delete_le [of flow_id "us_channels st"]
  by (auto simp: session_inv_def channel_ok_def delete_conv)

lemma session_inv_close:
  assumes "session_inv env st"
  shows "session_inv env (close_channel st flow_id)"
proof (cases "map_of (us_channels st) flow_id")
  case (Some c)
  have "cn_abort_handle d \<noteq> cn_abort_handle c" if "map_of (us_channels st) k = Some d" "k \<noteq> flow_id" for k d
    using session_invD [OF assms Some] session_invD [OF assms that(1)] that(2) by (auto simp: channel_ok_def)
  then show ?thesis
    using assms Some length_delete_le [of flow_id "us_channels st"]
    by (auto simp: session_inv_def channel_ok_def close_channel_def delete_conv)
qed (use assms in \<open>simp add: close_channel_def\<close>)

lemma session_inv_message:
  assumes "session_inv env st"
  shows "session_inv env (fst (session_message env outcome send_to st m))"
proof (cases m)
  case (OpenData flow_id address data)
  then show ?thesis
    using assms session_inv_open [OF assms, of flow_id address data]
      session_inv_sent [OF assms]
    by (simp split: FlowAdmission.splits)
next
  case (Ping token)
  then show ?thesis
    using session_inv_sent [OF assms] by simp
qed (use assms in \<open>simp_all add: session_inv_feed session_inv_close\<close>)

lemma session_inv_event:
  assumes "session_inv env st"
  shows "session_inv env (fst (channel_event env send_to st e))"
proof (cases e)
  case (ConnectResult flow_id response)
  then show ?thesis
    using assms session_inv_sent [OF assms] session_inv_sent [OF session_inv_silence [OF assms]]
    by (auto split: option.splits)
next
  case (ChannelClosed flow_id reason)
  then show ?thesis
    using assms session_inv_sent [OF session_inv_delete [OF assms]] by (auto split: option.splits)
qed

lemma session_inv_step:
  assumes "session_inv env st"
  shows "session_inv env (fst (session_step env e st))"
proof (cases e)
  case (SessionInbound now datagram outcome send_to)
  have "session_inv env (st\<lparr>us_codec := codec, us_deadline := d\<rparr>)" "session_inv env (st\<lparr>us_codec := codec\<rparr>)" for codec d
    using assms by (simp_all add: session_inv_def channel_ok_def)
  then show ?thesis
    using SessionInbound session_inv_message by (auto simp: Let_def split: prod.splits sum.splits option.splits)
next
  case (SessionOutbound message send_to)
  then show ?thesis
    using session_inv_sent [OF assms] by simp
qed (use assms session_inv_event in simp_all)

lemma session_inv_loop:
  assumes "session_inv env st"
  shows "case session_loop env es st of (st', None) \<Rightarrow> session_inv env st'
    | (st', Some r) \<Rightarrow> {..<length (us_workers st')} \<subseteq> set (us_aborted st')"
  using assms
proof (induction es arbitrary: st)
  case (Cons e es)
  obtain st1 oc where step: "session_step env e st = (st1, oc)"
    by fastforce
  then have "session_inv env st1"
    using session_inv_step [OF Cons.prems, of e] by simp
  then show ?case
    using step Cons.IH [of st1]
    by (cases oc) (auto simp: abort_all_def drain_channels_def)
qed simp

section \<open>A flow that could not be connected\<close>

text \<open>The events that take a flow out of the table: its worker's report, a close of the agent.\<close>

fun closes :: "session_env \<Rightarrow> u64 \<Rightarrow> udp_session \<Rightarrow> session_event \<Rightarrow> bool" where
  "closes env flow_id st (SessionInbound now datagram outcome send_to) =
     (case snd (decode_datagram_at (sv_suite env) (sv_bitcode env) (us_codec st) datagram now) of
        Inr (Some (Close f reason)) \<Rightarrow> f = flow_id
      | _ \<Rightarrow> False)"
| "closes env flow_id st (SessionChannel (ChannelClosed f reason) send_to) = (f = flow_id)"
| "closes env flow_id st _ = False"

fun never_closes :: "session_env \<Rightarrow> u64 \<Rightarrow> session_event list \<Rightarrow> udp_session \<Rightarrow> bool" where
  "never_closes env flow_id [] st = True"
| "never_closes env flow_id (e # es) st =
     (\<not> closes env flow_id st e \<and> never_closes env flow_id es (fst (session_step env e st)))"

definition held :: "u64 \<Rightarrow> udp_session \<Rightarrow> bool" where
  "held flow_id st \<longleftrightarrow> (\<exists>c. map_of (us_channels st) flow_id = Some c \<and> cn_input_tx c = None)"

lemma held_same: "same_flows a b \<Longrightarrow> held flow_id b = held flow_id a"
  by (simp add: same_flows_def held_def)

lemma held_sent:
  "held flow_id (fst (send_then_continue env send_to st m)) = held flow_id st"
  using send_continue_same [of env send_to st m "fst (send_then_continue env send_to st m)"
      "snd (send_then_continue env send_to st m)"]
  by (simp add: held_same)

lemma held_message:
  assumes "held flow_id st" and "\<And>reason. m \<noteq> Close flow_id reason"
  shows "held flow_id (fst (session_message env outcome send_to st m))"
proof (cases m)
  case (OpenData f address data)
  then show ?thesis
    using assms(1) held_sent [of flow_id env send_to st]
    by (auto simp: held_def open_channel_def Let_def update_conv classify_flow_admission_def
        split: if_splits)
next
  case (Data f data)
  then show ?thesis
    using assms(1) by (auto simp: held_def feed_channel_def update_conv split: option.splits send_outcome.splits)
next
  case (Close f reason)
  then show ?thesis
    using assms by (auto simp: held_def close_channel_def delete_conv split: option.splits)
qed (use assms(1) held_sent in simp_all)

lemma held_step:
  assumes "held flow_id st" and "\<not> closes env flow_id st e"
  shows "held flow_id (fst (session_step env e st))"
proof (cases e)
  case (SessionInbound now datagram outcome send_to)
  obtain codec r where dec: "decode_datagram_at (sv_suite env) (sv_bitcode env) (us_codec st) datagram now = (codec, r)"
    by fastforce
  have "held flow_id (st\<lparr>us_codec := codec, us_deadline := d\<rparr>)" "held flow_id (st\<lparr>us_codec := codec\<rparr>)" for d
    using assms(1) by (simp_all add: held_def)
  moreover have "m \<noteq> Close flow_id reason" if "r = Inr (Some m)" for m reason
    using assms(2) SessionInbound dec that by auto
  ultimately show ?thesis
    using SessionInbound dec held_message by (auto simp: Let_def split: sum.splits option.splits)
next
  case (SessionChannel ce send_to)
  then show ?thesis
    using assms held_sent [of flow_id env send_to]
    by (cases ce) (auto simp: held_def update_conv delete_conv split: option.splits)
qed (use assms(1) held_sent in simp_all)

lemma held_loop:
  assumes "held flow_id st" and "never_closes env flow_id es st" and "session_loop env es st = (st', None)"
  shows "held flow_id st'"
  using assms
proof (induction es arbitrary: st)
  case (Cons e es)
  obtain st1 oc where step: "session_step env e st = (st1, oc)"
    by fastforce
  then have "held flow_id st1"
    using held_step [OF Cons.prems(1)] Cons.prems(2) by (metis fst_conv never_closes.simps(2))
  then show ?case
    using Cons.IH [of st1] Cons.prems(2,3) step by (cases oc) simp_all
qed simp

lemma held_connect_failure:
  assumes "map_of (us_channels st) flow_id = Some c"
  shows "held flow_id (fst (channel_event env send_to st
    (ConnectResult flow_id (ConnectResponseMsg flow_id False error))))"
  using assms by (simp add: held_sent) (simp add: held_def update_conv)

section \<open>Properties\<close>

text \<open>
  C27. Whatever the agent and the network send, a session never has more than the configured
  number of channels; each channel holds the task of its own flow, which has not been aborted, and
  feeds no other task; and when the session ends, for whatever reason, every task it ever started
  has been aborted.
\<close>

theorem session_flows_bounded:
  "case run_session env now codec es of
     (st, None) \<Rightarrow> distinct (map fst (us_channels st)) \<and>
       length (us_channels st) \<le> pc_udp_session_max_flows (sv_config env) \<and>
       list_all (\<lambda>(flow_id, c). channel_ok st flow_id c) (us_channels st)
   | (st, Some r) \<Rightarrow> {..<length (us_workers st)} \<subseteq> set (us_aborted st)"
  using session_inv_loop [OF session_inv_start [of env now codec], of es]
  by (auto simp: run_session_def session_inv_def list_all_iff alist_ok_def split: option.splits
      intro: map_of_is_SomeI)

text \<open>
  A flow that could not be connected keeps its place in the session: the worker refuses the
  flow, ends and reports nothing more; the session silences the channel but leaves it in the
  table, where it counts against the limit, and there it stays, whatever happens, until the agent
  closes it or the session ends.
\<close>

theorem failed_connect_holds_slot:
  assumes "target_addr_for_address (we_dns wenv) (we_config wenv) address = Inr target"
    and "we_connect wenv target = Inl failure" and "\<not> pc_forward_mode (we_config wenv)"
    and "address \<noteq> UdpRelay" and "we_open_result wenv"
    and "map_of (us_channels st) flow_id = Some c"
  shows "\<exists>w response. run_channel_worker bc wenv flow_id address trace = (w, True) \<and>
    wk_events w = [ConnectResult flow_id response] \<and>
    (\<forall>send_to st1 es st2. session_step env (SessionChannel (ConnectResult flow_id response) send_to) st = (st1, Continue) \<longrightarrow>
       never_closes env flow_id es st1 \<longrightarrow> session_loop env es st1 = (st2, None) \<longrightarrow>
       (\<exists>c'. map_of (us_channels st2) flow_id = Some c' \<and> cn_input_tx c' = None))"
proof -
  let ?response = "ConnectResponseMsg flow_id False (Some (''Failed to connect UDP target: '' @ failure))"
  have "\<exists>w. run_channel_worker bc wenv flow_id address trace = (w, True) \<and>
      wk_events w = [ConnectResult flow_id ?response]"
    using assms(1-5) by (simp add: run_channel_worker_def run_connected_udp_channel_def Let_def
        send_connect_result_def connect_response_def idle_worker_def)
  moreover have "\<exists>c'. map_of (us_channels st2) flow_id = Some c' \<and> cn_input_tx c' = None"
    if "session_step env (SessionChannel (ConnectResult flow_id ?response) send_to) st = (st1, Continue)"
      "never_closes env flow_id es st1" "session_loop env es st1 = (st2, None)" for send_to st1 es st2
  proof -
    have "held flow_id st1"
      using held_connect_failure [OF assms(6), of env send_to] that(1) by (metis fst_conv session_step.simps(5))
    then show ?thesis
      using held_loop [OF _ that(2,3)] by (simp add: held_def)
  qed
  ultimately show ?thesis
    by blast
qed

theorem failed_connect_holds_slot_witness:
  "\<exists>env st st1 response. map_of (us_channels st) 7 = Some \<lparr>cn_input_tx = Some 0, cn_abort_handle = 0\<rparr> \<and>
     session_step env (SessionChannel (ConnectResult 7 response) (\<lambda>d. Inr (length d))) st = (st1, Continue) \<and>
     map_of (us_channels st1) 7 = Some \<lparr>cn_input_tx = None, cn_abort_handle = 0\<rparr>"
proof -
  let ?bc = "\<lparr>bc_serialize = \<lambda>_. Inr [1], bc_deserialize = \<lambda>_. Inl []\<rparr> :: UdpSessionMessage bitcode"
  let ?rbc = "\<lparr>bc_serialize = \<lambda>_. Inr [1], bc_deserialize = \<lambda>_. Inl []\<rparr> :: UdpRelayPacket bitcode"
  let ?env = "\<lparr>sv_suite = plain_suite, sv_bitcode = ?bc, sv_config = proxy_config_default ''addr''\<rparr>"
  let ?c = "\<lparr>cn_input_tx = Some 0, cn_abort_handle = 0\<rparr>"
  let ?st = "(session_start ?env 0 (plain_codec Proxy))\<lparr>us_channels := [(7, ?c)], us_workers := [(7, Domain ''dns'' 53)]\<rparr>"
  let ?wenv = "\<lparr>we_config = proxy_config_default ''addr'', we_dns = Inl (ErrConfiguration ''none''), we_show_error = \<lambda>_. ''error'',
    we_connect = \<lambda>_. Inl ''unreachable'', we_upstream = \<lambda>_. Inr (), we_open_result = True, we_open_close = True, we_start = 0\<rparr>"
  let ?tr = "\<lparr>tr_connected = [], tr_relay = [], tr_forward = []\<rparr>"
  have "show_port 53 = ''53''"
    by code_simp
  then have "target_addr_for_address (we_dns ?wenv) (we_config ?wenv) (Domain ''dns'' 53) = Inr ''dns:53''"
      "\<not> pc_forward_mode (we_config ?wenv)" "map_of (us_channels ?st) 7 = Some ?c"
    by (simp_all add: proxy_config_default_def)
  note hyps = failed_connect_holds_slot [OF this(1) _ this(2) _ _ this(3), of "''unreachable''" ?rbc ?tr ?env]
  obtain w response where r: "wk_events w = [ConnectResult 7 response]"
      "run_channel_worker ?rbc ?wenv 7 (Domain ''dns'' 53) ?tr = (w, True)"
      "\<forall>send_to st1 es st2. session_step ?env (SessionChannel (ConnectResult 7 response) send_to) ?st = (st1, Continue) \<longrightarrow>
       never_closes ?env 7 es st1 \<longrightarrow> session_loop ?env es st1 = (st2, None) \<longrightarrow>
       (\<exists>c'. map_of (us_channels st2) 7 = Some c' \<and> cn_input_tx c' = None)"
    using hyps by (elim exE conjE meta_impE) (assumption | simp)+
  have resp: "\<not> connect_succeeded response"
    using r(1,2) by (auto simp: run_channel_worker_def run_connected_udp_channel_def Let_def proxy_config_default_def
        send_connect_result_def connect_response_def idle_worker_def)
  obtain s' d where "seal_message plain_suite (co_crypto (plain_codec Proxy)) 0 [1] = (s', Inr [d])"
    by (rule plain_seal [of "[1]" Proxy]) (simp add: udp_limits)
  then obtain st1 where step: "session_step ?env (SessionChannel (ConnectResult 7 response) (\<lambda>d. Inr (length d))) ?st = (st1, Continue)"
      "us_channels st1 = [(7, \<lparr>cn_input_tx = None, cn_abort_handle = 0\<rparr>)]"
    using resp by (simp add: send_then_continue_def send_session_message_def encode_message_def session_start_def
        session_message_encode_def plain_codec_def Let_def)
  moreover have "\<exists>c'. map_of (us_channels st1) 7 = Some c' \<and> cn_input_tx c' = None"
    using r(3) step(1) by (metis never_closes.simps(1) session_loop.simps(1))
  ultimately show ?thesis
    by (intro exI [of _ ?env] exI [of _ ?st] exI [of _ st1] exI [of _ response]) simp
qed

section \<open>Loops that decode datagrams\<close>

text \<open>
  A loop that hands each datagram to the codec of its state and each message to a handler. What
  such a loop does with the datagrams of one message follows from what the codec makes of them.
\<close>

locale decoding_loop =
  fixes cs :: crypto_suite and bc :: "UdpSessionMessage bitcode"
    and codec :: "'s \<Rightarrow> UdpSessionCodec" and received :: "nat \<Rightarrow> UdpSessionCodec \<Rightarrow> 's \<Rightarrow> 's"
    and handle :: "UdpSessionMessage \<Rightarrow> 's \<Rightarrow> 's \<times> 'r loop_outcome"
    and run :: "(bytes \<times> nat) list \<Rightarrow> 's \<Rightarrow> 's \<times> 'r option"
  assumes codec_received: "codec (received t c s) = c"
    and received_again: "received u c2 (received t c s) = received u c2 s"
    and run_Nil: "run [] s = (s, None)"
    and run_fragment: "decode_datagram_at cs bc (codec s) d t = (c, Inr None) \<Longrightarrow>
      run ((d, t) # ps) s = run ps (received t c s)"
    and run_message: "decode_datagram_at cs bc (codec s) d t = (c, Inr (Some m)) \<Longrightarrow>
      handle m (received t c s) = (s', Continue) \<Longrightarrow> run ((d, t) # ps) s = run ps s'"
begin

lemma run_decodes:
  assumes "decode_all cs bc (codec s) ps = (c, replicate n (Inr None) @ [Inr (Some m)])"
  shows "\<exists>t. \<forall>s'. handle m (received t c s) = (s', Continue) \<longrightarrow> run ps s = (s', None)"
  using assms
proof (induction n arbitrary: ps s)
  case 0
  then obtain d t ps' where ps: "ps = (d, t) # ps'"
    by (cases ps) auto
  with 0 have "ps' = []"
    by (cases ps') (auto split: prod.splits)
  with 0 ps have "decode_datagram_at cs bc (codec s) d t = (c, Inr (Some m))"
    by (auto split: prod.splits)
  then show ?case
    using ps \<open>ps' = []\<close> run_message [of s d t c m _ "[]"] by (intro exI [of _ t]) (simp add: run_Nil)
next
  case (Suc n)
  then obtain d t ps' where ps: "ps = (d, t) # ps'"
    by (cases ps) (auto split: prod.splits)
  obtain c1 where one: "decode_datagram_at cs bc (codec s) d t = (c1, Inr None)"
      and rest: "decode_all cs bc c1 ps' = (c, replicate n (Inr None) @ [Inr (Some m)])"
    using Suc.prems ps by (auto split: prod.splits)
  from Suc.IH [of "received t c1 s" ps'] rest show ?case
    by (simp add: codec_received received_again run_fragment [OF one] ps)
qed

end

text \<open>The session's loop over datagrams that arrive at given times.\<close>

definition inbound :: "send_outcome \<Rightarrow> send_to \<Rightarrow> bytes \<times> nat \<Rightarrow> session_event" where
  "inbound outcome send_to p = SessionInbound (snd p) (fst p) outcome send_to"

definition session_received :: "session_env \<Rightarrow> nat \<Rightarrow> UdpSessionCodec \<Rightarrow> udp_session \<Rightarrow> udp_session" where
  "session_received env now codec st =
     st\<lparr>us_codec := codec, us_deadline := now + udp_idle_timeout (sv_config env)\<rparr>"

interpretation session_decodes: decoding_loop "sv_suite env" "sv_bitcode env" us_codec "session_received env"
    "\<lambda>m st. session_message env outcome send_to st m"
    "\<lambda>ps st. session_loop env (map (inbound outcome send_to) ps) st"
  for env outcome send_to
  by unfold_locales (auto simp: session_received_def inbound_def Let_def)

end
