(* ===== verification/Native_Udp_Listener.thy ===== *)
theory Native_Udp_Listener
  imports Native_Udp_Session
begin

text \<open>
  The listener of the native UDP transport (\<open>proxy/src/native_udp/listener.rs\<close>): the table of
  sessions, the handling of authentication packets and encrypted datagrams, and the cleanup of
  ended sessions by generation. A session's inbound channel is named by the number of its task;
  which datagrams were handed to which task is part of the state.
\<close>

section \<open>State\<close>

record SessionRoute =
  lr_peer :: SocketAddr
  lr_generation :: u64
  lr_inbound_tx :: nat
  lr_auth_init_datagram :: bytes
  lr_auth_ok_datagram :: bytes

record SessionCleanup =
  cu_session_id :: UdpSessionId
  cu_generation :: u64

record session_task =
  sk_session_id :: UdpSessionId
  sk_generation :: u64
  sk_peer :: SocketAddr
  sk_codec :: UdpSessionCodec

record NativeUdpListener =
  nl_config :: ProxyConfig
  nl_user_manager :: UserManager
  nl_sessions :: "(UdpSessionId \<times> SessionRoute) list"
  nl_next_generation :: u64
  nl_tasks :: "session_task list"
  nl_sent :: "(SocketAddr \<times> bytes) list"
  nl_delivered :: "(nat \<times> SocketAddr \<times> bytes) list"

definition run_listener_start :: "ProxyConfig \<Rightarrow> UserManager \<Rightarrow> NativeUdpListener" where
  "run_listener_start config user_manager =
     \<lparr>nl_config = config, nl_user_manager = user_manager, nl_sessions = [], nl_next_generation = 1,
      nl_tasks = [], nl_sent = [], nl_delivered = []\<rparr>"

section \<open>Operations\<close>

text \<open>\<open>self.next_generation.wrapping_add(1).max(1)\<close>: zero is skipped.\<close>

definition allocate_generation :: "NativeUdpListener \<Rightarrow> NativeUdpListener \<times> u64" where
  "allocate_generation nl =
     (nl\<lparr>nl_next_generation := max (nl_next_generation nl + 1) 1\<rparr>, nl_next_generation nl)"

definition remove_session :: "NativeUdpListener \<Rightarrow> SessionCleanup \<Rightarrow> NativeUdpListener" where
  "remove_session nl cleanup =
     (if (case map_of (nl_sessions nl) (cu_session_id cleanup) of
            Some route \<Rightarrow> lr_generation route = cu_generation cleanup
          | None \<Rightarrow> False)
      then nl\<lparr>nl_sessions := AList.delete (cu_session_id cleanup) (nl_sessions nl)\<rparr>
      else nl)"

definition dispatch_encrypted ::
  "send_outcome \<Rightarrow> NativeUdpListener \<Rightarrow> SocketAddr \<Rightarrow> UdpSessionId \<Rightarrow> bytes \<Rightarrow> NativeUdpListener" where
  "dispatch_encrypted outcome nl peer session_id datagram =
     (case map_of (nl_sessions nl) session_id of
        None \<Rightarrow> nl
      | Some route \<Rightarrow>
          if lr_peer route \<noteq> peer then nl
          else case outcome of
            SendOk \<Rightarrow> nl\<lparr>nl_delivered := nl_delivered nl @ [(lr_inbound_tx route, peer, datagram)]\<rparr>
          | SendFull \<Rightarrow> nl
          | SendClosed \<Rightarrow>
              remove_session nl \<lparr>cu_session_id = session_id, cu_generation = lr_generation route\<rparr>)"

text \<open>\<open>sends\<close>: whether the socket takes the answer; a failure is only logged.\<close>

definition send_answer :: "bool \<Rightarrow> NativeUdpListener \<Rightarrow> SocketAddr \<Rightarrow> bytes \<Rightarrow> NativeUdpListener" where
  "send_answer sends nl peer datagram =
     (if sends then nl\<lparr>nl_sent := nl_sent nl @ [(peer, datagram)]\<rparr> else nl)"

definition handle_auth_init ::
  "udp_auth_env \<Rightarrow> i64 \<Rightarrow> session_rng \<Rightarrow> bool \<Rightarrow> NativeUdpListener \<Rightarrow> SocketAddr \<Rightarrow> bytes \<Rightarrow>
     NativeUdpListener" where
  "handle_auth_init env now rng sends nl peer datagram =
     (case decode_auth_init (uv_init env) datagram of
        Inl e \<Rightarrow> nl
      | Inr (header, auth) \<Rightarrow>
          let session_id = hdr_session_id header
          in case map_of (nl_sessions nl) session_id of
               Some existing \<Rightarrow>
                 if lr_peer existing = peer \<and> lr_auth_init_datagram existing = datagram
                 then send_answer sends nl peer (lr_auth_ok_datagram existing)
                 else nl
             | None \<Rightarrow>
                 if length (nl_sessions nl) \<ge> pc_udp_session_limit (nl_config nl) then nl
                 else case prepare_session env now rng (nl_config nl) (nl_user_manager nl) session_id auth of
                   Inl e \<Rightarrow> nl
                 | Inr prepared \<Rightarrow>
                     let (nl, generation) = allocate_generation nl;
                         task = length (nl_tasks nl);
                         nl = nl\<lparr>nl_sessions := AList.update session_id
                                   \<lparr>lr_peer = peer, lr_generation = generation, lr_inbound_tx = task,
                                    lr_auth_init_datagram = datagram,
                                    lr_auth_ok_datagram = ps_auth_ok_datagram prepared\<rparr> (nl_sessions nl),
                                 nl_tasks := nl_tasks nl @
                                   [\<lparr>sk_session_id = session_id, sk_generation = generation, sk_peer = peer,
                                     sk_codec = ps_codec prepared\<rparr>]\<rparr>
                     in send_answer sends nl peer (ps_auth_ok_datagram prepared))"

definition handle_datagram ::
  "udp_auth_env \<Rightarrow> i64 \<Rightarrow> session_rng \<Rightarrow> bool \<Rightarrow> send_outcome \<Rightarrow> NativeUdpListener \<Rightarrow> SocketAddr \<Rightarrow> bytes \<Rightarrow>
     NativeUdpListener" where
  "handle_datagram env now rng sends outcome nl peer datagram =
     (case header_decode datagram of
        Inl e \<Rightarrow> nl
      | Inr header \<Rightarrow>
          (case hdr_kind header of
             AuthInit \<Rightarrow> handle_auth_init env now rng sends nl peer datagram
           | Encrypted \<Rightarrow> dispatch_encrypted outcome nl peer (hdr_session_id header) datagram
           | AuthOk \<Rightarrow> nl))"

text \<open>What the listener waits for; the failing \<open>recv_from\<close> ends it.\<close>

datatype listener_event =
    ListenDatagram SocketAddr bytes i64 session_rng bool send_outcome
  | ListenFailed string
  | ListenCleanup SessionCleanup
  | ListenJoined

fun listener_step :: "udp_auth_env \<Rightarrow> listener_event \<Rightarrow> NativeUdpListener \<Rightarrow> NativeUdpListener \<times> unit proxy_result loop_outcome" where
  "listener_step env (ListenDatagram peer datagram now rng sends outcome) nl =
     (if length datagram > UDP_MAX_DATAGRAM_SIZE then (nl, Continue)
      else (handle_datagram env now rng sends outcome nl peer datagram, Continue))"
| "listener_step env (ListenFailed e) nl = (nl, Return (Err (ErrIo e)))"
| "listener_step env (ListenCleanup cleanup) nl = (remove_session nl cleanup, Continue)"
| "listener_step env ListenJoined nl = (nl, Continue)"

fun listener_run :: "udp_auth_env \<Rightarrow> listener_event list \<Rightarrow> NativeUdpListener \<Rightarrow> NativeUdpListener \<times> unit proxy_result option" where
  "listener_run env [] nl = (nl, None)"
| "listener_run env (e # es) nl =
     (case listener_step env e nl of
        (nl, Continue) \<Rightarrow> listener_run env es nl
      | (nl, Break) \<Rightarrow> (nl, Some (Ok ()))
      | (nl, Return r) \<Rightarrow> (nl, Some r))"

section \<open>Generations\<close>

definition generation_of :: "nat \<Rightarrow> u64" where
  "generation_of i = word_of_nat (i mod (2 ^ 64 - 1) + 1)"

lemma unat_word_of_nat: "n < 2 ^ 64 \<Longrightarrow> unat (word_of_nat n :: u64) = n"
  by (simp add: unsigned_of_nat take_bit_nat_eq_self)

lemma unat_generation: "unat (generation_of i) = i mod (2 ^ 64 - 1) + 1"
proof -
  have "i mod (2 ^ 64 - 1) < 2 ^ 64 - 1"
    by simp
  then have "i mod (2 ^ 64 - 1) + 1 < 2 ^ 64"
    by linarith
  then show ?thesis
    unfolding generation_of_def by (rule unat_word_of_nat)
qed

lemma generation_next: "max (generation_of i + 1) 1 = generation_of (Suc i)"
proof -
  let ?m = "2 ^ 64 - 1 :: nat"
  have less: "i mod ?m < ?m"
    by simp
  show ?thesis
  proof (cases "Suc (i mod ?m) = ?m")
    case True
    then have "Suc i mod ?m = 0"
      by (metis mod_Suc)
    moreover have "generation_of i + 1 = word_of_nat (Suc (i mod ?m) + 1)"
      by (simp add: generation_of_def)
    ultimately show ?thesis
      using True by (simp add: generation_of_def)
  next
    case False
    then have "Suc i mod ?m = Suc (i mod ?m)"
      by (metis mod_Suc)
    then have "generation_of (Suc i) = generation_of i + 1"
      by (simp add: generation_of_def)
    moreover have "1 \<le> generation_of (Suc i)"
      by (simp only: word_le_nat_alt unat_generation) simp
    ultimately show ?thesis
      by (simp add: max_def)
  qed
qed

lemma generation_inj:
  assumes "i < 2 ^ 64 - 1" and "j < 2 ^ 64 - 1" and "generation_of i = generation_of j"
  shows "i = j"
proof -
  have "i mod (2 ^ 64 - 1) + 1 = j mod (2 ^ 64 - 1) + 1"
    using assms(3) by (simp only: flip: unat_generation)
  then show ?thesis
    using assms(1,2) by simp
qed

section \<open>The table stays consistent\<close>

text \<open>
  A route belongs to the task started for it; the generations count the tasks; every datagram
  handed to a task came from the address the task was authenticated at; and every task was
  started by an authentication that succeeded.
\<close>

definition route_ok :: "NativeUdpListener \<Rightarrow> UdpSessionId \<Rightarrow> SessionRoute \<Rightarrow> bool" where
  "route_ok nl sid r \<longleftrightarrow> lr_inbound_tx r < length (nl_tasks nl) \<and>
     lr_generation r = generation_of (lr_inbound_tx r) \<and>
     sk_session_id (nl_tasks nl ! lr_inbound_tx r) = sid \<and> sk_peer (nl_tasks nl ! lr_inbound_tx r) = lr_peer r"

definition authenticated_task :: "udp_auth_env \<Rightarrow> ProxyConfig \<Rightarrow> UserManager \<Rightarrow> session_task \<Rightarrow> bool" where
  "authenticated_task env config um k \<longleftrightarrow> (\<exists>now rng auth prepared.
     prepare_session env now rng config um (sk_session_id k) auth = Inr prepared \<and> sk_codec k = ps_codec prepared)"

definition listener_inv :: "udp_auth_env \<Rightarrow> ProxyConfig \<Rightarrow> UserManager \<Rightarrow> NativeUdpListener \<Rightarrow> bool" where
  "listener_inv env config um nl \<longleftrightarrow> nl_config nl = config \<and> nl_user_manager nl = um \<and>
     alist_ok (nl_sessions nl) \<and> length (nl_sessions nl) \<le> pc_udp_session_limit config \<and>
     nl_next_generation nl = generation_of (length (nl_tasks nl)) \<and>
     (\<forall>sid r. map_of (nl_sessions nl) sid = Some r \<longrightarrow> route_ok nl sid r) \<and>
     (\<forall>i<length (nl_tasks nl). sk_generation (nl_tasks nl ! i) = generation_of i) \<and>
     (\<forall>k\<in>set (nl_tasks nl). authenticated_task env config um k) \<and>
     (\<forall>(i, peer, d)\<in>set (nl_delivered nl). i < length (nl_tasks nl) \<and> sk_peer (nl_tasks nl ! i) = peer)"

lemma listener_inv_start: "listener_inv env config um (run_listener_start config um)"
  by (simp add: listener_inv_def run_listener_start_def generation_of_def)

lemma listener_inv_delete:
  "listener_inv env config um nl \<Longrightarrow>
     listener_inv env config um (nl\<lparr>nl_sessions := AList.delete sid (nl_sessions nl)\<rparr>)"
  using length_delete_le [of sid "nl_sessions nl"]
  by (auto simp: listener_inv_def route_ok_def delete_conv)

lemma listener_inv_remove: "listener_inv env config um nl \<Longrightarrow> listener_inv env config um (remove_session nl c)"
  using listener_inv_delete by (simp add: remove_session_def)

lemma listener_inv_answer:
  "listener_inv env config um nl \<Longrightarrow> listener_inv env config um (send_answer sends nl peer d)"
  by (simp add: send_answer_def listener_inv_def route_ok_def)

lemma listener_inv_dispatch:
  assumes "listener_inv env config um nl"
  shows "listener_inv env config um (dispatch_encrypted outcome nl peer sid d)"
proof (cases "map_of (nl_sessions nl) sid")
  case (Some route)
  then have "route_ok nl sid route"
    using assms by (simp add: listener_inv_def)
  then show ?thesis
    using Some assms listener_inv_remove [OF assms]
    by (auto simp: dispatch_encrypted_def listener_inv_def route_ok_def split: send_outcome.splits)
qed (use assms in \<open>simp add: dispatch_encrypted_def\<close>)

definition admit ::
  "NativeUdpListener \<Rightarrow> UdpSessionId \<Rightarrow> SocketAddr \<Rightarrow> bytes \<Rightarrow> PreparedSession \<Rightarrow> NativeUdpListener" where
  "admit nl sid peer datagram prepared =
     nl\<lparr>nl_next_generation := max (nl_next_generation nl + 1) 1,
        nl_sessions := AList.update sid \<lparr>lr_peer = peer, lr_generation = nl_next_generation nl,
          lr_inbound_tx = length (nl_tasks nl), lr_auth_init_datagram = datagram,
          lr_auth_ok_datagram = ps_auth_ok_datagram prepared\<rparr> (nl_sessions nl),
        nl_tasks := nl_tasks nl @ [\<lparr>sk_session_id = sid, sk_generation = nl_next_generation nl,
          sk_peer = peer, sk_codec = ps_codec prepared\<rparr>]\<rparr>"

lemma listener_inv_admit:
  assumes inv: "listener_inv env config um nl" and "map_of (nl_sessions nl) sid = None"
    and "length (nl_sessions nl) < pc_udp_session_limit config"
    and "prepare_session env now rng config um sid auth = Inr prepared"
  shows "listener_inv env config um (admit nl sid peer datagram prepared)"
proof -
  let ?nl = "admit nl sid peer datagram prepared"
  have old: "route_ok ?nl k r" if "map_of (nl_sessions nl) k = Some r" for k r
    using inv that by (auto simp: listener_inv_def route_ok_def admit_def nth_append less_Suc_eq)
  have new: "route_ok ?nl sid (the (map_of (nl_sessions ?nl) sid))"
    using inv by (simp add: route_ok_def admit_def update_conv listener_inv_def)
  have "authenticated_task env config um (last (nl_tasks ?nl))"
    using assms(4) by (auto simp: authenticated_task_def admit_def)
  moreover have "i < length (nl_tasks ?nl) \<and> sk_peer (nl_tasks ?nl ! i) = p" if "(i, p, d) \<in> set (nl_delivered nl)" for i p d
    using inv that by (fastforce simp: listener_inv_def admit_def nth_append)
  moreover have "sk_generation (nl_tasks ?nl ! i) = generation_of i" if "i < length (nl_tasks ?nl)" for i
    using inv that by (auto simp: listener_inv_def admit_def nth_append less_Suc_eq)
  moreover have "nl_next_generation ?nl = generation_of (length (nl_tasks ?nl))"
    using inv generation_next [of "length (nl_tasks nl)"] by (simp add: listener_inv_def admit_def)
  ultimately show ?thesis
    using assms(2,3) inv old new
    by (auto simp: listener_inv_def admit_def update_conv length_update_new split: if_splits)
qed

lemma handle_auth_init_cases:
  "handle_auth_init env now rng sends nl peer datagram =
     (case decode_auth_init (uv_init env) datagram of
        Inl e \<Rightarrow> nl
      | Inr (header, auth) \<Rightarrow>
          (case map_of (nl_sessions nl) (hdr_session_id header) of
             Some existing \<Rightarrow>
               if lr_peer existing = peer \<and> lr_auth_init_datagram existing = datagram
               then send_answer sends nl peer (lr_auth_ok_datagram existing) else nl
           | None \<Rightarrow>
               if length (nl_sessions nl) \<ge> pc_udp_session_limit (nl_config nl) then nl
               else case prepare_session env now rng (nl_config nl) (nl_user_manager nl) (hdr_session_id header) auth of
                 Inl e \<Rightarrow> nl
               | Inr prepared \<Rightarrow> send_answer sends (admit nl (hdr_session_id header) peer datagram prepared) peer
                   (ps_auth_ok_datagram prepared)))"
  by (auto simp: handle_auth_init_def admit_def allocate_generation_def Let_def split: sum.splits option.splits)

lemma listener_inv_auth:
  assumes "listener_inv env config um nl"
  shows "listener_inv env config um (handle_auth_init env now rng sends nl peer datagram)"
proof -
  have "listener_inv env config um (send_answer sends (admit nl sid peer datagram prepared) peer a)"
    if "map_of (nl_sessions nl) sid = None" "\<not> pc_udp_session_limit (nl_config nl) \<le> length (nl_sessions nl)"
      "prepare_session env now rng (nl_config nl) (nl_user_manager nl) sid auth = Inr prepared" for sid auth prepared a
    using listener_inv_answer [OF listener_inv_admit [OF assms that(1)]] that assms
    by (auto simp: listener_inv_def)
  then show ?thesis
    using assms listener_inv_answer [OF assms]
    by (auto simp: handle_auth_init_cases split: sum.splits option.splits)
qed

lemma listener_inv_step:
  assumes "listener_inv env config um nl"
  shows "listener_inv env config um (fst (listener_step env e nl))"
  using assms listener_inv_auth [OF assms] listener_inv_dispatch [OF assms] listener_inv_remove [OF assms]
  by (cases e) (auto simp: handle_datagram_def split: sum.splits UdpPacketKind.splits)

lemma listener_inv_run:
  "listener_inv env config um nl \<Longrightarrow> listener_inv env config um (fst (listener_run env es nl))"
proof (induction es arbitrary: nl)
  case (Cons e es)
  obtain nl1 oc where step: "listener_step env e nl = (nl1, oc)"
    by fastforce
  then have "listener_inv env config um nl1"
    using listener_inv_step [OF Cons.prems, of e] by simp
  then show ?case
    using step Cons.IH [of nl1] by (cases oc) simp_all
qed simp

lemma decode_auth_init_header:
  assumes "decode_auth_init bc d = Inr (h, auth)"
  shows "header_decode d = Inr h \<and> hdr_kind h = AuthInit \<and> length d \<le> UDP_MAX_DATAGRAM_SIZE"
  using assms by (auto simp: decode_auth_init_def decode_auth_packet_def Let_def split: if_splits)

lemma plain_session:
  obtains request h auth prepared where "client_auth_init plain_udp_env alice_agent plain_client_rng 100 = Inr (small_key, request)"
    "decode_auth_init (uv_init plain_udp_env) request = Inr (h, auth)" "hdr_session_id h = replicate 16 3"
    "prepare_session plain_udp_env 90 plain_session_rng (proxy_config_default ''addr'') alice_only (replicate 16 3) auth = Inr prepared"
proof -
  obtain request where request: "client_auth_init plain_udp_env alice_agent plain_client_rng 100 = Inr (small_key, request)"
    by (rule plain_request)
  obtain d where d: "encode_auth_ok (uv_ok plain_udp_env) (replicate 16 3) \<lparr>ao_encrypted_session_secret =
      0 # replicate 16 3 @ replicate 32 4 @ replicate 32 5\<rparr> = Inr d"
    by (rule plain_answer)
  obtain keys where keys: "derive (uv_suite plain_udp_env) (replicate 32 4) (replicate 16 3) (replicate 32 2)
      (replicate 32 5) = Inr keys"
    by (rule plain_derived)
  have "\<exists>h auth p a. decode_auth_init (uv_init plain_udp_env) request = Inr (h, auth) \<and>
      hdr_session_id h = cl_session_id plain_client_rng \<and>
      prepare_session plain_udp_env 90 plain_session_rng (proxy_config_default ''addr'') alice_only
        (cl_session_id plain_client_rng) auth = Inr \<lparr>ps_codec = p, ps_auth_ok_datagram = d\<rparr> \<and>
      client_receive plain_udp_env small_key plain_client_rng d = Some (Inr a) \<and>
      peers (co_crypto a) (co_crypto p) \<and> peers (co_crypto p) (co_crypto a) \<and>
      send_pos (co_crypto a) = 0 \<and> send_pos (co_crypto p) = 0"
    by (rule handshake_agrees [OF plain_udp_env_ok _ _ request plain_handshake_inputs(1,2) _ plain_handshake_inputs(3,4)])
      (use d keys in \<open>simp_all add: plain_client_rng_def plain_session_rng_def alice_agent_def
        proxy_config_default_def plain_udp_env_def encode_session_secret_def encrypt_oaep_sha256_def\<close>)
  then show thesis
    using that request by (auto simp: plain_client_rng_def)
qed

section \<open>Properties\<close>

text \<open>
  C15. Whatever arrives at the listener, it never has more sessions than configured; every session
  task it starts comes from an authentication that succeeded, under the identifier of the
  session; and a datagram is handed to a session only if it came from the very address that
  session was authenticated at.
\<close>

theorem listener_sessions_authentic:
  "case listener_run env es (run_listener_start config um) of
     (nl, r) \<Rightarrow> length (nl_sessions nl) \<le> pc_udp_session_limit config \<and>
       list_all (authenticated_task env config um) (nl_tasks nl) \<and>
       list_all (\<lambda>(i, peer, d). i < length (nl_tasks nl) \<and> sk_peer (nl_tasks nl ! i) = peer) (nl_delivered nl)"
  using listener_inv_run [OF listener_inv_start [of env config um], of es]
  by (auto simp: listener_inv_def list_all_iff)

text \<open>
  C28. The cleanup an ended session sends removes that session and no other, however late it is
  handled: not a later session under the same identifier either, as long as fewer than
  \<open>2 ^ 64 - 1\<close> sessions have been started.
\<close>

theorem cleanup_removes_only_own:
  assumes "listener_run env es (run_listener_start config um) = (nl, r)"
    and "length (nl_tasks nl) \<le> 2 ^ 64 - 1" and "i < length (nl_tasks nl)"
  shows "map_of (nl_sessions (remove_session nl
      \<lparr>cu_session_id = sk_session_id (nl_tasks nl ! i), cu_generation = sk_generation (nl_tasks nl ! i)\<rparr>)) sid =
    (case map_of (nl_sessions nl) sid of
       Some route \<Rightarrow> if lr_inbound_tx route = i then None else Some route
     | None \<Rightarrow> None)"
proof -
  have inv: "listener_inv env config um nl"
    using listener_inv_run [OF listener_inv_start [of env config um], of es] assms(1) by simp
  have gen: "sk_generation (nl_tasks nl ! i) = generation_of i"
    using inv assms(3) by (simp add: listener_inv_def)
  have own: "lr_generation route = generation_of i \<and> k = sk_session_id (nl_tasks nl ! i) \<longleftrightarrow> lr_inbound_tx route = i"
    if "map_of (nl_sessions nl) k = Some route" for k route
  proof -
    have ok: "route_ok nl k route"
      using inv that by (simp add: listener_inv_def)
    have "i < 2 ^ 64 - 1" "lr_inbound_tx route < 2 ^ 64 - 1" if "route_ok nl k route"
      using assms(2,3) that by (auto simp: route_ok_def)
    then show ?thesis
      using ok generation_inj [of "lr_inbound_tx route" i] by (auto simp: route_ok_def)
  qed
  show ?thesis
  proof (cases "map_of (nl_sessions nl) sid")
    case None
    then show ?thesis
      by (auto simp: remove_session_def gen delete_conv split: option.splits)
  next
    case (Some route)
    then show ?thesis
      using own [OF Some] own [of "sk_session_id (nl_tasks nl ! i)"]
      by (auto simp: remove_session_def gen delete_conv split: option.splits)
  qed
qed

theorem cleanup_removes_only_own_witness:
  "\<exists>nl. length (nl_tasks nl) = 1 \<and> nl_sessions nl \<noteq> [] \<and>
     map_of (nl_sessions (remove_session nl \<lparr>cu_session_id = sk_session_id (nl_tasks nl ! 0),
       cu_generation = sk_generation (nl_tasks nl ! 0)\<rparr>)) (replicate 16 3) = None"
proof -
  let ?peer = "\<lparr>sa_ip = V4 [10, 0, 0, 1], sa_port = 4000\<rparr>"
  obtain request h auth prepared where s: "decode_auth_init (uv_init plain_udp_env) request = Inr (h, auth)"
      "hdr_session_id h = replicate 16 3"
      "prepare_session plain_udp_env 90 plain_session_rng (proxy_config_default ''addr'') alice_only (replicate 16 3) auth = Inr prepared"
    by (rule plain_session)
  let ?start = "run_listener_start (proxy_config_default ''addr'') alice_only"
  let ?nl = "send_answer True (admit ?start (replicate 16 3) ?peer request prepared) ?peer (ps_auth_ok_datagram prepared)"
  have "listener_run plain_udp_env [ListenDatagram ?peer request 90 plain_session_rng True SendOk] ?start = (?nl, None)"
    using s decode_auth_init_header [OF s(1)]
    by (simp add: handle_datagram_def handle_auth_init_cases run_listener_start_def proxy_config_default_def)
  from cleanup_removes_only_own [OF this, of 0 "replicate 16 3"] show ?thesis
    by (intro exI [of _ ?nl]) (simp add: send_answer_def admit_def run_listener_start_def update_conv)
qed

text \<open>
  C16. The handshake works through the listener: when the first packet of an enrolled agent reaches
  a listener with room for the session, the answer sent back makes the agent hold the peer of the
  codec the new session task was started with, and a repetition of the packet is answered with
  the same bytes and starts nothing.
\<close>

theorem listener_completes_handshake:
  assumes "rsa_crate_ok env key" and "bitcode_roundtrip (uv_init env)" and "bitcode_roundtrip (uv_ok env)"
    and "bitcode_roundtrip (uv_secret env)" and "length (cl_session_id rng) = 16"
    and "id_private_key agent = Inr key" and "client_auth_init env agent rng t = Inr (rsa, request)"
    and "get_user (nl_user_manager nl) (id_username agent) = Inr (Some user)" and "uc_username user = id_username agent"
    and "\<bar>sint now - sint t\<bar> \<le> sint (pc_replay_attack_tolerance (nl_config nl))"
    and "is_expired_at (uv_rfc3339 env) user now = Inr False"
    and "uv_public_key_pem env (uc_public_key_pem user) = Inr (rsa_pub key)"
    and "encode_session_secret (uv_secret env) \<lparr>ss_session_id = cl_session_id rng,
        ss_client_nonce = cl_client_nonce rng, ss_master_key = sr_master_key srng,
        ss_server_nonce = sr_server_nonce srng\<rparr> = Inr es"
    and "encrypt_oaep_sha256 env (rsa_pub key) (sr_oaep srng) es = Inr ct"
    and "encode_auth_ok (uv_ok env) (cl_session_id rng) \<lparr>ao_encrypted_session_secret = ct\<rparr> = Inr d"
    and "derive (uv_suite env) (sr_master_key srng) (cl_session_id rng) (cl_client_nonce rng)
        (sr_server_nonce srng) = Inr keys"
    and "map_of (nl_sessions nl) (cl_session_id rng) = None"
    and "length (nl_sessions nl) < pc_udp_session_limit (nl_config nl)"
  shows "\<exists>nl' k a. listener_step env (ListenDatagram peer request now srng True outcome) nl = (nl', Continue) \<and>
    nl_tasks nl' = nl_tasks nl @ [k] \<and> nl_sent nl' = nl_sent nl @ [(peer, d)] \<and>
    sk_session_id k = cl_session_id rng \<and> sk_peer k = peer \<and>
    client_receive env rsa rng d = Some (Inr a) \<and>
    peers (co_crypto a) (co_crypto (sk_codec k)) \<and> peers (co_crypto (sk_codec k)) (co_crypto a) \<and>
    listener_step env (ListenDatagram peer request later srng' True outcome') nl' =
      (nl'\<lparr>nl_sent := nl_sent nl' @ [(peer, d)]\<rparr>, Continue)"
proof -
  obtain h auth p a where hs: "decode_auth_init (uv_init env) request = Inr (h, auth)"
      "hdr_session_id h = cl_session_id rng"
      "prepare_session env now srng (nl_config nl) (nl_user_manager nl) (cl_session_id rng) auth =
        Inr \<lparr>ps_codec = p, ps_auth_ok_datagram = d\<rparr>"
      "client_receive env rsa rng d = Some (Inr a)" "peers (co_crypto a) (co_crypto p)" "peers (co_crypto p) (co_crypto a)"
    using handshake_agrees [OF assms(1-16)] by blast
  let ?nl = "send_answer True (admit nl (cl_session_id rng) peer request \<lparr>ps_codec = p, ps_auth_ok_datagram = d\<rparr>) peer d"
  note head = decode_auth_init_header [OF hs(1)]
  have "listener_step env (ListenDatagram peer request now srng True outcome) nl = (?nl, Continue)"
    using head hs(1-3) assms(17,18) by (simp add: handle_datagram_def handle_auth_init_cases)
  moreover have "listener_step env (ListenDatagram peer request later srng' True outcome') ?nl =
      (?nl\<lparr>nl_sent := nl_sent ?nl @ [(peer, d)]\<rparr>, Continue)"
    using head hs(1,2)
    by (simp add: handle_datagram_def handle_auth_init_cases send_answer_def admit_def update_conv)
  ultimately show ?thesis
    using hs(4-6) by (intro exI [of _ ?nl] exI [of _ "last (nl_tasks ?nl)"] exI [of _ a])
      (simp add: send_answer_def admit_def)
qed

theorem listener_completes_handshake_witness:
  "\<exists>request nl' k a d. listener_step plain_udp_env
      (ListenDatagram \<lparr>sa_ip = V4 [10, 0, 0, 1], sa_port = 4000\<rparr> request 90 plain_session_rng True SendOk)
      (run_listener_start (proxy_config_default ''addr'') alice_only) = (nl', Continue) \<and>
    nl_tasks nl' = [k] \<and> nl_sent nl' = [(\<lparr>sa_ip = V4 [10, 0, 0, 1], sa_port = 4000\<rparr>, d)] \<and>
    client_receive plain_udp_env small_key plain_client_rng d = Some (Inr a) \<and>
    peers (co_crypto a) (co_crypto (sk_codec k))"
proof -
  let ?peer = "\<lparr>sa_ip = V4 [10, 0, 0, 1], sa_port = 4000\<rparr>"
  let ?nl = "run_listener_start (proxy_config_default ''addr'') alice_only"
  obtain request where request: "client_auth_init plain_udp_env alice_agent plain_client_rng 100 = Inr (small_key, request)"
    by (rule plain_request)
  obtain d where d: "encode_auth_ok (uv_ok plain_udp_env) (replicate 16 3) \<lparr>ao_encrypted_session_secret =
      0 # replicate 16 3 @ replicate 32 4 @ replicate 32 5\<rparr> = Inr d"
    by (rule plain_answer)
  obtain keys where keys: "derive (uv_suite plain_udp_env) (replicate 32 4) (replicate 16 3) (replicate 32 2)
      (replicate 32 5) = Inr keys"
    by (rule plain_derived)
  have user: "get_user (nl_user_manager ?nl) (id_username alice_agent) = Inr (Some alice)"
    using plain_handshake_inputs(1) by (simp add: run_listener_start_def)
  have "\<exists>nl' k a. listener_step plain_udp_env (ListenDatagram ?peer request 90 plain_session_rng True SendOk) ?nl = (nl', Continue) \<and>
    nl_tasks nl' = nl_tasks ?nl @ [k] \<and> nl_sent nl' = nl_sent ?nl @ [(?peer, d)] \<and>
    sk_session_id k = cl_session_id plain_client_rng \<and> sk_peer k = ?peer \<and>
    client_receive plain_udp_env small_key plain_client_rng d = Some (Inr a) \<and>
    peers (co_crypto a) (co_crypto (sk_codec k)) \<and> peers (co_crypto (sk_codec k)) (co_crypto a) \<and>
    listener_step plain_udp_env (ListenDatagram ?peer request 95 plain_session_rng True SendOk) nl' =
      (nl'\<lparr>nl_sent := nl_sent nl' @ [(?peer, d)]\<rparr>, Continue)"
    by (rule listener_completes_handshake [OF plain_udp_env_ok _ _ request user plain_handshake_inputs(2) _ plain_handshake_inputs(3,4)])
      (use d keys in \<open>simp_all add: plain_client_rng_def plain_session_rng_def alice_agent_def run_listener_start_def
        proxy_config_default_def plain_udp_env_def encode_session_secret_def encrypt_oaep_sha256_def\<close>)
  moreover have "nl_tasks ?nl = []" "nl_sent ?nl = []"
    by (simp_all add: run_listener_start_def)
  ultimately show ?thesis
    unfolding append_Nil by (metis append_Nil)
qed

end
