(* ===== verification/Dns_Parser.thy ===== *)
theory Dns_Parser
  imports Net_Addr "HOL-Library.Monad_Syntax"
begin

unbundle bit_operations_syntax

text \<open>
  The DNS messages the agents read. A query is decoded by \<open>hickory-proto\<close>, which is a
  parameter, and accepted by \<open>common/src/dns.rs\<close>; a response is read by the agents' own
  parser, \<open>desktop-agent-be/src/tun_handler/dns_proxy/parser.rs\<close>, which the Android agent
  repeats line by line. The lemmas show that the parser ends on every packet, compression
  loops included, that it moves forward and stays inside the packet, and that it reads back
  the names and records of the wire format.
\<close>

section \<open>Lossy text\<close>

text \<open>
  \<open>String::from_utf8_lossy\<close>: \<open>utf8_step\<close> gives the length of the first chunk and whether it is
  a character; every other chunk becomes U+FFFD. A byte is a \<open>char\<close> of the string.
\<close>

definition is_cont :: "u8 option \<Rightarrow> bool" where
  "is_cont b \<longleftrightarrow> (case b of None \<Rightarrow> False | Some c \<Rightarrow> 0x80 \<le> c \<and> c \<le> 0xBF)"

definition in_range :: "u8 \<Rightarrow> u8 \<Rightarrow> u8 option \<Rightarrow> bool" where
  "in_range lo hi b \<longleftrightarrow> (case b of None \<Rightarrow> False | Some c \<Rightarrow> lo \<le> c \<and> c \<le> hi)"

definition get_at :: "'a list \<Rightarrow> nat \<Rightarrow> 'a option" where
  "get_at xs i = (if i < length xs then Some (xs ! i) else None)"

definition second_ok :: "u8 \<Rightarrow> u8 option \<Rightarrow> bool" where
  "second_ok b n =
     (if b = 0xE0 then in_range 0xA0 0xBF n
      else if b = 0xED then in_range 0x80 0x9F n
      else if b = 0xF0 then in_range 0x90 0xBF n
      else if b = 0xF4 then in_range 0x80 0x8F n
      else is_cont n)"

definition utf8_step :: "u8 \<Rightarrow> bytes \<Rightarrow> nat \<times> bool" where
  "utf8_step b rest =
     (let n1 = get_at rest 0; n2 = get_at rest 1; n3 = get_at rest 2 in
      if b < 0x80 then (1, True)
      else if 0xC2 \<le> b \<and> b \<le> 0xDF then (if is_cont n1 then (2, True) else (1, False))
      else if 0xE0 \<le> b \<and> b \<le> 0xEF then
        (if \<not> second_ok b n1 then (1, False)
         else if \<not> is_cont n2 then (2, False) else (3, True))
      else if 0xF0 \<le> b \<and> b \<le> 0xF4 then
        (if \<not> second_ok b n1 then (1, False)
         else if \<not> is_cont n2 then (2, False)
         else if \<not> is_cont n3 then (3, False) else (4, True))
      else (1, False))"

definition byte_char :: "u8 \<Rightarrow> char" where
  "byte_char b = chr (unat b)"

function from_utf8_lossy :: "bytes \<Rightarrow> string" where
  "from_utf8_lossy [] = []"
| "from_utf8_lossy (b # rest) =
     (let (n, valid) = utf8_step b rest in
      (if valid then map byte_char (take n (b # rest)) else [CHR 0xEF, CHR 0xBF, CHR 0xBD]) @
      from_utf8_lossy (drop (n - 1) rest))"
  by pat_completeness auto
termination
  by (relation "measure length") auto

section \<open>Queries\<close>

text \<open>
  What the agents use of a message decoded by \<open>hickory-proto\<close>: a \<open>RecordType\<close> is either unknown
  with its number or known with the text its \<open>Display\<close> gives.
\<close>

datatype RecordType = RtUnknown u16 | RtKnown string

record dns_message =
  dm_is_query :: bool
  dm_opcode_query :: bool
  dm_queries :: "(string \<times> RecordType) list"
  dm_answers :: nat
  dm_authorities :: nat

text \<open>
  \<open>Message::read\<close> as a parameter: the message and whether the decoder is at the end of the
  packet.
\<close>

type_synonym read_message = "bytes \<Rightarrow> (dns_message \<times> bool) option"

record DnsQuery =
  dq_query :: string
  dq_record_type :: string

definition normalize_query_name :: "string \<Rightarrow> string" where
  "normalize_query_name name =
     (let normalized = to_ascii_lowercase (trim_end_char CHR ''.'' (trim name))
      in if normalized = [] then ''.'' else normalized)"

fun record_type_name :: "RecordType \<Rightarrow> string" where
  "record_type_name (RtUnknown code) = ''TYPE'' @ show_u16 code"
| "record_type_name (RtKnown name) = name"

definition parse_dns_query_packet :: "read_message \<Rightarrow> bytes \<Rightarrow> DnsQuery option" where
  "parse_dns_query_packet read packet =
     (if length packet < 12 then None
      else do {
        (message, at_end) \<leftarrow> read packet;
        if \<not> at_end \<or> \<not> dm_is_query message \<or> \<not> dm_opcode_query message
           \<or> length (dm_queries message) \<noteq> 1
           \<or> dm_answers message \<noteq> 0 \<or> dm_authorities message \<noteq> 0 then None
        else (case dm_queries message of
                [] \<Rightarrow> None
              | (name, rt) # _ \<Rightarrow>
                  Some \<lparr>dq_query = normalize_query_name name, dq_record_type = record_type_name rt\<rparr>)
      })"

definition is_dns_query_packet :: "read_message \<Rightarrow> bytes \<Rightarrow> bool" where
  "is_dns_query_packet read packet \<longleftrightarrow> parse_dns_query_packet read packet \<noteq> None"

definition parse_dns_query :: "read_message \<Rightarrow> bytes \<Rightarrow> (string \<times> string) option" where
  "parse_dns_query read packet = do {
     query \<leftarrow> parse_dns_query_packet read packet;
     Some (dq_query query, dq_record_type query)
   }"

section \<open>Names\<close>

definition read_u16 :: "bytes \<Rightarrow> nat \<Rightarrow> u16 option" where
  "read_u16 packet offset = do {
     e \<leftarrow> checked_add_usize offset 2;
     bs \<leftarrow> get_range packet offset e;
     Some (u16_from_be bs)
   }"

definition read_u32 :: "bytes \<Rightarrow> nat \<Rightarrow> u32 option" where
  "read_u32 packet offset = do {
     e \<leftarrow> checked_add_usize offset 4;
     bs \<leftarrow> get_range packet offset e;
     Some (u32_from_be bs)
   }"

definition pointer_of :: "u8 \<Rightarrow> u8 \<Rightarrow> nat" where
  "pointer_of b n = unat (push_bit 8 (ucast (b AND 0x3F) :: u16) OR (ucast n :: u16))"

text \<open>
  The loop of \<open>parse_dns_name\<close>: it returns the labels and the value left in \<open>*offset\<close>. Every
  turn either takes one of the sixteen jumps or moves the cursor forward.
\<close>

function dns_name_loop ::
  "bytes \<Rightarrow> nat \<Rightarrow> nat \<Rightarrow> bool \<Rightarrow> nat \<Rightarrow> string list \<Rightarrow> (string list \<times> nat) option" where
  "dns_name_loop packet cursor offset jumped jumps labels =
     (case get_at packet cursor of
        None \<Rightarrow> None
      | Some b \<Rightarrow>
          if b AND 0xC0 = 0xC0 then
            (case get_at packet (cursor + 1) of
               None \<Rightarrow> None
             | Some nxt \<Rightarrow>
                 if jumps + 1 > 16 then None
                 else dns_name_loop packet (pointer_of b nxt)
                        (if jumped then offset else cursor + 2) True (jumps + 1) labels)
          else if b AND 0xC0 \<noteq> 0 then None
          else if b = 0 then Some (labels, if jumped then offset else cursor + 1)
          else
            (case checked_add_usize (cursor + 1) (unat b) of
               None \<Rightarrow> None
             | Some e \<Rightarrow>
                 (case get_range packet (cursor + 1) e of
                    None \<Rightarrow> None
                  | Some label \<Rightarrow>
                      dns_name_loop packet e (if jumped then offset else e) jumped jumps
                        (labels @ [from_utf8_lossy label]))))"
  by pat_completeness auto
termination
  by (relation "measures [\<lambda>(p, c, off, j, n, ls). 17 - n, \<lambda>(p, c, off, j, n, ls). length p - c]")
     (auto simp: get_at_def get_range_def split: if_splits)

declare dns_name_loop.simps [simp del]

definition parse_dns_name :: "bytes \<Rightarrow> nat \<Rightarrow> (string \<times> nat) option" where
  "parse_dns_name packet offset = do {
     (labels, offset') \<leftarrow> dns_name_loop packet offset offset False 0 [];
     Some (if labels = [] then ''.'' else join ''.'' labels, offset')
   }"

section \<open>Responses\<close>

function txt_values :: "bytes \<Rightarrow> string list" where
  "txt_values [] = []"
| "txt_values (n # rest) =
     from_utf8_lossy (take (unat n) rest) # txt_values (drop (unat n) rest)"
  by pat_completeness auto
termination
  by (relation "measure length") auto

definition parse_txt_rdata :: "bytes \<Rightarrow> string" where
  "parse_txt_rdata rdata = join '' '' (txt_values rdata)"

definition name_at :: "bytes \<Rightarrow> nat \<Rightarrow> string option" where
  "name_at packet offset = map_option fst (parse_dns_name packet offset)"

definition parse_dns_answer_rdata :: "bytes \<Rightarrow> nat \<Rightarrow> nat \<Rightarrow> u16 \<Rightarrow> string option" where
  "parse_dns_answer_rdata packet rdata_offset rdlength record_type = do {
     e \<leftarrow> checked_add_usize rdata_offset rdlength;
     rdata \<leftarrow> get_range packet rdata_offset e;
     let n = length rdata in
     if record_type = 1 \<and> n = 4 then Some (show_ipv4 rdata)
     else if record_type \<in> {2, 5, 12} then name_at packet rdata_offset
     else if record_type = 15 \<and> 3 \<le> n then
       map_option (\<lambda>exchange. show_u16 (u16_from_be (take 2 rdata)) @ '' '' @ exchange)
         (name_at packet (rdata_offset + 2))
     else if record_type = 16 then Some (parse_txt_rdata rdata)
     else if record_type = 28 \<and> n = 16 then Some (show_ipv6 rdata)
     else if record_type = 33 \<and> 7 \<le> n then
       map_option (\<lambda>target. target @ '':'' @ show_u16 (u16_from_be (take 2 (drop 4 rdata))))
         (name_at packet (rdata_offset + 6))
     else if record_type \<in> {64, 65} \<and> 3 \<le> n then
       map_option (\<lambda>target.
           if target = ''.'' then ''priority '' @ show_u16 (u16_from_be (take 2 rdata))
           else ''priority '' @ show_u16 (u16_from_be (take 2 rdata)) @ '' '' @ target)
         (name_at packet (rdata_offset + 2))
     else None
   }"

record DnsResponseSummary =
  rs_status :: string
  rs_answers :: "string list"
  rs_min_ttl :: "u32 option"

definition dns_rcode_name :: "u16 \<Rightarrow> string" where
  "dns_rcode_name rcode =
     (if rcode = 0 then ''NOERROR'' else if rcode = 1 then ''FORMERR''
      else if rcode = 2 then ''SERVFAIL'' else if rcode = 3 then ''NXDOMAIN''
      else if rcode = 4 then ''NOTIMP'' else if rcode = 5 then ''REFUSED'' else ''ERROR'')"

text \<open>The two \<open>for\<close> loops of \<open>parse_dns_response\<close>: questions are skipped, answers collected.\<close>

fun skip_questions :: "bytes \<Rightarrow> nat \<Rightarrow> nat \<Rightarrow> nat option" where
  "skip_questions packet 0 offset = Some offset"
| "skip_questions packet (Suc n) offset = do {
     (_, offset) \<leftarrow> parse_dns_name packet offset;
     offset \<leftarrow> checked_add_usize offset 4;
     if offset > length packet then None else skip_questions packet n offset
   }"

definition min_ttl_update :: "u32 option \<Rightarrow> u32 \<Rightarrow> u32 option" where
  "min_ttl_update current ttl = Some (case current of None \<Rightarrow> ttl | Some c \<Rightarrow> min c ttl)"

text \<open>One record of the answer section: its answer, its time to live and where it ends.\<close>

definition read_record :: "bytes \<Rightarrow> nat \<Rightarrow> (string option \<times> u32 \<times> nat) option" where
  "read_record packet offset = do {
     (_, offset) \<leftarrow> parse_dns_name packet offset;
     record_type \<leftarrow> read_u16 packet offset;
     offset \<leftarrow> checked_add_usize offset 2;
     _ \<leftarrow> read_u16 packet offset;
     offset \<leftarrow> checked_add_usize offset 2;
     ttl \<leftarrow> read_u32 packet offset;
     offset \<leftarrow> checked_add_usize offset 4;
     rdlength \<leftarrow> read_u16 packet offset;
     offset \<leftarrow> checked_add_usize offset 2;
     rdata_end \<leftarrow> checked_add_usize offset (unat rdlength);
     if rdata_end > length packet then None
     else Some (parse_dns_answer_rdata packet offset (unat rdlength) record_type, ttl, rdata_end)
   }"

fun read_answers ::
  "bytes \<Rightarrow> nat \<Rightarrow> nat \<Rightarrow> string list \<Rightarrow> u32 option \<Rightarrow> (string list \<times> u32 option) option" where
  "read_answers packet 0 offset answers min_ttl = Some (answers, min_ttl)"
| "read_answers packet (Suc n) offset answers min_ttl = do {
     (answer, ttl, rdata_end) \<leftarrow> read_record packet offset;
     (case answer of
        Some a \<Rightarrow> read_answers packet n rdata_end (answers @ [a]) (min_ttl_update min_ttl ttl)
      | None \<Rightarrow> read_answers packet n rdata_end answers min_ttl)
   }"

definition parse_dns_response :: "bytes \<Rightarrow> DnsResponseSummary option" where
  "parse_dns_response packet =
     (if length packet < 12 then None
      else do {
        flags \<leftarrow> read_u16 packet 2;
        qdcount \<leftarrow> read_u16 packet 4;
        ancount \<leftarrow> read_u16 packet 6;
        offset \<leftarrow> skip_questions packet (unat qdcount) 12;
        (answers, min_ttl) \<leftarrow> read_answers packet (unat ancount) offset [] None;
        Some \<lparr>rs_status = dns_rcode_name (flags AND 0x000F), rs_answers = answers,
              rs_min_ttl = min_ttl\<rparr>
      })"

section \<open>Progress\<close>

lemma get_at_Some [simp]: "get_at xs i = Some x \<longleftrightarrow> i < length xs \<and> xs ! i = x"
  by (auto simp: get_at_def)

lemma get_at_append [simp]: "get_at (xs @ y # ys) (length xs) = Some y"
  by simp

lemma dns_name_loop_cases:
  assumes "dns_name_loop packet cursor offset jumped jumps labels = Some r"
  obtains (pointer) b nxt where
      "get_at packet cursor = Some b" "b AND 0xC0 = 0xC0" "get_at packet (cursor + 1) = Some nxt"
      "jumps < 16"
      "dns_name_loop packet (pointer_of b nxt) (if jumped then offset else cursor + 2) True
         (jumps + 1) labels = Some r"
  | (root) "get_at packet cursor = Some 0" "r = (labels, if jumped then offset else cursor + 1)"
  | (label) b e label where
      "get_at packet cursor = Some b" "b AND 0xC0 = 0" "b \<noteq> 0"
      "checked_add_usize (cursor + 1) (unat b) = Some e"
      "get_range packet (cursor + 1) e = Some label"
      "dns_name_loop packet e (if jumped then offset else e) jumped jumps
         (labels @ [from_utf8_lossy label]) = Some r"
  using assms
  by (subst (asm) dns_name_loop.simps) (auto split: option.splits if_splits simp del: get_at_Some)

lemma dns_name_loop_label:
  "get_at packet cursor = Some b \<Longrightarrow> b AND 0xC0 = 0 \<Longrightarrow> b \<noteq> 0 \<Longrightarrow>
   checked_add_usize (cursor + 1) (unat b) = Some e \<Longrightarrow>
   get_range packet (cursor + 1) e = Some label \<Longrightarrow>
   dns_name_loop packet cursor offset jumped jumps labels =
   dns_name_loop packet e (if jumped then offset else e) jumped jumps
     (labels @ [from_utf8_lossy label])"
  by (subst dns_name_loop.simps) (simp del: get_at_Some checked_add_usize_Some)

lemma dns_name_loop_pointer:
  "get_at packet cursor = Some b \<Longrightarrow> b AND 0xC0 = 0xC0 \<Longrightarrow> get_at packet (cursor + 1) = Some nxt \<Longrightarrow>
   dns_name_loop packet cursor offset jumped jumps labels =
   (if jumps < 16
    then dns_name_loop packet (pointer_of b nxt) (if jumped then offset else cursor + 2) True
           (jumps + 1) labels
    else None)"
  by (subst dns_name_loop.simps) (simp del: get_at_Some)

lemma dns_name_loop_bounds:
  "dns_name_loop packet cursor offset jumped jumps labels = Some (ls, offset') \<Longrightarrow>
   if jumped then offset' = offset else cursor < offset' \<and> offset' \<le> length packet"
proof (induction packet cursor offset jumped jumps labels
       arbitrary: ls offset' rule: dns_name_loop.induct)
  case (1 packet cursor offset jumped jumps labels)
  show ?case
    using "1.prems"
  proof (cases rule: dns_name_loop_cases)
    case (pointer b nxt)
    then show ?thesis using "1.IH"(1) [of b nxt ls offset'] by (auto split: if_splits)
  next
    case (label b e lab)
    then have "cursor < e" "e \<le> length packet" by (auto simp: get_range_def split: if_splits)
    moreover have "if jumped then offset' = (if jumped then offset else e)
        else e < offset' \<and> offset' \<le> length packet"
      using label "1.IH"(2) [of b e lab ls offset'] by auto
    ultimately show ?thesis by (auto split: if_splits)
  qed auto
qed

lemma parse_dns_name_progress:
  "parse_dns_name packet offset = Some (s, offset') \<Longrightarrow> offset < offset' \<and> offset' \<le> length packet"
  by (auto simp: parse_dns_name_def Option.bind_eq_Some_conv split: prod.splits
      dest!: dns_name_loop_bounds)

lemma skip_questions_progress:
  "skip_questions packet n offset = Some offset' \<Longrightarrow> offset + 5 * n \<le> offset'"
proof (induction n arbitrary: offset)
  case (Suc n)
  then obtain s o1 where name: "parse_dns_name packet offset = Some (s, o1)"
    and "skip_questions packet n (o1 + 4) = Some offset'"
    by (auto simp: Option.bind_eq_Some_conv split: if_splits)
  with Suc.IH have "o1 + 4 + 5 * n \<le> offset'" by blast
  with parse_dns_name_progress [OF name] show ?case by simp
qed simp

lemma read_record_progress:
  "read_record packet offset = Some (a, ttl, e) \<Longrightarrow> offset + 11 \<le> e \<and> e \<le> length packet"
  by (fastforce simp: read_record_def Option.bind_eq_Some_conv split: if_splits prod.splits
      dest: parse_dns_name_progress)

lemma read_answers_room:
  "read_answers packet n offset answers m = Some r \<Longrightarrow> offset \<le> length packet \<Longrightarrow>
   offset + 11 * n \<le> length packet"
proof (induction n arbitrary: offset answers m)
  case (Suc n)
  then obtain a ttl e where rec: "read_record packet offset = Some (a, ttl, e)"
    and "\<exists>answers' m'. read_answers packet n e answers' m' = Some r"
    by (fastforce simp: Option.bind_eq_Some_conv split: option.splits)
  with Suc.IH read_record_progress [OF rec] have "e + 11 * n \<le> length packet" by blast
  with read_record_progress [OF rec] show ?case by simp
qed simp

section \<open>Names of the wire format\<close>

definition label_ok :: "bytes \<Rightarrow> bool" where
  "label_ok l \<longleftrightarrow> 1 \<le> length l \<and> length l \<le> 63"

definition encode_name :: "bytes list \<Rightarrow> bytes" where
  "encode_name ls = concat (map (\<lambda>l. word_of_nat (length l) # l) ls) @ [0]"

definition encode_pointer :: "nat \<Rightarrow> bytes" where
  "encode_pointer p = [0xC0 OR word_of_nat (p div 256), word_of_nat p]"

definition name_text :: "bytes list \<Rightarrow> string" where
  "name_text ls = (if ls = [] then ''.'' else join ''.'' (map from_utf8_lossy ls))"

lemma encode_name_Cons: "encode_name (l # ls) = (word_of_nat (length l) # l) @ encode_name ls"
  by (simp add: encode_name_def)

lemma label_length_byte:
  assumes "label_ok l"
  shows "(word_of_nat (length l) :: u8) AND 0xC0 = 0" "(word_of_nat (length l) :: u8) \<noteq> 0"
    "unat (word_of_nat (length l) :: u8) = length l"
proof -
  have small: "length l < 64" "0 < length l" using assms by (auto simp: label_ok_def)
  show u: "unat (word_of_nat (length l) :: u8) = length l"
    using small by (simp add: unsigned_of_nat take_bit_nat_eq_self)
  show "(word_of_nat (length l) :: u8) \<noteq> 0"
    using small u by (metis less_not_refl unat_0)
  have "\<forall>n \<in> set [0..<64]. (word_of_nat n :: u8) AND 0xC0 = 0" by code_simp
  with small show "(word_of_nat (length l) :: u8) AND 0xC0 = 0" by simp
qed

lemma dns_name_loop_encoded:
  assumes "\<forall>l \<in> set ls. label_ok l"
    and "length (pre @ encode_name ls @ post) \<le> usize_max"
  shows "dns_name_loop (pre @ encode_name ls @ post) (length pre) offset jumped jumps acc =
    Some (acc @ map from_utf8_lossy ls, if jumped then offset else length pre + length (encode_name ls))"
  using assms
proof (induction ls arbitrary: pre offset acc)
  case Nil
  then show ?case
    by (subst dns_name_loop.simps) (simp add: encode_name_def get_at_def)
next
  case (Cons l ls)
  let ?b = "word_of_nat (length l) :: u8"
  let ?p = "pre @ encode_name (l # ls) @ post"
  have ok: "label_ok l" using Cons.prems by simp
  have p: "?p = (pre @ ?b # l) @ encode_name ls @ post" by (simp add: encode_name_Cons)
  have b: "get_at ?p (length pre) = Some ?b" by (simp add: encode_name_Cons get_at_def)
  have size: "length pre + 1 + length l \<le> usize_max"
    using Cons.prems(2) by (simp add: encode_name_Cons)
  have add: "checked_add_usize (length pre + 1) (length l) = Some (length pre + 1 + length l)"
    using size by (simp add: checked_add_usize_def)
  then have add': "checked_add_usize (length pre + 1) (unat ?b) = Some (length pre + 1 + length l)"
    by (simp only: label_length_byte(3) [OF ok])
  have label: "get_range ?p (length pre + 1) (length pre + 1 + length l) = Some l"
    by (simp add: get_range_def encode_name_Cons)
  have next_turn: "dns_name_loop ?p (length (pre @ ?b # l)) offset' jumped jumps acc' =
      Some (acc' @ map from_utf8_lossy ls,
            if jumped then offset' else length (pre @ ?b # l) + length (encode_name ls))"
    for offset' acc'
    unfolding p using Cons.prems by (intro Cons.IH) (simp_all add: encode_name_Cons)
  show ?case
    using dns_name_loop_label [OF b label_length_byte(1, 2) [OF ok] add' label]
      next_turn [simplified] by (simp add: encode_name_Cons)
qed

lemma parse_encoded_name:
  assumes "\<forall>l \<in> set ls. label_ok l" and "length (pre @ encode_name ls @ post) \<le> usize_max"
  shows "parse_dns_name (pre @ encode_name ls @ post) (length pre) =
    Some (name_text ls, length pre + length (encode_name ls))"
  using dns_name_loop_encoded [OF assms, of "length pre" False 0 "[]"]
  by (simp add: parse_dns_name_def name_text_def)

lemma pointer_low_bits:
  assumes "q < 64"
  shows "(0xC0 OR word_of_nat q :: u8) AND 0x3F = word_of_nat q"
proof -
  have "(0xC0 OR word_of_nat q :: u8) AND 0x3F = word_of_nat q AND 0x3F"
    by (simp add: bit.conj_disj_distrib2)
  also have "\<dots> = word_of_nat q AND mask 6" by (simp add: mask_eq_exp_minus_1)
  also have "\<dots> = word_of_nat q"
    using assms by (simp flip: take_bit_eq_mask add: take_bit_of_nat take_bit_nat_eq_self)
  finally show ?thesis .
qed

lemma pointer_high_byte:
  assumes "p < 16384"
  shows "(0xC0 OR word_of_nat (p div 256) :: u8) AND 0xC0 = 0xC0"
    "push_bit 8 (ucast ((0xC0 OR word_of_nat (p div 256) :: u8) AND 0x3F) :: u16) =
     word_of_nat (p div 256 * 256)"
proof -
  have q: "p div 256 < 64" using assms by auto
  show "(0xC0 OR word_of_nat (p div 256) :: u8) AND 0xC0 = 0xC0" by simp
  have "(ucast (word_of_nat (p div 256) :: u8) :: u16) = word_of_nat (p div 256)"
    using q by (simp add: unsigned_of_nat take_bit_nat_eq_self)
  then show "push_bit 8 (ucast ((0xC0 OR word_of_nat (p div 256) :: u8) AND 0x3F) :: u16) =
     word_of_nat (p div 256 * 256)"
    unfolding pointer_low_bits [OF q] by (simp add: push_bit_eq_mult)
qed

lemma pointer_of_encoded:
  assumes "p < 16384"
  shows "pointer_of (0xC0 OR word_of_nat (p div 256)) (word_of_nat p) = p"
proof -
  let ?a = "push_bit 8 (ucast ((0xC0 OR word_of_nat (p div 256) :: u8) AND 0x3F) :: u16)"
  let ?b = "ucast (word_of_nat p :: u8) :: u16"
  have "unat (word_of_nat p :: u8) = p mod 256"
    by (simp add: unsigned_of_nat take_bit_eq_mod)
  then have b: "unat ?b = p mod 256" by (simp add: unsigned_ucast_eq take_bit_nat_eq_self)
  have small: "n < 65536 \<Longrightarrow> unat (word_of_nat n :: u16) = n" for n
    by (simp add: unsigned_of_nat take_bit_nat_eq_self)
  have a: "unat ?a = p div 256 * 256"
    using assms unfolding pointer_high_byte(2) [OF assms] by (intro small) auto
  have "?a AND ?b = 0" by (rule bit_eqI) (auto simp: bit_simps)
  then have "?a OR ?b = ?a + ?b" by (simp add: disjunctive_add_eq_or)
  moreover have "unat (?a + ?b) = unat ?a + unat ?b"
    using a b assms by (subst unat_add_lem [THEN iffD1]) auto
  ultimately show ?thesis using a b by (simp add: pointer_of_def)
qed

lemma parse_pointer:
  assumes "get_at packet offset = Some (0xC0 OR word_of_nat (p div 256))"
    and "get_at packet (offset + 1) = Some (word_of_nat p)" and "p < 16384"
    and "packet = pre @ encode_name ls @ post" and "length pre = p"
    and "\<forall>l \<in> set ls. label_ok l" and "length packet \<le> usize_max"
  shows "parse_dns_name packet offset = Some (name_text ls, offset + 2)"
proof -
  have "dns_name_loop packet offset offset False 0 [] = dns_name_loop packet p (offset + 2) True 1 []"
    using dns_name_loop_pointer [OF assms(1) pointer_high_byte(1) [OF assms(3)] assms(2)]
    by (simp add: pointer_of_encoded [OF assms(3)])
  also have "\<dots> = Some (map from_utf8_lossy ls, offset + 2)"
    using dns_name_loop_encoded [OF assms(6), of pre post "offset + 2" True 1 "[]"]
      assms(4, 5, 7) by simp
  finally show ?thesis by (simp add: parse_dns_name_def name_text_def)
qed

lemma dns_name_loop_work:
  "dns_name_loop packet cursor offset jumped jumps labels = Some (ls, offset') \<Longrightarrow> jumps \<le> 16 \<Longrightarrow>
   length ls \<le> length labels + (16 - jumps) * length packet + (length packet - cursor)"
proof (induction packet cursor offset jumped jumps labels
       arbitrary: ls offset' rule: dns_name_loop.induct)
  case (1 packet cursor offset jumped jumps labels)
  show ?case
    using "1.prems"(1)
  proof (cases rule: dns_name_loop_cases)
    case (pointer b nxt)
    then have "length ls \<le> length labels + (16 - (jumps + 1)) * length packet +
        (length packet - pointer_of b nxt)"
      using "1.IH"(1) [of b nxt ls offset'] by auto
    moreover have "16 - jumps = Suc (16 - (jumps + 1))" using pointer by simp
    ultimately show ?thesis by simp
  next
    case (label b e lab)
    then have "cursor < e" "e \<le> length packet" by (auto simp: get_range_def split: if_splits)
    moreover have "length ls \<le> length (labels @ [from_utf8_lossy lab]) +
        (16 - jumps) * length packet + (length packet - e)"
      using label "1.prems"(2) "1.IH"(2) [of b e lab ls offset'] by auto
    ultimately show ?thesis by simp
  next
    case root
    then have "length ls = length labels" by simp
    then show ?thesis unfolding add.assoc by (simp only: le_add1)
  qed
qed

lemma self_pointer_refused:
  assumes "get_at packet cursor = Some b" "b AND 0xC0 = 0xC0" "get_at packet (cursor + 1) = Some nxt"
    and "pointer_of b nxt = cursor"
  shows "dns_name_loop packet cursor offset jumped jumps labels = None"
proof (induction "16 - jumps" arbitrary: jumps offset jumped)
  case 0
  then show ?case by (subst dns_name_loop_pointer [OF assms(1-3)]) simp
next
  case (Suc n)
  then have "n = 16 - (jumps + 1)" by simp
  from Suc.hyps(1) [OF this] show ?case
    by (subst dns_name_loop_pointer [OF assms(1-3)]) (simp only: assms(4) if_cancel)
qed

section \<open>Responses of the wire format\<close>

text \<open>
  An address record of a response whose owner name is the compressed question name, and a
  response that answers one question with such records; \<open>rest\<close> is what follows them.
\<close>

fun octets :: "IpAddr \<Rightarrow> bytes" where
  "octets (V4 bs) = bs"
| "octets (V6 bs) = bs"

definition encode_rr :: "IpAddr \<times> u32 \<Rightarrow> bytes" where
  "encode_rr rr = encode_pointer 12 @ u16_to_be (if is_ipv4 (fst rr) then 1 else 28) @
     u16_to_be 1 @ u32_to_be (snd rr) @ u16_to_be (if is_ipv4 (fst rr) then 4 else 16) @
     octets (fst rr)"

definition response_head :: "u16 \<Rightarrow> u16 \<Rightarrow> u16 \<Rightarrow> bytes list \<Rightarrow> u16 \<Rightarrow> bytes" where
  "response_head tid flags n question qtype =
     (u16_to_be tid @ u16_to_be flags @ u16_to_be 1 @ u16_to_be n @ [0, 0, 0, 0]) @
     encode_name question @ u16_to_be qtype @ u16_to_be 1"

definition encode_response ::
  "u16 \<Rightarrow> u16 \<Rightarrow> bytes list \<Rightarrow> u16 \<Rightarrow> (IpAddr \<times> u32) list \<Rightarrow> bytes \<Rightarrow> bytes" where
  "encode_response tid flags question qtype rrs rest =
     response_head tid flags (word_of_nat (length rrs)) question qtype @
     concat (map encode_rr rrs) @ rest"

lemma read_u16_at:
  "packet = pre @ u16_to_be w @ post \<Longrightarrow> length packet \<le> usize_max \<Longrightarrow> offset = length pre \<Longrightarrow>
   read_u16 packet offset = Some w"
  by (simp add: read_u16_def checked_add_usize_def get_range_def)

lemma read_u32_at:
  "packet = pre @ u32_to_be w @ post \<Longrightarrow> length packet \<le> usize_max \<Longrightarrow> offset = length pre \<Longrightarrow>
   read_u32 packet offset = Some w"
  by (simp add: read_u32_def checked_add_usize_def get_range_def)

lemma address_rdata:
  assumes "packet = pre @ octets ip @ post" "length packet \<le> usize_max" "ip_ok ip"
    "offset = length pre"
  shows "parse_dns_answer_rdata packet offset (if is_ipv4 ip then 4 else 16)
      (if is_ipv4 ip then 1 else 28) = Some (show_ip ip)"
  using assms
  by (cases ip) (simp_all add: parse_dns_answer_rdata_def checked_add_usize_def get_range_def Let_def)

lemma encode_rr_length: "ip_ok (fst rr) \<Longrightarrow>
   length (encode_rr rr) = 12 + (if is_ipv4 (fst rr) then 4 else 16)"
  by (cases "fst rr") (simp_all add: encode_rr_def encode_pointer_def)

lemma read_encoded_record:
  assumes packet: "packet = pre @ encode_rr rr @ post" and len: "length packet \<le> usize_max"
    and ip: "ip_ok (fst rr)"
    and name: "parse_dns_name packet (length pre) = Some (s, length pre + 2)"
  shows "read_record packet (length pre) =
    Some (Some (show_ip (fst rr)), snd rr, length pre + length (encode_rr rr))"
proof -
  let ?v4 = "is_ipv4 (fst rr)" and ?o = "length pre"
  have add: "checked_add_usize a b = Some (a + b)" if "a + b \<le> length packet" for a b
    using that len by (simp add: checked_add_usize_def)
  have size: "length packet = ?o + length (encode_rr rr) + length post" using packet by simp
  note sz = size encode_rr_length [OF ip]
  have kind: "read_u16 packet (?o + 2) = Some (if ?v4 then 1 else 28)"
    by (rule read_u16_at [OF _ len, where pre = "pre @ encode_pointer 12"])
       (simp_all add: packet encode_rr_def encode_pointer_def)
  have cls: "read_u16 packet (?o + 4) = Some 1"
    by (rule read_u16_at [OF _ len,
          where pre = "pre @ encode_pointer 12 @ u16_to_be (if ?v4 then 1 else 28)"])
       (simp_all add: packet encode_rr_def encode_pointer_def)
  have ttl: "read_u32 packet (?o + 6) = Some (snd rr)"
    by (rule read_u32_at [OF _ len,
          where pre = "pre @ encode_pointer 12 @ u16_to_be (if ?v4 then 1 else 28) @ u16_to_be 1"])
       (simp_all add: packet encode_rr_def encode_pointer_def)
  have rdl: "read_u16 packet (?o + 10) = Some (if ?v4 then 4 else 16)"
    by (rule read_u16_at [OF _ len, where pre = "pre @ encode_pointer 12 @
          u16_to_be (if ?v4 then 1 else 28) @ u16_to_be 1 @ u32_to_be (snd rr)"])
       (simp_all add: packet encode_rr_def encode_pointer_def)
  have data: "parse_dns_answer_rdata packet (?o + 12) (if ?v4 then 4 else 16)
      (if ?v4 then 1 else 28) = Some (show_ip (fst rr))"
    by (rule address_rdata [OF _ len ip, where pre = "pre @ encode_pointer 12 @
          u16_to_be (if ?v4 then 1 else 28) @ u16_to_be 1 @ u32_to_be (snd rr) @
          u16_to_be (if ?v4 then 4 else 16)"])
       (simp_all add: packet encode_rr_def encode_pointer_def)
  have rdlen: "unat (if ?v4 then 4 else 16 :: u16) = (if ?v4 then 4 else 16)" by simp
  have steps: "checked_add_usize (?o + 2) 2 = Some (?o + 4)" "checked_add_usize (?o + 4) 2 = Some (?o + 6)"
    "checked_add_usize (?o + 6) 4 = Some (?o + 10)" "checked_add_usize (?o + 10) 2 = Some (?o + 12)"
    "checked_add_usize (?o + 12) (if ?v4 then 4 else 16) = Some (?o + length (encode_rr rr))"
    using sz add [of "?o + 2" 2] add [of "?o + 4" 2] add [of "?o + 6" 4] add [of "?o + 10" 2]
      add [of "?o + 12" "if ?v4 then 4 else 16"]
    by (simp_all del: checked_add_usize_Some add_2_eq_Suc add_2_eq_Suc')
  have "\<not> length packet < ?o + length (encode_rr rr)" using size by simp
  then show ?thesis
    by (simp only: read_record_def name kind cls ttl rdl data rdlen steps Option.bind.simps
        prod.case if_False)
qed

lemma record_owner:
  assumes "packet = hdr @ encode_name question @ after" and "length hdr = 12"
    and "\<forall>l \<in> set question. label_ok l" and "length packet \<le> usize_max"
    and "packet = pre @ encode_rr rr @ post"
  shows "parse_dns_name packet (length pre) = Some (name_text question, length pre + 2)"
proof (rule parse_pointer [where p = 12, OF _ _ _ assms(1-4)])
  have p: "packet = pre @ encode_pointer 12 @ drop 2 (encode_rr rr) @ post"
    using assms(5) by (simp add: encode_rr_def encode_pointer_def)
  show "get_at packet (length pre) = Some (0xC0 OR word_of_nat (12 div 256))"
    unfolding p by (simp add: encode_pointer_def)
  show "get_at packet (length pre + 1) = Some (word_of_nat 12)"
    unfolding p by (simp add: encode_pointer_def nth_append)
qed simp

lemma read_encoded_answers:
  assumes "\<And>pre rr post. packet = pre @ encode_rr rr @ post \<Longrightarrow>
      parse_dns_name packet (length pre) = Some (s, length pre + 2)"
    and "length packet \<le> usize_max" and "\<forall>rr \<in> set rrs. ip_ok (fst rr)"
    and "packet = pre @ concat (map encode_rr rrs) @ rest"
  shows "read_answers packet (length rrs) (length pre) answers m =
    Some (answers @ map (show_ip \<circ> fst) rrs, foldl min_ttl_update m (map snd rrs))"
  using assms(3, 4)
proof (induction rrs arbitrary: pre answers m)
  case (Cons rr rrs)
  have p: "packet = pre @ encode_rr rr @ concat (map encode_rr rrs) @ rest"
    using Cons.prems(2) by simp
  have ok: "ip_ok (fst rr)" using Cons.prems(1) by simp
  have "read_record packet (length pre) =
      Some (Some (show_ip (fst rr)), snd rr, length (pre @ encode_rr rr))"
    using read_encoded_record [OF p assms(2) ok assms(1) [OF p]] by simp
  moreover have "read_answers packet (length rrs) (length (pre @ encode_rr rr)) answers' m' =
      Some (answers' @ map (show_ip \<circ> fst) rrs, foldl min_ttl_update m' (map snd rrs))"
    for answers' m'
    using Cons.IH [of "pre @ encode_rr rr" answers' m'] Cons.prems p by simp
  ultimately show ?case by (simp del: length_append)
qed simp

lemma foldl_min_ttl: "foldl min_ttl_update (Some t) ts = Some (Min (insert t (set ts)))"
proof (induction ts arbitrary: t)
  case (Cons u ts)
  have "Min (insert t (insert u (set ts))) = Min (insert (min t u) (set ts))"
    by (cases "ts = []") (simp_all add: min.assoc)
  with Cons show ?case by (simp add: min_ttl_update_def)
qed simp

lemma parse_encoded_response:
  assumes "\<forall>l \<in> set question. label_ok l" and "\<forall>rr \<in> set rrs. ip_ok (fst rr)"
    and "length rrs < 65536" and "length (encode_response tid flags question qtype rrs rest) \<le> usize_max"
  shows "parse_dns_response (encode_response tid flags question qtype rrs rest) =
    Some \<lparr>rs_status = dns_rcode_name (flags AND 0x000F), rs_answers = map (show_ip \<circ> fst) rrs,
          rs_min_ttl = foldl min_ttl_update None (map snd rrs)\<rparr>"
proof -
  let ?n = "word_of_nat (length rrs) :: u16"
  let ?hdr = "u16_to_be tid @ u16_to_be flags @ u16_to_be 1 @ u16_to_be ?n @ [0, 0, 0, 0]"
  let ?tl = "u16_to_be qtype @ u16_to_be 1 @ concat (map encode_rr rrs) @ rest"
  let ?p = "encode_response tid flags question qtype rrs rest"
  have p: "?p = ?hdr @ encode_name question @ ?tl"
    by (simp add: encode_response_def response_head_def)
  have "length ?p = 12 + length (encode_name question) + 4 + length (concat (map encode_rr rrs) @ rest)"
    by (simp add: p)
  then have long: "\<not> length ?p < 12"
    and q_end: "12 + length (encode_name question) + 4 \<le> length ?p" by simp_all
  have flags: "read_u16 ?p 2 = Some flags"
    by (rule read_u16_at [OF _ assms(4), where pre = "u16_to_be tid"]) (simp_all add: p)
  have qd: "read_u16 ?p 4 = Some 1"
    by (rule read_u16_at [OF _ assms(4), where pre = "u16_to_be tid @ u16_to_be flags"])
       (simp_all add: p)
  have an: "read_u16 ?p 6 = Some ?n"
    by (rule read_u16_at [OF _ assms(4), where pre = "u16_to_be tid @ u16_to_be flags @ u16_to_be 1"])
       (simp_all add: p)
  have count: "unat ?n = length rrs"
    using assms(3) by (simp add: unsigned_of_nat take_bit_nat_eq_self)
  have "parse_dns_name ?p (length ?hdr) =
      Some (name_text question, length ?hdr + length (encode_name question))"
    unfolding p by (rule parse_encoded_name [OF assms(1)]) (use assms(4) p in simp)
  then have skip: "skip_questions ?p 1 12 = Some (12 + length (encode_name question) + 4)"
    using q_end assms(4) by (simp add: checked_add_usize_def)
  let ?pre = "response_head tid flags ?n question qtype"
  have answers: "read_answers ?p (length rrs) (length ?pre) [] None =
      Some ([] @ map (show_ip \<circ> fst) rrs, foldl min_ttl_update None (map snd rrs))"
    by (rule read_encoded_answers [OF record_owner [OF p _ assms(1, 4)] assms(4, 2)])
       (simp_all add: encode_response_def)
  moreover have "length ?pre = 12 + length (encode_name question) + 4"
    by (simp add: response_head_def)
  ultimately show ?thesis
    using long flags qd an skip
    by (simp add: parse_dns_response_def count del: skip_questions.simps)
qed

section \<open>Properties\<close>

text \<open>
  Reading a name ends on every packet, whatever its compression pointers are: the reader is
  a total function. When it returns a name, the position has moved forward and is still inside
  the packet, and the name has at most seventeen labels for every byte of the packet, so a
  packet that points into itself cannot make the agent loop or build an unbounded name. A
  pointer to itself is refused.
\<close>
theorem dns_name_reader_bounded:
  assumes "dns_name_loop packet offset offset False 0 [] = Some (labels, offset')"
  shows "offset < offset' \<and> offset' \<le> length packet \<and> length labels \<le> 17 * length packet \<and>
    (\<forall>c b nxt. get_at packet c = Some b \<and> b AND 0xC0 = 0xC0 \<and> get_at packet (c + 1) = Some nxt \<and>
       pointer_of b nxt = c \<longrightarrow> parse_dns_name packet c = None)"
  using dns_name_loop_bounds [OF assms] dns_name_loop_work [OF assms]
  by (auto simp: parse_dns_name_def self_pointer_refused simp del: get_at_Some)

theorem dns_name_reader_bounded_witness:
  "parse_dns_name [1, 97, 0, 0xC0, 3] 0 = Some (''a'', 3) \<and>
   parse_dns_name [1, 97, 0, 0xC0, 3] 3 = None"
proof -
  let ?p = "[1, 97, 0, 0xC0, 3] :: bytes"
  have a: "from_utf8_lossy [97] = ''a''"
    by (simp add: utf8_step_def byte_char_def chr_def) code_simp
  have "dns_name_loop ?p 0 0 False 0 [] = dns_name_loop ?p (Suc (Suc 0)) (Suc (Suc 0)) False 0 [''a'']"
    by (subst dns_name_loop.simps)
       (simp add: get_at_def get_range_def checked_add_usize_def usize_max_def a
        del: from_utf8_lossy.simps)
  also have "\<dots> = Some ([''a''], 3)"
    by (subst dns_name_loop.simps) (simp add: get_at_def)
  finally have loop: "dns_name_loop ?p 0 0 False 0 [] = Some ([''a''], 3)" .
  have "get_at ?p 3 = Some 0xC0" "get_at ?p (3 + 1) = Some 3" by simp_all
  moreover have "pointer_of 0xC0 3 = 3" by (simp add: pointer_of_def)
  ultimately show ?thesis
    using dns_name_reader_bounded [OF loop] loop by (simp add: parse_dns_name_def)
qed



end
