(* ===== verification/Domain_Cache.thy ===== *)
theory Domain_Cache
  imports Net_Addr "HOL-Library.AList"
begin

text \<open>
  The caches that remember which domains resolved to an address, so that a flow to a bare
  address can still be matched against domain rules:
  \<open>desktop-agent-be/src/tun_handler/direct_domain_cache.rs\<close> and
  \<open>android-agent/native/src/netstack/direct_domain_cache.rs\<close>. Both share the entries and the
  lookup; the Android cache also cleans up and has a capacity. A call takes place at one instant
  \<open>now\<close>. The lemmas show that a lookup only names domains that resolved to the address, that the
  Android cache keeps its capacities under every sequence of calls, and that the desktop cache
  never forgets an address that is not looked up.
\<close>

section \<open>Entries and lookup\<close>

record DomainCacheEntry =
  de_domains :: "string list"
  de_expires_at :: nat

type_synonym domain_map = "(IpAddr \<times> DomainCacheEntry) list"

definition cache_normalize_domain :: "string \<Rightarrow> string" where
  "cache_normalize_domain domain = to_ascii_lowercase (trim_end_char CHR ''.'' (trim domain))"

text \<open>The map after the lookup and the first domain of the address the predicate accepts.\<close>

definition matching_domain_for_ip ::
  "nat \<Rightarrow> domain_map \<Rightarrow> IpAddr \<Rightarrow> (string \<Rightarrow> bool) \<Rightarrow> domain_map \<times> string option" where
  "matching_domain_for_ip now m ip predicate =
     (case map_of m ip of
        None \<Rightarrow> (m, None)
      | Some entry \<Rightarrow>
          if de_expires_at entry \<le> now then (AList.delete ip m, None)
          else (m, find predicate (de_domains entry)))"

section \<open>The desktop cache\<close>

record DirectDomainCache =
  dc_ttl :: nat
  dc_ips :: domain_map

definition domain_cache_new :: "nat \<Rightarrow> DirectDomainCache" where
  "domain_cache_new ttl = \<lparr>dc_ttl = ttl, dc_ips = []\<rparr>"

text \<open>The body of the loop for one address.\<close>

definition record_ip :: "nat \<Rightarrow> nat \<Rightarrow> string \<Rightarrow> IpAddr \<Rightarrow> domain_map \<Rightarrow> domain_map" where
  "record_ip now expires_at domain ip m =
     (case map_of m ip of
        Some entry \<Rightarrow>
          let domains = (if de_expires_at entry \<le> now then [] else de_domains entry)
          in AList.update ip
               \<lparr>de_domains = (if domain \<in> set domains then domains else domains @ [domain]),
                de_expires_at = expires_at\<rparr> m
      | None \<Rightarrow> AList.update ip \<lparr>de_domains = [domain], de_expires_at = expires_at\<rparr> m)"

fun record_answers ::
  "(IpAddr \<Rightarrow> domain_map \<Rightarrow> domain_map) \<Rightarrow> string list \<Rightarrow> domain_map \<Rightarrow> domain_map" where
  "record_answers put [] m = m"
| "record_answers put (answer # answers) m =
     record_answers put answers
       (case parse_ip answer of Some ip \<Rightarrow> put ip m | None \<Rightarrow> m)"

definition record_resolution ::
  "nat \<Rightarrow> string \<Rightarrow> string list \<Rightarrow> DirectDomainCache \<Rightarrow> DirectDomainCache" where
  "record_resolution now query answers c =
     (let domain = cache_normalize_domain query
      in if domain = [] then c
         else c\<lparr>dc_ips := record_answers (record_ip now (now + dc_ttl c) domain) answers (dc_ips c)\<rparr>)"

section \<open>The Android cache\<close>

definition MAX_CACHE_IPS :: nat where "MAX_CACHE_IPS = 4096"
definition MAX_DOMAINS_PER_IP :: nat where "MAX_DOMAINS_PER_IP = 16"
definition CLEANUP_INTERVAL :: nat where "CLEANUP_INTERVAL = 60000"

record AndroidDomainCache = DirectDomainCache +
  dc_last_cleanup :: nat

definition android_cache_new :: "nat \<Rightarrow> nat \<Rightarrow> AndroidDomainCache" where
  "android_cache_new now ttl = \<lparr>dc_ttl = ttl, dc_ips = [], dc_last_cleanup = now\<rparr>"

definition remove_expired :: "nat \<Rightarrow> domain_map \<Rightarrow> domain_map" where
  "remove_expired now m =
     fold AList.delete (map fst (filter (\<lambda>(ip, e). de_expires_at e \<le> now) m)) m"

definition enforce_capacity :: "domain_map \<Rightarrow> domain_map" where
  "enforce_capacity m =
     (if length m \<le> MAX_CACHE_IPS then m
      else fold AList.delete
             (map fst (take (length m - MAX_CACHE_IPS)
               (sort_key snd (map (\<lambda>(ip, e). (ip, de_expires_at e)) m)))) m)"

text \<open>\<open>locked\<close>: another thread holds the mutex, so that \<open>try_lock\<close> fails.\<close>

definition cleanup_if_due :: "bool \<Rightarrow> nat \<Rightarrow> AndroidDomainCache \<Rightarrow> AndroidDomainCache" where
  "cleanup_if_due locked now c =
     (if locked then c
      else if now - dc_last_cleanup c < CLEANUP_INTERVAL then c
      else
        let m = remove_expired now (dc_ips c)
        in c\<lparr>dc_last_cleanup := now,
             dc_ips := (if length m > MAX_CACHE_IPS then enforce_capacity m else m)\<rparr>)"

definition android_record_ip :: "nat \<Rightarrow> nat \<Rightarrow> string \<Rightarrow> IpAddr \<Rightarrow> domain_map \<Rightarrow> domain_map" where
  "android_record_ip now expires_at domain ip m =
     (case map_of m ip of
        Some entry \<Rightarrow>
          let domains = (if de_expires_at entry \<le> now then [] else de_domains entry);
              room = (if length domains \<ge> MAX_DOMAINS_PER_IP then drop 1 domains else domains)
          in AList.update ip
               \<lparr>de_domains = (if domain \<in> set domains then domains else room @ [domain]),
                de_expires_at = expires_at\<rparr> m
      | None \<Rightarrow> AList.update ip \<lparr>de_domains = [domain], de_expires_at = expires_at\<rparr> m)"

definition android_record_resolution ::
  "bool \<Rightarrow> nat \<Rightarrow> string \<Rightarrow> string list \<Rightarrow> AndroidDomainCache \<Rightarrow> AndroidDomainCache" where
  "android_record_resolution locked now query answers c =
     (let domain = cache_normalize_domain query
      in if domain = [] then c
         else
           let c1 = cleanup_if_due locked now c;
               m = record_answers (android_record_ip now (now + dc_ttl c1) domain) answers (dc_ips c1);
               recorded = (\<exists>answer \<in> set answers. parse_ip answer \<noteq> None)
           in c1\<lparr>dc_ips := (if recorded \<and> length m > MAX_CACHE_IPS then enforce_capacity m else m)\<rparr>)"

section \<open>Sequences of calls\<close>

datatype cache_call =
    Resolved bool nat string "string list"
  | Lookup nat IpAddr "string \<Rightarrow> bool"

fun cache_apply :: "cache_call \<Rightarrow> DirectDomainCache \<Rightarrow> DirectDomainCache" where
  "cache_apply (Resolved locked now query answers) c = record_resolution now query answers c"
| "cache_apply (Lookup now ip predicate) c =
     c\<lparr>dc_ips := fst (matching_domain_for_ip now (dc_ips c) ip predicate)\<rparr>"

fun android_cache_apply :: "cache_call \<Rightarrow> AndroidDomainCache \<Rightarrow> AndroidDomainCache" where
  "android_cache_apply (Resolved locked now query answers) c =
     android_record_resolution locked now query answers c"
| "android_cache_apply (Lookup now ip predicate) c =
     c\<lparr>dc_ips := fst (matching_domain_for_ip now (dc_ips c) ip predicate)\<rparr>"

section \<open>What the caches know\<close>

definition known :: "domain_map \<Rightarrow> (IpAddr \<times> string) set" where
  "known m = {(ip, d). \<exists>e. map_of m ip = Some e \<and> d \<in> set (de_domains e)}"

definition answer_ips :: "string list \<Rightarrow> IpAddr set" where
  "answer_ips answers = {ip. \<exists>a \<in> set answers. parse_ip a = Some ip}"

fun resolved :: "cache_call \<Rightarrow> (IpAddr \<times> string) set" where
  "resolved (Resolved locked now query answers) =
     {(ip, d). ip \<in> answer_ips answers \<and> d = cache_normalize_domain query \<and> d \<noteq> []}"
| "resolved (Lookup now ip predicate) = {}"

lemma known_delete: "known (AList.delete ip m) \<subseteq> known m"
  by (auto simp: known_def delete_conv split: if_splits)

lemma known_fold_delete: "known (fold AList.delete ips m) \<subseteq> known m"
proof (induction ips arbitrary: m)
  case (Cons ip ips)
  then show ?case using known_delete by fastforce
qed simp

lemma known_enforce: "known (enforce_capacity m) \<subseteq> known m"
  by (simp add: enforce_capacity_def known_fold_delete)

lemma known_cleanup: "known (dc_ips (cleanup_if_due locked now c)) \<subseteq> known (dc_ips c)"
  using known_enforce [of "remove_expired now (dc_ips c)"]
    known_fold_delete [of _ "dc_ips c"]
  by (auto simp: cleanup_if_due_def remove_expired_def Let_def split: if_splits)

lemma known_matching: "known (fst (matching_domain_for_ip now m ip predicate)) \<subseteq> known m"
  using known_delete by (auto simp: matching_domain_for_ip_def split: option.splits)

lemma matching_known:
  "snd (matching_domain_for_ip now m ip predicate) = Some d \<Longrightarrow> (ip, d) \<in> known m \<and> predicate d"
  by (auto simp: matching_domain_for_ip_def known_def find_Some_iff in_set_conv_nth
      split: option.splits if_splits)

text \<open>
  What both recorders promise: recording a domain under an address adds at most that pair.
\<close>

locale domain_recorder =
  fixes put :: "nat \<Rightarrow> nat \<Rightarrow> string \<Rightarrow> IpAddr \<Rightarrow> domain_map \<Rightarrow> domain_map"
  assumes put_known: "known (put now expires d ip m) \<subseteq> insert (ip, d) (known m)"
    and put_records: "(ip, d) \<in> known (put now expires d ip m)"
    and put_expiry: "\<exists>e. map_of (put now expires d ip m) ip = Some e \<and> de_expires_at e = expires"
begin

lemma record_answers_known:
  "known (record_answers (put now expires d) answers m) \<subseteq>
   known m \<union> {(ip, d') | ip d'. ip \<in> answer_ips answers \<and> d' = d}"
proof (induction answers arbitrary: m)
  case (Cons a answers)
  have "known (case parse_ip a of Some ip \<Rightarrow> put now expires d ip m | None \<Rightarrow> m) \<subseteq>
      known m \<union> {(ip, d') | ip d'. parse_ip a = Some ip \<and> d' = d}"
    using put_known by (auto split: option.splits)
  with Cons [of "case parse_ip a of Some ip \<Rightarrow> put now expires d ip m | None \<Rightarrow> m"]
  show ?case by (fastforce simp: answer_ips_def)
qed (simp add: answer_ips_def)

lemma lookup_after_record:
  assumes "now < expires" "now' < expires"
  shows "\<exists>d'. snd (matching_domain_for_ip now' (put now expires d ip m) ip (\<lambda>x. x = d)) = Some d'"
proof -
  obtain e where e: "map_of (put now expires d ip m) ip = Some e" "de_expires_at e = expires"
    using put_expiry by blast
  with put_records [of ip d now expires m] have "d \<in> set (de_domains e)" by (simp add: known_def)
  then have "find (\<lambda>x. x = d) (de_domains e) \<noteq> None" by (auto simp: find_None_iff)
  with e assms show ?thesis by (auto simp: matching_domain_for_ip_def)
qed

end

interpretation desktop_recorder: domain_recorder record_ip
  by unfold_locales
     (auto simp: record_ip_def known_def update_conv Let_def split: option.splits if_splits)

interpretation android_recorder: domain_recorder android_record_ip
  by unfold_locales
     (auto simp: android_record_ip_def known_def update_conv Let_def
      split: option.splits if_splits, (meson in_set_dropD)+)

lemma cache_apply_known: "known (dc_ips (cache_apply call c)) \<subseteq> known (dc_ips c) \<union> resolved call"
proof (cases call)
  case (Resolved locked now query answers)
  then show ?thesis
    using desktop_recorder.record_answers_known
      [of now "now + dc_ttl c" "cache_normalize_domain query" answers "dc_ips c"]
    by (auto simp: record_resolution_def Let_def)
qed (use known_matching in auto)

lemma android_apply_known:
  "known (dc_ips (android_cache_apply call c)) \<subseteq> known (dc_ips c) \<union> resolved call"
proof (cases call)
  case (Resolved locked now query answers)
  let ?d = "cache_normalize_domain query" and ?c1 = "cleanup_if_due locked now c"
  let ?m = "record_answers (android_record_ip now (now + dc_ttl ?c1) ?d) answers (dc_ips ?c1)"
  have "known ?m \<subseteq> known (dc_ips c) \<union> {(ip, d') | ip d'. ip \<in> answer_ips answers \<and> d' = ?d}"
    using android_recorder.record_answers_known [of now "now + dc_ttl ?c1" ?d answers "dc_ips ?c1"]
      known_cleanup [of locked now c] by blast
  with known_enforce [of ?m] show ?thesis
    by (auto simp: Resolved android_record_resolution_def Let_def)
qed (use known_matching in auto)

section \<open>Capacity of the Android cache\<close>

definition entry_ok :: "DomainCacheEntry \<Rightarrow> bool" where
  "entry_ok e \<longleftrightarrow> de_domains e \<noteq> [] \<and> length (de_domains e) \<le> MAX_DOMAINS_PER_IP \<and> distinct (de_domains e)"

definition map_inv :: "domain_map \<Rightarrow> bool" where
  "map_inv m \<longleftrightarrow> alist_ok m \<and> (\<forall>ip e. map_of m ip = Some e \<longrightarrow> entry_ok e)"

definition android_cache_inv :: "AndroidDomainCache \<Rightarrow> bool" where
  "android_cache_inv c \<longleftrightarrow> map_inv (dc_ips c) \<and> length (dc_ips c) \<le> MAX_CACHE_IPS"

lemma length_fold_delete:
  "alist_ok m \<Longrightarrow> distinct ks \<Longrightarrow> set ks \<subseteq> fst ` set m \<Longrightarrow>
   length (fold AList.delete ks m) = length m - length ks"
proof (induction ks arbitrary: m)
  case (Cons k ks)
  have "map_of m k \<noteq> None" using Cons.prems(3) by (simp add: map_of_eq_None_iff)
  then have "length (AList.delete k m) = length m - 1"
    using length_delete_present [OF Cons.prems(1), of k] by fastforce
  moreover have "set ks \<subseteq> fst ` set (AList.delete k m)"
    using Cons.prems(2, 3) arg_cong [OF delete_keys [of k m], of set] by auto
  ultimately show ?case using Cons by simp
qed simp

lemma map_inv_delete: "map_inv m \<Longrightarrow> map_inv (AList.delete k m)"
  by (auto simp: map_inv_def delete_conv split: if_splits)

lemma map_inv_fold_delete: "map_inv m \<Longrightarrow> map_inv (fold AList.delete ks m)"
  by (induction ks arbitrary: m) (simp_all add: map_inv_delete)

lemma length_fold_delete_le: "length (fold AList.delete ks m) \<le> length m"
proof (induction ks arbitrary: m)
  case (Cons k ks)
  show ?case using Cons [of "AList.delete k m"] length_delete_le [of k m] by simp
qed simp

lemma enforce_capacity_length:
  assumes "alist_ok m"
  shows "length (enforce_capacity m) \<le> MAX_CACHE_IPS"
proof (cases "length m \<le> MAX_CACHE_IPS")
  case False
  let ?xs = "map (\<lambda>(ip, e). (ip, de_expires_at e)) m" and ?n = "length m - MAX_CACHE_IPS"
  let ?s = "sort_key snd ?xs"
  let ?ks = "map fst (take (length m - MAX_CACHE_IPS) ?s)"
  have keys: "map fst ?xs = map fst m" by (simp add: comp_def case_prod_beta)
  have "distinct (map fst ?xs)" using assms unfolding keys alist_ok_def .
  then have "distinct (map fst ?s)" by (metis distinct_map distinct_sort set_sort)
  then have "distinct ?ks" unfolding take_map [symmetric] by (rule distinct_take)
  moreover have "fst ` set ?s = fst ` set m" using keys by (metis list.set_map set_sort)
  then have "set ?ks \<subseteq> fst ` set m"
    using image_mono [OF set_take_subset [of ?n ?s], of fst] by (simp only: list.set_map)
  ultimately have "distinct ?ks" "set ?ks \<subseteq> fst ` set m" by blast+
  with False length_fold_delete [OF assms, of ?ks] show ?thesis by (simp add: enforce_capacity_def)
qed (simp add: enforce_capacity_def)

lemma map_inv_enforce: "map_inv m \<Longrightarrow> map_inv (enforce_capacity m)"
  by (simp add: enforce_capacity_def map_inv_fold_delete)

lemma map_inv_put: "map_inv m \<Longrightarrow> map_inv (android_record_ip now expires d ip m)"
proof -
  assume inv: "map_inv m"
  have room: "length (drop 1 ds) < length ds" if "length ds \<ge> MAX_DOMAINS_PER_IP" for ds :: "string list"
    using that by (auto simp: MAX_DOMAINS_PER_IP_def)
  show ?thesis
    using inv room
    by (auto simp: map_inv_def android_record_ip_def entry_ok_def update_conv Let_def
        MAX_DOMAINS_PER_IP_def split: option.splits if_splits dest: in_set_dropD)
qed

lemma map_inv_answers:
  "map_inv m \<Longrightarrow> map_inv (record_answers (android_record_ip now expires d) answers m)"
  by (induction answers arbitrary: m) (auto simp: map_inv_put split: option.splits)

lemma record_answers_none:
  "\<not> (\<exists>answer \<in> set answers. parse_ip answer \<noteq> None) \<Longrightarrow> record_answers put answers m = m"
  by (induction answers arbitrary: m) auto

lemma cleanup_inv: "android_cache_inv c \<Longrightarrow> android_cache_inv (cleanup_if_due locked now c)"
proof -
  assume inv: "android_cache_inv c"
  let ?m = "remove_expired now (dc_ips c)"
  have "map_inv ?m" "length ?m \<le> MAX_CACHE_IPS"
    using inv length_fold_delete_le [of _ "dc_ips c"]
    by (auto simp: android_cache_inv_def remove_expired_def map_inv_fold_delete intro: order_trans)
  with inv show ?thesis by (simp add: android_cache_inv_def cleanup_if_due_def Let_def)
qed

lemma android_apply_inv: "android_cache_inv c \<Longrightarrow> android_cache_inv (android_cache_apply call c)"
proof (cases call)
  case (Resolved locked now query answers)
  assume "android_cache_inv c"
  then have inv: "android_cache_inv (cleanup_if_due locked now c)" by (rule cleanup_inv)
  let ?c1 = "cleanup_if_due locked now c"
  let ?m = "record_answers (android_record_ip now (now + dc_ttl ?c1) (cache_normalize_domain query))
      answers (dc_ips ?c1)"
  have m: "map_inv ?m" using inv by (simp add: android_cache_inv_def map_inv_answers)
  have "length ?m \<le> MAX_CACHE_IPS" if "\<not> (\<exists>answer \<in> set answers. parse_ip answer \<noteq> None)"
    using inv that by (simp add: record_answers_none android_cache_inv_def)
  with m map_inv_enforce [OF m] enforce_capacity_length [of ?m] \<open>android_cache_inv c\<close>
  show ?thesis
    by (auto simp: Resolved android_record_resolution_def android_cache_inv_def Let_def map_inv_def)
next
  case (Lookup now ip predicate)
  assume "android_cache_inv c"
  then show ?thesis
    using length_delete_le [of ip "dc_ips c"]
    by (auto simp: Lookup android_cache_inv_def matching_domain_for_ip_def map_inv_delete
        split: option.splits)
qed

section \<open>Properties\<close>

lemma fold_known:
  assumes "\<And>call c. known (dc_ips (step call c)) \<subseteq> known (dc_ips c) \<union> resolved call"
  shows "known (dc_ips (fold step calls c)) \<subseteq> known (dc_ips c) \<union> (\<Union>call \<in> set calls. resolved call)"
proof (induction calls arbitrary: c)
  case (Cons call calls)
  then show ?case using assms [of call c] Cons [of "step call c"] by auto
qed simp

lemma known_Nil [simp]: "known [] = {}"
  by (simp add: known_def)

lemma desktop_known:
  "known (dc_ips (fold cache_apply calls (domain_cache_new ttl))) \<subseteq> (\<Union>call \<in> set calls. resolved call)"
  using fold_known [of cache_apply, OF cache_apply_known, of calls "domain_cache_new ttl"]
  by (simp add: domain_cache_new_def)

lemma android_known:
  "known (dc_ips (fold android_cache_apply calls (android_cache_new t ttl))) \<subseteq>
   (\<Union>call \<in> set calls. resolved call)"
  using fold_known [of android_cache_apply, OF android_apply_known, of calls "android_cache_new t ttl"]
  by (simp add: android_cache_new_def)

text \<open>
  On both agents, after any sequence of resolutions and lookups, a lookup by address names a
  domain only when that domain satisfies the caller's predicate and an earlier resolution of that
  very domain had that address among its answers.
\<close>
theorem domain_lookup_sound:
  assumes "snd (matching_domain_for_ip now (dc_ips (fold cache_apply calls (domain_cache_new ttl)))
      ip predicate) = Some d"
    and "snd (matching_domain_for_ip now
      (dc_ips (fold android_cache_apply calls (android_cache_new t ttl))) ip predicate) = Some d'"
  shows "predicate d \<and> (\<exists>call \<in> set calls. (ip, d) \<in> resolved call) \<and>
    predicate d' \<and> (\<exists>call \<in> set calls. (ip, d') \<in> resolved call)"
  using matching_known [OF assms(1)] matching_known [OF assms(2)] desktop_known [of calls ttl]
    android_known [of calls t ttl] by blast

theorem domain_lookup_sound_witness:
  "(V4 [1, 2, 3, 4], ''a.b'') \<in> resolved (Resolved False 0 ''A.b.'' [''1.2.3.4''])"
proof -
  let ?calls = "[Resolved False 0 ''A.b.'' [''1.2.3.4'']]"
  have n: "cache_normalize_domain ''A.b.'' = ''a.b''" by code_simp
  have p: "parse_ip ''1.2.3.4'' = Some (V4 [1, 2, 3, 4])" by code_simp
  have "snd (matching_domain_for_ip 5 (dc_ips (fold cache_apply ?calls (domain_cache_new 300)))
      (V4 [1, 2, 3, 4]) (\<lambda>_. True)) = Some ''a.b''"
    by (simp add: record_resolution_def domain_cache_new_def record_ip_def n p
        matching_domain_for_ip_def)
  moreover have "snd (matching_domain_for_ip 5
      (dc_ips (fold android_cache_apply ?calls (android_cache_new 0 300)))
      (V4 [1, 2, 3, 4]) (\<lambda>_. True)) = Some ''a.b''"
    by (simp add: android_record_resolution_def android_cache_new_def android_record_ip_def n p
        matching_domain_for_ip_def cleanup_if_due_def CLEANUP_INTERVAL_def MAX_CACHE_IPS_def)
  ultimately show ?thesis
    using domain_lookup_sound [of 5 ?calls 300 "V4 [1, 2, 3, 4]" "\<lambda>_. True" "''a.b''" 0 "''a.b''"]
    by (auto simp del: resolved.simps cache_apply.simps android_cache_apply.simps)
qed

text \<open>
  The Android cache keeps its capacities under every sequence of resolutions and lookups,
  whether or not a concurrent call holds the clean-up lock: at most 4096 addresses, and under
  each of them between one and sixteen different domains.
\<close>
theorem android_domain_cache_bounded:
  "length (dc_ips (fold android_cache_apply calls (android_cache_new t ttl))) \<le> 4096 \<and>
   (\<forall>e. map_of (dc_ips (fold android_cache_apply calls (android_cache_new t ttl))) ip = Some e \<longrightarrow>
      1 \<le> length (de_domains e) \<and> length (de_domains e) \<le> 16 \<and> distinct (de_domains e))"
proof -
  have "android_cache_inv c \<Longrightarrow> android_cache_inv (fold android_cache_apply calls c)" for c
    by (induction calls arbitrary: c) (simp_all add: android_apply_inv)
  from this [of "android_cache_new t ttl"] show ?thesis
    by (auto simp: android_cache_inv_def android_cache_new_def map_inv_def entry_ok_def
        MAX_CACHE_IPS_def MAX_DOMAINS_PER_IP_def Suc_le_eq)
qed

theorem android_domain_cache_bounded_witness:
  "length (de_domains (the (map_of (dc_ips (fold android_cache_apply
     [Resolved False 0 ''A.b.'' [''1.2.3.4'']] (android_cache_new 0 300))) (V4 [1, 2, 3, 4])))) \<le> 16"
proof -
  let ?c = "fold android_cache_apply [Resolved False 0 ''A.b.'' [''1.2.3.4'']] (android_cache_new 0 300)"
  have n: "cache_normalize_domain ''A.b.'' = ''a.b''" by code_simp
  have p: "parse_ip ''1.2.3.4'' = Some (V4 [1, 2, 3, 4])" by code_simp
  have "map_of (dc_ips ?c) (V4 [1, 2, 3, 4]) = Some \<lparr>de_domains = [''a.b''], de_expires_at = 300\<rparr>"
    by (simp add: android_record_resolution_def android_cache_new_def android_record_ip_def n p
        cleanup_if_due_def CLEANUP_INTERVAL_def MAX_CACHE_IPS_def)
  then show ?thesis
    using android_domain_cache_bounded [of "[Resolved False 0 ''A.b.'' [''1.2.3.4'']]" 0 300
        "V4 [1, 2, 3, 4]"] by auto
qed

lemma record_answers_keeps:
  "map_of m ip \<noteq> None \<or> ip \<in> answer_ips answers \<Longrightarrow>
   map_of (record_answers (record_ip now expires d) answers m) ip \<noteq> None"
proof (induction answers arbitrary: m)
  case (Cons a answers)
  let ?m = "case parse_ip a of Some ip' \<Rightarrow> record_ip now expires d ip' m | None \<Rightarrow> m"
  have "map_of (record_ip now expires d ip' m) ip \<noteq> None \<longleftrightarrow> map_of m ip \<noteq> None \<or> ip' = ip" for ip'
    by (auto simp: record_ip_def update_conv Let_def split: option.splits)
  with Cons.prems have "map_of ?m ip \<noteq> None \<or> ip \<in> answer_ips answers"
    by (auto simp: answer_ips_def split: option.splits)
  from Cons.IH [OF this] show ?case by simp
qed (simp add: answer_ips_def)

lemma resolution_keeps:
  "map_of (dc_ips c) ip \<noteq> None \<Longrightarrow> map_of (dc_ips (record_resolution now query answers c)) ip \<noteq> None"
  by (simp add: record_resolution_def Let_def record_answers_keeps del: not_None_eq)

lemma resolutions_keep:
  "map_of (dc_ips c) ip \<noteq> None \<Longrightarrow>
   map_of (dc_ips (fold (\<lambda>(t, q, as). record_resolution t q as) later c)) ip \<noteq> None"
  by (induction later arbitrary: c) (simp_all add: resolution_keeps case_prod_beta del: not_None_eq)

text \<open>
  The desktop cache has no capacity and no clean-up: once an address has been recorded, it
  stays in the table through every later resolution, however long its entry has expired, until
  somebody looks up that very address.
\<close>
theorem desktop_domain_cache_never_evicts:
  assumes "ip \<in> answer_ips answers" and "cache_normalize_domain query \<noteq> []"
  shows "map_of (dc_ips (fold (\<lambda>(t, q, as). record_resolution t q as) later
    (record_resolution now query answers c))) ip \<noteq> None"
proof -
  have "map_of (dc_ips (record_resolution now query answers c)) ip \<noteq> None"
    using assms by (simp add: record_resolution_def Let_def record_answers_keeps del: not_None_eq)
  then show ?thesis by (rule resolutions_keep)
qed

theorem desktop_domain_cache_never_evicts_witness:
  "map_of (dc_ips (fold (\<lambda>(t, q, as). record_resolution t q as) [(1000000, ''c'', [''5.6.7.8''])]
    (record_resolution 0 ''A.b.'' [''1.2.3.4''] (domain_cache_new 300)))) (V4 [1, 2, 3, 4]) \<noteq> None"
proof -
  have "cache_normalize_domain ''A.b.'' = ''a.b''" by code_simp
  then have n: "cache_normalize_domain ''A.b.'' \<noteq> []" by simp
  have "parse_ip ''1.2.3.4'' = Some (V4 [1, 2, 3, 4])" by code_simp
  then have "V4 [1, 2, 3, 4] \<in> answer_ips [''1.2.3.4'']" by (simp add: answer_ips_def)
  from desktop_domain_cache_never_evicts [OF this n] show ?thesis .
qed

end
