(* ===== verification/Direct_Access.thy ===== *)
theory Direct_Access
  imports Net_Addr Messages
begin

text \<open>
  The rules that decide whether an agent connects to a target itself or through the proxy
  (\<open>desktop-agent-be/src/direct_access.rs\<close> and its Android counterpart
  \<open>android-agent/native/src/direct_access.rs\<close>), and the addresses it connects to. The two agents
  differ in how they trim a rule before they parse it; everything else is the same text.

  \<open>str::to_lowercase\<close> depends on the Unicode tables and is an argument \<open>lower\<close>; \<open>lower_ascii\<close> states
  what it does on ASCII text.
\<close>

unbundle bit_operations_syntax

section \<open>Rules\<close>

definition FORCE_PROXY_DOMAIN_SUFFIXES :: "string list" where
  "FORCE_PROXY_DOMAIN_SUFFIXES =
     [''google.com'', ''google.cn'', ''googleapis.com'', ''googleapis.cn'', ''googleusercontent.com'',
      ''gstatic.com'', ''gvt1.com'', ''gvt2.com'', ''youtube.com'', ''youtube-nocookie.com'',
      ''ytimg.com'', ''googlevideo.com'', ''ggpht.com'', ''xn--ngstr-lra8j.com'']"

datatype DirectAccessMode = ProxyAll | DirectAll | Rules

record DirectAccessConfig =
  da_mode :: DirectAccessMode
  da_rules :: "string list"

datatype ParsedRule =
    ExactDomain string
  | WildcardDomain string
  | ExactIp IpAddr
  | CidrV4 u32 u32
  | CidrV6 u128 u128

record DirectAccessChecker =
  ch_mode :: DirectAccessMode
  ch_rules :: "ParsedRule list"

definition u128_from_be :: "bytes \<Rightarrow> u128" where
  "u128_from_be bs = word_of_nat (nat_of_be bs)"

definition cidr_mask :: "nat \<Rightarrow> 'a::len word" where
  "cidr_mask prefix_len = (if prefix_len = 0 then 0 else push_bit (LENGTH('a) - prefix_len) (- 1))"

text \<open>The part of \<open>parse_rule\<close> after the text has been trimmed.\<close>

definition parse_trimmed_rule :: "(string \<Rightarrow> string) \<Rightarrow> string \<Rightarrow> ParsedRule option" where
  "parse_trimmed_rule lower rule =
     (if rule = [] then None
      else case split_once ''/'' rule of
        Some (ip_str, prefix_str) \<Rightarrow>
          (case parse_uint 255 prefix_str of
             None \<Rightarrow> None
           | Some prefix_len \<Rightarrow>
               (case parse_ipv4 ip_str of
                  Some ip \<Rightarrow>
                    if prefix_len > 32 then None
                    else let msk = cidr_mask prefix_len
                         in Some (CidrV4 (u32_from_be ip AND msk) msk)
                | None \<Rightarrow>
                    (case parse_ipv6 ip_str of
                       Some ip \<Rightarrow>
                         if prefix_len > 128 then None
                         else let msk = cidr_mask prefix_len
                              in Some (CidrV6 (u128_from_be ip AND msk) msk)
                     | None \<Rightarrow> None)))
      | None \<Rightarrow>
          (case parse_ip rule of
             Some ip \<Rightarrow> Some (ExactIp ip)
           | None \<Rightarrow>
               (case strip_prefix ''*.'' rule of
                  Some suf \<Rightarrow> Some (WildcardDomain (''.'' @ lower suf))
                | None \<Rightarrow> Some (ExactDomain (lower rule)))))"

definition parse_rule :: "(string \<Rightarrow> string) \<Rightarrow> string \<Rightarrow> ParsedRule option" where
  "parse_rule lower rule = parse_trimmed_rule lower (trim rule)"

definition android_parse_rule :: "(string \<Rightarrow> string) \<Rightarrow> string \<Rightarrow> ParsedRule option" where
  "android_parse_rule lower rule = parse_trimmed_rule lower (trim_end_char (CHR ''.'') (trim rule))"

definition checker_new ::
  "(string \<Rightarrow> ParsedRule option) \<Rightarrow> DirectAccessConfig \<Rightarrow> DirectAccessChecker" where
  "checker_new parse config =
     \<lparr>ch_mode = da_mode config, ch_rules = List.map_filter parse (da_rules config)\<rparr>"

definition desktop_checker :: "(string \<Rightarrow> string) \<Rightarrow> DirectAccessConfig \<Rightarrow> DirectAccessChecker" where
  "desktop_checker lower config = checker_new (parse_rule lower) config"

definition android_checker :: "(string \<Rightarrow> string) \<Rightarrow> DirectAccessConfig \<Rightarrow> DirectAccessChecker" where
  "android_checker lower config = checker_new (android_parse_rule lower) config"

section \<open>Matching\<close>

fun match_domain :: "ParsedRule \<Rightarrow> string \<Rightarrow> bool" where
  "match_domain (ExactDomain d) host \<longleftrightarrow> host = d"
| "match_domain (WildcardDomain suf) host \<longleftrightarrow> ends_with host suf \<and> length host > length suf"
| "match_domain _ host \<longleftrightarrow> False"

fun match_ip :: "ParsedRule \<Rightarrow> IpAddr \<Rightarrow> bool" where
  "match_ip (ExactIp rule_ip) ip \<longleftrightarrow> rule_ip = ip"
| "match_ip (CidrV4 network msk) (V4 v4) \<longleftrightarrow> u32_from_be v4 AND msk = network"
| "match_ip (CidrV6 network msk) (V6 v6) \<longleftrightarrow> u128_from_be v6 AND msk = network"
| "match_ip _ _ \<longleftrightarrow> False"

definition normalize_domain :: "(string \<Rightarrow> string) \<Rightarrow> string \<Rightarrow> string" where
  "normalize_domain lower host = lower (trim_end_char (CHR ''.'') (trim host))"

definition is_force_proxy_domain :: "string \<Rightarrow> bool" where
  "is_force_proxy_domain host \<longleftrightarrow>
     list_ex (\<lambda>suf. host = suf \<or> ends_with host (''.'' @ suf)) FORCE_PROXY_DOMAIN_SUFFIXES"

definition matches_any_rule :: "(string \<Rightarrow> string) \<Rightarrow> DirectAccessChecker \<Rightarrow> Address \<Rightarrow> bool" where
  "matches_any_rule lower c address =
     (case address of
        Domain host port \<Rightarrow>
          let host_lower = normalize_domain lower host
          in (case parse_ip host_lower of
                Some ip \<Rightarrow> list_ex (\<lambda>rule. match_ip rule ip) (ch_rules c)
              | None \<Rightarrow>
                  if is_force_proxy_domain host_lower then False
                  else list_ex (\<lambda>rule. match_domain rule host_lower) (ch_rules c))
      | Ipv4 addr port \<Rightarrow> list_ex (\<lambda>rule. match_ip rule (V4 addr)) (ch_rules c)
      | Ipv6 addr port \<Rightarrow> list_ex (\<lambda>rule. match_ip rule (V6 addr)) (ch_rules c)
      | _ \<Rightarrow> False)"

definition is_direct :: "(string \<Rightarrow> string) \<Rightarrow> DirectAccessChecker \<Rightarrow> Address \<Rightarrow> bool" where
  "is_direct lower c address =
     (case ch_mode c of
        ProxyAll \<Rightarrow> False | DirectAll \<Rightarrow> True | Rules \<Rightarrow> matches_any_rule lower c address)"

definition is_direct_domain :: "(string \<Rightarrow> string) \<Rightarrow> DirectAccessChecker \<Rightarrow> string \<Rightarrow> bool" where
  "is_direct_domain lower c host =
     (let host_lower = normalize_domain lower host
      in case ch_mode c of
           ProxyAll \<Rightarrow> False
         | DirectAll \<Rightarrow> True
         | Rules \<Rightarrow> \<not> is_force_proxy_domain host_lower \<and>
             list_ex (\<lambda>rule. match_domain rule host_lower) (ch_rules c))"

fun is_domain_rule :: "ParsedRule \<Rightarrow> bool" where
  "is_domain_rule (ExactDomain _) \<longleftrightarrow> True"
| "is_domain_rule (WildcardDomain _) \<longleftrightarrow> True"
| "is_domain_rule _ \<longleftrightarrow> False"

definition has_domain_direct_rules :: "DirectAccessChecker \<Rightarrow> bool" where
  "has_domain_direct_rules c \<longleftrightarrow> ch_mode c = Rules \<and> list_ex is_domain_rule (ch_rules c)"

section \<open>Connectable text\<close>

fun address_to_string :: "Address \<Rightarrow> string" where
  "address_to_string (Domain host port) = host @ '':'' @ show_u16 port"
| "address_to_string (Ipv4 addr port) = show_ipv4 addr @ '':'' @ show_u16 port"
| "address_to_string (Ipv6 addr port) = ''['' @ show_ipv6 addr @ '']:'' @ show_u16 port"
| "address_to_string (ProxyDns port) = ''proxy-dns:'' @ show_u16 port"
| "address_to_string UdpRelay = ''udp-relay''"

section \<open>Facts\<close>

definition ascii :: "string \<Rightarrow> bool" where
  "ascii s \<longleftrightarrow> list_all (\<lambda>c. (of_char c :: nat) < 128) s"

definition lower_ascii :: "(string \<Rightarrow> string) \<Rightarrow> bool" where
  "lower_ascii lower \<longleftrightarrow> (\<forall>s. ascii s \<longrightarrow> lower s = to_ascii_lowercase s)"

text \<open>An address is in a network exactly when it agrees with it on the first bits.\<close>

lemma cidr_mask_eq:
  fixes a b :: "'a::len word"
  assumes "n \<le> LENGTH('a)"
  shows "b AND cidr_mask n = a AND cidr_mask n \<longleftrightarrow>
    unat b div 2 ^ (LENGTH('a) - n) = unat a div 2 ^ (LENGTH('a) - n)"
proof -
  let ?k = "LENGTH('a) - n"
  have msk: "cidr_mask n = (push_bit ?k (- 1) :: 'a word)"
  proof (cases "n = 0")
    case True
    then have "(push_bit ?k (- 1) :: 'a word) = 0"
      by (intro bit_word_eqI) (simp add: bit_simps)
    then show ?thesis
      using True by (simp add: cidr_mask_def)
  qed (simp add: cidr_mask_def)
  have keep: "w AND push_bit ?k (- 1) = push_bit ?k (drop_bit ?k w)" for w :: "'a word"
    by (rule bit_word_eqI) (auto simp: bit_simps)
  have "push_bit ?k (drop_bit ?k b) = push_bit ?k (drop_bit ?k a) \<longleftrightarrow>
      drop_bit ?k b = drop_bit ?k a" (is "?l \<longleftrightarrow> ?r")
  proof
    assume ?l
    then have "drop_bit ?k (push_bit ?k (drop_bit ?k b)) = drop_bit ?k (push_bit ?k (drop_bit ?k a))"
      by simp
    moreover have "drop_bit ?k (push_bit ?k (drop_bit ?k w)) = drop_bit ?k w" for w :: "'a word"
      by (rule bit_word_eqI) (auto simp: bit_simps dest: bit_imp_le_length)
    ultimately show ?r
      by simp
  qed simp
  moreover have "unat (drop_bit ?k w) = unat w div 2 ^ ?k" for w :: "'a word"
    by (simp only: drop_bit_eq_div [symmetric]) (simp add: unsigned_drop_bit_eq drop_bit_take_bit
        take_bit_nat_eq_self unsigned_less order_le_less_trans [OF div_le_dividend] flip: drop_bit_eq_div)
  then have "drop_bit ?k b = drop_bit ?k a \<longleftrightarrow> unat b div 2 ^ ?k = unat a div 2 ^ ?k"
    by (simp only: word_unat_eq_iff)
  ultimately show ?thesis
    by (simp only: msk keep)
qed

text \<open>The text of a network rule.\<close>

lemma split_once_char:
  "c \<notin> set a \<Longrightarrow> split_once [c] (a @ c # b) = Some (a, b)"
  by (induction a) auto

lemma parse_cidr:
  assumes "CHR ''/'' \<notin> set ip" and "parse_uint 255 n = Some len"
  shows "parse_trimmed_rule lower (ip @ ''/'' @ n) =
    (case parse_ipv4 ip of
       Some o4 \<Rightarrow> if len > 32 then None
         else Some (CidrV4 (u32_from_be o4 AND cidr_mask len) (cidr_mask len))
     | None \<Rightarrow> (case parse_ipv6 ip of
         Some o6 \<Rightarrow> if len > 128 then None
           else Some (CidrV6 (u128_from_be o6 AND cidr_mask len) (cidr_mask len))
       | None \<Rightarrow> None))"
  using split_once_char [OF assms(1), of n] assms(2)
  by (simp add: parse_trimmed_rule_def Let_def split: option.splits)

text \<open>
  What both agents' checkers promise, whatever parses the rules: the interface the routing code
  relies on.
\<close>

locale direct_rules =
  fixes parse :: "string \<Rightarrow> ParsedRule option" and lower :: "string \<Rightarrow> string"
    and checker :: "DirectAccessConfig \<Rightarrow> DirectAccessChecker"
  assumes checker_mode: "ch_mode (checker config) = da_mode config"
    and checker_rules: "set (ch_rules (checker config)) = {r. \<exists>t\<in>set (da_rules config). parse t = Some r}"
begin

lemma domain_direct_iff:
  assumes "da_mode config = Rules" and "parse_ip (normalize_domain lower host) = None"
  shows "is_direct lower (checker config) (Domain host port) \<longleftrightarrow>
    \<not> is_force_proxy_domain (normalize_domain lower host) \<and>
    (\<exists>t\<in>set (da_rules config). \<exists>r. parse t = Some r \<and> match_domain r (normalize_domain lower host))"
  using assms checker_mode [of config] checker_rules [of config]
  by (auto simp: is_direct_def matches_any_rule_def Let_def list_ex_iff)

lemma domain_paths_agree:
  assumes "parse_ip (normalize_domain lower host) = None"
  shows "is_direct lower (checker config) (Domain host port) =
    is_direct_domain lower (checker config) host"
  using assms
  by (auto simp: is_direct_def is_direct_domain_def matches_any_rule_def Let_def
      split: DirectAccessMode.splits)

lemma forced_proxy:
  assumes "da_mode config = Rules" and "is_force_proxy_domain (normalize_domain lower host)"
    and "parse_ip (normalize_domain lower host) = None"
  shows "\<not> is_direct lower (checker config) (Domain host port) \<and>
    \<not> is_direct_domain lower (checker config) host"
  using assms domain_direct_iff [OF assms(1,3)] domain_paths_agree [OF assms(3), of config port]
  by auto

lemma no_domain_rules_useless:
  assumes "\<not> has_domain_direct_rules (checker config)" and "da_mode config = Rules"
  shows "\<not> is_direct_domain lower (checker config) host"
proof -
  have "\<not> match_domain r h" if "\<not> is_domain_rule r" for r h
    using that by (cases r) auto
  then show ?thesis
    using assms checker_mode [of config]
    by (auto simp: has_domain_direct_rules_def is_direct_domain_def Let_def list_ex_iff)
qed

end

lemma checker_new_rules:
  "ch_mode (checker_new parse config) = da_mode config"
  "set (ch_rules (checker_new parse config)) = {r. \<exists>t\<in>set (da_rules config). parse t = Some r}"
proof -
  show "set (ch_rules (checker_new parse config)) = {r. \<exists>t\<in>set (da_rules config). parse t = Some r}"
    by (auto simp: checker_new_def map_filter_def) force
qed (simp add: checker_new_def)

interpretation desktop: direct_rules "parse_rule lower" lower "desktop_checker lower"
  by unfold_locales (simp_all add: desktop_checker_def checker_new_rules)

interpretation android: direct_rules "android_parse_rule lower" lower "android_checker lower"
  by unfold_locales (simp_all add: android_checker_def checker_new_rules)

lemma trim_end_char_id: "s = [] \<or> last s \<noteq> c \<Longrightarrow> trim_end_char c s = s"
  by (cases s rule: rev_cases) (auto simp: trim_end_char_def)

lemma trim_end_char_last: "trim_end_char c s = [] \<or> last (trim_end_char c s) \<noteq> c"
  using hd_dropWhile [of "\<lambda>d. d = c" "rev s"]
  by (cases "dropWhile (\<lambda>d. d = c) (rev s) = []") (simp_all add: trim_end_char_def last_rev)

lemma map_filter_cong: "\<forall>x\<in>set xs. f x = g x \<Longrightarrow> List.map_filter f xs = List.map_filter g xs"
  by (induction xs) (auto simp: map_filter_simps split: option.splits)

lemma lower_dot: "last (to_ascii_lowercase s) = CHR ''.'' \<Longrightarrow> s \<noteq> [] \<Longrightarrow> last s = CHR ''.''"
proof -
  let ?low = "\<lambda>c. if 65 \<le> (of_char c :: nat) \<and> (of_char c :: nat) \<le> 90 then chr (of_char c + 32) else c"
  assume "last (to_ascii_lowercase s) = CHR ''.''" "s \<noteq> []"
  then have eq: "?low (last s) = CHR ''.''"
    by (simp add: to_ascii_lowercase_def last_map)
  show "last s = CHR ''.''"
  proof (cases "65 \<le> (of_char (last s) :: nat) \<and> (of_char (last s) :: nat) \<le> 90")
    case True
    then have "(of_char (?low (last s)) :: nat) = of_char (last s) + 32"
      by simp
    moreover have "(of_char (?low (last s)) :: nat) = of_char (CHR ''.'')"
      using eq by (rule arg_cong)
    moreover have "(of_char (CHR ''.'') :: nat) = 46"
      by simp
    ultimately show ?thesis
      using True by linarith
  next
    case False
    then show ?thesis
      using eq by (simp only: if_False)
  qed
qed

lemma set_trim_end_char: "set (trim_end_char c s) \<subseteq> set s"
  using set_dropWhileD [of _ "\<lambda>d. d = c" "rev s"] by (auto simp: trim_end_char_def)

lemma normalized_no_dot:
  assumes "lower_ascii lower" and "ascii host"
  shows "normalize_domain lower host = [] \<or> last (normalize_domain lower host) \<noteq> CHR ''.''"
proof -
  let ?h = "trim_end_char (CHR ''.'') (trim host)"
  have "ascii ?h"
    using assms(2) set_trim [of host] set_trim_end_char [of "CHR ''.''" "trim host"]
    by (auto simp: ascii_def list_all_iff)
  then have low: "normalize_domain lower host = to_ascii_lowercase ?h"
    using assms(1) by (simp add: normalize_domain_def lower_ascii_def)
  show ?thesis
  proof (cases "?h = []")
    case True
    then show ?thesis
      by (simp add: low to_ascii_lowercase_def)
  next
    case False
    then show ?thesis
      using lower_dot [of ?h] trim_end_char_last [of "CHR ''.''" "trim host"] low by auto
  qed
qed

lemma no_slash: "CHR ''/'' \<notin> set s \<Longrightarrow> split_once ''/'' s = None"
  by (induction s) auto

section \<open>Properties\<close>

text \<open>
  C38. A network rule means its network: the rule \<open>address/length\<close> is accepted exactly when the
  length is at most the width of the address, and then it covers exactly the addresses of the
  same family that agree with it on the first \<open>length\<close> bits, from the whole family at length 0 to
  the single address at full length.
\<close>

theorem cidr_rule_exact:
  assumes "trim rule = ip @ ''/'' @ n" and "CHR ''/'' \<notin> set ip" and "parse_uint 255 n = Some len"
  shows "(\<forall>o4. parse_ipv4 ip = Some o4 \<longrightarrow>
      (if len \<le> 32 then \<exists>r. parse_rule lower rule = Some r \<and> (\<forall>x. match_ip r x \<longleftrightarrow>
         (\<exists>a. x = V4 a \<and> unat (u32_from_be a) div 2 ^ (32 - len) =
            unat (u32_from_be o4) div 2 ^ (32 - len)))
       else parse_rule lower rule = None)) \<and>
    (\<forall>o6. parse_ipv4 ip = None \<longrightarrow> parse_ipv6 ip = Some o6 \<longrightarrow>
      (if len \<le> 128 then \<exists>r. parse_rule lower rule = Some r \<and> (\<forall>x. match_ip r x \<longleftrightarrow>
         (\<exists>a. x = V6 a \<and> unat (u128_from_be a) div 2 ^ (128 - len) =
            unat (u128_from_be o6) div 2 ^ (128 - len)))
       else parse_rule lower rule = None))"
proof -
  have rule: "parse_rule lower rule = parse_trimmed_rule lower (ip @ ''/'' @ n)"
    by (simp add: parse_rule_def assms(1))
  have v4: "match_ip (CidrV4 (u32_from_be o4 AND cidr_mask len) (cidr_mask len)) x \<longleftrightarrow>
      (\<exists>a. x = V4 a \<and> unat (u32_from_be a) div 2 ^ (32 - len) =
        unat (u32_from_be o4) div 2 ^ (32 - len))" if "len \<le> 32" for o4 x
    using cidr_mask_eq [where 'a = 32, of len] that by (cases x) simp_all
  have v6: "match_ip (CidrV6 (u128_from_be o6 AND cidr_mask len) (cidr_mask len)) x \<longleftrightarrow>
      (\<exists>a. x = V6 a \<and> unat (u128_from_be a) div 2 ^ (128 - len) =
        unat (u128_from_be o6) div 2 ^ (128 - len))" if "len \<le> 128" for o6 x
    using cidr_mask_eq [where 'a = 128, of len] that by (cases x) simp_all
  show ?thesis
    unfolding rule parse_cidr [OF assms(2,3)] using v4 v6 by auto
qed

theorem cidr_rule_exact_witness:
  "\<exists>r. parse_rule (\<lambda>s. s) '' 10.0.0.0/8 '' = Some r \<and>
     match_ip r (V4 [10, 250, 3, 4]) \<and> \<not> match_ip r (V4 [11, 0, 0, 0])"
proof -
  have "trim '' 10.0.0.0/8 '' = ''10.0.0.0'' @ ''/'' @ ''8''" "parse_uint 255 ''8'' = Some 8"
    "parse_ipv4 ''10.0.0.0'' = Some [10, 0, 0, 0]"
    by code_simp+
  from cidr_rule_exact [OF this(1) _ this(2), of "\<lambda>s. s"] this(3) show ?thesis
    by (auto simp: u32_from_be_def nat_of_be_def)
qed

text \<open>
  C39. In rules mode the services that must be proxied are never reached directly by name, on
  either agent, whatever the rules: neither when the target carries the name nor when the name is
  recovered for an address. By name both questions have the same answer.
\<close>

theorem forced_proxy_never_direct:
  assumes "da_mode config = Rules" and "parse_ip (normalize_domain lower host) = None"
    and "suf \<in> set FORCE_PROXY_DOMAIN_SUFFIXES"
    and "normalize_domain lower host = suf \<or> suffix (''.'' @ suf) (normalize_domain lower host)"
  shows "\<not> is_direct lower (desktop_checker lower config) (Domain host port) \<and>
    \<not> is_direct_domain lower (desktop_checker lower config) host \<and>
    \<not> is_direct lower (android_checker lower config) (Domain host port) \<and>
    \<not> is_direct_domain lower (android_checker lower config) host"
proof -
  have "is_force_proxy_domain (normalize_domain lower host)"
    using assms(3,4) by (auto simp: is_force_proxy_domain_def list_ex_iff ends_with_def)
  then show ?thesis
    using desktop.forced_proxy [OF assms(1) _ assms(2)] android.forced_proxy [OF assms(1) _ assms(2)]
    by blast
qed

theorem forced_proxy_never_direct_witness:
  "\<not> is_direct to_ascii_lowercase (desktop_checker to_ascii_lowercase
      \<lparr>da_mode = Rules, da_rules = [''*.com'', ''www.google.com'']\<rparr>) (Domain ''WWW.Google.com.'' 443)"
proof -
  let ?h = "normalize_domain to_ascii_lowercase ''WWW.Google.com.''"
  have "?h = ''www.google.com''"
    by code_simp
  moreover have "parse_ip ''www.google.com'' = None"
    by (rule parse_ip_name(1)) (simp_all add: hex_digit_def is_digit_def)
  moreover have "suffix (''.'' @ ''google.com'') ''www.google.com''"
    by (rule suffixI [where zs = "''www''"]) simp
  ultimately have n: "parse_ip ?h = None" "suffix (''.'' @ ''google.com'') ?h"
    by (simp_all only:)
  have s: "''google.com'' \<in> set FORCE_PROXY_DOMAIN_SUFFIXES"
    by (simp add: FORCE_PROXY_DOMAIN_SUFFIXES_def)
  show ?thesis
    by (rule conjunct1 [OF forced_proxy_never_direct [OF _ n(1) s]]) (simp, rule disjI2, rule n(2))
qed

text \<open>
  The desktop and the Android agent route alike on rules without a trailing dot: for such a
  configuration the two checkers are the same.
\<close>

theorem agents_agree_without_trailing_dot:
  assumes "\<forall>rule\<in>set (da_rules config). trim rule = [] \<or> last (trim rule) \<noteq> CHR ''.''"
  shows "android_checker lower config = desktop_checker lower config"
proof -
  have "android_parse_rule lower rule = parse_rule lower rule" if "rule \<in> set (da_rules config)" for rule
    using assms that by (simp add: android_parse_rule_def parse_rule_def trim_end_char_id)
  then have "List.map_filter (android_parse_rule lower) (da_rules config) =
      List.map_filter (parse_rule lower) (da_rules config)"
    by (intro map_filter_cong ballI)
  then show ?thesis
    by (simp add: android_checker_def desktop_checker_def checker_new_def)
qed

theorem agents_agree_without_trailing_dot_witness:
  "android_checker to_ascii_lowercase \<lparr>da_mode = Rules, da_rules = ['' *.Example.com '', ''10.0.0.0/8'']\<rparr> =
   desktop_checker to_ascii_lowercase \<lparr>da_mode = Rules, da_rules = ['' *.Example.com '', ''10.0.0.0/8'']\<rparr>"
proof (rule agents_agree_without_trailing_dot)
  have "trim '' *.Example.com '' = ''*.Example.com''" "trim ''10.0.0.0/8'' = ''10.0.0.0/8''"
    by code_simp+
  then show "\<forall>rule\<in>set (da_rules \<lparr>da_mode = Rules, da_rules = ['' *.Example.com '', ''10.0.0.0/8'']\<rparr>).
      trim rule = [] \<or> last (trim rule) \<noteq> CHR ''.''"
    by simp
qed

text \<open>
  A rule that is a domain with a trailing dot takes effect on the Android agent and is dead
  on the desktop agent: there it matches no host whatever, because hosts lose their trailing dots
  before they are compared and rules do not.
\<close>

theorem trailing_dot_rule_dead_on_desktop:
  assumes "lower_ascii lower" and "trim rule = d @ ''.''" and "ascii d" and "d \<noteq> []"
    and "last d \<noteq> CHR ''.''" and "CHR ''/'' \<notin> set d" and "parse_ip (d @ ''.'') = None" and "parse_ip d = None"
    and "\<not> prefix ''*.'' (d @ ''.'')" and "ascii host"
  shows "(\<exists>r. parse_rule lower rule = Some r \<and> \<not> match_domain r (normalize_domain lower host)) \<and>
    android_parse_rule lower rule = Some (ExactDomain (to_ascii_lowercase d))"
proof -
  have "ascii (d @ ''.'')" "CHR ''/'' \<notin> set (d @ ''.'')" "\<not> prefix ''*.'' d"
    using assms(3,6,9) by (auto simp: ascii_def)
  then have r: "parse_rule lower rule = Some (ExactDomain (to_ascii_lowercase (d @ ''.'')))"
    and a: "parse_trimmed_rule lower d = Some (ExactDomain (to_ascii_lowercase d))"
    using assms no_slash [of "d @ ''.''"] no_slash [of d]
    by (simp_all add: parse_rule_def parse_trimmed_rule_def strip_prefix_def lower_ascii_def)
  have "trim_end_char (CHR ''.'') (d @ ''.'') = d"
    using assms(5) trim_end_char_id [of d "CHR ''.''"] by (simp add: trim_end_char_def)
  then have "android_parse_rule lower rule = Some (ExactDomain (to_ascii_lowercase d))"
    using a assms(2) by (simp only: android_parse_rule_def)
  moreover have "last (to_ascii_lowercase (d @ ''.'')) = CHR ''.''"
    by (simp add: to_ascii_lowercase_def)
  then have "normalize_domain lower host \<noteq> to_ascii_lowercase (d @ ''.'')"
    using normalized_no_dot [OF assms(1,10)] by (auto simp: to_ascii_lowercase_def)
  ultimately show ?thesis
    using r by simp
qed

theorem trailing_dot_rule_dead_on_desktop_witness:
  "(\<exists>r. parse_rule to_ascii_lowercase ''www.lan.'' = Some r \<and>
      \<not> match_domain r (normalize_domain to_ascii_lowercase ''www.lan.'')) \<and>
   android_parse_rule to_ascii_lowercase ''www.lan.'' = Some (ExactDomain ''www.lan'')"
proof -
  have "trim ''www.lan.'' = ''www.lan'' @ ''.''" "to_ascii_lowercase ''www.lan'' = ''www.lan''"
    by code_simp+
  moreover have "parse_ip (CHR ''w'' # s) = None" for s
    by (rule parse_ip_name(1)) (simp_all add: hex_digit_def is_digit_def)
  moreover have "lower_ascii to_ascii_lowercase" "ascii ''www.lan''" "ascii ''www.lan.''"
    by (simp_all add: lower_ascii_def ascii_def)
  ultimately show ?thesis
    using trailing_dot_rule_dead_on_desktop [of to_ascii_lowercase "''www.lan.''" "''www.lan''" "''www.lan.''"]
    by simp
qed

end
