(* ===== verification/Dns_Proxy.thy ===== *)
theory Dns_Proxy
  imports Dns_Parser Domain_Cache Direct_Access "HOL-Library.Multiset"
begin

text \<open>
  The DNS forwarder of the agents: \<open>desktop-agent-be/src/tun_handler/dns_proxy.rs\<close> and
  \<open>android-agent/native/src/netstack/dns_proxy.rs\<close>. Queries of many clients share one
  connection to the proxy, so their transaction ids are rewritten on the way out and restored on
  the way back; answers are cached. The loop is a step relation. Times are milliseconds, a call
  takes place at one instant \<open>now\<close>, and a Rust panic is the value \<open>None\<close>. The two agents run the
  same loop; they differ in how they answer a query without the proxy, which is a parameter of
  the relation.
\<close>

section \<open>Transaction ids\<close>

definition dns_id :: "bytes \<Rightarrow> u16 option" where
  "dns_id packet = map_option u16_from_be (get_range packet 0 2)"

text \<open>Writing to a packet of fewer than two bytes panics.\<close>

definition write_dns_id :: "bytes \<Rightarrow> u16 \<Rightarrow> bytes option" where
  "write_dns_id packet tid = (if length packet < 2 then None else Some (u16_to_be tid @ drop 2 packet))"

fun allocate_loop :: "nat \<Rightarrow> (u16 \<times> 'p) list \<Rightarrow> u16 \<Rightarrow> u16 option \<times> u16" where
  "allocate_loop 0 pending next_id = (None, next_id)"
| "allocate_loop (Suc n) pending next_id =
     (if map_of pending next_id = None then (Some next_id, next_id + 1)
      else allocate_loop n pending (next_id + 1))"

definition allocate_dns_id :: "(u16 \<times> 'p) list \<Rightarrow> u16 \<Rightarrow> u16 option \<times> u16" where
  "allocate_dns_id pending next_id = allocate_loop 65536 pending next_id"

section \<open>The response cache\<close>

definition DNS_PENDING_TTL :: nat where "DNS_PENDING_TTL = 10000"
definition DNS_PROXY_CONNECTION_IDLE :: nat where "DNS_PROXY_CONNECTION_IDLE = 15000"
definition DNS_RESPONSE_CACHE_MAX_ENTRIES :: nat where "DNS_RESPONSE_CACHE_MAX_ENTRIES = 4096"
definition DNS_RESPONSE_CACHE_MAX_TTL :: nat where "DNS_RESPONSE_CACHE_MAX_TTL = 300000"

record DnsCacheKey =
  dk_query :: string
  dk_record_type :: string

record CachedDnsResponse =
  cd_packet :: bytes
  cd_expires_at :: nat

type_synonym DnsResponseCache = "(DnsCacheKey \<times> CachedDnsResponse) list"

definition dns_cache_key :: "string \<Rightarrow> string \<Rightarrow> DnsCacheKey" where
  "dns_cache_key query record_type =
     \<lparr>dk_query = to_ascii_lowercase (trim_end_char CHR ''.'' (trim query)),
      dk_record_type = to_ascii_uppercase record_type\<rparr>"

definition dns_cleanup_expired :: "nat \<Rightarrow> DnsResponseCache \<Rightarrow> DnsResponseCache" where
  "dns_cleanup_expired now entries = filter (\<lambda>(k, e). cd_expires_at e > now) entries"

definition evict_one :: "DnsResponseCache \<Rightarrow> DnsResponseCache" where
  "evict_one entries =
     (case min_by_key (\<lambda>(k, e). cd_expires_at e) entries of
        Some (key, _) \<Rightarrow> AList.delete key entries
      | None \<Rightarrow> entries)"

definition dns_cache_get ::
  "nat \<Rightarrow> string \<Rightarrow> string \<Rightarrow> u16 \<Rightarrow> DnsResponseCache \<Rightarrow> (DnsResponseCache \<times> bytes option) option" where
  "dns_cache_get now query record_type request_id entries =
     (let entries = dns_cleanup_expired now entries; key = dns_cache_key query record_type
      in case map_of entries key of
           None \<Rightarrow> Some (entries, None)
         | Some entry \<Rightarrow>
             if cd_expires_at entry \<le> now then Some (AList.delete key entries, None)
             else do {
               packet \<leftarrow> write_dns_id (cd_packet entry) request_id;
               Some (entries, Some packet)
             })"

definition dns_cache_insert ::
  "nat \<Rightarrow> string \<Rightarrow> string \<Rightarrow> DnsResponseSummary \<Rightarrow> bytes \<Rightarrow> DnsResponseCache \<Rightarrow> DnsResponseCache option" where
  "dns_cache_insert now query record_type summary response entries =
     (if rs_status summary \<noteq> ''NOERROR'' \<or> rs_answers summary = [] then Some entries
      else case rs_min_ttl summary of
        None \<Rightarrow> Some entries
      | Some ttl_secs \<Rightarrow>
          if ttl_secs = 0 then Some entries
          else
            let entries = dns_cleanup_expired now entries;
                entries = (if length entries \<ge> DNS_RESPONSE_CACHE_MAX_ENTRIES
                           then evict_one entries else entries)
            in do {
              packet \<leftarrow> write_dns_id response 0;
              Some (AList.update (dns_cache_key query record_type)
                \<lparr>cd_packet = packet,
                 cd_expires_at = now + min (unat ttl_secs * 1000) DNS_RESPONSE_CACHE_MAX_TTL\<rparr> entries)
            })"

section \<open>State of the forwarder\<close>

record DnsProxyRequest =
  rq_client :: SocketAddr
  rq_target :: SocketAddr
  rq_packet :: bytes

record PendingDnsRequest =
  pd_client :: SocketAddr
  pd_target :: SocketAddr
  pd_original_id :: u16
  pd_query :: string
  pd_record_type :: string
  pd_started_at :: nat
  pd_expires_at :: nat

text \<open>A telemetry record, without its wall clock time.\<close>

record DnsResolutionRecord =
  dr_resolver :: string
  dr_client :: string
  dr_upstream :: string
  dr_query :: string
  dr_record_type :: string
  dr_status :: string
  dr_answers :: "string list"
  dr_duration_ms :: nat

text \<open>
  The variables of \<open>run_dns_proxy\<close> and what it has done so far: the requests taken from the
  channel, the packets written upstream, the packets handed to the network stack (packet, source,
  destination) and the telemetry. \<open>'c\<close> is the domain cache of the agent.
\<close>

record 'c dns_proxy =
  dx_running :: bool
  dx_connected :: bool
  dx_pending :: "(u16 \<times> PendingDnsRequest) list"
  dx_cache :: DnsResponseCache
  dx_next_id :: u16
  dx_retry :: "DnsProxyRequest option"
  dx_delay :: nat
  dx_idle :: nat
  dx_domains :: 'c
  dx_received :: "DnsProxyRequest list"
  dx_written :: "bytes list"
  dx_sent :: "(bytes \<times> SocketAddr \<times> SocketAddr) list"
  dx_log :: "DnsResolutionRecord list"

definition dns_proxy_init :: "'c \<Rightarrow> 'c dns_proxy" where
  "dns_proxy_init domains = \<lparr>dx_running = True, dx_connected = False, dx_pending = [], dx_cache = [],
     dx_next_id = 0, dx_retry = None, dx_delay = 200, dx_idle = 0, dx_domains = domains,
     dx_received = [], dx_written = [], dx_sent = [], dx_log = []\<rparr>"

type_synonym 'c recorder = "nat \<Rightarrow> string \<Rightarrow> string list \<Rightarrow> 'c \<Rightarrow> 'c"

definition summary_or_invalid :: "bytes \<Rightarrow> DnsResponseSummary" where
  "summary_or_invalid response =
     (case parse_dns_response response of
        Some s \<Rightarrow> s
      | None \<Rightarrow> \<lparr>rs_status = ''INVALID'', rs_answers = [], rs_min_ttl = None\<rparr>)"

section \<open>Operations\<close>

definition try_send_cached_dns_response ::
  "read_message \<Rightarrow> 'c recorder \<Rightarrow> nat \<Rightarrow> DnsProxyRequest \<Rightarrow> 'c dns_proxy \<Rightarrow> ('c dns_proxy \<times> bool) option" where
  "try_send_cached_dns_response read rec now request st =
     (case dns_id (rq_packet request) of
        None \<Rightarrow> Some (st, False)
      | Some original_id \<Rightarrow>
     (case parse_dns_query read (rq_packet request) of
        None \<Rightarrow> Some (st, False)
      | Some (query, record_type) \<Rightarrow> do {
          (cache, hit) \<leftarrow> dns_cache_get now query record_type original_id (dx_cache st);
          (case hit of
             None \<Rightarrow> Some (st\<lparr>dx_cache := cache\<rparr>, False)
           | Some response \<Rightarrow>
               let summary = summary_or_invalid response
               in Some (st\<lparr>dx_cache := cache,
                    dx_domains := rec now query (rs_answers summary) (dx_domains st),
                    dx_log := dx_log st @ [\<lparr>dr_resolver = ''agent-cache'',
                      dr_client = show_socket_addr (rq_client request),
                      dr_upstream = show_socket_addr (rq_target request), dr_query = query,
                      dr_record_type = record_type, dr_status = rs_status summary,
                      dr_answers = rs_answers summary, dr_duration_ms = 0\<rparr>],
                    dx_sent := dx_sent st @ [(response, rq_target request, rq_client request)]\<rparr>, True))
        }))"

definition timeout_record :: "nat \<Rightarrow> PendingDnsRequest \<Rightarrow> DnsResolutionRecord" where
  "timeout_record now p = \<lparr>dr_resolver = ''agent'', dr_client = show_socket_addr (pd_client p),
     dr_upstream = show_socket_addr (pd_target p), dr_query = pd_query p,
     dr_record_type = pd_record_type p, dr_status = ''TIMEOUT'', dr_answers = [],
     dr_duration_ms = now - pd_started_at p\<rparr>"

definition cleanup_pending_dns :: "nat \<Rightarrow> 'c dns_proxy \<Rightarrow> 'c dns_proxy" where
  "cleanup_pending_dns now st =
     (let expired = filter (\<lambda>(i, p). pd_expires_at p \<le> now) (dx_pending st)
      in st\<lparr>dx_pending := filter (\<lambda>(i, p). \<not> pd_expires_at p \<le> now) (dx_pending st),
            dx_log := dx_log st @ map (\<lambda>(i, p). timeout_record now p) expired\<rparr>)"

text \<open>
  \<open>write_ok\<close> is the outcome of writing and flushing; the result says whether the request was
  written or dropped (\<open>Ok\<close>) or the connection failed.
\<close>

definition send_dns_request ::
  "read_message \<Rightarrow> nat \<Rightarrow> bool \<Rightarrow> DnsProxyRequest \<Rightarrow> 'c dns_proxy \<Rightarrow> ('c dns_proxy \<times> bool) option" where
  "send_dns_request read now write_ok request st =
     (case dns_id (rq_packet request) of
        None \<Rightarrow> Some (st, True)
      | Some original_id \<Rightarrow>
          let (query, record_type) = (case parse_dns_query read (rq_packet request) of
                Some q \<Rightarrow> q | None \<Rightarrow> (''<unknown>'', ''UNKNOWN''));
              st = cleanup_pending_dns now st;
              (upstream_id, next_id) = allocate_dns_id (dx_pending st) (dx_next_id st);
              st = st\<lparr>dx_next_id := next_id\<rparr>
          in case upstream_id of
               None \<Rightarrow> Some (st, True)
             | Some uid \<Rightarrow> do {
                 packet \<leftarrow> write_dns_id (rq_packet request) uid;
                 let entry = \<lparr>pd_client = rq_client request, pd_target = rq_target request,
                       pd_original_id = original_id, pd_query = query, pd_record_type = record_type,
                       pd_started_at = now, pd_expires_at = now + DNS_PENDING_TTL\<rparr>;
                     st = st\<lparr>dx_pending := AList.update uid entry (dx_pending st)\<rparr>
                 in if write_ok then Some (st\<lparr>dx_written := dx_written st @ [packet]\<rparr>, True)
                    else Some (st\<lparr>dx_pending := AList.delete uid (dx_pending st)\<rparr>, False)
               })"

definition handle_dns_response ::
  "'c recorder \<Rightarrow> nat \<Rightarrow> bytes \<Rightarrow> 'c dns_proxy \<Rightarrow> 'c dns_proxy option" where
  "handle_dns_response rec now response st =
     (case dns_id response of
        None \<Rightarrow> Some st
      | Some upstream_id \<Rightarrow>
     (case map_of (dx_pending st) upstream_id of
        None \<Rightarrow> Some st
      | Some request \<Rightarrow>
          let st = st\<lparr>dx_pending := AList.delete upstream_id (dx_pending st)\<rparr>;
              summary = summary_or_invalid response
          in do {
            cache \<leftarrow> dns_cache_insert now (pd_query request) (pd_record_type request) summary response
                      (dx_cache st);
            packet \<leftarrow> write_dns_id response (pd_original_id request);
            Some (st\<lparr>dx_cache := cache,
              dx_domains := rec now (pd_query request) (rs_answers summary) (dx_domains st),
              dx_log := dx_log st @ [\<lparr>dr_resolver = ''agent'',
                dr_client = show_socket_addr (pd_client request),
                dr_upstream = show_socket_addr (pd_target request), dr_query = pd_query request,
                dr_record_type = pd_record_type request, dr_status = rs_status summary,
                dr_answers = rs_answers summary, dr_duration_ms = now - pd_started_at request\<rparr>],
              dx_sent := dx_sent st @ [(packet, pd_target request, pd_client request)]\<rparr>)
          }))"

section \<open>Direct answers of the Android agent\<close>

record DnsQuestion =
  qn_query :: string
  qn_record_type :: string
  qn_question_end :: nat

definition parse_dns_question :: "read_message \<Rightarrow> bytes \<Rightarrow> DnsQuestion option" where
  "parse_dns_question read packet = do {
     parsed \<leftarrow> parse_dns_query_packet read packet;
     (_, offset) \<leftarrow> parse_dns_name packet 12;
     offset \<leftarrow> checked_add_usize offset 2;
     _ \<leftarrow> read_u16 packet offset;
     offset \<leftarrow> checked_add_usize offset 2;
     if offset > length packet then None
     else Some \<lparr>qn_query = dq_query parsed, qn_record_type = dq_record_type parsed,
                qn_question_end = offset\<rparr>
   }"

definition build_dns_error_response :: "read_message \<Rightarrow> bytes \<Rightarrow> u16 \<Rightarrow> bytes option" where
  "build_dns_error_response read request rcode = do {
     question \<leftarrow> parse_dns_question read request;
     let request_flags = (case read_u16 request 2 of Some f \<Rightarrow> f | None \<Rightarrow> 0);
     let flags = 0x8000 OR (request_flags AND 0x0100) OR 0x0080 OR (rcode AND 0x000F);
     head \<leftarrow> get_range request 0 2;
     section \<leftarrow> get_range request 12 (qn_question_end question);
     Some (head @ u16_to_be flags @ u16_to_be 1 @ u16_to_be 0 @ u16_to_be 0 @ u16_to_be 0 @ section)
   }"

text \<open>What \<open>timeout(query_direct_dns)\<close> gives: the first datagram the socket receives, or nothing.\<close>

datatype direct_outcome = DirectAnswer bytes | DirectError | DirectTimeout

definition direct_response :: "read_message \<Rightarrow> bytes \<Rightarrow> direct_outcome \<Rightarrow> bytes" where
  "direct_response read packet outcome =
     (case outcome of
        DirectAnswer response \<Rightarrow> response
      | _ \<Rightarrow> (case build_dns_error_response read packet 2 of Some r \<Rightarrow> r | None \<Rightarrow> []))"

definition try_send_direct_dns_response ::
  "read_message \<Rightarrow> 'c recorder \<Rightarrow> (string \<Rightarrow> bool) \<Rightarrow> direct_outcome \<Rightarrow> nat \<Rightarrow> nat \<Rightarrow> DnsProxyRequest \<Rightarrow>
   'c dns_proxy \<Rightarrow> ('c dns_proxy \<times> bool) option" where
  "try_send_direct_dns_response read rec direct_domain outcome started now request st =
     (case parse_dns_question read (rq_packet request) of
        None \<Rightarrow> Some (st, False)
      | Some question \<Rightarrow>
          if \<not> direct_domain (qn_query question) then Some (st, False)
          else
            let response = direct_response read (rq_packet request) outcome
            in if response = [] then Some (st, True)
               else
                 let summary = summary_or_invalid response
                 in do {
                   cache \<leftarrow> dns_cache_insert now (qn_query question) (qn_record_type question) summary
                             response (dx_cache st);
                   Some (st\<lparr>dx_cache := cache,
                     dx_domains := rec now (qn_query question) (rs_answers summary) (dx_domains st),
                     dx_log := dx_log st @ [\<lparr>dr_resolver = ''agent-direct'',
                       dr_client = show_socket_addr (rq_client request),
                       dr_upstream = show_socket_addr (rq_target request),
                       dr_query = qn_query question, dr_record_type = qn_record_type question,
                       dr_status = rs_status summary, dr_answers = rs_answers summary,
                       dr_duration_ms = now - started\<rparr>],
                     dx_sent := dx_sent st @ [(response, rq_target request, rq_client request)]\<rparr>, True)
                 })"

text \<open>
  The cached answer of the Android agent parses the question as well, and only then looks into
  the cache.
\<close>

definition android_try_cached ::
  "read_message \<Rightarrow> 'c recorder \<Rightarrow> nat \<Rightarrow> DnsProxyRequest \<Rightarrow> 'c dns_proxy \<Rightarrow> ('c dns_proxy \<times> bool) option" where
  "android_try_cached read rec now request st =
     (if parse_dns_question read (rq_packet request) = None then Some (st, False)
      else try_send_cached_dns_response read rec now request st)"

section \<open>The loop\<close>

text \<open>
  How an agent answers a request without the connection: the relation between the request and
  state and the new state with \<open>True\<close> when the request is dealt with.
\<close>

type_synonym 'c answering = "nat \<Rightarrow> DnsProxyRequest \<Rightarrow> 'c dns_proxy \<Rightarrow> 'c dns_proxy \<times> bool \<Rightarrow> bool"

definition desktop_answer :: "read_message \<Rightarrow> DirectDomainCache answering" where
  "desktop_answer read now request st r \<longleftrightarrow>
     try_send_cached_dns_response read record_resolution now request st = Some r"

definition android_answer ::
  "read_message \<Rightarrow> (string \<Rightarrow> bool) \<Rightarrow> AndroidDomainCache answering" where
  "android_answer read direct_domain now request st r \<longleftrightarrow>
     (\<exists>locked outcome later. do {
        (st, answered) \<leftarrow> android_try_cached read (android_record_resolution locked) now request st;
        if answered then Some (st, True)
        else try_send_direct_dns_response read (android_record_resolution locked) direct_domain outcome
               now (now + later) request st
      } = Some r)"

text \<open>The next request: the one kept for a retry, else one from the channel.\<close>

inductive next_request :: "'c dns_proxy \<Rightarrow> DnsProxyRequest \<Rightarrow> 'c dns_proxy \<Rightarrow> bool" where
  retry: "dx_retry st = Some r \<Longrightarrow> next_request st r (st\<lparr>dx_retry := None\<rparr>)"
| receive: "dx_retry st = None \<Longrightarrow> next_request st r (st\<lparr>dx_received := dx_received st @ [r]\<rparr>)"

text \<open>
  One turn of the outer loop (not connected) or of the inner loop (connected). The outer loop
  stops on a shutdown or a closed channel, also while it waits to reconnect; the inner loop
  leaves the connection when it is idle, closed or broken. \<open>locked\<close> says whether the domain
  cache's clean-up lock is taken.
\<close>

inductive dns_step ::
  "read_message \<Rightarrow> (bool \<Rightarrow> 'c recorder) \<Rightarrow> 'c answering \<Rightarrow> 'c dns_proxy \<Rightarrow> 'c dns_proxy \<Rightarrow> bool"
  for read rec answer where
  outer_answered:
    "dx_running st \<Longrightarrow> \<not> dx_connected st \<Longrightarrow> next_request st r st1 \<Longrightarrow>
     answer now r st1 (st2, True) \<Longrightarrow> dns_step read rec answer st st2"
| outer_failed:
    "dx_running st \<Longrightarrow> \<not> dx_connected st \<Longrightarrow> next_request st r st1 \<Longrightarrow>
     answer now r st1 (st2, False) \<Longrightarrow>
     dns_step read rec answer st
       (st2\<lparr>dx_delay := min (dx_delay st2 * 2) 5000, dx_retry := Some r\<rparr>)"
| outer_connected:
    "dx_running st \<Longrightarrow> \<not> dx_connected st \<Longrightarrow> next_request st r st1 \<Longrightarrow>
     answer now r st1 (st2, False) \<Longrightarrow>
     dns_step read rec answer st
       (st2\<lparr>dx_delay := 200, dx_connected := True, dx_idle := now + DNS_PROXY_CONNECTION_IDLE,
            dx_pending := [], dx_retry := Some r\<rparr>)"
| outer_stop:
    "dx_running st \<Longrightarrow> \<not> dx_connected st \<Longrightarrow> dns_step read rec answer st (st\<lparr>dx_running := False\<rparr>)"
| inner_answered:
    "dx_running st \<Longrightarrow> dx_connected st \<Longrightarrow> next_request st r st1 \<Longrightarrow>
     answer now r st1 (st2, True) \<Longrightarrow> dns_step read rec answer st st2"
| inner_sent:
    "dx_running st \<Longrightarrow> dx_connected st \<Longrightarrow> next_request st r st1 \<Longrightarrow>
     answer now r st1 (st2, False) \<Longrightarrow> send_dns_request read now w r st2 = Some (st3, True) \<Longrightarrow>
     dns_step read rec answer st (st3\<lparr>dx_idle := now + DNS_PROXY_CONNECTION_IDLE\<rparr>)"
| inner_write_failed:
    "dx_running st \<Longrightarrow> dx_connected st \<Longrightarrow> next_request st r st1 \<Longrightarrow>
     answer now r st1 (st2, False) \<Longrightarrow> send_dns_request read now w r st2 = Some (st3, False) \<Longrightarrow>
     dns_step read rec answer st (st3\<lparr>dx_retry := Some r, dx_connected := False\<rparr>)"
| inner_stop:
    "dx_running st \<Longrightarrow> dx_connected st \<Longrightarrow> dx_retry st = None \<Longrightarrow>
     dns_step read rec answer st (st\<lparr>dx_running := False\<rparr>)"
| inner_idle:
    "dx_running st \<Longrightarrow> dx_connected st \<Longrightarrow> dx_retry st = None \<Longrightarrow> dx_idle st \<le> now \<Longrightarrow>
     dns_step read rec answer st (st\<lparr>dx_connected := False\<rparr>)"
| inner_closed:
    "dx_running st \<Longrightarrow> dx_connected st \<Longrightarrow> dx_retry st = None \<Longrightarrow>
     dns_step read rec answer st (st\<lparr>dx_connected := False\<rparr>)"
| inner_cleanup:
    "dx_running st \<Longrightarrow> dx_connected st \<Longrightarrow> dx_retry st = None \<Longrightarrow>
     dns_step read rec answer st (cleanup_pending_dns now st)"
| inner_response:
    "dx_running st \<Longrightarrow> dx_connected st \<Longrightarrow> dx_retry st = None \<Longrightarrow> response \<noteq> [] \<Longrightarrow>
     handle_dns_response (rec locked) now response st = Some st1 \<Longrightarrow>
     dns_step read rec answer st (st1\<lparr>dx_idle := now + DNS_PROXY_CONNECTION_IDLE\<rparr>)"

definition desktop_run :: "read_message \<Rightarrow> nat \<Rightarrow> DirectDomainCache dns_proxy \<Rightarrow> bool" where
  "desktop_run read ttl st \<longleftrightarrow>
     (dns_step read (\<lambda>_. record_resolution) (desktop_answer read))\<^sup>*\<^sup>*
       (dns_proxy_init (domain_cache_new ttl)) st"

definition android_run ::
  "read_message \<Rightarrow> (string \<Rightarrow> bool) \<Rightarrow> nat \<Rightarrow> AndroidDomainCache dns_proxy \<Rightarrow> bool" where
  "android_run read direct_domain ttl st \<longleftrightarrow>
     (dns_step read android_record_resolution (android_answer read direct_domain))\<^sup>*\<^sup>*
       (dns_proxy_init (android_cache_new 0 ttl)) st"

section \<open>Facts on ids\<close>

lemma dns_id_Some: "dns_id packet = Some i \<longleftrightarrow> 2 \<le> length packet \<and> i = u16_from_be (take 2 packet)"
  by (auto simp: dns_id_def get_range_def)

lemma write_dns_id_Some:
  assumes "write_dns_id packet tid = Some q"
  shows "dns_id q = Some tid" "drop 2 q = drop 2 packet" "length q = length packet"
  using assms by (auto simp: write_dns_id_def dns_id_Some split: if_splits)

lemma write_dns_id_total: "2 \<le> length packet \<Longrightarrow> \<exists>q. write_dns_id packet tid = Some q"
  by (simp add: write_dns_id_def)

lemma allocate_loop_fresh:
  "allocate_loop n pending next_id = (Some i, next') \<Longrightarrow> map_of pending i = None"
  by (induction n pending next_id rule: allocate_loop.induct) (auto split: if_splits)

lemma allocate_loop_None:
  "fst (allocate_loop n pending next_id) = None \<longleftrightarrow>
   (\<forall>i < n. map_of pending (next_id + word_of_nat i) \<noteq> None)"
proof (induction n arbitrary: next_id)
  case (Suc n)
  have "(\<forall>i < Suc n. map_of pending (next_id + word_of_nat i) \<noteq> None) \<longleftrightarrow>
      map_of pending next_id \<noteq> None \<and> (\<forall>i < n. map_of pending (next_id + 1 + word_of_nat i) \<noteq> None)"
    by (simp add: All_less_Suc2 add.assoc)
  with Suc [of "next_id + 1"] show ?case by auto
qed simp

lemma allocate_dns_id_None:
  assumes "alist_ok pending"
  shows "fst (allocate_dns_id pending next_id) = None \<longleftrightarrow> 65536 \<le> length pending"
proof -
  have "fst (allocate_dns_id pending next_id) = None \<longleftrightarrow> (\<forall>k. map_of pending k \<noteq> None)"
  proof
    assume all: "fst (allocate_dns_id pending next_id) = None"
    show "\<forall>k. map_of pending k \<noteq> None"
    proof
      fix k
      have "unat (k - next_id) < 65536"
        using unsigned_less [of "k - next_id", where 'a = nat] by simp
      with all have "map_of pending (next_id + word_of_nat (unat (k - next_id))) \<noteq> None"
        unfolding allocate_dns_id_def allocate_loop_None by blast
      then show "map_of pending k \<noteq> None" by simp
    qed
  qed (auto simp: allocate_dns_id_def allocate_loop_None)
  also have "\<dots> \<longleftrightarrow> set (map fst pending) = UNIV" by (auto simp: map_of_eq_None_iff)
  also have "\<dots> \<longleftrightarrow> length pending = 65536"
  proof -
    have card: "card (set (map fst pending)) = length pending"
      using assms distinct_card [of "map fst pending"] by (simp add: alist_ok_def)
    have univ: "card (UNIV :: u16 set) = 65536" by (simp add: card_word)
    show ?thesis using card univ by (metis card_subset_eq finite subset_UNIV)
  qed
  also have "\<dots> \<longleftrightarrow> 65536 \<le> length pending"
  proof -
    have "length pending \<le> 65536"
      using assms distinct_card [of "map fst pending"] card_mono [of UNIV "set (map fst pending)"]
      by (simp add: alist_ok_def card_word)
    then show ?thesis by auto
  qed
  finally show ?thesis .
qed

section \<open>Facts on the cache\<close>

definition cache_ok :: "DnsResponseCache \<Rightarrow> bool" where
  "cache_ok entries \<longleftrightarrow> alist_ok entries \<and> length entries \<le> DNS_RESPONSE_CACHE_MAX_ENTRIES \<and>
     (\<forall>(k, e) \<in> set entries. 2 \<le> length (cd_packet e))"

lemma cache_ok_filter: "cache_ok entries \<Longrightarrow> cache_ok (filter P entries)"
  by (auto simp: cache_ok_def intro: order_trans [OF length_filter_le])

lemma cache_ok_delete: "cache_ok entries \<Longrightarrow> cache_ok (AList.delete k entries)"
  by (simp add: AList.delete_eq cache_ok_filter)

lemma cache_ok_cleanup: "cache_ok entries \<Longrightarrow> cache_ok (dns_cleanup_expired now entries)"
  by (simp add: dns_cleanup_expired_def cache_ok_filter)

lemma evict_one_room:
  assumes "cache_ok entries" "entries \<noteq> []"
  shows "cache_ok (evict_one entries)" "length (evict_one entries) < length entries"
proof -
  obtain k e where min: "min_by_key (\<lambda>(k, e). cd_expires_at e) entries = Some (k, e)"
    using assms(2) by (metis min_by_key_None not_None_eq surj_pair)
  then have "(k, e) \<in> set entries" using min_by_key_Some by fastforce
  then have "map_of entries k = Some e" using assms(1) by (simp add: cache_ok_def alist_ok_get)
  with min assms show "cache_ok (evict_one entries)" "length (evict_one entries) < length entries"
    by (simp_all add: evict_one_def cache_ok_delete length_delete_less)
qed

lemma cache_ok_update:
  assumes "cache_ok entries" "length entries < DNS_RESPONSE_CACHE_MAX_ENTRIES" "2 \<le> length (cd_packet e)"
  shows "cache_ok (AList.update k e entries)"
proof -
  have "length (AList.update k e entries) \<le> Suc (length entries)"
    by (cases "map_of entries k") (simp_all add: length_update_new length_update_old)
  moreover have "\<forall>(k, e) \<in> set (AList.update k e entries). 2 \<le> length (cd_packet e)"
  proof -
    have "set (AList.update k e entries) \<subseteq> insert (k, e) (set entries)"
      by (induction entries) auto
    with assms show ?thesis by (fastforce simp: cache_ok_def)
  qed
  ultimately show ?thesis using assms by (simp add: cache_ok_def)
qed

lemma dns_cache_insert_ok:
  assumes "cache_ok entries" "rs_status summary = ''NOERROR'' \<Longrightarrow> 2 \<le> length response"
  shows "\<exists>entries'. dns_cache_insert now q rt summary response entries = Some entries' \<and>
    cache_ok entries'"
proof -
  let ?c = "dns_cleanup_expired now entries"
  let ?r = "if length ?c \<ge> DNS_RESPONSE_CACHE_MAX_ENTRIES then evict_one ?c else ?c"
  have c: "cache_ok ?c" using assms(1) by (rule cache_ok_cleanup)
  have room: "cache_ok ?r" "length ?r < DNS_RESPONSE_CACHE_MAX_ENTRIES"
  proof -
    have "length ?c \<le> DNS_RESPONSE_CACHE_MAX_ENTRIES" using c by (simp add: cache_ok_def)
    moreover have "?c \<noteq> []" if "length ?c \<ge> DNS_RESPONSE_CACHE_MAX_ENTRIES"
      using that by (auto simp: DNS_RESPONSE_CACHE_MAX_ENTRIES_def)
    ultimately show "cache_ok ?r" "length ?r < DNS_RESPONSE_CACHE_MAX_ENTRIES"
      using c evict_one_room [OF c] by (auto simp del: length_greater_0_conv)
  qed
  have "\<exists>p. write_dns_id response 0 = Some p \<and> 2 \<le> length p" if "rs_status summary = ''NOERROR''"
    using assms(2) [OF that] write_dns_id_total write_dns_id_Some(3) by metis
  with assms(1) cache_ok_update [OF room] show ?thesis
    by (fastforce simp: dns_cache_insert_def Let_def split: option.splits)
qed

lemma dns_cache_get_ok:
  assumes "cache_ok entries"
  shows "\<exists>entries' hit. dns_cache_get now q rt i entries = Some (entries', hit) \<and> cache_ok entries' \<and>
    (\<forall>p. hit = Some p \<longrightarrow> dns_id p = Some i)"
proof -
  have c: "cache_ok (dns_cleanup_expired now entries)" using assms by (rule cache_ok_cleanup)
  have "\<exists>p. write_dns_id (cd_packet e) i = Some p \<and> dns_id p = Some i"
    if "map_of (dns_cleanup_expired now entries) k = Some e" for k e
  proof -
    have "2 \<le> length (cd_packet e)" using that c map_of_SomeD by (fastforce simp: cache_ok_def)
    then show ?thesis using write_dns_id_total write_dns_id_Some(1) by metis
  qed
  with c cache_ok_delete [OF c] show ?thesis
    by (fastforce simp: dns_cache_get_def Let_def split: option.splits)
qed

lemma noerror_long: "rs_status (summary_or_invalid r) = ''NOERROR'' \<Longrightarrow> 12 \<le> length r"
  by (auto simp: summary_or_invalid_def parse_dns_response_def split: option.splits if_splits)

section \<open>Accounting for replies\<close>

text \<open>
  Requests, outstanding requests and replies by client, target and what \<open>f\<close> keeps of the
  transaction id.
\<close>

definition req_key :: "(u16 option \<Rightarrow> 'k) \<Rightarrow> DnsProxyRequest \<Rightarrow> SocketAddr \<times> SocketAddr \<times> 'k" where
  "req_key f r = (rq_client r, rq_target r, f (dns_id (rq_packet r)))"

definition pend_key :: "(u16 option \<Rightarrow> 'k) \<Rightarrow> PendingDnsRequest \<Rightarrow> SocketAddr \<times> SocketAddr \<times> 'k" where
  "pend_key f p = (pd_client p, pd_target p, f (Some (pd_original_id p)))"

definition reply_key ::
  "(u16 option \<Rightarrow> 'k) \<Rightarrow> bytes \<times> SocketAddr \<times> SocketAddr \<Rightarrow> SocketAddr \<times> SocketAddr \<times> 'k" where
  "reply_key f reply = (case reply of (packet, target, client) \<Rightarrow> (client, target, f (dns_id packet)))"

definition open_keys :: "(u16 option \<Rightarrow> 'k) \<Rightarrow> 'c dns_proxy \<Rightarrow> (SocketAddr \<times> SocketAddr \<times> 'k) multiset" where
  "open_keys f st = mset (map (reply_key f) (dx_sent st)) +
     mset (map (pend_key f \<circ> snd) (dx_pending st)) +
     (case dx_retry st of None \<Rightarrow> {#} | Some r \<Rightarrow> {#req_key f r#})"

definition asked_keys :: "(u16 option \<Rightarrow> 'k) \<Rightarrow> 'c dns_proxy \<Rightarrow> (SocketAddr \<times> SocketAddr \<times> 'k) multiset" where
  "asked_keys f st = mset (map (req_key f) (dx_received st))"

definition dns_inv :: "(u16 option \<Rightarrow> 'k) \<Rightarrow> 'c dns_proxy \<Rightarrow> bool" where
  "dns_inv f st \<longleftrightarrow> cache_ok (dx_cache st) \<and> alist_ok (dx_pending st) \<and> open_keys f st \<subseteq># asked_keys f st"

text \<open>The same with a request in hand.\<close>

definition dns_inv_hand :: "(u16 option \<Rightarrow> 'k) \<Rightarrow> DnsProxyRequest \<Rightarrow> 'c dns_proxy \<Rightarrow> bool" where
  "dns_inv_hand f r st \<longleftrightarrow> cache_ok (dx_cache st) \<and> alist_ok (dx_pending st) \<and> dx_retry st = None \<and>
     add_mset (req_key f r) (open_keys f st) \<subseteq># asked_keys f st"

lemma update_fresh: "map_of m k = None \<Longrightarrow> AList.update k v m = m @ [(k, v)]"
  by (induction m) (auto split: if_splits)

lemma delete_fresh: "map_of m k = None \<Longrightarrow> AList.delete k (m @ [(k, v)]) = m"
  by (induction m) (auto split: if_splits)

lemma mset_delete_present:
  assumes "alist_ok m" "map_of m k = Some v"
  shows "mset (map (g \<circ> snd) m) = add_mset (g v) (mset (map (g \<circ> snd) (AList.delete k m)))"
  using assms by (induction m) (auto simp: alist_ok_Cons delete_absent split: if_splits)

lemma next_request_inv:
  assumes "next_request st r st1" "dns_inv f st"
  shows "dns_inv_hand f r st1"
  using assms
  by (cases rule: next_request.cases)
     (auto simp: dns_inv_def dns_inv_hand_def open_keys_def asked_keys_def)

lemma hand_kept: "dns_inv_hand f r st \<Longrightarrow> dns_inv f (st\<lparr>dx_retry := Some r\<rparr>)"
  by (auto simp: dns_inv_def dns_inv_hand_def open_keys_def asked_keys_def)

lemma hand_dropped: "dns_inv_hand f r st \<Longrightarrow> dns_inv f st"
  by (auto simp: dns_inv_def dns_inv_hand_def
      intro: subset_mset.order_trans [of _ "add_mset (req_key f r) (open_keys f st)"])

lemma drop_pending: "add_mset k (A + B) \<subseteq># C \<Longrightarrow> add_mset k A \<subseteq># C"
  using subset_mset.order_trans [of "add_mset k A" "add_mset k A + B" C] by simp

lemma open_keys_cleanup: "open_keys f (cleanup_pending_dns now st) \<subseteq># open_keys f st"
proof -
  have "mset (map g (filter P xs)) \<subseteq># mset (map g xs)" for g P and xs :: "(u16 \<times> PendingDnsRequest) list"
    by (simp add: image_mset_subseteq_mono mset_filter)
  then show ?thesis by (simp add: open_keys_def cleanup_pending_dns_def Let_def)
qed

lemma cleanup_pending_hand: "dns_inv_hand f r st \<Longrightarrow> dns_inv_hand f r (cleanup_pending_dns now st)"
proof -
  assume inv: "dns_inv_hand f r st"
  from open_keys_cleanup [of f now st] inv show ?thesis
    by (simp add: dns_inv_hand_def cleanup_pending_dns_def Let_def asked_keys_def)
       (meson insert_subset_eq_iff mset_subset_eq_add_mset_cancel subset_mset.order_trans)
qed

lemma send_dns_request_inv:
  assumes "dns_inv_hand f r st" "send_dns_request read now w r st = Some (st', ok)"
  shows "if ok then dns_inv f st' else dns_inv f (st'\<lparr>dx_retry := Some r\<rparr>)"
proof (cases "dns_id (rq_packet r)")
  case None
  with assms show ?thesis by (auto simp: send_dns_request_def intro: hand_dropped)
next
  case (Some i)
  let ?c = "cleanup_pending_dns now st"
  obtain uid nid where alloc: "allocate_dns_id (dx_pending ?c) (dx_next_id ?c) = (uid, nid)"
    by fastforce
  obtain q rt where q: "(case parse_dns_query read (rq_packet r) of
      Some q \<Rightarrow> q | None \<Rightarrow> (''<unknown>'', ''UNKNOWN'')) = (q, rt)" by fastforce
  let ?s = "?c\<lparr>dx_next_id := nid\<rparr>"
  have hand: "dns_inv_hand f r ?s"
    using cleanup_pending_hand [OF assms(1), of now]
    by (auto simp: dns_inv_hand_def open_keys_def asked_keys_def)
  show ?thesis
  proof (cases uid)
    case None
    with assms(2) alloc Some q hand show ?thesis
      by (auto simp: send_dns_request_def intro: hand_dropped)
  next
    case uid: (Some u)
    have fresh: "map_of (dx_pending ?c) u = None"
      using alloc uid allocate_loop_fresh by (fastforce simp: allocate_dns_id_def)
    have "2 \<le> length (rq_packet r)" using Some by (simp add: dns_id_Some)
    then obtain p where p: "write_dns_id (rq_packet r) u = Some p" using write_dns_id_total by blast
    let ?e = "\<lparr>pd_client = rq_client r, pd_target = rq_target r, pd_original_id = i, pd_query = q,
        pd_record_type = rt, pd_started_at = now, pd_expires_at = now + DNS_PENDING_TTL\<rparr>"
    have key: "pend_key f ?e = req_key f r" using Some by (simp add: pend_key_def req_key_def)
    have sent: "send_dns_request read now w r st =
        (if w then Some (?s\<lparr>dx_pending := dx_pending ?c @ [(u, ?e)],
           dx_written := dx_written ?c @ [p]\<rparr>, True)
         else Some (?s\<lparr>dx_pending := dx_pending ?c\<rparr>, False))"
      using Some alloc uid q p fresh
      by (simp add: send_dns_request_def update_fresh delete_fresh Let_def)
    have "alist_ok (dx_pending ?c @ [(u, ?e)])"
      using hand fresh by (simp add: dns_inv_hand_def alist_ok_def map_of_eq_None_iff)
    then show ?thesis
      using assms(2) sent hand key
      by (auto simp: dns_inv_hand_def dns_inv_def open_keys_def asked_keys_def split: if_splits)
  qed
qed

lemma send_dns_request_total:
  "\<exists>st' ok. send_dns_request read now w r st = Some (st', ok)"
proof (cases "dns_id (rq_packet r)")
  case (Some i)
  then have "2 \<le> length (rq_packet r)" by (simp add: dns_id_Some)
  then have "write_dns_id (rq_packet r) u = Some (u16_to_be u @ drop 2 (rq_packet r))" for u
    by (simp add: write_dns_id_def)
  with Some show ?thesis
    by (auto simp: send_dns_request_def Let_def split: prod.splits option.splits)
qed (auto simp: send_dns_request_def)

lemma handle_dns_response_inv:
  assumes "dns_inv f st"
  shows "\<exists>st'. handle_dns_response rec now response st = Some st' \<and> dns_inv f st' \<and> dx_retry st' = dx_retry st"
proof (cases "dns_id response")
  case None
  with assms show ?thesis by (simp add: handle_dns_response_def)
next
  case (Some u)
  show ?thesis
  proof (cases "map_of (dx_pending st) u")
    case None
    with assms Some show ?thesis by (simp add: handle_dns_response_def)
  next
    case p: (Some p)
    have long: "2 \<le> length response" using Some by (simp add: dns_id_Some)
    obtain q where q: "write_dns_id response (pd_original_id p) = Some q"
      using write_dns_id_total [OF long] by blast
    obtain cache where cache: "dns_cache_insert now (pd_query p) (pd_record_type p)
        (summary_or_invalid response) response (dx_cache st) = Some cache" "cache_ok cache"
      using dns_cache_insert_ok [of "dx_cache st" "summary_or_invalid response" response] assms long
      by (fastforce simp: dns_inv_def)
    have key: "reply_key f (q, pd_target p, pd_client p) = pend_key f p"
      using write_dns_id_Some(1) [OF q] by (simp add: reply_key_def pend_key_def)
    have "alist_ok (dx_pending st)" using assms by (simp add: dns_inv_def)
    note split = mset_delete_present [OF this p, of "pend_key f"]
    show ?thesis
      using assms Some p q cache key split
      by (simp add: handle_dns_response_def Let_def dns_inv_def open_keys_def asked_keys_def)
  qed
qed

section \<open>The contract of local answers\<close>

definition same_queue :: "'c dns_proxy \<Rightarrow> 'c dns_proxy \<Rightarrow> bool" where
  "same_queue st st' \<longleftrightarrow> dx_pending st' = dx_pending st \<and> dx_retry st' = dx_retry st \<and>
     dx_received st' = dx_received st"

text \<open>
  What the loop relies on: an answer keeps the queue and the cache's invariant, and hands at most
  one reply to the network stack, addressed to the client of the request and with what \<open>f\<close> keeps
  of its transaction id; when the request is not dealt with, nothing is sent.
\<close>

definition answer_spec ::
  "(u16 option \<Rightarrow> 'k) \<Rightarrow> DnsProxyRequest \<Rightarrow> 'c dns_proxy \<Rightarrow> 'c dns_proxy \<Rightarrow> bool \<Rightarrow> bool" where
  "answer_spec f r st st' b \<longleftrightarrow> same_queue st st' \<and>
     (cache_ok (dx_cache st) \<longrightarrow> cache_ok (dx_cache st') \<and>
       (dx_sent st' = dx_sent st \<or>
        b \<and> (\<exists>p. dx_sent st' = dx_sent st @ [p] \<and> reply_key f p = req_key f r)))"

lemma answer_spec_seq:
  "answer_spec f r st st1 False \<Longrightarrow> answer_spec f r st1 st2 b \<Longrightarrow> answer_spec f r st st2 b"
  by (auto simp: answer_spec_def same_queue_def)

lemma answer_spec_forget: "answer_spec (\<lambda>i. i) r st st' b \<Longrightarrow> answer_spec f r st st' b"
  by (auto simp: answer_spec_def reply_key_def req_key_def split: prod.splits)

locale local_answer =
  fixes answer :: "'c answering" and f :: "u16 option \<Rightarrow> 'k"
  assumes meets: "answer now r st (st', b) \<Longrightarrow> answer_spec f r st st' b"
begin

lemma declined: "answer now r st (st', False) \<Longrightarrow> dns_inv_hand f r st \<Longrightarrow> dns_inv_hand f r st'"
  using meets [of now r st st' False]
  by (auto simp: answer_spec_def dns_inv_hand_def same_queue_def open_keys_def asked_keys_def)

lemma answered: "answer now r st (st', True) \<Longrightarrow> dns_inv_hand f r st \<Longrightarrow> dns_inv f st'"
proof -
  assume a: "answer now r st (st', True)" and inv: "dns_inv_hand f r st"
  have q: "same_queue st st'" and c: "cache_ok (dx_cache st')"
    and sent: "dx_sent st' = dx_sent st \<or>
      (\<exists>p. dx_sent st' = dx_sent st @ [p] \<and> reply_key f p = req_key f r)"
    using meets [OF a] inv by (auto simp: answer_spec_def dns_inv_hand_def)
  from sent show ?thesis
  proof (elim disjE exE conjE)
    assume "dx_sent st' = dx_sent st"
    then show ?thesis using hand_dropped [OF inv] q c
      by (simp add: dns_inv_def same_queue_def open_keys_def asked_keys_def)
  next
    fix p assume "dx_sent st' = dx_sent st @ [p]" "reply_key f p = req_key f r"
    then show ?thesis using inv q c
      by (auto simp: dns_inv_def dns_inv_hand_def same_queue_def open_keys_def asked_keys_def)
  qed
qed

lemma step_inv: "dns_step read rec answer st st' \<Longrightarrow> dns_inv f st \<Longrightarrow> dns_inv f st'"
proof (induction rule: dns_step.induct)
  case (outer_answered st r st1 now st2)
  then show ?case using next_request_inv answered by blast
next
  case (outer_failed st r st1 now st2)
  have "dns_inv f (st2\<lparr>dx_retry := Some r\<rparr>)"
    using outer_failed next_request_inv declined hand_kept by blast
  then show ?case by (simp add: dns_inv_def open_keys_def asked_keys_def)
next
  case (outer_connected st r st1 now st2)
  have "dns_inv f (st2\<lparr>dx_retry := Some r\<rparr>)"
    using outer_connected next_request_inv declined hand_kept by blast
  then show ?case
    by (auto simp: dns_inv_def open_keys_def asked_keys_def intro: drop_pending)
next
  case (inner_answered st r st1 now st2)
  then show ?case using next_request_inv answered by blast
next
  case (inner_sent st r st1 now st2 w st3)
  then have "dns_inv_hand f r st2" using next_request_inv declined by blast
  from send_dns_request_inv [OF this inner_sent(5)] show ?case
    by (simp add: dns_inv_def open_keys_def asked_keys_def)
next
  case (inner_write_failed st r st1 now st2 w st3)
  then have "dns_inv_hand f r st2" using next_request_inv declined by blast
  from send_dns_request_inv [OF this inner_write_failed(5)] show ?case
    by (simp add: dns_inv_def open_keys_def asked_keys_def)
next
  case (inner_cleanup st now)
  with open_keys_cleanup [of f now st] show ?case
    by (auto simp: dns_inv_def asked_keys_def cleanup_pending_dns_def Let_def
        dest: subset_mset.order_trans)
next
  case (inner_response st response locked now st1)
  then show ?case
    using handle_dns_response_inv [of f st "rec locked" now response]
    by (auto simp: dns_inv_def open_keys_def asked_keys_def)
qed (simp_all add: dns_inv_def open_keys_def asked_keys_def)

lemma init_inv: "dns_inv f (dns_proxy_init domains)"
  by (simp add: dns_inv_def dns_proxy_init_def cache_ok_def open_keys_def asked_keys_def)

lemma run_inv: "(dns_step read rec answer)\<^sup>*\<^sup>* (dns_proxy_init domains) st \<Longrightarrow> dns_inv f st"
  by (induction rule: rtranclp_induct) (auto simp: init_inv step_inv)

end

lemma cached_answer_spec:
  assumes "try_send_cached_dns_response read rec now r st = Some (st', b)"
  shows "answer_spec (\<lambda>i. i) r st st' b"
proof (cases "st' = st \<and> \<not> b")
  case False
  then obtain i q rt c hit where i: "dns_id (rq_packet r) = Some i"
    and get: "dns_cache_get now q rt i (dx_cache st) = Some (c, hit)"
    and same: "same_queue st st'" "dx_cache st' = c"
    and hit: "case hit of None \<Rightarrow> dx_sent st' = dx_sent st
       | Some p \<Rightarrow> b \<and> dx_sent st' = dx_sent st @ [(p, rq_target r, rq_client r)]"
    using assms
    by (auto simp: try_send_cached_dns_response_def same_queue_def Let_def Option.bind_eq_Some_conv
        split: option.splits)
  from dns_cache_get_ok [of "dx_cache st" now q rt i] get
  have "cache_ok c" "\<forall>p. hit = Some p \<longrightarrow> dns_id p = Some i" if "cache_ok (dx_cache st)"
    using that by auto
  with i same hit show ?thesis
    by (auto simp: answer_spec_def reply_key_def req_key_def split: option.splits)
qed (simp add: answer_spec_def same_queue_def)

lemma direct_answer_spec:
  assumes "try_send_direct_dns_response read rec dd outcome started now r st = Some (st', b)"
  shows "answer_spec (\<lambda>_. ()) r st st' b"
proof (cases "st' = st")
  case False
  let ?resp = "direct_response read (rq_packet r) outcome"
  from False assms obtain q :: DnsQuestion and c where
    insert: "dns_cache_insert now (qn_query q) (qn_record_type q) (summary_or_invalid ?resp) ?resp
      (dx_cache st) = Some c" and new: "same_queue st st'" "dx_cache st' = c" "b"
      "dx_sent st' = dx_sent st @ [(?resp, rq_target r, rq_client r)]"
    by (auto simp: try_send_direct_dns_response_def same_queue_def Let_def Option.bind_eq_Some_conv
        split: option.splits if_splits)
  have "cache_ok c" if "cache_ok (dx_cache st)"
    using dns_cache_insert_ok [OF that, of "summary_or_invalid ?resp" ?resp now "qn_query q"
        "qn_record_type q"] noerror_long [of ?resp] insert by fastforce
  with new show ?thesis by (auto simp: answer_spec_def reply_key_def req_key_def)
qed (simp add: answer_spec_def same_queue_def)

interpretation desktop_dns: local_answer "desktop_answer read" "\<lambda>i. i" for read
  by unfold_locales (simp add: desktop_answer_def cached_answer_spec)

lemma android_cached_spec:
  "android_try_cached read rec now r st = Some (st', b) \<Longrightarrow> answer_spec (\<lambda>_. ()) r st st' b"
  by (auto simp: android_try_cached_def split: if_splits intro: answer_spec_forget cached_answer_spec)
     (simp add: answer_spec_def same_queue_def)

interpretation android_dns: local_answer "android_answer read dd" "\<lambda>_. ()" for read dd
proof
  fix now r st st' b
  assume "android_answer read dd now r st (st', b)"
  then obtain locked outcome later st1 dealt where
    first: "android_try_cached read (android_record_resolution locked) now r st = Some (st1, dealt)"
    and rest: "(if dealt then Some (st1, True)
      else try_send_direct_dns_response read (android_record_resolution locked) dd outcome
             now (now + later) r st1) = Some (st', b)"
    by (auto simp: android_answer_def Option.bind_eq_Some_conv)
  show "answer_spec (\<lambda>_. ()) r st st' b"
  proof (cases dealt)
    case True
    with android_cached_spec [OF first] rest show ?thesis by simp
  next
    case False
    with android_cached_spec [OF first] rest direct_answer_spec answer_spec_seq show ?thesis
      by (metis (full_types))
  qed
qed

lemma cached_answer_total:
  assumes "cache_ok (dx_cache st)"
  shows "try_send_cached_dns_response read rec now r st \<noteq> None"
proof (cases "dns_id (rq_packet r)")
  case (Some i)
  show ?thesis
  proof (cases "parse_dns_query read (rq_packet r)")
    case query: (Some q)
    obtain c hit where "dns_cache_get now (fst q) (snd q) i (dx_cache st) = Some (c, hit)"
      using dns_cache_get_ok [OF assms] by blast
    with Some query show ?thesis
      by (auto simp: try_send_cached_dns_response_def Let_def case_prod_beta split: option.split)
  qed (simp add: try_send_cached_dns_response_def Some)
qed (simp add: try_send_cached_dns_response_def)

section \<open>Insert and lookup\<close>

lemma map_of_insert:
  assumes "cache_ok entries" "rs_status summary = ''NOERROR''" "rs_answers summary \<noteq> []"
    "rs_min_ttl summary = Some ttl" "ttl \<noteq> 0" "2 \<le> length response"
  obtains entries' where "dns_cache_insert now q rt summary response entries = Some entries'"
    "cache_ok entries'"
    "map_of entries' (dns_cache_key q rt) = Some \<lparr>cd_packet = u16_to_be 0 @ drop 2 response,
       cd_expires_at = now + min (unat ttl * 1000) DNS_RESPONSE_CACHE_MAX_TTL\<rparr>"
  using assms dns_cache_insert_ok [OF assms(1), of summary response now q rt]
  by (auto simp: dns_cache_insert_def Let_def write_dns_id_def update_conv split: if_splits)

lemma dns_cache_get_hit:
  assumes "cache_ok entries" "map_of entries (dns_cache_key q rt) = Some e" "2 \<le> length (cd_packet e)"
  shows "map_option snd (dns_cache_get now q rt i entries) =
    Some (if now < cd_expires_at e then Some (u16_to_be i @ drop 2 (cd_packet e)) else None)"
proof -
  have "alist_ok entries" using assms(1) by (simp add: cache_ok_def)
  from map_of_filter_key [OF this, of "\<lambda>k e. cd_expires_at e > now" "dns_cache_key q rt"] assms
  show ?thesis by (simp add: dns_cache_get_def dns_cleanup_expired_def write_dns_id_def Let_def)
qed

section \<open>Properties\<close>

text \<open>
  C17. Every DNS packet the desktop agent hands back to the network stack answers a query it took
  from the stack: counted with multiplicity, the replies by client, target and transaction id are
  among the queries by client, source target and transaction id. So no client gets the answer of
  another one, ids rewritten for the shared connection are restored, and a query gets at most one
  reply, through retries, reconnections, time-outs and cache hits; the response cache stays
  within 4096 entries.
\<close>
theorem dns_replies_answer_queries:
  assumes "desktop_run read ttl st"
  shows "mset (map (reply_key (\<lambda>i. i)) (dx_sent st)) \<subseteq># mset (map (req_key (\<lambda>i. i)) (dx_received st))
    \<and> length (dx_cache st) \<le> 4096"
proof -
  have "dns_inv (\<lambda>i. i) st"
    using assms unfolding desktop_run_def by (rule desktop_dns.run_inv)
  then have inv: "open_keys (\<lambda>i. i) st \<subseteq># asked_keys (\<lambda>i. i) st" "cache_ok (dx_cache st)"
    by (simp_all add: dns_inv_def)
  have "mset (map (reply_key (\<lambda>i. i)) (dx_sent st)) \<subseteq># open_keys (\<lambda>i. i) st"
    by (simp add: open_keys_def)
  with inv show ?thesis
    by (auto simp: asked_keys_def cache_ok_def DNS_RESPONSE_CACHE_MAX_ENTRIES_def
        intro: subset_mset.order_trans)
qed

lemma example_run:
  fixes c t :: SocketAddr
  shows "\<exists>st. desktop_run (\<lambda>_. None) 0 st \<and> dx_sent st = [([0x12, 0x34], t, c)] \<and>
    dx_received st = [\<lparr>rq_client = c, rq_target = t, rq_packet = [0x12, 0x34]\<rparr>]"
proof -
  let ?read = "(\<lambda>_. None) :: read_message"
  let ?r = "\<lparr>rq_client = c, rq_target = t, rq_packet = [0x12, 0x34]\<rparr>"
  let ?s0 = "dns_proxy_init (domain_cache_new 0)"
  let ?step = "dns_step ?read (\<lambda>_. record_resolution) (desktop_answer ?read)"
  let ?s1 = "?s0\<lparr>dx_received := [?r], dx_delay := 200, dx_connected := True,
      dx_idle := 0 + DNS_PROXY_CONNECTION_IDLE, dx_pending := [], dx_retry := Some ?r\<rparr>"
  have no_query: "parse_dns_query ?read p = None" for p
    by (simp add: parse_dns_query_def parse_dns_query_packet_def)
  have declined: "desktop_answer ?read now ?r st (st, False)" for now st
    by (simp add: desktop_answer_def try_send_cached_dns_response_def no_query split: option.splits)
  have "next_request ?s0 ?r (?s0\<lparr>dx_received := [?r]\<rparr>)"
    using next_request.receive [of ?s0 ?r] by (simp add: dns_proxy_init_def)
  from dns_step.outer_connected [where answer = "desktop_answer ?read", OF _ _ this declined,
      of ?read "\<lambda>_. record_resolution" 0]
  have 1: "?step ?s0 ?s1" by (simp add: dns_proxy_init_def)
  let ?p = "\<lparr>pd_client = c, pd_target = t, pd_original_id = 0x1234, pd_query = ''<unknown>'',
      pd_record_type = ''UNKNOWN'', pd_started_at = 1, pd_expires_at = 1 + DNS_PENDING_TTL\<rparr>"
  let ?s2 = "?s1\<lparr>dx_retry := None, dx_next_id := 1, dx_pending := [(0, ?p)], dx_written := [[0, 0]]\<rparr>"
  have id: "dns_id [0x12, 0x34] = Some 0x1234"
    by (simp add: dns_id_Some u16_from_be_def nat_of_be_def)
  have alloc: "allocate_dns_id ([] :: (u16 \<times> PendingDnsRequest) list) 0 = (Some 0, 1)"
    using allocate_loop.simps(2) [of 65535 "[] :: (u16 \<times> PendingDnsRequest) list" 0]
    by (simp add: allocate_dns_id_def del: allocate_loop.simps)
  have bytes0: "u16_to_be 0 = [0, 0]" by (simp add: u16_to_be_def numeral_2_eq_2)
  have "next_request ?s1 ?r (?s1\<lparr>dx_retry := None\<rparr>)" by (rule next_request.retry) simp
  moreover have "send_dns_request ?read 1 True ?r (?s1\<lparr>dx_retry := None\<rparr>) = Some (?s2, True)"
    by (simp add: send_dns_request_def id no_query cleanup_pending_dns_def dns_proxy_init_def alloc
        write_dns_id_def bytes0)
  ultimately have 2: "?step ?s1 (?s2\<lparr>dx_idle := 1 + DNS_PROXY_CONNECTION_IDLE\<rparr>)"
    using dns_step.inner_sent [where answer = "desktop_answer ?read", OF _ _ _ declined,
        of ?s1 "?s1\<lparr>dx_retry := None\<rparr>" ?read 1 True ?s2 "\<lambda>_. record_resolution"]
    by (simp add: dns_proxy_init_def)
  let ?s3 = "?s2\<lparr>dx_idle := 1 + DNS_PROXY_CONNECTION_IDLE\<rparr>"
  have id0: "dns_id [0, 0] = Some 0" by (simp add: dns_id_Some u16_from_be_def nat_of_be_def)
  have inv: "summary_or_invalid [0, 0] = \<lparr>rs_status = ''INVALID'', rs_answers = [], rs_min_ttl = None\<rparr>"
    by (simp add: summary_or_invalid_def parse_dns_response_def)
  have "u16_to_be 0x1234 = [0x12, 0x34]" by (simp add: u16_to_be_def eval_bytes)
  then obtain s4 where 4: "handle_dns_response record_resolution 2 [0, 0] ?s3 = Some s4"
    "dx_sent s4 = [([0x12, 0x34], t, c)]" "dx_received s4 = [?r]"
    by (simp add: handle_dns_response_def id0 inv dns_cache_insert_def write_dns_id_def
        dns_proxy_init_def)
  have 3: "?step ?s3 (s4\<lparr>dx_idle := 2 + DNS_PROXY_CONNECTION_IDLE\<rparr>)"
    by (rule dns_step.inner_response [OF _ _ _ _ 4(1)]) (simp_all add: dns_proxy_init_def)
  have "?step\<^sup>*\<^sup>* ?s0 ?s1" by (rule r_into_rtranclp) (rule 1)
  then have "?step\<^sup>*\<^sup>* ?s0 ?s3" using 2 by (rule rtranclp.rtrancl_into_rtrancl)
  then have "desktop_run ?read 0 (s4\<lparr>dx_idle := 2 + DNS_PROXY_CONNECTION_IDLE\<rparr>)"
    unfolding desktop_run_def using 3 by (rule rtranclp.rtrancl_into_rtrancl)
  with 4 show ?thesis by (intro exI [of _ "s4\<lparr>dx_idle := 2 + DNS_PROXY_CONNECTION_IDLE\<rparr>"]) simp
qed

theorem dns_replies_answer_queries_witness:
  "\<exists>st. desktop_run (\<lambda>_. None) 0 st \<and> length (dx_sent st) = 1 \<and>
     mset (map (reply_key (\<lambda>i. i)) (dx_sent st)) \<subseteq># mset (map (req_key (\<lambda>i. i)) (dx_received st))"
  using example_run [of "\<lparr>sa_ip = V4 [8, 8, 8, 8], sa_port = 53\<rparr>" "\<lparr>sa_ip = V4 [10, 0, 0, 2], sa_port = 4000\<rparr>"]
    dns_replies_answer_queries [of "\<lambda>_. None" 0]
  by fastforce

text \<open>
  Neither agent's DNS forwarder can panic on what clients and upstream servers send: from
  every state it can reach, answering from the cache or directly, forwarding a query and handling
  a response all return, whatever the query and the response contain, down to empty and one byte
  packets.
\<close>
theorem dns_proxy_never_panics:
  assumes "desktop_run read ttl st" and "android_run read dd ttl st'"
  shows "try_send_cached_dns_response read rec now r st \<noteq> None \<and>
    send_dns_request read now w r st \<noteq> None \<and> handle_dns_response rec now response st \<noteq> None \<and>
    android_try_cached read rec' now r st' \<noteq> None \<and>
    try_send_direct_dns_response read rec' dd outcome started now r st' \<noteq> None \<and>
    send_dns_request read now w r st' \<noteq> None \<and> handle_dns_response rec' now response st' \<noteq> None"
proof -
  have d: "dns_inv (\<lambda>i. i) st"
    using assms(1) unfolding desktop_run_def by (rule desktop_dns.run_inv)
  have a: "dns_inv (\<lambda>_. ()) st'"
    using assms(2) unfolding android_run_def by (rule android_dns.run_inv)
  have ok: "cache_ok (dx_cache st)" "cache_ok (dx_cache st')" using d a by (simp_all add: dns_inv_def)

  have "dns_cache_insert now q rt (summary_or_invalid p) p (dx_cache st') \<noteq> None" for q rt p
  proof -
    have "rs_status (summary_or_invalid p) = ''NOERROR'' \<Longrightarrow> 2 \<le> length p"
      using noerror_long [of p] by simp
    from dns_cache_insert_ok [OF ok(2) this] show ?thesis by fastforce
  qed
  note insert = this
  have direct: "try_send_direct_dns_response read rec' dd outcome started now r st' \<noteq> None"
  proof (cases "parse_dns_question read (rq_packet r)")
    case (Some q)
    let ?resp = "direct_response read (rq_packet r) outcome"
    obtain c where "dns_cache_insert now (qn_query q) (qn_record_type q) (summary_or_invalid ?resp)
        ?resp (dx_cache st') = Some c"
      using insert [of "qn_query q" "qn_record_type q" ?resp] by blast
    with Some show ?thesis by (auto simp: try_send_direct_dns_response_def Let_def)
  qed (simp add: try_send_direct_dns_response_def)

  have sent': "send_dns_request read now w r st' \<noteq> None"
    using send_dns_request_total [of read now w r st'] by auto
  have "android_try_cached read rec' now r st' \<noteq> None"
    using cached_answer_total [OF ok(2)] by (auto simp: android_try_cached_def)
  then show ?thesis
    using cached_answer_total [OF ok(1)] direct sent' send_dns_request_total [of read now w r st]
      handle_dns_response_inv [OF d] handle_dns_response_inv [OF a] by fastforce
qed

theorem dns_proxy_never_panics_witness:
  "handle_dns_response record_resolution 0 [] (dns_proxy_init (domain_cache_new 0)) \<noteq> None"
proof -
  have "desktop_run (\<lambda>_. None) 0 (dns_proxy_init (domain_cache_new 0))"
    "android_run (\<lambda>_. None) (\<lambda>_. False) 0 (dns_proxy_init (android_cache_new 0 0))"
    by (simp_all add: desktop_run_def android_run_def)
  from dns_proxy_never_panics [OF this] show ?thesis by blast
qed

text \<open>
  The id given to a forwarded query is never one that another outstanding query uses, and the
  search ends without an id exactly when all 65536 ids are taken.
\<close>
theorem dns_id_allocation_exact:
  assumes "alist_ok pending"
  shows "case fst (allocate_dns_id pending next_id) of
           Some i \<Rightarrow> map_of pending i = None \<and> length pending < 65536
         | None \<Rightarrow> 65536 \<le> length pending"
  using allocate_dns_id_None [OF assms, of next_id]
    allocate_loop_fresh [of 65536 pending next_id]
  by (cases "allocate_dns_id pending next_id") (auto simp: allocate_dns_id_def split: option.splits)

theorem dns_id_allocation_exact_witness:
  "case fst (allocate_dns_id [(5, ()), (6, ())] 5) of
     Some i \<Rightarrow> map_of [(5, ()), (6, ())] i = None \<and> length [(5 :: u16, ()), (6, ())] < 65536
   | None \<Rightarrow> 65536 \<le> length [(5 :: u16, ()), (6, ())]"
  by (rule dns_id_allocation_exact) (simp add: alist_ok_def)

text \<open>
  A cacheable response is found again under every spelling of its name and type until its
  least time to live or five minutes have passed, whichever is first, and never after: the packet
  is the cached one with the transaction id of the new query.
\<close>
theorem dns_cache_insert_lookup:
  assumes "cache_ok entries" "rs_status summary = ''NOERROR''" "rs_answers summary \<noteq> []"
    "rs_min_ttl summary = Some ttl" "ttl \<noteq> 0" "2 \<le> length response"
    and "dns_cache_key q' rt' = dns_cache_key q rt"
  shows "\<exists>entries'. dns_cache_insert now q rt summary response entries = Some entries' \<and>
    map_option snd (dns_cache_get now' q' rt' i entries') =
      Some (if now' < now + min (unat ttl * 1000) 300000
            then Some (u16_to_be i @ drop 2 response) else None)"
proof -
  obtain entries' where ins: "dns_cache_insert now q rt summary response entries = Some entries'"
    "cache_ok entries'" and found: "map_of entries' (dns_cache_key q rt) =
      Some \<lparr>cd_packet = u16_to_be 0 @ drop 2 response,
        cd_expires_at = now + min (unat ttl * 1000) DNS_RESPONSE_CACHE_MAX_TTL\<rparr>"
    using map_of_insert [OF assms(1-6)] .
  from found have "map_of entries' (dns_cache_key q' rt') =
      Some \<lparr>cd_packet = u16_to_be 0 @ drop 2 response,
        cd_expires_at = now + min (unat ttl * 1000) DNS_RESPONSE_CACHE_MAX_TTL\<rparr>"
    using assms(7) by simp
  from dns_cache_get_hit [OF ins(2) this, of now' i]
  have "map_option snd (dns_cache_get now' q' rt' i entries') =
      Some (if now' < now + min (unat ttl * 1000) 300000
            then Some (u16_to_be i @ drop 2 response) else None)"
    by (simp only: DNS_RESPONSE_CACHE_MAX_TTL_def CachedDnsResponse.simps length_append length_u_to_be) simp
  with ins(1) show ?thesis by blast
qed

theorem dns_cache_insert_lookup_witness:
  "\<exists>entries'. dns_cache_insert 0 ''Example.COM.'' ''a''
     \<lparr>rs_status = ''NOERROR'', rs_answers = [''1.2.3.4''], rs_min_ttl = Some 60\<rparr> [1, 2, 3] [] = Some entries' \<and>
   map_option snd (dns_cache_get 59999 ''example.com'' ''A'' 0xABCD entries') =
     Some (Some (u16_to_be 0xABCD @ [3]))"
proof -
  have "dns_cache_key ''example.com'' ''A'' = dns_cache_key ''Example.COM.'' ''a''" by code_simp
  then show ?thesis
    using dns_cache_insert_lookup [of "[]" "\<lparr>rs_status = ''NOERROR'', rs_answers = [''1.2.3.4''],
        rs_min_ttl = Some 60\<rparr>" 60 "[1, 2, 3]" "''example.com''" "''A''" "''Example.COM.''" "''a''" 0
        59999 "0xABCD"] by (simp add: cache_ok_def)
qed

text \<open>
  The Android agent resolves direct domains itself and takes the first datagram its socket
  receives for the answer: whatever transaction id the datagram carries and whoever sent it, it is
  handed to the client and, when it parses, cached for the queried name, so that the next clients
  get it with their own ids. The desktop agent only takes responses with the id of an outstanding
  query.
\<close>
theorem android_direct_answer_unchecked:
  assumes "parse_dns_question read (rq_packet r) = Some question" and "dd (qn_query question)"
    and "parse_dns_response response = Some summary" "rs_status summary = ''NOERROR''"
      "rs_answers summary \<noteq> []" "rs_min_ttl summary = Some ttl" "ttl \<noteq> 0"
    and "cache_ok (dx_cache st)"
  shows "\<exists>st'. try_send_direct_dns_response read rec dd (DirectAnswer response) started now r st =
      Some (st', True) \<and>
    dx_sent st' = dx_sent st @ [(response, rq_target r, rq_client r)] \<and>
    map_option snd (dns_cache_get now (qn_query question) (qn_record_type question) i (dx_cache st')) =
      Some (Some (u16_to_be i @ drop 2 response))"
proof -
  have long: "12 \<le> length response"
    using assms(3) by (auto simp: parse_dns_response_def split: if_splits)
  have sum: "summary_or_invalid response = summary" using assms(3) by (simp add: summary_or_invalid_def)
  obtain entries' where ins: "dns_cache_insert now (qn_query question) (qn_record_type question)
      summary response (dx_cache st) = Some entries'" "cache_ok entries'"
    and found: "map_of entries' (dns_cache_key (qn_query question) (qn_record_type question)) =
      Some \<lparr>cd_packet = u16_to_be 0 @ drop 2 response,
        cd_expires_at = now + min (unat ttl * 1000) DNS_RESPONSE_CACHE_MAX_TTL\<rparr>"
    using map_of_insert [OF assms(8, 4-7), of response now "qn_query question"
        "qn_record_type question"] long by auto
  have "0 < unat ttl" using assms(7) by (simp add: unat_gt_0)
  with dns_cache_get_hit [OF ins(2) found, of now i] assms(1, 2) ins(1) sum long show ?thesis
    by (auto simp: try_send_direct_dns_response_def direct_response_def DNS_RESPONSE_CACHE_MAX_TTL_def)
qed

theorem android_direct_answer_unchecked_witness:
  "\<exists>read r response summary st'. dns_id (rq_packet r) = Some 1 \<and> dns_id response = Some 0xBAD \<and>
     try_send_direct_dns_response read record_resolution (\<lambda>_. True) (DirectAnswer response) 0 0 r
       (dns_proxy_init (domain_cache_new 0)) = Some (st', True) \<and>
     parse_dns_response response = Some summary \<and>
     map_option snd (dns_cache_get 0 ''a'' ''A'' 7 (dx_cache st')) =
       Some (Some (u16_to_be 7 @ drop 2 response))"
proof -
  let ?read = "\<lambda>_. Some (\<lparr>dm_is_query = True, dm_opcode_query = True, dm_queries = [(''a.'', RtKnown ''A'')],
      dm_answers = 0, dm_authorities = 0\<rparr>, True)"
  let ?hd = "[0, 1, 1, 0, 0, 1, 0, 0, 0, 0, 0, 0] :: bytes"
  let ?p = "[0, 1, 1, 0, 0, 1, 0, 0, 0, 0, 0, 0, 1, 97, 0, 0, 1, 0, 1] :: bytes"
  let ?r = "\<lparr>rq_client = \<lparr>sa_ip = V4 [10, 0, 0, 2], sa_port = 4000\<rparr>,
      rq_target = \<lparr>sa_ip = V4 [8, 8, 8, 8], sa_port = 53\<rparr>, rq_packet = ?p\<rparr>"
  let ?resp = "encode_response 0xBAD 0x8180 [[97]] 1 [(V4 [6, 6, 6, 6], 60)] []"
  let ?sum = "\<lparr>rs_status = ''NOERROR'', rs_answers = [show_ip (V4 [6, 6, 6, 6])], rs_min_ttl = Some 60\<rparr>"
  let ?q = "\<lparr>qn_query = ''a'', qn_record_type = ''A'', qn_question_end = 19\<rparr>"
  have "normalize_query_name ''a.'' = ''a''" by code_simp
  then have parsed: "parse_dns_query_packet ?read ?p = Some \<lparr>dq_query = ''a'', dq_record_type = ''A''\<rparr>"
    by (simp add: parse_dns_query_packet_def)
  have "parse_dns_name (?hd @ encode_name [[97]] @ [0, 1, 0, 1]) (length ?hd) =
      Some (name_text [[97]], length ?hd + length (encode_name [[97]]))"
    by (rule parse_encoded_name) (simp_all add: label_ok_def encode_name_def usize_max_def)
  then have name: "parse_dns_name ?p 12 = Some (name_text [[97]], 15)"
    by (simp add: encode_name_def eval_nat_numeral)
  have "parse_dns_question ?read (rq_packet ?r) = Some ?q"
    by (simp add: parse_dns_question_def parsed name read_u16_def get_range_def checked_add_usize_def
        usize_max_def)
  moreover have "parse_dns_response ?resp =
      Some \<lparr>rs_status = dns_rcode_name (0x8180 AND 0x000F),
        rs_answers = map (show_ip \<circ> fst) [(V4 [6, 6, 6, 6], 60 :: u32)],
        rs_min_ttl = foldl min_ttl_update None (map snd [(V4 [6, 6, 6, 6], 60)])\<rparr>"
    by (rule parse_encoded_response)
       (simp_all add: label_ok_def encode_response_def response_head_def encode_name_def encode_rr_def
         encode_pointer_def usize_max_def)
  then have sum: "parse_dns_response ?resp = Some ?sum"
    by (simp add: dns_rcode_name_def min_ttl_update_def)
  moreover have "cache_ok (dx_cache (dns_proxy_init (domain_cache_new 0)))"
    by (simp add: dns_proxy_init_def cache_ok_def)
  ultimately obtain st' where
    "try_send_direct_dns_response ?read record_resolution (\<lambda>_. True) (DirectAnswer ?resp) 0 0 ?r
       (dns_proxy_init (domain_cache_new 0)) = Some (st', True)"
    "map_option snd (dns_cache_get 0 ''a'' ''A'' 7 (dx_cache st')) = Some (Some (u16_to_be 7 @ drop 2 ?resp))"
    using android_direct_answer_unchecked [of ?read ?r ?q "\<lambda>_. True" ?resp ?sum 60
        "dns_proxy_init (domain_cache_new 0)" record_resolution 0 0 7] by auto
  moreover have "dns_id (rq_packet ?r) = Some 1" "dns_id ?resp = Some 0xBAD"
    by (simp_all add: dns_id_Some encode_response_def response_head_def u16_from_be_def nat_of_be_def
        u16_to_be_def eval_bytes)
  ultimately show ?thesis using sum by blast
qed

end
