(* ===== verification/Tun_Routing.thy ===== *)
theory Tun_Routing
  imports Dns_Parser Domain_Cache Direct_Access
begin

unbundle bit_operations_syntax

text \<open>
  Where the desktop and Android agents send the traffic of the TUN device:
  \<open>desktop-agent-be/src/tun_handler/{network,tasks,tcp,udp}.rs\<close> and
  \<open>android-agent/native/src/netstack/{tcp,udp}.rs\<close>. The packet guard, the networks of the
  device, the dispatch of UDP datagrams and the routes of UDP and TCP flows, with the direct
  access rules and the domain cache they consult. The lemmas show when traffic may bypass the
  proxy, that no traffic is sent back into the device, that QUIC blocking is complete and that
  the dispatcher and the session it starts agree.
\<close>

section \<open>Networks of the device\<close>

record TunNetworks =
  tn_ipv4 :: bytes
  tn_ipv4_prefix :: nat
  tn_ipv6 :: "(bytes \<times> nat) option"

definition ipv4_mask :: "nat \<Rightarrow> u32" where
  "ipv4_mask prefix_len = (if prefix_len = 0 then 0 else push_bit (32 - prefix_len) (- 1))"

definition ipv4_in_cidr :: "bytes \<Rightarrow> bytes \<Rightarrow> nat \<Rightarrow> bool" where
  "ipv4_in_cidr ip network prefix_len \<longleftrightarrow>
     u32_from_be ip AND ipv4_mask prefix_len = u32_from_be network AND ipv4_mask prefix_len"

definition ipv6_in_cidr :: "bytes \<Rightarrow> bytes \<Rightarrow> nat \<Rightarrow> bool" where
  "ipv6_in_cidr ip network prefix_len \<longleftrightarrow>
     (let msk = (if prefix_len = 0 then 0 else push_bit (128 - prefix_len) (- 1))
      in u128_from_be ip AND msk = u128_from_be network AND msk)"

fun contains_ip :: "TunNetworks \<Rightarrow> IpAddr \<Rightarrow> bool" where
  "contains_ip n (V4 ip) \<longleftrightarrow> ipv4_in_cidr ip (tn_ipv4 n) (tn_ipv4_prefix n)"
| "contains_ip n (V6 ip) \<longleftrightarrow>
     (case tn_ipv6 n of Some (network, prefix_len) \<Rightarrow> ipv6_in_cidr ip network prefix_len | None \<Rightarrow> False)"

fun is_ipv4_broadcast :: "TunNetworks \<Rightarrow> IpAddr \<Rightarrow> bool" where
  "is_ipv4_broadcast n (V6 _) \<longleftrightarrow> False"
| "is_ipv4_broadcast n (V4 ip) \<longleftrightarrow>
     (if tn_ipv4_prefix n \<ge> 31 then False
      else let msk = ipv4_mask (tn_ipv4_prefix n); network = u32_from_be (tn_ipv4 n) AND msk
           in u32_from_be ip = network OR NOT msk)"

definition is_tun_local_udp_target :: "SocketAddr \<Rightarrow> SocketAddr \<Rightarrow> TunNetworks \<Rightarrow> bool" where
  "is_tun_local_udp_target source target n \<longleftrightarrow> contains_ip n (sa_ip source) \<and> contains_ip n (sa_ip target)"

text \<open>\<open>reject_tun_target\<close>: whether it is an error.\<close>

definition reject_tun_target :: "SocketAddr \<Rightarrow> TunNetworks \<Rightarrow> bool" where
  "reject_tun_target target n \<longleftrightarrow> contains_ip n (sa_ip target)"

definition socket_addr_to_address :: "SocketAddr \<Rightarrow> Address" where
  "socket_addr_to_address a =
     (case sa_ip a of V4 v4 \<Rightarrow> Ipv4 v4 (sa_port a) | V6 v6 \<Rightarrow> Ipv6 v6 (sa_port a))"

definition address_for_tun_target :: "SocketAddr \<Rightarrow> bool \<Rightarrow> Address \<times> bool" where
  "address_for_tun_target target proxy_dns =
     (if proxy_dns \<and> sa_port target = 53 then (ProxyDns (sa_port target), True)
      else (socket_addr_to_address target, False))"

definition parse_cidr_v4 :: "string \<Rightarrow> (bytes \<times> nat) option" where
  "parse_cidr_v4 s = do {
     (ip, prefix_text) \<leftarrow> split_once ''/'' s;
     ip \<leftarrow> parse_ipv4 ip;
     prefix_len \<leftarrow> parse_uint 255 prefix_text;
     if prefix_len > 32 then None else Some (ip, prefix_len)
   }"

definition parse_cidr_v6 :: "string \<Rightarrow> (bytes \<times> nat) option" where
  "parse_cidr_v6 s = do {
     (ip, prefix_text) \<leftarrow> split_once ''/'' s;
     ip \<leftarrow> parse_ipv6 ip;
     prefix_len \<leftarrow> parse_uint 255 prefix_text;
     if prefix_len > 128 then None else Some (ip, prefix_len)
   }"

section \<open>The packet guard\<close>

definition valid_udp_payload :: "bytes \<Rightarrow> bool" where
  "valid_udp_payload payload \<longleftrightarrow>
     (if length payload < 8 then False
      else let declared_len = unat (u16_from_be [payload ! 4, payload ! 5])
           in declared_len \<ge> 8 \<and> declared_len \<le> length payload)"

definition slice :: "'a list \<Rightarrow> nat \<Rightarrow> nat \<Rightarrow> 'a list" where
  "slice xs s e = take (e - s) (drop s xs)"

definition tun_packet_is_safe_for_netstack :: "bytes \<Rightarrow> bool" where
  "tun_packet_is_safe_for_netstack packet \<longleftrightarrow>
     (case packet of
        [] \<Rightarrow> False
      | b # _ \<Rightarrow>
          let version = drop_bit 4 b in
          if version = 4 then
            (if length packet < 20 then False
             else
               let header_len = unat (packet ! 0 AND 0x0F) * 4;
                   total_len = unat (u16_from_be [packet ! 2, packet ! 3]);
                   fragment = u16_from_be [packet ! 6, packet ! 7]
               in if header_len < 20 \<or> total_len < header_len \<or> total_len > length packet then False
                  else if fragment AND 0x3FFF \<noteq> 0 then False
                  else packet ! 9 \<noteq> 17 \<or> valid_udp_payload (slice packet header_len total_len))
          else if version = 6 then
            (if length packet < 40 then False
             else
               let payload_len = unat (u16_from_be [packet ! 4, packet ! 5]);
                   total_len = 40 + payload_len
               in if total_len > length packet \<or> packet ! 6 = 44 then False
                  else packet ! 6 \<noteq> 17 \<or> valid_udp_payload (slice packet 40 total_len))
          else False)"

section \<open>Routes\<close>

datatype QuicPolicy = Allow | Block

fun should_block_udp443 :: "QuicPolicy \<Rightarrow> bool" where
  "should_block_udp443 Allow = False"
| "should_block_udp443 Block = True"

datatype UdpRoute = RouteDirect | RouteProxy | RouteBlock

definition classify_udp_route :: "u16 \<Rightarrow> QuicPolicy \<Rightarrow> bool \<Rightarrow> bool \<Rightarrow> UdpRoute" where
  "classify_udp_route target_port quic_policy proxy_udp direct_access_match =
     (if target_port = 443 then
        (if should_block_udp443 quic_policy then RouteBlock
         else if direct_access_match then RouteDirect else RouteProxy)
      else if \<not> proxy_udp \<or> direct_access_match then RouteDirect
      else RouteProxy)"

definition android_classify_udp_route :: "u16 \<Rightarrow> QuicPolicy \<Rightarrow> bool \<Rightarrow> UdpRoute" where
  "android_classify_udp_route target_port quic_policy direct_access_match =
     (if target_port = 443 then
        (if should_block_udp443 quic_policy then RouteBlock
         else if direct_access_match then RouteDirect else RouteProxy)
      else if direct_access_match then RouteDirect
      else RouteProxy)"

definition should_start_udp_relay :: "bool \<Rightarrow> QuicPolicy \<Rightarrow> bool" where
  "should_start_udp_relay proxy_udp quic_policy \<longleftrightarrow> proxy_udp \<or> \<not> should_block_udp443 quic_policy"

definition should_consult_udp_domain_cache :: "bool \<Rightarrow> u16 \<Rightarrow> bool" where
  "should_consult_udp_domain_cache proxy_udp target_port \<longleftrightarrow> proxy_udp \<or> target_port = 443"

text \<open>
  The context of the forwarder: \<open>lower\<close> is \<open>str::to_lowercase\<close>, which the rules use, and \<open>read\<close>
  the DNS decoder.
\<close>

record tun_context =
  tc_lower :: "string \<Rightarrow> string"
  tc_read :: read_message
  tc_networks :: TunNetworks
  tc_checker :: DirectAccessChecker
  tc_proxy_dns :: bool
  tc_proxy_udp :: bool
  tc_quic :: QuicPolicy

definition cached_direct_domain ::
  "tun_context \<Rightarrow> nat \<Rightarrow> domain_map \<Rightarrow> IpAddr \<Rightarrow> domain_map \<times> string option" where
  "cached_direct_domain ctx now m ip =
     (if has_domain_direct_rules (tc_checker ctx)
      then matching_domain_for_ip now m ip (is_direct_domain (tc_lower ctx) (tc_checker ctx))
      else (m, None))"

section \<open>Dispatch of UDP datagrams\<close>

datatype udp_disposition =
    ToDnsProxy
  | DroppedLocal
  | Rejected
  | ToSession
  | Blocked
  | ToRelay Address
  | NoRelay
  | NewSession

type_synonym udp_key = "SocketAddr \<times> SocketAddr"

text \<open>
  The body of the loop of \<open>spawn_udp_sessions\<close> for one datagram, with the domain cache and the
  keys of the open direct sessions.
\<close>

definition udp_dispatch ::
  "tun_context \<Rightarrow> nat \<Rightarrow> bytes \<Rightarrow> SocketAddr \<Rightarrow> SocketAddr \<Rightarrow> domain_map \<times> udp_key list \<Rightarrow>
   (domain_map \<times> udp_key list) \<times> udp_disposition" where
  "udp_dispatch ctx now data source target st =
     (let (m, sessions) = st; n = tc_networks ctx; key = (source, target) in
      if tc_proxy_dns ctx \<and> sa_port target = 53 \<and> is_dns_query_packet (tc_read ctx) data
      then (st, ToDnsProxy)
      else
        let (address, _) = address_for_tun_target target False in
        if is_ipv4_broadcast n (sa_ip target) then (st, DroppedLocal)
        else if is_tun_local_udp_target source target n then (st, DroppedLocal)
        else if reject_tun_target target n then (st, Rejected)
        else if key \<in> set sessions then (st, ToSession)
        else
          let by_ip = is_direct (tc_lower ctx) (tc_checker ctx) address;
              (m, domain) = (if \<not> by_ip \<and> should_consult_udp_domain_cache (tc_proxy_udp ctx) (sa_port target)
                             then cached_direct_domain ctx now m (sa_ip target) else (m, None))
          in case classify_udp_route (sa_port target) (tc_quic ctx) (tc_proxy_udp ctx)
                    (by_ip \<or> domain \<noteq> None) of
               RouteBlock \<Rightarrow> ((m, sessions), Blocked)
             | RouteProxy \<Rightarrow>
                 ((m, sessions), if should_start_udp_relay (tc_proxy_udp ctx) (tc_quic ctx)
                                 then ToRelay address else NoRelay)
             | RouteDirect \<Rightarrow> ((m, key # sessions), NewSession))"

definition android_udp_dispatch ::
  "tun_context \<Rightarrow> nat \<Rightarrow> bytes \<Rightarrow> SocketAddr \<Rightarrow> SocketAddr \<Rightarrow> domain_map \<times> udp_key list \<Rightarrow>
   (domain_map \<times> udp_key list) \<times> udp_disposition" where
  "android_udp_dispatch ctx now data source target st =
     (let (m, sessions) = st; n = tc_networks ctx; key = (source, target) in
      if tc_proxy_dns ctx \<and> sa_port target = 53 \<and> is_dns_query_packet (tc_read ctx) data
      then (st, ToDnsProxy)
      else
        let (address, _) = address_for_tun_target target False in
        if is_ipv4_broadcast n (sa_ip target) then (st, DroppedLocal)
        else if is_tun_local_udp_target source target n then (st, DroppedLocal)
        else if reject_tun_target target n then (st, Rejected)
        else if key \<in> set sessions then (st, ToSession)
        else
          let by_ip = is_direct (tc_lower ctx) (tc_checker ctx) address;
              (m, domain) = (if \<not> by_ip then cached_direct_domain ctx now m (sa_ip target) else (m, None))
          in case android_classify_udp_route (sa_port target) (tc_quic ctx) (by_ip \<or> domain \<noteq> None) of
               RouteBlock \<Rightarrow> ((m, sessions), Blocked)
             | RouteProxy \<Rightarrow> ((m, sessions), ToRelay address)
             | RouteDirect \<Rightarrow> ((m, key # sessions), NewSession))"

section \<open>Routes of flows\<close>

datatype flow_route =
    FlowDropped
  | FlowRejected
  | FlowDirect SocketAddr
  | FlowProxy Address

text \<open>\<open>handle_tun_udp\<close> up to the point where it starts to relay, with \<open>proxy_dns\<close> switched off.\<close>

definition handle_tun_udp ::
  "tun_context \<Rightarrow> nat \<Rightarrow> SocketAddr \<Rightarrow> SocketAddr \<Rightarrow> domain_map \<Rightarrow> domain_map \<times> flow_route" where
  "handle_tun_udp ctx now client target m =
     (let n = tc_networks ctx; (address, _) = address_for_tun_target target False in
      if is_ipv4_broadcast n (sa_ip target) then (m, FlowDropped)
      else if is_tun_local_udp_target client target n then (m, FlowDropped)
      else if reject_tun_target target n then (m, FlowRejected)
      else
        let forced = \<not> tc_proxy_udp ctx;
            by_ip = (\<not> forced \<and> is_direct (tc_lower ctx) (tc_checker ctx) address);
            (m, domain) = (if \<not> forced \<and> \<not> by_ip
                           then cached_direct_domain ctx now m (sa_ip target) else (m, None));
            direct = (forced \<or> by_ip \<or> domain \<noteq> None);
            m = (if direct then m
                 else fst (matching_domain_for_ip now m (sa_ip target) (\<lambda>_. True)))
        in if sa_port target = 443 \<and> should_block_udp443 (tc_quic ctx) then (m, FlowDropped)
           else if direct then (m, FlowDirect target)
           else (m, FlowProxy address))"

text \<open>\<open>handle_tun_tcp\<close> and \<open>handle_tcp\<close> of the Android agent up to the same point.\<close>

definition handle_tun_tcp ::
  "tun_context \<Rightarrow> nat \<Rightarrow> SocketAddr \<Rightarrow> SocketAddr \<Rightarrow> domain_map \<Rightarrow> domain_map \<times> flow_route" where
  "handle_tun_tcp ctx now source target m =
     (let (address, proxy_dns_request) = address_for_tun_target target (tc_proxy_dns ctx) in
      if \<not> proxy_dns_request \<and> reject_tun_target target (tc_networks ctx) then (m, FlowRejected)
      else
        let by_ip = (\<not> proxy_dns_request \<and> is_direct (tc_lower ctx) (tc_checker ctx) address);
            (m, domain) = (if \<not> by_ip \<and> \<not> proxy_dns_request
                           then cached_direct_domain ctx now m (sa_ip target) else (m, None));
            direct = (by_ip \<or> domain \<noteq> None);
            m = (if \<not> direct \<and> \<not> proxy_dns_request
                 then fst (matching_domain_for_ip now m (sa_ip target) (\<lambda>_. True)) else m)
        in if direct then (m, FlowDirect target) else (m, FlowProxy address))"

section \<open>Facts\<close>

text \<open>What a flow to a target needs to bypass the proxy by the rules.\<close>

definition rules_allow :: "tun_context \<Rightarrow> domain_map \<Rightarrow> SocketAddr \<Rightarrow> bool" where
  "rules_allow ctx m target \<longleftrightarrow>
     is_direct (tc_lower ctx) (tc_checker ctx) (socket_addr_to_address target) \<or>
     (\<exists>d. (sa_ip target, d) \<in> known m \<and> is_direct_domain (tc_lower ctx) (tc_checker ctx) d)"

lemma cached_direct_domain_Some:
  "snd (cached_direct_domain ctx now m ip) = Some d \<Longrightarrow>
   (ip, d) \<in> known m \<and> is_direct_domain (tc_lower ctx) (tc_checker ctx) d"
  using matching_known [of now m ip "is_direct_domain (tc_lower ctx) (tc_checker ctx)" d]
  by (simp add: cached_direct_domain_def split: if_splits)

lemma rules_allow_domain:
  "snd (cached_direct_domain ctx now m (sa_ip target)) \<noteq> None \<Longrightarrow> rules_allow ctx m target"
  using cached_direct_domain_Some [of ctx now m "sa_ip target"] by (auto simp: rules_allow_def)

lemma rules_allow_ip:
  "is_direct (tc_lower ctx) (tc_checker ctx) (socket_addr_to_address target) \<Longrightarrow> rules_allow ctx m target"
  by (simp add: rules_allow_def)

lemmas dispatch_defs = udp_dispatch_def android_udp_dispatch_def address_for_tun_target_def
  classify_udp_route_def android_classify_udp_route_def Let_def

lemma udp_dispatch_new:
  assumes "snd (udp_dispatch ctx now data source target (m, ss)) = NewSession"
  shows "(\<not> tc_proxy_udp ctx \<and> sa_port target \<noteq> 443) \<or> rules_allow ctx m target"
    "\<not> contains_ip (tc_networks ctx) (sa_ip target)"
  using assms rules_allow_domain [of ctx now m target] rules_allow_ip [of ctx target m]
  by (auto simp: dispatch_defs reject_tun_target_def split: if_splits prod.splits)

lemma android_dispatch_new:
  assumes "snd (android_udp_dispatch ctx now data source target (m, ss)) = NewSession"
  shows "rules_allow ctx m target" "\<not> contains_ip (tc_networks ctx) (sa_ip target)"
  using assms rules_allow_domain [of ctx now m target] rules_allow_ip [of ctx target m]
  by (auto simp: dispatch_defs reject_tun_target_def split: if_splits prod.splits)

lemma handle_tun_tcp_direct:
  assumes "snd (handle_tun_tcp ctx now source target m) = FlowDirect t"
  shows "t = target" "rules_allow ctx m target" "\<not> contains_ip (tc_networks ctx) (sa_ip target)"
  using assms rules_allow_domain [of ctx now m target] rules_allow_ip [of ctx target m]
  by (auto simp: handle_tun_tcp_def address_for_tun_target_def reject_tun_target_def Let_def
      split: if_splits prod.splits)

lemma handle_tun_udp_direct:
  assumes "snd (handle_tun_udp ctx now client target m) = FlowDirect t"
  shows "t = target" "\<not> tc_proxy_udp ctx \<or> rules_allow ctx m target"
    "\<not> contains_ip (tc_networks ctx) (sa_ip target)"
  using assms rules_allow_domain [of ctx now m target] rules_allow_ip [of ctx target m]
  by (auto simp: handle_tun_udp_def address_for_tun_target_def reject_tun_target_def Let_def
      split: if_splits prod.splits)

section \<open>Properties\<close>


text \<open>
  No traffic is sent back into the TUN device: a datagram that the dispatcher of either agent
  forwards to the relay or to a direct session, and a UDP or TCP flow that is connected directly
  or through the proxy to its own address, has a target outside the networks of the device.
\<close>
theorem tun_never_loops:
  "(case snd (udp_dispatch ctx now data source target (m, ss)) of
      ToRelay _ \<Rightarrow> \<not> contains_ip (tc_networks ctx) (sa_ip target)
    | NewSession \<Rightarrow> \<not> contains_ip (tc_networks ctx) (sa_ip target)
    | ToSession \<Rightarrow> \<not> contains_ip (tc_networks ctx) (sa_ip target)
    | _ \<Rightarrow> True) \<and>
   (case snd (android_udp_dispatch ctx now data source target (m, ss)) of
      ToRelay _ \<Rightarrow> \<not> contains_ip (tc_networks ctx) (sa_ip target)
    | NewSession \<Rightarrow> \<not> contains_ip (tc_networks ctx) (sa_ip target)
    | ToSession \<Rightarrow> \<not> contains_ip (tc_networks ctx) (sa_ip target)
    | _ \<Rightarrow> True) \<and>
   (case snd (handle_tun_udp ctx now source target m) of
      FlowDirect _ \<Rightarrow> \<not> contains_ip (tc_networks ctx) (sa_ip target)
    | FlowProxy _ \<Rightarrow> \<not> contains_ip (tc_networks ctx) (sa_ip target)
    | _ \<Rightarrow> True) \<and>
   (case snd (handle_tun_tcp ctx now source target m) of
      FlowDirect _ \<Rightarrow> \<not> contains_ip (tc_networks ctx) (sa_ip target)
    | FlowProxy (ProxyDns _) \<Rightarrow> tc_proxy_dns ctx
    | FlowProxy _ \<Rightarrow> \<not> contains_ip (tc_networks ctx) (sa_ip target)
    | _ \<Rightarrow> True)"
proof -
  have dispatch: "contains_ip (tc_networks ctx) (sa_ip target) \<Longrightarrow>
      snd (udp_dispatch ctx now data source target (m, ss)) \<in> {ToDnsProxy, DroppedLocal, Rejected} \<and>
      snd (android_udp_dispatch ctx now data source target (m, ss)) \<in> {ToDnsProxy, DroppedLocal, Rejected}"
    by (auto simp: dispatch_defs reject_tun_target_def split: prod.splits)
  have udp: "contains_ip (tc_networks ctx) (sa_ip target) \<Longrightarrow>
      snd (handle_tun_udp ctx now source target m) \<in> {FlowDropped, FlowRejected}"
    by (auto simp: handle_tun_udp_def reject_tun_target_def Let_def split: prod.splits)
  have tcp: "snd (handle_tun_tcp ctx now source target m) = FlowRejected" 
    if "contains_ip (tc_networks ctx) (sa_ip target)" "\<not> (tc_proxy_dns ctx \<and> sa_port target = 53)"
    using that by (auto simp: handle_tun_tcp_def address_for_tun_target_def reject_tun_target_def Let_def)
  have dns: "snd (handle_tun_tcp ctx now source target m) = FlowProxy (ProxyDns 53)"
    if "tc_proxy_dns ctx \<and> sa_port target = 53"
    using that by (simp add: handle_tun_tcp_def address_for_tun_target_def Let_def)
  have no_dns: "snd (handle_tun_tcp ctx now source target m) \<noteq> FlowProxy (ProxyDns p)"
    if "\<not> (tc_proxy_dns ctx \<and> sa_port target = 53)" for p
    using that by (auto simp: handle_tun_tcp_def address_for_tun_target_def socket_addr_to_address_def
        Let_def split: prod.splits if_splits IpAddr.splits)
  show ?thesis
  proof (intro conjI, goal_cases)
    case 1
    show ?case using dispatch by (auto split: udp_disposition.split)
  next
    case 2
    show ?case using dispatch by (auto split: udp_disposition.split)
  next
    case 3
    show ?case using udp by (auto split: flow_route.split)
  next
    case 4
    show ?case
    proof (cases "tc_proxy_dns ctx \<and> sa_port target = 53")
      case False
      then show ?thesis using tcp [OF _ False] no_dns [OF False]
        by (auto split: flow_route.split Address.split)
    qed (simp add: dns)
  qed
qed

text \<open>A context for examples: a rule for one domain, a device with the network 10.0.0.0/24.\<close>

definition example_context :: tun_context where
  "example_context = \<lparr>tc_lower = to_ascii_lowercase, tc_read = (\<lambda>_. None),
     tc_networks = \<lparr>tn_ipv4 = [10, 0, 0, 1], tn_ipv4_prefix = 24, tn_ipv6 = None\<rparr>,
     tc_checker = \<lparr>ch_mode = Rules, ch_rules = [ExactDomain ''a.b'']\<rparr>,
     tc_proxy_dns = True, tc_proxy_udp = True, tc_quic = Allow\<rparr>"

lemma example_domain: "is_direct_domain to_ascii_lowercase \<lparr>ch_mode = Rules, ch_rules = [ExactDomain ''a.b'']\<rparr> ''a.b''"
proof -
  have "normalize_domain to_ascii_lowercase ''a.b'' = ''a.b''" by code_simp
  moreover have "\<not> is_force_proxy_domain ''a.b''" by code_simp
  ultimately show ?thesis by (simp add: is_direct_domain_def)
qed

lemma example_outside: "\<not> contains_ip (tc_networks example_context) (V4 [1, 2, 3, 4])"
  "\<not> is_ipv4_broadcast (tc_networks example_context) (V4 [1, 2, 3, 4])"
  by (simp_all add: example_context_def ipv4_in_cidr_def u32_from_be_def nat_of_be_def ipv4_mask_def
      mask_eq_exp_minus_1)

lemma example_dispatch:
  assumes "map_of m (V4 [1, 2, 3, 4]) = Some \<lparr>de_domains = [''a.b''], de_expires_at = e\<rparr>" "now < e"
  shows "snd (udp_dispatch example_context now [] \<lparr>sa_ip = V4 [10, 0, 0, 2], sa_port = 9\<rparr>
      \<lparr>sa_ip = V4 [1, 2, 3, 4], sa_port = 443\<rparr> (m, [])) = NewSession"
proof -
  have "cached_direct_domain example_context now m (V4 [1, 2, 3, 4]) = (m, Some ''a.b'')"
    using assms example_domain
    by (simp add: cached_direct_domain_def matching_domain_for_ip_def example_context_def
        has_domain_direct_rules_def)
  moreover have "\<not> is_direct (tc_lower example_context) (tc_checker example_context) (Ipv4 [1, 2, 3, 4] 443)"
    by (simp add: example_context_def is_direct_def matches_any_rule_def)
  ultimately show ?thesis
    using example_outside
    by (simp add: udp_dispatch_def is_tun_local_udp_target_def reject_tun_target_def
        address_for_tun_target_def socket_addr_to_address_def should_consult_udp_domain_cache_def
        classify_udp_route_def example_context_def)
qed


lemma handle_tun_udp_agrees:
  assumes "udp_dispatch ctx now data source target (m, ss) = (st', NewSession)"
  shows "snd (handle_tun_udp ctx now source target (fst st')) = FlowDirect target"
proof -
  let ?cached = "cached_direct_domain ctx now m (sa_ip target)"
  have same: "fst ?cached = m" if "snd ?cached \<noteq> None"
    using that by (auto simp: cached_direct_domain_def matching_domain_for_ip_def split: option.splits if_splits)
  show ?thesis
  proof (cases "tc_proxy_udp ctx")
    case True
    then have "is_direct (tc_lower ctx) (tc_checker ctx) (socket_addr_to_address target) \<and> fst st' = m \<or>
        snd ?cached \<noteq> None \<and> fst st' = m"
      using assms same by (auto simp: dispatch_defs should_consult_udp_domain_cache_def
          split: if_splits prod.splits)
    then show ?thesis
      using assms True by (auto simp: dispatch_defs handle_tun_udp_def split: if_splits prod.splits)
  next
    case False
    then show ?thesis
      using assms by (auto simp: dispatch_defs handle_tun_udp_def split: if_splits prod.splits)
  qed
qed

text \<open>
  The dispatcher and the session it starts agree: when a datagram opens a direct session, the
  session's own routing, with the cache as the dispatcher left it, connects to the target of the
  datagram directly and does not send it through the proxy or drop it.
\<close>
theorem dispatch_and_session_agree:
  assumes "udp_dispatch ctx now data source target (m, ss) = ((m', ss'), NewSession)"
  shows "snd (handle_tun_udp ctx now source target m') = FlowDirect target \<and> ss' = (source, target) # ss"
  using handle_tun_udp_agrees [OF assms] assms
  by (auto simp: dispatch_defs split: if_splits prod.splits)

theorem dispatch_and_session_agree_witness:
  "snd (handle_tun_udp example_context 5 \<lparr>sa_ip = V4 [10, 0, 0, 2], sa_port = 9\<rparr>
     \<lparr>sa_ip = V4 [1, 2, 3, 4], sa_port = 443\<rparr>
     [(V4 [1, 2, 3, 4], \<lparr>de_domains = [''a.b''], de_expires_at = 300\<rparr>)]) =
   FlowDirect \<lparr>sa_ip = V4 [1, 2, 3, 4], sa_port = 443\<rparr>"
proof -
  let ?m = "[(V4 [1, 2, 3, 4], \<lparr>de_domains = [''a.b''], de_expires_at = 300\<rparr>)]"
  let ?s = "\<lparr>sa_ip = V4 [10, 0, 0, 2], sa_port = 9\<rparr>" and ?t = "\<lparr>sa_ip = V4 [1, 2, 3, 4], sa_port = 443\<rparr>"
  have "snd (udp_dispatch example_context 5 [] ?s ?t (?m, [])) = NewSession"
    by (rule example_dispatch [where e = 300]) simp_all
  then obtain m' ss' where
    step: "udp_dispatch example_context 5 [] ?s ?t (?m, []) = ((m', ss'), NewSession)"
    by (metis prod.collapse)
  then have "m' = ?m"
    by (auto simp: dispatch_defs cached_direct_domain_def matching_domain_for_ip_def split: if_splits prod.splits)
  with dispatch_and_session_agree [OF step] show ?thesis by simp
qed

fun udp_dispatch_all ::
  "tun_context \<Rightarrow> (nat \<times> bytes \<times> SocketAddr \<times> SocketAddr) list \<Rightarrow> domain_map \<times> udp_key list \<Rightarrow>
   (domain_map \<times> udp_key list) \<times> (SocketAddr \<times> udp_disposition) list" where
  "udp_dispatch_all ctx [] st = (st, [])"
| "udp_dispatch_all ctx ((now, data, source, target) # ps) st =
     (let (st1, d) = udp_dispatch ctx now data source target st;
          (st2, ds) = udp_dispatch_all ctx ps st1
      in (st2, (target, d) # ds))"

lemma udp_dispatch_block:
  assumes "tc_quic ctx = Block" "\<forall>(s, t) \<in> set ss. sa_port t \<noteq> 443"
    and "udp_dispatch ctx now data source target (m, ss) = ((m', ss'), d)"
  shows "\<forall>(s, t) \<in> set ss'. sa_port t \<noteq> 443"
    "sa_port target = 443 \<Longrightarrow> d \<in> {DroppedLocal, Rejected, Blocked}"
  using assms by (auto simp: dispatch_defs split: if_splits prod.splits)

lemma udp_dispatch_relay: "snd (udp_dispatch ctx now data source target st) \<noteq> NoRelay"
  by (cases st) (auto simp: dispatch_defs should_start_udp_relay_def split: if_splits prod.splits)

lemma udp_dispatch_all_block:
  "tc_quic ctx = Block \<Longrightarrow> \<forall>(s, t) \<in> set ss. sa_port t \<noteq> 443 \<Longrightarrow>
   (target, d) \<in> set (snd (udp_dispatch_all ctx ps (m, ss))) \<Longrightarrow> sa_port target = 443 \<Longrightarrow>
   d \<in> {DroppedLocal, Rejected, Blocked}"
proof (induction ps arbitrary: m ss)
  case (Cons p ps)
  obtain now data source t where p: "p = (now, data, source, t)" by (metis prod_cases4)
  obtain m1 ss1 d1 where step: "udp_dispatch ctx now data source t (m, ss) = ((m1, ss1), d1)"
    by (metis prod.collapse)
  note keep = udp_dispatch_block [OF Cons.prems(1, 2) step]
  from Cons.prems(3) step p
  have "(target, d) = (t, d1) \<or> (target, d) \<in> set (snd (udp_dispatch_all ctx ps (m1, ss1)))"
    by (auto simp: Let_def split: prod.splits)
  with keep(2) Cons.IH [OF Cons.prems(1) keep(1) _ Cons.prems(4)] Cons.prems(4) show ?case by auto
qed simp

lemma udp_dispatch_all_relay:
  "(target, d) \<in> set (snd (udp_dispatch_all ctx ps st)) \<Longrightarrow> d \<noteq> NoRelay"
proof (induction ps arbitrary: st)
  case (Cons p ps)
  obtain now data source t where p: "p = (now, data, source, t)" by (metis prod_cases4)
  show ?case
    using Cons.prems Cons.IH [of "fst (udp_dispatch ctx now data source t st)"]
      udp_dispatch_relay [of ctx now data source t st]
    by (auto simp: p Let_def split: prod.splits)
qed simp

text \<open>
  Blocking QUIC is complete: with the block policy, over any sequence of datagrams, nothing
  sent to port 443 reaches the proxy, a direct session or the DNS proxy, whatever the rules and
  the domain cache say. And the dispatcher never lacks the relay it routes to: the relay is
  started whenever a route through the proxy is possible.
\<close>
theorem quic_block_complete:
  assumes "tc_quic ctx = Block"
    and "(target, d) \<in> set (snd (udp_dispatch_all ctx ps (m, [])))" and "sa_port target = 443"
    and "(target', d') \<in> set (snd (udp_dispatch_all ctx' ps (m, [])))"
  shows "d \<in> {DroppedLocal, Rejected, Blocked} \<and> d' \<noteq> NoRelay"
  using udp_dispatch_all_block [OF assms(1) _ assms(2, 3)] udp_dispatch_all_relay [OF assms(4)]
  by simp

theorem quic_block_complete_witness:
  "Blocked \<in> {DroppedLocal, Rejected, Blocked} \<and> ToRelay (Ipv4 [1, 2, 3, 4] 443) \<noteq> NoRelay"
proof -
  let ?s = "\<lparr>sa_ip = V4 [10, 0, 0, 2], sa_port = 9\<rparr>" and ?t = "\<lparr>sa_ip = V4 [1, 2, 3, 4], sa_port = 443\<rparr>"
  let ?ctx = "example_context\<lparr>tc_quic := Block\<rparr>"
  have not_direct: "\<not> is_direct (tc_lower example_context) (tc_checker example_context) (Ipv4 [1, 2, 3, 4] 443)"
    by (simp add: example_context_def is_direct_def matches_any_rule_def)
  have "(?t, Blocked) \<in> set (snd (udp_dispatch_all ?ctx [(0, [], ?s, ?t)] ([], [])))"
    using not_direct example_outside
    by (simp add: udp_dispatch_def is_tun_local_udp_target_def reject_tun_target_def
        address_for_tun_target_def socket_addr_to_address_def classify_udp_route_def
        cached_direct_domain_def matching_domain_for_ip_def Let_def)
  moreover have "(?t, ToRelay (Ipv4 [1, 2, 3, 4] 443)) \<in>
      set (snd (udp_dispatch_all example_context [(0, [], ?s, ?t)] ([], [])))"
    using not_direct example_outside
    by (simp add: udp_dispatch_def is_tun_local_udp_target_def reject_tun_target_def
        address_for_tun_target_def socket_addr_to_address_def classify_udp_route_def
        cached_direct_domain_def matching_domain_for_ip_def Let_def should_start_udp_relay_def)
       (simp add: example_context_def)
  ultimately show ?thesis
    using quic_block_complete [of ?ctx ?t Blocked "[(0, [], ?s, ?t)]" "[]" ?t _ example_context] by simp
qed

section \<open>The packet guard\<close>

text \<open>An IPv4 header without options and an IPv6 header.\<close>

definition ipv4_packet :: "u16 \<Rightarrow> u8 \<Rightarrow> bytes \<Rightarrow> bytes \<Rightarrow> bytes" where
  "ipv4_packet fragment protocol addrs payload =
     [0x45, 0] @ u16_to_be (word_of_nat (20 + length payload)) @ [0, 0] @ u16_to_be fragment @
     [64, protocol, 0, 0] @ addrs @ payload"

definition ipv6_packet :: "u8 \<Rightarrow> bytes \<Rightarrow> bytes \<Rightarrow> bytes" where
  "ipv6_packet next_header addrs payload =
     [0x60, 0, 0, 0] @ u16_to_be (word_of_nat (length payload)) @ [next_header, 64] @ addrs @ payload"

lemma u16_to_be_split:
  fixes w :: u16
  obtains a b :: u8 where "u16_to_be w = [a, b]" "u16_from_be [a, b] = w"
proof -
  have two: "length xs = 2 \<Longrightarrow> \<exists>a b. xs = [a, b]" for xs :: bytes
    by (auto simp: numeral_2_eq_2 length_Suc_conv)
  obtain a b where ab: "u16_to_be w = [a, b]" using two [of "u16_to_be w"] by auto
  then have "u16_from_be [a, b] = w" by (metis u_from_to_be(1))
  with ab that show thesis by blast
qed

lemma ipv4_guard:
  assumes "length addrs = 8" "length payload \<le> 65515"
  shows "tun_packet_is_safe_for_netstack (ipv4_packet fragment protocol addrs payload) \<longleftrightarrow>
    fragment AND 0x3FFF = 0 \<and> (protocol = 17 \<longrightarrow> valid_udp_payload payload)"
proof -
  let ?n = "20 + length payload"
  obtain a b where len: "u16_to_be (word_of_nat ?n) = [a, b]" "u16_from_be [a, b] = (word_of_nat ?n :: u16)"
    by (rule u16_to_be_split)
  obtain c d where frag: "u16_to_be fragment = [c, d]" "u16_from_be [c, d] = fragment"
    by (rule u16_to_be_split)
  have small: "k < 65536 \<Longrightarrow> unat (word_of_nat k :: u16) = k" for k
    by (simp add: unsigned_of_nat take_bit_nat_eq_self)
  have n: "unat (word_of_nat ?n :: u16) = ?n" using assms(2) by (intro small) simp
  let ?p = "ipv4_packet fragment protocol addrs payload"
  have p: "?p = [0x45, 0, a, b, 0, 0, c, d, 64, protocol, 0, 0] @ addrs @ payload"
    unfolding ipv4_packet_def len(1) frag(1) by simp
  have size: "length ?p = ?n" using assms(1) by (simp add: p)
  have body: "slice ?p 20 ?n = payload" using assms(1) by (simp add: p slice_def)
  have head: "drop_bit 4 (0x45 :: u8) = 4" "unat ((0x45 :: u8) AND 0x0F) * 4 = 20" by simp_all
  show ?thesis
    using size body n head
    by (simp add: tun_packet_is_safe_for_netstack_def p len frag Let_def)
qed

text \<open>
  The packet guard in front of the network stack passes an IPv4 packet without options exactly
  when it is no fragment, neither the first nor a later one, and, if it is UDP, carries a datagram
  whose own length field covers a whole header and stays within the packet.
\<close>
theorem ipv4_guard_exact:
  assumes "length addrs = 8" "length payload \<le> 65515"
  shows "tun_packet_is_safe_for_netstack (ipv4_packet fragment protocol addrs payload) \<longleftrightarrow>
    \<not> bit fragment 13 \<and> fragment AND 0x1FFF = 0 \<and>
    (protocol = 17 \<longrightarrow> 8 \<le> length payload \<and>
       8 \<le> unat (u16_from_be [payload ! 4, payload ! 5]) \<and>
       unat (u16_from_be [payload ! 4, payload ! 5]) \<le> length payload)"
proof -
  have "(0x3FFF :: u16) = 2 ^ 13 OR 0x1FFF" by simp
  then have "fragment AND 0x3FFF = (fragment AND 2 ^ 13) OR (fragment AND 0x1FFF)"
    by (simp only: bit.conj_disj_distrib)
  then have "fragment AND 0x3FFF = 0 \<longleftrightarrow> \<not> bit fragment 13 \<and> fragment AND 0x1FFF = 0"
    by (simp only: or_eq_0_iff and_exp_eq_0_iff_not_bit)
  then show ?thesis
    by (simp add: ipv4_guard [OF assms] valid_udp_payload_def Let_def not_less)
qed

theorem ipv4_guard_exact_witness:
  "tun_packet_is_safe_for_netstack
     (ipv4_packet 0x4000 17 [10, 0, 0, 1, 1, 1, 1, 1] [0, 9, 1, 0xBB, 0, 9, 0, 0, 0x41])"
  using ipv4_guard_exact [of "[10, 0, 0, 1, 1, 1, 1, 1]" "[0, 9, 1, 0xBB, 0, 9, 0, 0, 0x41]" "0x4000" 17]
  by (simp add: u16_from_be_def nat_of_be_def)

text \<open>
  The guard looks for an IPv6 fragment header only right after the fixed header. A fragment
  whose fragment header follows a hop-by-hop header passes, although the guard is there to keep
  fragments away from the network stack.
\<close>
theorem ipv6_fragment_behind_extension_passes:
  assumes "length addrs = 32" "length payload \<le> 60000"
  shows "tun_packet_is_safe_for_netstack (ipv6_packet 0 addrs ([44, 0, 1, 4, 0, 0, 0, 0] @ payload)) \<and>
    \<not> tun_packet_is_safe_for_netstack (ipv6_packet 44 addrs payload)"
proof -
  have small: "k < 65536 \<Longrightarrow> unat (word_of_nat k :: u16) = k" for k
    by (simp add: unsigned_of_nat take_bit_nat_eq_self)
  have guard: "tun_packet_is_safe_for_netstack (ipv6_packet nh addrs body) \<longleftrightarrow>
      nh \<noteq> 44 \<and> (nh = 17 \<longrightarrow> valid_udp_payload body)" if "length body \<le> 65535" for nh body
  proof -
    obtain a b where len: "u16_to_be (word_of_nat (length body)) = [a, b]"
      "u16_from_be [a, b] = (word_of_nat (length body) :: u16)"
      by (rule u16_to_be_split)
    let ?p = "ipv6_packet nh addrs body"
    have p: "?p = [0x60, 0, 0, 0, a, b, nh, 64] @ addrs @ body" by (simp add: ipv6_packet_def len)
    have "slice ?p 40 (40 + length body) = body" using assms(1) by (simp add: p slice_def)
    moreover have "drop_bit 4 (0x60 :: u8) = 6" by simp
    ultimately show ?thesis
      using assms(1) small [of "length body"] that
      by (simp add: tun_packet_is_safe_for_netstack_def p len Let_def)
  qed
  show ?thesis using guard assms(2) by simp
qed

theorem ipv6_fragment_behind_extension_passes_witness:
  "tun_packet_is_safe_for_netstack (ipv6_packet 0 (replicate 32 1) ([44, 0, 1, 4, 0, 0, 0, 0] @ [17, 0, 0, 9]))"
  using ipv6_fragment_behind_extension_passes [of "replicate 32 1" "[17, 0, 0, 9]"] by simp

end
