(* ===== verification/Agent_Udp_Relay.thy ===== *)
theory Agent_Udp_Relay
  imports Net_Addr Messages "HOL-Library.AList"
begin

text \<open>
  The shared UDP relay of the agents, \<open>desktop-agent-be/src/tun_handler/udp_relay.rs\<close>, which
  \<open>android-agent/native/src/netstack/udp_relay.rs\<close> repeats: datagrams of many flows share one
  stream to the proxy, each with the id of its flow. The flow table, the batches of requests and
  the way back of responses. Writing to the stream and to the network stack succeeds or fails by
  an argument. The lemmas show that the two directions of the table are inverse, that the search
  for an id ends, and that a response never reaches a flow other than the one its id was given to.
\<close>

section \<open>The flow table\<close>

definition UDP_FLOW_TTL :: nat where "UDP_FLOW_TTL = 300000"
definition UDP_RELAY_REQUEST_BATCH_LIMIT :: nat where "UDP_RELAY_REQUEST_BATCH_LIMIT = 32"

record UdpFlowKey =
  fk_client :: SocketAddr
  fk_target :: SocketAddr

record UdpRelayState =
  us_flow_ids :: "(UdpFlowKey \<times> u64) list"
  us_flows :: "(u64 \<times> UdpFlowKey) list"
  us_last_seen :: "(u64 \<times> nat) list"
  us_next_flow_id :: u64

definition relay_state_new :: UdpRelayState where
  "relay_state_new = \<lparr>us_flow_ids = [], us_flows = [], us_last_seen = [], us_next_flow_id = 1\<rparr>"

text \<open>\<open>wrapping_add(1).max(1)\<close>\<close>

definition next_candidate :: "u64 \<Rightarrow> u64" where
  "next_candidate i = max (i + 1) 1"

text \<open>
  The loop of \<open>next_available_flow_id\<close>, with fuel: the id found and the next candidate. One more
  turn than there are flows is enough, see \<open>flow_search_ends\<close>.
\<close>

fun next_available_loop :: "nat \<Rightarrow> (u64 \<times> UdpFlowKey) list \<Rightarrow> u64 \<Rightarrow> (u64 \<times> u64) option" where
  "next_available_loop 0 flows i = None"
| "next_available_loop (Suc n) flows i =
     (if map_of flows i = None then Some (i, next_candidate i)
      else next_available_loop n flows (next_candidate i))"

definition next_available_flow_id :: "UdpRelayState \<Rightarrow> (u64 \<times> u64) option" where
  "next_available_flow_id st =
     next_available_loop (length (us_flows st) + 1) (us_flows st) (us_next_flow_id st)"

text \<open>\<open>None\<close> when every id is taken, where the code would search forever.\<close>

definition assign_flow_id :: "nat \<Rightarrow> SocketAddr \<Rightarrow> SocketAddr \<Rightarrow> UdpRelayState \<Rightarrow> (UdpRelayState \<times> u64) option" where
  "assign_flow_id now client target st =
     (let key = \<lparr>fk_client = client, fk_target = target\<rparr> in
      case map_of (us_flow_ids st) key of
        Some i \<Rightarrow> Some (st\<lparr>us_last_seen := AList.update i now (us_last_seen st)\<rparr>, i)
      | None \<Rightarrow>
          (case next_available_flow_id st of
             None \<Rightarrow> None
           | Some (i, next) \<Rightarrow>
               Some (st\<lparr>us_next_flow_id := next,
                        us_flow_ids := AList.update key i (us_flow_ids st),
                        us_flows := AList.update i key (us_flows st),
                        us_last_seen := AList.update i now (us_last_seen st)\<rparr>, i)))"

definition relay_flow :: "UdpRelayState \<Rightarrow> u64 \<Rightarrow> UdpFlowKey option" where
  "relay_flow st i = map_of (us_flows st) i"

definition expire_flow :: "u64 \<Rightarrow> UdpRelayState \<Rightarrow> UdpRelayState" where
  "expire_flow i st =
     (let st = st\<lparr>us_last_seen := AList.delete i (us_last_seen st)\<rparr> in
      case map_of (us_flows st) i of
        Some key \<Rightarrow> st\<lparr>us_flows := AList.delete i (us_flows st),
                       us_flow_ids := AList.delete key (us_flow_ids st)\<rparr>
      | None \<Rightarrow> st)"

definition relay_cleanup_expired :: "nat \<Rightarrow> UdpRelayState \<Rightarrow> UdpRelayState" where
  "relay_cleanup_expired now st =
     fold expire_flow (map fst (filter (\<lambda>(i, seen). seen + UDP_FLOW_TTL \<le> now) (us_last_seen st))) st"

section \<open>Requests and responses\<close>

record UdpRelayRequest =
  ur_client :: SocketAddr
  ur_target :: SocketAddr
  ur_address :: Address
  ur_packet :: bytes

record relay_stats =
  rl_sent_packets :: u64
  rl_sent_payload_bytes :: u64
  rl_send_batches :: u64
  rl_send_batched_packets :: u64
  rl_response_packets :: u64
  rl_response_payload_bytes :: u64

definition record_sent_batch :: "nat \<Rightarrow> nat \<Rightarrow> relay_stats \<Rightarrow> relay_stats" where
  "record_sent_batch packets payload_bytes s =
     s\<lparr>rl_sent_packets := rl_sent_packets s + word_of_nat packets,
       rl_sent_payload_bytes := rl_sent_payload_bytes s + word_of_nat payload_bytes,
       rl_send_batches := rl_send_batches s + 1,
       rl_send_batched_packets :=
         rl_send_batched_packets s + (if packets > 1 then word_of_nat packets else 0)\<rparr>"

definition record_response :: "nat \<Rightarrow> relay_stats \<Rightarrow> relay_stats" where
  "record_response payload_bytes s =
     s\<lparr>rl_response_packets := rl_response_packets s + 1,
       rl_response_payload_bytes := rl_response_payload_bytes s + word_of_nat payload_bytes\<rparr>"

text \<open>
  One datagram: the packet written, or \<open>Err\<close> when it cannot be encoded or the stream refuses it
  (\<open>ok\<close>). The flow stays in the table either way.
\<close>

definition write_udp_request ::
  "UdpRelayPacket bitcode \<Rightarrow> nat \<Rightarrow> bool \<Rightarrow> UdpRelayRequest \<Rightarrow> UdpRelayState \<Rightarrow>
   (UdpRelayState \<times> (unit + bytes)) option" where
  "write_udp_request bc now ok request st =
     (case assign_flow_id now (ur_client request) (ur_target request) st of
        None \<Rightarrow> None
      | Some (st, i) \<Rightarrow>
          Some (st, case bc_serialize bc \<lparr>up_flow_id = i, up_address = ur_address request,
                                        up_data = ur_packet request\<rparr> of
                      Inl _ \<Rightarrow> Err ()
                    | Inr packet \<Rightarrow> if ok then Ok packet else Err ()))"

text \<open>
  \<open>send_udp_request_batch\<close>: the first request and up to 31 queued ones; the queue that remains,
  the packets written and, when writing or flushing fails, the one request kept for a retry. A
  write is tried for every request, so \<open>oks\<close> says for each of them whether it succeeds.
\<close>

fun write_batch ::
  "UdpRelayPacket bitcode \<Rightarrow> nat \<Rightarrow> (UdpRelayRequest \<times> bool) list \<Rightarrow> UdpRelayState \<Rightarrow>
   (UdpRelayState \<times> bytes list \<times> UdpRelayRequest option) option" where
  "write_batch bc now [] st = Some (st, [], None)"
| "write_batch bc now ((request, ok) # rest) st =
     (case write_udp_request bc now ok request st of
        None \<Rightarrow> None
      | Some (st, Inl _) \<Rightarrow> Some (st, [], Some request)
      | Some (st, Inr packet) \<Rightarrow>
          (case write_batch bc now rest st of
             None \<Rightarrow> None
           | Some (st, packets, failed) \<Rightarrow> Some (st, packet # packets, failed)))"

definition send_udp_request_batch ::
  "UdpRelayPacket bitcode \<Rightarrow> nat \<Rightarrow> (nat \<Rightarrow> bool) \<Rightarrow> bool \<Rightarrow> UdpRelayRequest \<Rightarrow> UdpRelayRequest list \<Rightarrow>
   UdpRelayState \<times> relay_stats \<Rightarrow>
   ((UdpRelayState \<times> relay_stats) \<times> UdpRelayRequest list \<times> bytes list \<times> UdpRelayRequest option) option" where
  "send_udp_request_batch bc now write_ok flush_ok first_request queue st =
     (let batch = first_request # take (UDP_RELAY_REQUEST_BATCH_LIMIT - 1) queue;
          queue = drop (UDP_RELAY_REQUEST_BATCH_LIMIT - 1) queue
      in case write_batch bc now (zip batch (map write_ok [0..<length batch])) (fst st) of
           None \<Rightarrow> None
         | Some (s, packets, Some request) \<Rightarrow> Some ((s, snd st), queue, packets, Some request)
         | Some (s, packets, None) \<Rightarrow>
             if flush_ok
             then Some ((s, record_sent_batch (length batch) (sum_list (map (length \<circ> ur_packet) batch)) (snd st)),
                        queue, packets, None)
             else Some ((s, snd st), queue, packets, Some (hd batch)))"

text \<open>
  A response: the datagram handed to the network stack (data, source, destination), nothing when
  the packet does not decode or its flow is unknown.
\<close>

definition handle_udp_response ::
  "UdpRelayPacket bitcode \<Rightarrow> UdpRelayState \<Rightarrow> bytes \<Rightarrow> (bytes \<times> SocketAddr \<times> SocketAddr) option" where
  "handle_udp_response bc st response =
     (case bc_deserialize bc response of
        Inl _ \<Rightarrow> None
      | Inr packet \<Rightarrow>
          (case relay_flow st (up_flow_id packet) of
             None \<Rightarrow> None
           | Some key \<Rightarrow> Some (up_data packet, fk_target key, fk_client key)))"

section \<open>A run of the relay\<close>

text \<open>
  What changes the table of one relay task: batches of requests, of which the model keeps the ids
  given out, and the clean-up.
\<close>

datatype relay_op = Assign nat SocketAddr SocketAddr | Expire nat

fun relay_op_step :: "relay_op \<Rightarrow> UdpRelayState \<times> (u64 \<times> UdpFlowKey) list \<Rightarrow>
   (UdpRelayState \<times> (u64 \<times> UdpFlowKey) list) option" where
  "relay_op_step (Assign now client target) (st, given) =
     (case assign_flow_id now client target st of
        None \<Rightarrow> None
      | Some (st', i) \<Rightarrow> Some (st', given @ [(i, \<lparr>fk_client = client, fk_target = target\<rparr>)]))"
| "relay_op_step (Expire now) (st, given) = Some (relay_cleanup_expired now st, given)"

fun relay_ops :: "relay_op list \<Rightarrow> UdpRelayState \<times> (u64 \<times> UdpFlowKey) list \<Rightarrow>
   (UdpRelayState \<times> (u64 \<times> UdpFlowKey) list) option" where
  "relay_ops [] st = Some st"
| "relay_ops (p # ps) st = (case relay_op_step p st of None \<Rightarrow> None | Some st \<Rightarrow> relay_ops ps st)"

section \<open>The search for an id\<close>

lemma unat_next_candidate:
  assumes "i \<noteq> 0"
  shows "unat (next_candidate i) = unat i mod (2 ^ 64 - 1) + 1" "next_candidate i \<noteq> 0"
proof -
  have lt: "unat i < 2 ^ 64" using unsigned_less [of i, where 'a = nat] by simp
  show "unat (next_candidate i) = unat i mod (2 ^ 64 - 1) + 1"
  proof (cases "unat i = 2 ^ 64 - 1")
    case True
    then have "unat i = unat (- 1 :: u64)" by (simp add: unsigned_minus_1_eq_mask mask_eq_exp_minus_1)
    then have "i = - 1" by (rule injD [OF inj_unat])
    with True show ?thesis by (simp add: next_candidate_def)
  next
    case False
    then have "unat i < 2 ^ 64 - 1" using lt by simp
    moreover from this have "unat (i + 1) = unat i + 1"
      using unat_add_lem [of i 1] by simp
    moreover have "max (i + 1) 1 = i + 1"
      using \<open>unat (i + 1) = unat i + 1\<close> assms by (simp add: max_def word_le_nat_alt unat_eq_0)
    ultimately show ?thesis by (simp add: next_candidate_def)
  qed
  then show "next_candidate i \<noteq> 0" by auto
qed

lemma funpow_next_candidate:
  assumes "i \<noteq> 0"
  shows "(next_candidate ^^ k) i \<noteq> 0 \<and> unat ((next_candidate ^^ k) i) = (unat i - 1 + k) mod (2 ^ 64 - 1) + 1"
proof (induction k)
  case 0
  have "unat i < 2 ^ 64" using unsigned_less [of i, where 'a = nat] by simp
  moreover have "0 < unat i" using assms by (simp add: unat_gt_0)
  ultimately show ?case using assms by simp
next
  case (Suc k)
  then have "unat ((next_candidate ^^ Suc k) i) = ((unat i - 1 + k) mod (2 ^ 64 - 1) + 1) mod (2 ^ 64 - 1) + 1"
    "(next_candidate ^^ Suc k) i \<noteq> 0"
    using unat_next_candidate [of "(next_candidate ^^ k) i"] by simp_all
  then show ?case by (simp add: mod_Suc_eq)
qed

lemma funpow_next_candidate_inj:
  assumes "i \<noteq> 0" "n \<le> 2 ^ 64 - 1"
  shows "inj_on (\<lambda>k. (next_candidate ^^ k) i) {..<n}"
proof (rule inj_onI)
  fix a b assume ab: "a \<in> {..<n}" "b \<in> {..<n}" "(next_candidate ^^ a) i = (next_candidate ^^ b) i"
  let ?m = "2 ^ 64 - 1 :: nat" and ?s = "unat i - 1"
  have "(?s + a) mod ?m = (?s + b) mod ?m"
    using funpow_next_candidate [OF assms(1), of a] funpow_next_candidate [OF assms(1), of b] ab(3) by simp
  moreover have "(?s + x) mod ?m \<noteq> (?s + y) mod ?m" if "x < y" "y < n" for x y
  proof
    assume "(?s + x) mod ?m = (?s + y) mod ?m"
    then have "?m dvd (?s + y) - (?s + x)" using that by (subst mod_eq_dvd_iff_nat [symmetric]) auto
    then have "?m \<le> y - x" using that by (intro dvd_imp_le) auto
    with that assms(2) show False by simp
  qed
  ultimately show "a = b" using ab(1, 2) by (metis lessThan_iff linorder_neqE_nat)
qed

lemma next_available_loop_None:
  "next_available_loop n flows i = None \<longleftrightarrow> (\<forall>k < n. map_of flows ((next_candidate ^^ k) i) \<noteq> None)"
proof (induction n arbitrary: i)
  case (Suc n)
  have "(\<forall>k < Suc n. map_of flows ((next_candidate ^^ k) i) \<noteq> None) \<longleftrightarrow>
      map_of flows i \<noteq> None \<and> (\<forall>k < n. map_of flows ((next_candidate ^^ k) (next_candidate i)) \<noteq> None)"
    by (simp add: All_less_Suc2 funpow_swap1)
  with Suc [of "next_candidate i"] show ?case by auto
qed simp

lemma flow_search_ends:
  assumes "length flows < 2 ^ 64 - 1" "i \<noteq> 0"
  shows "next_available_loop (length flows + 1) flows i \<noteq> None"
proof
  assume "next_available_loop (length flows + 1) flows i = None"
  then have "\<forall>k < length flows + 1. map_of flows ((next_candidate ^^ k) i) \<noteq> None"
    unfolding next_available_loop_None .
  then have "(\<lambda>k. (next_candidate ^^ k) i) ` {..<length flows + 1} \<subseteq> fst ` set flows"
    by (auto simp: map_of_eq_None_iff)
  then have "card ((\<lambda>k. (next_candidate ^^ k) i) ` {..<length flows + 1}) \<le> card (set (map fst flows))"
    by (intro card_mono) auto
  moreover have "card ((\<lambda>k. (next_candidate ^^ k) i) ` {..<length flows + 1}) = length flows + 1"
    using funpow_next_candidate_inj [OF assms(2), of "length flows + 1"] assms(1) by (subst card_image) auto
  ultimately show False using card_length [of "map fst flows"] by simp
qed

lemma next_available_loop_Some:
  "next_available_loop n flows i = Some (j, nxt) \<Longrightarrow> map_of flows j = None"
  by (induction n flows i rule: next_available_loop.induct) (auto split: if_splits)

section \<open>The table\<close>

definition table_inv :: "UdpRelayState \<Rightarrow> bool" where
  "table_inv st \<longleftrightarrow> alist_ok (us_flow_ids st) \<and> alist_ok (us_flows st) \<and> us_next_flow_id st \<noteq> 0 \<and>
     (\<forall>k i. map_of (us_flow_ids st) k = Some i \<longleftrightarrow> map_of (us_flows st) i = Some k)"

text \<open>
  With the ids given out: all of them are below the next candidate, each belongs to one flow, and
  the table agrees with them.
\<close>

definition given_inv :: "nat \<Rightarrow> UdpRelayState \<times> (u64 \<times> UdpFlowKey) list \<Rightarrow> bool" where
  "given_inv n s \<longleftrightarrow> (case s of (st, given) \<Rightarrow> table_inv st \<and> unat (us_next_flow_id st) \<le> n + 1 \<and>
     length (us_flows st) \<le> n \<and>
     (\<forall>(i, k) \<in> set given. unat i < unat (us_next_flow_id st)) \<and>
     (\<forall>i k k'. (i, k) \<in> set given \<longrightarrow> (i, k') \<in> set given \<longrightarrow> k = k') \<and>
     (\<forall>i k. map_of (us_flows st) i = Some k \<longrightarrow> (i, k) \<in> set given))"

lemma expire_flow_inv:
  assumes "table_inv st"
  shows "table_inv (expire_flow i st)" "length (us_flows (expire_flow i st)) \<le> length (us_flows st)"
    "us_next_flow_id (expire_flow i st) = us_next_flow_id st"
    "map_of (us_flows (expire_flow i st)) j = Some k \<Longrightarrow> map_of (us_flows st) j = Some k"
  using assms length_delete_le [of i "us_flows st"]
  by (auto simp: expire_flow_def table_inv_def Let_def delete_conv split: option.splits if_splits)
     (metis option.inject)

lemma relay_cleanup_inv:
  assumes "table_inv st"
  shows "table_inv (fold expire_flow ids st) \<and> length (us_flows (fold expire_flow ids st)) \<le> length (us_flows st) \<and>
    us_next_flow_id (fold expire_flow ids st) = us_next_flow_id st \<and>
    (\<forall>j k. map_of (us_flows (fold expire_flow ids st)) j = Some k \<longrightarrow> map_of (us_flows st) j = Some k)"
  using assms
proof (induction ids arbitrary: st)
  case (Cons i ids)
  note step = expire_flow_inv [OF Cons.prems, of i]
  from Cons.IH [OF step(1)] step(2-4) show ?case by fastforce
qed simp

lemma given_inv_expire: "given_inv n (st, given) \<Longrightarrow> given_inv n (relay_cleanup_expired now st, given)"
  using relay_cleanup_inv [of st "map fst (filter (\<lambda>(i, seen). seen + UDP_FLOW_TTL \<le> now) (us_last_seen st))"]
  by (fastforce simp: given_inv_def relay_cleanup_expired_def)

lemma assign_step:
  assumes inv: "given_inv n (st, given)" and room: "n < 2 ^ 64 - 2"
  obtains st' i where "assign_flow_id now client target st = Some (st', i)"
    "given_inv (Suc n) (st', given @ [(i, \<lparr>fk_client = client, fk_target = target\<rparr>)])"
proof -
  let ?k = "\<lparr>fk_client = client, fk_target = target\<rparr>"
  show thesis
  proof (cases "map_of (us_flow_ids st) ?k")
    case (Some i)
    then have "map_of (us_flows st) i = Some ?k" using inv by (simp add: given_inv_def table_inv_def)
    with inv have "(i, ?k) \<in> set given" by (simp add: given_inv_def)
    with inv that Some show thesis
      by (fastforce simp: assign_flow_id_def given_inv_def table_inv_def)
  next
    case None
    let ?i = "us_next_flow_id st"
    have next_free: "map_of (us_flows st) ?i = None"
    proof (rule ccontr)
      assume "map_of (us_flows st) ?i \<noteq> None"
      then obtain k where "(?i, k) \<in> set given" using inv by (fastforce simp: given_inv_def)
      with inv show False by (fastforce simp: given_inv_def)
    qed
    have "?i \<noteq> 0" "unat ?i \<le> n + 1" using inv by (simp_all add: given_inv_def table_inv_def)
    with room have nxt: "unat (next_candidate ?i) = unat ?i + 1" "next_candidate ?i \<noteq> 0"
      using unat_next_candidate [of ?i] by simp_all
    have new: "assign_flow_id now client target st = Some (st\<lparr>us_next_flow_id := next_candidate ?i,
        us_flow_ids := AList.update ?k ?i (us_flow_ids st), us_flows := AList.update ?i ?k (us_flows st),
        us_last_seen := AList.update ?i now (us_last_seen st)\<rparr>, ?i)"
      using None next_free by (simp add: assign_flow_id_def next_available_flow_id_def Let_def)
    let ?st = "st\<lparr>us_next_flow_id := next_candidate ?i,
        us_flow_ids := AList.update ?k ?i (us_flow_ids st), us_flows := AList.update ?i ?k (us_flows st),
        us_last_seen := AList.update ?i now (us_last_seen st)\<rparr>"
    have table: "table_inv st" and below: "\<forall>(i, k) \<in> set given. unat i < unat ?i"
      and single: "\<And>i k k'. (i, k) \<in> set given \<Longrightarrow> (i, k') \<in> set given \<Longrightarrow> k = k'"
      and agree: "\<And>i k. map_of (us_flows st) i = Some k \<Longrightarrow> (i, k) \<in> set given"
      and size: "unat ?i \<le> n + 1" "length (us_flows st) \<le> n"
      using inv by (auto simp: given_inv_def)
    have inverse: "map_of (us_flow_ids st) k' = Some i' \<longleftrightarrow> map_of (us_flows st) i' = Some k'" for k' i'
      using table by (simp add: table_inv_def)
    have "map_of (us_flows st) i' \<noteq> Some ?k" for i' using inverse None by (metis option.distinct(1))
    then have "table_inv ?st"
      using table nxt(2) None next_free inverse by (auto simp: table_inv_def update_conv)
    moreover have "\<forall>(i, k) \<in> set (given @ [(?i, ?k)]). unat i < unat (next_candidate ?i)"
      using below nxt(1) by fastforce
    moreover have "k1 = k2" if "(j, k1) \<in> set (given @ [(?i, ?k)])" "(j, k2) \<in> set (given @ [(?i, ?k)])" for j k1 k2
      using that single below by fastforce
    moreover have "(j, k1) \<in> set (given @ [(?i, ?k)])" if "map_of (us_flows ?st) j = Some k1" for j k1
      using that agree by (auto simp: update_conv split: if_splits)
    ultimately have "given_inv (Suc n) (?st, given @ [(?i, ?k)])"
      using nxt(1) size next_free unfolding given_inv_def by (simp add: length_update_new)
    with new that show thesis by blast
  qed
qed

lemma relay_ops_inv:
  assumes "given_inv n s" "n + length ps \<le> 2 ^ 64 - 2"
  shows "\<exists>s'. relay_ops ps s = Some s' \<and> given_inv (n + length ps) s'"
  using assms
proof (induction ps arbitrary: n s)
  case (Cons p ps)
  obtain st given where s: "s = (st, given)" by fastforce
  have "\<exists>s1. relay_op_step p s = Some s1 \<and> given_inv (Suc n) s1"
  proof (cases p)
    case (Assign now client target)
    have "n < 2 ^ 64 - 2" using Cons.prems(2) by simp
    then obtain st' i where "assign_flow_id now client target st = Some (st', i)"
      "given_inv (Suc n) (st', given @ [(i, \<lparr>fk_client = client, fk_target = target\<rparr>)])"
      by (rule assign_step [OF Cons.prems(1) [unfolded s]])
    then show ?thesis by (simp add: Assign s)
  next
    case (Expire now)
    have "given_inv n (relay_cleanup_expired now st, given)"
      using Cons.prems(1) s given_inv_expire by simp
    then have "given_inv (Suc n) (relay_cleanup_expired now st, given)" by (auto simp: given_inv_def)
    with Expire s show ?thesis by simp
  qed
  then obtain s1 where s1: "relay_op_step p s = Some s1" "given_inv (Suc n) s1" by blast
  with Cons.IH [OF s1(2)] Cons.prems(2) show ?case by simp
qed simp

lemma relay_new_inv: "given_inv 0 (relay_state_new, [])"
  by (simp add: given_inv_def table_inv_def relay_state_new_def)

section \<open>Properties\<close>

text \<open>
  C20. The flow table works for every sequence of datagrams and clean-ups short of wrapping the
  64-bit flow ids: every datagram gets an id (the search ends), and the two directions of the
  table stay inverse to each other. A response is handed to the client and from the target of the
  one flow its id was ever given to, so a late response, whatever has expired or been opened since,
  never reaches another client.
\<close>

theorem relay_responses_never_cross:
  assumes "length ps \<le> 2 ^ 64 - 2"
  shows "\<exists>st given. relay_ops ps (relay_state_new, []) = Some (st, given) \<and>
    (\<forall>k i. map_of (us_flow_ids st) k = Some i \<longleftrightarrow> map_of (us_flows st) i = Some k) \<and>
    (\<forall>response data target client. handle_udp_response bc st response = Some (data, target, client) \<longrightarrow>
      (\<exists>p. bc_deserialize bc response = Inr p \<and> data = up_data p \<and>
         (\<exists>k. (up_flow_id p, k) \<in> set given) \<and>
         (\<forall>k. (up_flow_id p, k) \<in> set given \<longrightarrow> k = \<lparr>fk_client = client, fk_target = target\<rparr>)))"
proof -
  obtain st given where run: "relay_ops ps (relay_state_new, []) = Some (st, given)"
    and inv: "given_inv (0 + length ps) (st, given)"
    using relay_ops_inv [OF relay_new_inv, of ps] assms by fastforce
  have "\<exists>p. bc_deserialize bc response = Inr p \<and> data = up_data p \<and>
      (\<exists>k. (up_flow_id p, k) \<in> set given) \<and>
      (\<forall>k. (up_flow_id p, k) \<in> set given \<longrightarrow> k = \<lparr>fk_client = client, fk_target = target\<rparr>)"
    if handled: "handle_udp_response bc st response = Some (data, target, client)" for response data target client
  proof -
    obtain p key where p: "bc_deserialize bc response = Inr p" "map_of (us_flows st) (up_flow_id p) = Some key"
      "data = up_data p" "target = fk_target key" "client = fk_client key"
      using handled by (auto simp: handle_udp_response_def relay_flow_def split: sum.splits option.splits)
    then have given: "(up_flow_id p, key) \<in> set given" using inv by (simp add: given_inv_def)
    have "k = key" if "(up_flow_id p, k) \<in> set given" for k
      using given that inv unfolding given_inv_def by fast
    moreover have "key = \<lparr>fk_client = client, fk_target = target\<rparr>" using p by simp
    ultimately show ?thesis using p given by blast
  qed
  with run inv show ?thesis by (auto simp: given_inv_def table_inv_def)
qed

theorem relay_responses_never_cross_witness:
  "let client = \<lparr>sa_ip = V4 [10, 0, 0, 2], sa_port = 9\<rparr>; target = \<lparr>sa_ip = V4 [1, 2, 3, 4], sa_port = 443\<rparr>;
      bc = \<lparr>bc_serialize = \<lambda>p. Inr (up_data p), bc_deserialize = \<lambda>bs. Inr \<lparr>up_flow_id = 1, up_address = UdpRelay, up_data = bs\<rparr>\<rparr>
    in \<exists>st given. relay_ops [Assign 0 client target] (relay_state_new, []) = Some (st, given) \<and>
      handle_udp_response bc st [7] = Some ([7], target, client) \<and>
      (\<forall>k. (1, k) \<in> set given \<longrightarrow> k = \<lparr>fk_client = client, fk_target = target\<rparr>)"
proof -
  let ?client = "\<lparr>sa_ip = V4 [10, 0, 0, 2], sa_port = 9\<rparr>" and ?target = "\<lparr>sa_ip = V4 [1, 2, 3, 4], sa_port = 443\<rparr>"
  let ?bc = "\<lparr>bc_serialize = \<lambda>p. Inr (up_data p),
    bc_deserialize = \<lambda>bs. Inr \<lparr>up_flow_id = 1, up_address = UdpRelay, up_data = bs\<rparr>\<rparr>"
  let ?ps = "[Assign 0 ?client ?target]"
  have "length ?ps \<le> 2 ^ 64 - 2" by simp
  from relay_responses_never_cross [OF this, of ?bc] obtain st given where
    run: "relay_ops ?ps (relay_state_new, []) = Some (st, given)" and
    one: "\<forall>response data target client. handle_udp_response ?bc st response = Some (data, target, client) \<longrightarrow>
      (\<exists>p. bc_deserialize ?bc response = Inr p \<and> data = up_data p \<and> (\<exists>k. (up_flow_id p, k) \<in> set given) \<and>
        (\<forall>k. (up_flow_id p, k) \<in> set given \<longrightarrow> k = \<lparr>fk_client = client, fk_target = target\<rparr>))"
    by blast
  have handled: "handle_udp_response ?bc st [7] = Some ([7], ?target, ?client)"
    using run
    by (auto simp: assign_flow_id_def next_available_flow_id_def relay_state_new_def handle_udp_response_def relay_flow_def Let_def)
  with one have "\<forall>k. (1, k) \<in> set given \<longrightarrow> k = \<lparr>fk_client = ?client, fk_target = ?target\<rparr>"
    by fastforce
  with run handled show ?thesis unfolding Let_def by blast
qed

lemma write_udp_request_ok:
  assumes "write_udp_request bc now ok request st = Some (st1, Inr packet)" and "bitcode_roundtrip bc"
  shows "ok \<and> (\<exists>p. bc_deserialize bc packet = Inr p \<and> up_data p = ur_packet request \<and>
    up_address p = ur_address request)"
proof -
  from assms(1) obtain i where "ok" "bc_serialize bc \<lparr>up_flow_id = i, up_address = ur_address request,
      up_data = ur_packet request\<rparr> = Inr packet"
    by (auto simp: write_udp_request_def split: option.splits sum.splits if_splits)
  with bitcode_roundtripD [OF assms(2)] show ?thesis by fastforce
qed

lemma write_batch_cases:
  assumes "write_batch bc now ((request, ok) # batch) st = Some (st', packets, failed)"
  obtains (failed) st1 where "write_udp_request bc now ok request st = Some (st1, Inl ())"
      "packets = []" "failed = Some request"
    | (written) st1 packet packets' where "write_udp_request bc now ok request st = Some (st1, Inr packet)"
      "write_batch bc now batch st1 = Some (st', packets', failed)" "packets = packet # packets'"
  using assms by (auto split: option.splits sum.splits prod.splits)

lemma write_batch_prefix:
  assumes "write_batch bc now batch st = Some (st', packets, failed)" and "bitcode_roundtrip bc"
  shows "length packets \<le> length batch \<and>
    (\<forall>j < length packets. \<exists>p. bc_deserialize bc (packets ! j) = Inr p \<and>
       up_data p = ur_packet (fst (batch ! j)) \<and> up_address p = ur_address (fst (batch ! j))) \<and>
    (case failed of None \<Rightarrow> length packets = length batch
     | Some r \<Rightarrow> length packets < length batch \<and> r = fst (batch ! length packets))"
  using assms(1)
proof (induction batch arbitrary: st packets)
  case (Cons b batch)
  obtain request ok where b: "b = (request, ok)" by fastforce
  from Cons.prems [unfolded b] show ?case
  proof (cases rule: write_batch_cases)
    case (failed st1)
    then show ?thesis by (simp add: b)
  next
    case (written st1 packet packets')
    have "\<exists>p. bc_deserialize bc packet = Inr p \<and> up_data p = ur_packet request \<and> up_address p = ur_address request"
      using write_udp_request_ok [OF written(1) assms(2)] by blast
    with Cons.IH [OF written(2)] written(3) b show ?thesis
      by (auto simp: nth_Cons split: nat.splits option.splits)
  qed
qed simp
text \<open>
  A batch keeps datagram boundaries and order: what is written are the encodings of a prefix
  of the batch, one packet per datagram, with its data and address; without a failure it is the
  whole batch. After a failed write the one request kept for the next connection is the first
  unwritten one, after a failed flush it is the first of the batch.
\<close>
theorem relay_batch_written_in_order:
  assumes "send_udp_request_batch bc now write_ok flush_ok first_request queue st =
      Some (st', queue', packets, retry)" and "bitcode_roundtrip bc"
    and "batch = first_request # take 31 queue"
  shows "queue' = drop 31 queue \<and> length packets \<le> length batch \<and>
    (\<forall>j < length packets. \<exists>p. bc_deserialize bc (packets ! j) = Inr p \<and>
       up_data p = ur_packet (batch ! j) \<and> up_address p = ur_address (batch ! j)) \<and>
    (case retry of
       None \<Rightarrow> length packets = length batch \<and> flush_ok
     | Some r \<Rightarrow> length packets < length batch \<and> r = batch ! length packets \<or>
                 length packets = length batch \<and> \<not> flush_ok \<and> r = first_request)"
proof -
  let ?b = "zip batch (map write_ok [0..<length batch])"
  obtain s failed where wrote: "write_batch bc now ?b (fst st) = Some (s, packets, failed)"
    and rest: "queue' = drop 31 queue"
      "case failed of Some r \<Rightarrow> retry = Some r
       | None \<Rightarrow> if flush_ok then retry = None else retry = Some first_request"
    using assms(1, 3)
    by (auto simp: send_udp_request_batch_def UDP_RELAY_REQUEST_BATCH_LIMIT_def Let_def
        split: option.splits prod.splits if_splits)
  have len: "length ?b = length batch" by simp
  have nth: "j < length batch \<Longrightarrow> fst (?b ! j) = batch ! j" for j by simp
  from write_batch_prefix [OF wrote assms(2)] have prefix: "length packets \<le> length batch"
    "\<forall>j < length packets. \<exists>p. bc_deserialize bc (packets ! j) = Inr p \<and>
       up_data p = ur_packet (batch ! j) \<and> up_address p = ur_address (batch ! j)"
    "case failed of None \<Rightarrow> length packets = length batch
     | Some r \<Rightarrow> length packets < length batch \<and> r = batch ! length packets"
    unfolding len using nth by (auto split: option.splits)
  show ?thesis using rest prefix by (auto split: option.splits if_splits)
qed

theorem relay_batch_written_in_order_witness:
  "\<exists>bc packet p. bitcode_roundtrip bc \<and> bc_deserialize bc packet = Inr p \<and> up_data p = [7] \<and>
     (\<exists>st'. send_udp_request_batch bc 0 (\<lambda>_. True) True
       \<lparr>ur_client = \<lparr>sa_ip = V4 [10, 0, 0, 2], sa_port = 9\<rparr>, ur_target = \<lparr>sa_ip = V4 [1, 2, 3, 4], sa_port = 443\<rparr>,
        ur_address = UdpRelay, ur_packet = [7]\<rparr> [] (relay_state_new, \<lparr>rl_sent_packets = 0, rl_sent_payload_bytes = 0, rl_send_batches = 0,
          rl_send_batched_packets = 0, rl_response_packets = 0, rl_response_payload_bytes = 0\<rparr>) =
        Some (st', [], [packet], None))"
proof -
  let ?p = "\<lparr>up_flow_id = 1, up_address = UdpRelay, up_data = [7]\<rparr>"
  let ?bc = "\<lparr>bc_serialize = \<lambda>p. if p = ?p then Inr [7] else Inl [],
      bc_deserialize = \<lambda>bs. if bs = [7] then Inr ?p else Inl []\<rparr>"
  let ?r = "\<lparr>ur_client = \<lparr>sa_ip = V4 [10, 0, 0, 2], sa_port = 9\<rparr>,
      ur_target = \<lparr>sa_ip = V4 [1, 2, 3, 4], sa_port = 443\<rparr>, ur_address = UdpRelay, ur_packet = [7]\<rparr>"
  have bc: "bitcode_roundtrip ?bc" by (simp add: bitcode_roundtrip_def)
  obtain st' where run: "send_udp_request_batch ?bc 0 (\<lambda>_. True) True ?r [] (relay_state_new, \<lparr>rl_sent_packets = 0,
      rl_sent_payload_bytes = 0, rl_send_batches = 0, rl_send_batched_packets = 0, rl_response_packets = 0,
      rl_response_payload_bytes = 0\<rparr>) =
      Some (st', [], [[7]], None)"
    by (simp add: send_udp_request_batch_def write_udp_request_def assign_flow_id_def relay_state_new_def
        next_available_flow_id_def Let_def)
  from relay_batch_written_in_order [OF run bc refl] have "\<exists>p. bc_deserialize ?bc [7] = Inr p \<and> up_data p = [7]"
    by auto
  with bc run show ?thesis by blast
qed

end
