(* ===== verification/Udp_Client.thy ===== *)
theory Udp_Client
  imports Native_Udp_Session
begin

text \<open>
  The agent's end of a native UDP session after the handshake
  (\<open>common/src/client_connection/udp.rs\<close>): the driver that owns the socket and the codec, the
  connection that hands out flow ids, and the stream that gives a flow the shape of a byte stream
  without losing datagram boundaries. \<open>tokio\<close> channels and the socket give the outcome of each
  call; a poll function returns what one poll gives.
\<close>

section \<open>Commands\<close>

datatype ClientCommand =
    CmdRegister u64
  | CmdOpenData u64 Address bytes
  | CmdData u64 bytes
  | CmdClose u64

datatype client_error =
    CeInvalidInput string
  | CeNotConnected
  | CeExhausted
  | CeEncoding UdpTransportError
  | CeIo string
  | CeWriteZero
  | CeTimedOut

section \<open>The connection\<close>

record UdpClientConnection =
  cc_closed :: bool
  cc_timed_out :: bool
  cc_next_flow_id :: u64

record UdpClientStream =
  cs_flow_id :: u64
  cs_open_address :: "Address option"
  cs_inbound :: "bytes list"
  cs_inbound_closed :: bool
  cs_read_buf :: bytes
  cs_read_pos :: nat
  cs_close_sent :: bool

text \<open>The first id of a connection, from a random number.\<close>

definition first_flow_id :: "u64 \<Rightarrow> u64" where
  "first_flow_id random = (if random = 0 then 1 else random)"

definition connection_new :: "u64 \<Rightarrow> UdpClientConnection" where
  "connection_new random =
     \<lparr>cc_closed = False, cc_timed_out = False, cc_next_flow_id = first_flow_id random\<rparr>"

text \<open>\<open>commands_open\<close> says that the driver still holds the receiving end of the commands.\<close>

definition connection_is_closed :: "bool \<Rightarrow> UdpClientConnection \<Rightarrow> bool" where
  "connection_is_closed commands_open c \<longleftrightarrow> cc_closed c \<or> \<not> commands_open"

text \<open>
  The end of the driver's task with its result; \<open>os_timed_out\<close> tells the errors of the socket whose
  kind is \<open>TimedOut\<close>.
\<close>

fun timed_out_error :: "(string \<Rightarrow> bool) \<Rightarrow> client_error \<Rightarrow> bool" where
  "timed_out_error os_timed_out CeTimedOut = True"
| "timed_out_error os_timed_out (CeIo e) = os_timed_out e"
| "timed_out_error os_timed_out _ = False"

definition driver_ended ::
  "(string \<Rightarrow> bool) \<Rightarrow> client_error + unit \<Rightarrow> UdpClientConnection \<Rightarrow> UdpClientConnection" where
  "driver_ended os_timed_out result c =
     (case result of
        Inl e \<Rightarrow> if timed_out_error os_timed_out e then c\<lparr>cc_timed_out := True, cc_closed := True\<rparr>
                 else c\<lparr>cc_closed := True\<rparr>
      | Inr _ \<Rightarrow> c\<lparr>cc_closed := True\<rparr>)"

text \<open>
  \<open>transport\<close> is the transport asked for, \<open>registered\<close> the outcome of sending the registration: the
  stream and the command that registers it.
\<close>

definition connect_to_target ::
  "bool \<Rightarrow> bool \<Rightarrow> Address \<Rightarrow> TransportProtocol \<Rightarrow> UdpClientConnection \<Rightarrow>
   UdpClientConnection \<times> (client_error + UdpClientStream \<times> ClientCommand)" where
  "connect_to_target commands_open registered address transport c =
     (if transport \<noteq> Udp then (c, Err (CeInvalidInput ''native UDP carries UDP targets only''))
      else if connection_is_closed commands_open c then (c, Err CeNotConnected)
      else
        let flow_id = cc_next_flow_id c; c = c\<lparr>cc_next_flow_id := flow_id + 1\<rparr>
        in if flow_id = - 1 then (c\<lparr>cc_closed := True\<rparr>, Err CeExhausted)
           else if \<not> registered then (c, Err CeNotConnected)
           else (c, Ok (\<lparr>cs_flow_id = flow_id, cs_open_address = Some address, cs_inbound = [],
                         cs_inbound_closed = False, cs_read_buf = [], cs_read_pos = 0,
                         cs_close_sent = False\<rparr>, CmdRegister flow_id)))"

section \<open>The stream\<close>

datatype reserve_outcome = Reserved | ReserveClosed | ReservePending

text \<open>The first datagram of the queue that is not empty.\<close>

fun next_datagram :: "bytes list \<Rightarrow> (bytes \<times> bytes list) option" where
  "next_datagram [] = None"
| "next_datagram (d # ds) = (if d = [] then next_datagram ds else Some (d, ds))"

definition short_datagram_buffer_error :: client_error where
  "short_datagram_buffer_error = CeInvalidInput ''UDP read buffer is too small for one datagram''"

text \<open>The bytes put into a buffer with room for \<open>remaining\<close> bytes; none at the end of the stream.\<close>

definition poll_read :: "nat \<Rightarrow> UdpClientStream \<Rightarrow> UdpClientStream \<times> (client_error + bytes) poll" where
  "poll_read remaining s =
     (if remaining = 0 then (s, Ready (Ok []))
      else if cs_read_pos s < length (cs_read_buf s) then
        (if remaining < length (cs_read_buf s) - cs_read_pos s
         then (s, Ready (Err short_datagram_buffer_error))
         else (s\<lparr>cs_read_pos := length (cs_read_buf s)\<rparr>, Ready (Ok (drop (cs_read_pos s) (cs_read_buf s)))))
      else
        let s = s\<lparr>cs_read_buf := [], cs_read_pos := 0\<rparr>
        in case next_datagram (cs_inbound s) of
             Some (d, ds) \<Rightarrow>
               let s = s\<lparr>cs_inbound := ds, cs_read_buf := d\<rparr>
               in if remaining < length d then (s, Ready (Err short_datagram_buffer_error))
                  else (s\<lparr>cs_read_pos := length d\<rparr>, Ready (Ok d))
           | None \<Rightarrow>
               (s\<lparr>cs_inbound := []\<rparr>, if cs_inbound_closed s then Ready (Ok []) else Pending))"

definition poll_write ::
  "reserve_outcome \<Rightarrow> bytes \<Rightarrow> UdpClientStream \<Rightarrow>
   UdpClientStream \<times> ClientCommand list \<times> (client_error + nat) poll" where
  "poll_write outcome buf s =
     (if buf = [] then (s, [], Ready (Ok 0))
      else case outcome of
        Reserved \<Rightarrow>
          let command = (case cs_open_address s of
                Some address \<Rightarrow> CmdOpenData (cs_flow_id s) address buf
              | None \<Rightarrow> CmdData (cs_flow_id s) buf)
          in (s\<lparr>cs_open_address := None\<rparr>, [command], Ready (Ok (length buf)))
      | ReserveClosed \<Rightarrow> (s, [], Ready (Err CeNotConnected))
      | ReservePending \<Rightarrow> (s, [], Pending))"

definition poll_shutdown ::
  "reserve_outcome \<Rightarrow> UdpClientStream \<Rightarrow> UdpClientStream \<times> ClientCommand list \<times> (client_error + unit) poll" where
  "poll_shutdown outcome s =
     (if cs_close_sent s then (s, [], Ready (Ok ()))
      else case outcome of
        Reserved \<Rightarrow> (s\<lparr>cs_close_sent := True\<rparr>, [CmdClose (cs_flow_id s)], Ready (Ok ()))
      | ReserveClosed \<Rightarrow> (s\<lparr>cs_close_sent := True\<rparr>, [], Ready (Ok ()))
      | ReservePending \<Rightarrow> (s, [], Pending))"

text \<open>Dropping the stream tries to send a close; \<open>outcome\<close> is that of \<open>try_send\<close>.\<close>

definition stream_drop :: "send_outcome \<Rightarrow> UdpClientStream \<Rightarrow> ClientCommand list" where
  "stream_drop outcome s =
     (if cs_close_sent s then []
      else case outcome of SendOk \<Rightarrow> [CmdClose (cs_flow_id s)] | _ \<Rightarrow> [])"

section \<open>The driver\<close>

definition MIN_SESSION_HEALTH_TIMEOUT :: nat where "MIN_SESSION_HEALTH_TIMEOUT = 30000"

record udp_driver =
  dv_codec :: UdpSessionCodec
  dv_streams :: "u64 list"
  dv_ping_token :: u64
  dv_last_receive :: nat
  dv_health_timeout :: nat
  dv_sent :: "bytes list"
  dv_delivered :: "(u64 \<times> bytes) list"

definition driver_start :: "nat \<Rightarrow> nat \<Rightarrow> UdpSessionCodec \<Rightarrow> udp_driver" where
  "driver_start now configured_timeout codec =
     \<lparr>dv_codec = codec, dv_streams = [], dv_ping_token = 0, dv_last_receive = now,
      dv_health_timeout = max configured_timeout MIN_SESSION_HEALTH_TIMEOUT,
      dv_sent = [], dv_delivered = []\<rparr>"

fun driver_send_datagrams :: "send_to \<Rightarrow> udp_driver \<Rightarrow> bytes list \<Rightarrow> udp_driver \<times> (client_error + unit)" where
  "driver_send_datagrams send dv [] = (dv, Ok ())"
| "driver_send_datagrams send dv (datagram # datagrams) =
     (case send datagram of
        Inl e \<Rightarrow> (dv, Err (CeIo e))
      | Inr sent \<Rightarrow>
          if sent \<noteq> length datagram then (dv, Err CeWriteZero)
          else driver_send_datagrams send (dv\<lparr>dv_sent := dv_sent dv @ [datagram]\<rparr>) datagrams)"

definition driver_send ::
  "crypto_suite \<Rightarrow> UdpSessionMessage bitcode \<Rightarrow> send_to \<Rightarrow> udp_driver \<Rightarrow> UdpSessionMessage \<Rightarrow>
   udp_driver \<times> (client_error + unit) loop_outcome" where
  "driver_send cs bc send dv message =
     (case encode_message cs bc (dv_codec dv) message of
        (codec, Inl e) \<Rightarrow> (dv\<lparr>dv_codec := codec\<rparr>, Return (Err (CeEncoding e)))
      | (codec, Inr datagrams) \<Rightarrow>
          (case driver_send_datagrams send (dv\<lparr>dv_codec := codec\<rparr>) datagrams of
             (dv, Inl e) \<Rightarrow> (dv, Return (Err e))
           | (dv, Inr _) \<Rightarrow> (dv, Continue)))"

text \<open>A command: the registered streams and the message it makes, if any.\<close>

fun command_message :: "u64 list \<Rightarrow> ClientCommand \<Rightarrow> u64 list \<times> UdpSessionMessage option" where
  "command_message streams (CmdRegister flow_id) = (List.insert flow_id streams, None)"
| "command_message streams (CmdOpenData flow_id address data) =
     (streams, if flow_id \<in> set streams then Some (OpenData flow_id address data) else None)"
| "command_message streams (CmdData flow_id data) =
     (streams, if flow_id \<in> set streams then Some (Data flow_id data) else None)"
| "command_message streams (CmdClose flow_id) = (removeAll flow_id streams, Some (Close flow_id None))"

fun driver_message ::
  "crypto_suite \<Rightarrow> UdpSessionMessage bitcode \<Rightarrow> send_outcome \<Rightarrow> send_to \<Rightarrow> udp_driver \<Rightarrow> UdpSessionMessage \<Rightarrow>
   udp_driver \<times> (client_error + unit) loop_outcome" where
  "driver_message cs bc outcome send dv (ConnectResponseMsg flow_id success error) =
     (if \<not> success then dv\<lparr>dv_streams := removeAll flow_id (dv_streams dv)\<rparr> else dv, Continue)"
| "driver_message cs bc outcome send dv (Data flow_id data) =
     (if flow_id \<in> set (dv_streams dv) then
        (case outcome of
           SendOk \<Rightarrow> dv\<lparr>dv_delivered := dv_delivered dv @ [(flow_id, data)]\<rparr>
         | SendFull \<Rightarrow> dv
         | SendClosed \<Rightarrow> dv\<lparr>dv_streams := removeAll flow_id (dv_streams dv)\<rparr>)
      else dv, Continue)"
| "driver_message cs bc outcome send dv (Close flow_id reason) =
     (dv\<lparr>dv_streams := removeAll flow_id (dv_streams dv)\<rparr>, Continue)"
| "driver_message cs bc outcome send dv (Ping token) = driver_send cs bc send dv (Pong token)"
| "driver_message cs bc outcome send dv (Pong token) = (dv, Continue)"
| "driver_message cs bc outcome send dv (OpenData flow_id address data) = (dv, Continue)"

datatype driver_event =
    DriverCommand ClientCommand send_to
  | DriverCommandsClosed
  | DriverDatagram nat bytes send_outcome send_to
  | DriverReceiveError string
  | DriverTick nat send_to

fun driver_step ::
  "crypto_suite \<Rightarrow> UdpSessionMessage bitcode \<Rightarrow> driver_event \<Rightarrow> udp_driver \<Rightarrow>
   udp_driver \<times> (client_error + unit) loop_outcome" where
  "driver_step cs bc (DriverCommand command send) dv =
     (case command_message (dv_streams dv) command of
        (streams, message) \<Rightarrow>
          let dv = dv\<lparr>dv_streams := streams\<rparr>
          in case message of None \<Rightarrow> (dv, Continue) | Some m \<Rightarrow> driver_send cs bc send dv m)"
| "driver_step cs bc DriverCommandsClosed dv = (dv, Return (Ok ()))"
| "driver_step cs bc (DriverDatagram now datagram outcome send) dv =
     (if length datagram > UDP_MAX_DATAGRAM_SIZE then (dv, Continue)
      else case decode_datagram_at cs bc (dv_codec dv) datagram now of
        (codec, Inl e) \<Rightarrow> (dv\<lparr>dv_codec := codec\<rparr>, Continue)
      | (codec, Inr message) \<Rightarrow>
          let dv = dv\<lparr>dv_codec := codec, dv_last_receive := now\<rparr>
          in case message of None \<Rightarrow> (dv, Continue) | Some m \<Rightarrow> driver_message cs bc outcome send dv m)"
| "driver_step cs bc (DriverReceiveError e) dv = (dv, Return (Err (CeIo e)))"
| "driver_step cs bc (DriverTick now send) dv =
     (if now - dv_last_receive dv \<ge> dv_health_timeout dv then (dv, Return (Err CeTimedOut))
      else case driver_send cs bc send dv (Ping (dv_ping_token dv)) of
        (dv, Continue) \<Rightarrow> (dv\<lparr>dv_ping_token := dv_ping_token dv + 1\<rparr>, Continue)
      | (dv, r) \<Rightarrow> (dv, r))"

fun driver_loop ::
  "crypto_suite \<Rightarrow> UdpSessionMessage bitcode \<Rightarrow> driver_event list \<Rightarrow> udp_driver \<Rightarrow>
   udp_driver \<times> (client_error + unit) option" where
  "driver_loop cs bc [] dv = (dv, None)"
| "driver_loop cs bc (e # es) dv =
     (case driver_step cs bc e dv of
        (dv, Continue) \<Rightarrow> driver_loop cs bc es dv
      | (dv, Break) \<Rightarrow> (dv, Some (Ok ()))
      | (dv, Return r) \<Rightarrow> (dv, Some r))"

section \<open>Reading and writing datagrams\<close>

text \<open>The operations on a stream: datagrams queued by the driver, its end, and reads by the owner.\<close>

datatype stream_op = StreamDeliver bytes | StreamEnd | StreamRead nat

fun stream_apply :: "stream_op \<Rightarrow> UdpClientStream \<Rightarrow> UdpClientStream \<times> bytes list" where
  "stream_apply (StreamDeliver d) s = (s\<lparr>cs_inbound := cs_inbound s @ [d]\<rparr>, [])"
| "stream_apply StreamEnd s = (s\<lparr>cs_inbound_closed := True\<rparr>, [])"
| "stream_apply (StreamRead remaining) s =
     (case poll_read remaining s of
        (s, Ready (Inr d)) \<Rightarrow> (s, if d = [] then [] else [d])
      | (s, _) \<Rightarrow> (s, []))"

fun stream_ops :: "stream_op list \<Rightarrow> UdpClientStream \<Rightarrow> UdpClientStream \<times> bytes list" where
  "stream_ops [] s = (s, [])"
| "stream_ops (c # cs) s =
     (let (s, ds) = stream_apply c s; (s, es) = stream_ops cs s in (s, ds @ es))"

fun delivered :: "stream_op list \<Rightarrow> bytes list" where
  "delivered [] = []"
| "delivered (StreamDeliver d # cs) = (if d = [] then delivered cs else d # delivered cs)"
| "delivered (_ # cs) = delivered cs"

text \<open>The datagrams a stream still holds.\<close>

definition unread :: "UdpClientStream \<Rightarrow> bytes list" where
  "unread s = (if cs_read_pos s < length (cs_read_buf s) then [drop (cs_read_pos s) (cs_read_buf s)] else []) @
     filter (\<lambda>d. d \<noteq> []) (cs_inbound s)"

lemma next_datagram_None: "next_datagram ds = None \<longleftrightarrow> filter (\<lambda>d. d \<noteq> []) ds = []"
  by (induction ds) auto

lemma next_datagram_Some:
  "next_datagram ds = Some (d, es) \<Longrightarrow> d \<noteq> [] \<and> filter (\<lambda>d. d \<noteq> []) ds = d # filter (\<lambda>d. d \<noteq> []) es"
  by (induction ds) (auto split: if_splits)

lemma poll_read_unread:
  assumes "poll_read remaining s = (s', r)"
  shows "(case r of Ready (Inr d) \<Rightarrow> if d = [] then [] else [d] | _ \<Rightarrow> []) @ unread s' = unread s"
proof (cases "next_datagram (cs_inbound s)")
  case None
  then show ?thesis
    using assms next_datagram_None [of "cs_inbound s"]
    by (auto simp: poll_read_def Let_def unread_def split: if_splits)
next
  case (Some p)
  then show ?thesis
    using assms next_datagram_Some [of "cs_inbound s" "fst p" "snd p"]
    by (auto simp: poll_read_def Let_def unread_def split: if_splits prod.splits)
qed

lemma stream_op_unread:
  "snd (stream_apply c s) @ unread (fst (stream_apply c s)) = unread s @ delivered [c]"
proof (cases c)
  case (StreamRead n)
  obtain s' r where "poll_read n s = (s', r)" by fastforce
  with poll_read_unread [OF this] StreamRead show ?thesis
    by (auto split: poll.splits sum.splits)
qed (auto simp: unread_def)

lemma delivered_Cons: "delivered (c # cs) = delivered [c] @ delivered cs"
  by (cases c) auto

lemma stream_ops_unread:
  "snd (stream_ops cs s) @ unread (fst (stream_ops cs s)) = unread s @ delivered cs"
proof (induction cs arbitrary: s)
  case (Cons c cs)
  obtain s1 ds where 1: "stream_apply c s = (s1, ds)" by fastforce
  obtain s2 es where 2: "stream_ops cs s1 = (s2, es)" by fastforce
  have "ds @ es @ unread s2 = ds @ unread s1 @ delivered cs"
    using Cons.IH [of s1] 2 by simp
  also have "\<dots> = unread s @ delivered (c # cs)"
    using stream_op_unread [of c s] 1 delivered_Cons [of c cs] by simp
  finally show ?case using 1 2 by simp
qed simp

lemma poll_read_progress:
  "unread s = d # ds \<Longrightarrow> remaining > 0 \<Longrightarrow>
   snd (poll_read remaining s) =
     (if remaining < length d then Ready (Err short_datagram_buffer_error) else Ready (Ok d))"
  using next_datagram_None [of "cs_inbound s"]
  by (cases "next_datagram (cs_inbound s)")
    (auto simp: poll_read_def Let_def unread_def dest!: next_datagram_Some split: if_splits)

lemma poll_read_empty:
  "unread s = [] \<Longrightarrow> remaining > 0 \<Longrightarrow>
   snd (poll_read remaining s) = (if cs_inbound_closed s then Ready (Ok []) else Pending)"
  using next_datagram_None [of "cs_inbound s"]
  by (cases "next_datagram (cs_inbound s)")
    (auto simp: poll_read_def Let_def unread_def split: if_splits)

fun write_all :: "(reserve_outcome \<times> bytes) list \<Rightarrow> UdpClientStream \<Rightarrow> UdpClientStream \<times> ClientCommand list" where
  "write_all [] s = (s, [])"
| "write_all ((outcome, buf) # ws) s =
     (let (s, cs, _) = poll_write outcome buf s; (s, ds) = write_all ws s in (s, cs @ ds))"

definition accepted :: "(reserve_outcome \<times> bytes) list \<Rightarrow> bytes list" where
  "accepted ws = map snd (filter (\<lambda>(outcome, buf). outcome = Reserved \<and> buf \<noteq> []) ws)"

lemma accepted_simps [simp]:
  "accepted [] = []"
  "accepted ((outcome, buf) # ws) =
     (if outcome = Reserved \<and> buf \<noteq> [] then buf # accepted ws else accepted ws)"
  by (simp_all add: accepted_def)

lemma write_all_open:
  "cs_open_address s = None \<Longrightarrow> snd (write_all ws s) = map (CmdData (cs_flow_id s)) (accepted ws)"
  by (induction ws arbitrary: s)
    (auto simp: poll_write_def case_prod_beta Let_def split: reserve_outcome.splits)

section \<open>Flow ids\<close>

text \<open>A run of calls of \<open>connect_to_target\<close> and the streams it gave.\<close>

type_synonym connect_call = "bool \<times> bool \<times> Address \<times> TransportProtocol"

fun connect_calls :: "connect_call list \<Rightarrow> UdpClientConnection \<Rightarrow> UdpClientConnection \<times> UdpClientStream list" where
  "connect_calls [] c = (c, [])"
| "connect_calls ((commands_open, registered, address, transport) # calls) c =
     (let (c, r) = connect_to_target commands_open registered address transport c;
          (c, ss) = connect_calls calls c
      in (c, case r of Inl _ \<Rightarrow> ss | Inr (s, _) \<Rightarrow> s # ss))"

lemma connect_calls_closed: "cc_closed c \<Longrightarrow> connect_calls calls c = (c, [])"
  by (induction calls) (auto simp: connect_to_target_def connection_is_closed_def Let_def)

lemma unat_succ: "(x :: u64) \<noteq> - 1 \<Longrightarrow> unat (x + 1) = Suc (unat x)"
  by (metis add.commute add.right_neutral add_diff_cancel_right' eq_diff_eq diff_0 unatSuc)

lemma connect_to_target_cases:
  assumes "connect_to_target commands_open registered address transport c = (c1, r)"
  obtains e where "c1 = c" "r = Inl e" | e where "cc_closed c1" "r = Inl e"
  | e where "cc_next_flow_id c \<noteq> - 1" "cc_next_flow_id c1 = cc_next_flow_id c + 1" "r = Inl e"
  | s where "cc_next_flow_id c \<noteq> - 1" "cc_next_flow_id c1 = cc_next_flow_id c + 1"
      "r = Inr (s, CmdRegister (cs_flow_id s))" "cs_flow_id s = cc_next_flow_id c"
proof (cases "transport \<noteq> Udp \<or> connection_is_closed commands_open c")
  case True
  then show ?thesis
    using assms that(1) by (auto simp: connect_to_target_def split: if_splits)
next
  case alive: False
  show ?thesis
  proof (cases "cc_next_flow_id c = - 1")
    case True
    then show ?thesis
      using alive assms that(2) by (auto simp: connect_to_target_def Let_def)
  next
    case False
    then show ?thesis
      using alive assms that(3,4) by (cases registered) (auto simp: connect_to_target_def Let_def)
  qed
qed

lemma connect_calls_ids:
  "connect_calls calls c = (c', ss) \<Longrightarrow>
   sorted_wrt (<) (map cs_flow_id ss) \<and> (\<forall>s\<in>set ss. cc_next_flow_id c \<le> cs_flow_id s \<and> cs_flow_id s \<noteq> - 1)"
proof (induction calls arbitrary: c c' ss)
  case (Cons call calls)
  obtain commands_open registered address transport where
    call: "call = (commands_open, registered, address, transport)" by (cases call) auto
  obtain c1 r where 1: "connect_to_target commands_open registered address transport c = (c1, r)" by fastforce
  obtain c2 ss2 where 2: "connect_calls calls c1 = (c2, ss2)" by fastforce
  note IH = Cons.IH [OF 2]
  have ss: "ss = (case r of Inl _ \<Rightarrow> ss2 | Inr (s, _) \<Rightarrow> s # ss2)"
    using Cons.prems 1 2 by (simp add: call)
  have next_less: "cc_next_flow_id c < cc_next_flow_id c1"
    if "cc_next_flow_id c \<noteq> - 1" "cc_next_flow_id c1 = cc_next_flow_id c + 1"
    using unat_succ [of "cc_next_flow_id c"] that by (simp add: word_less_nat_alt)
  from 1 show ?case
  proof (cases rule: connect_to_target_cases)
    case 1
    then show ?thesis using IH ss by auto
  next
    case 2
    then show ?thesis using ss connect_calls_closed [OF 2(1)] \<open>connect_calls calls c1 = (c2, ss2)\<close> by auto
  next
    case 3
    have "cc_next_flow_id c \<le> cs_flow_id s" if "s \<in> set ss2" for s
      using next_less [OF 3(1,2)] IH that by (meson less_imp_le order_trans)
    then show ?thesis using IH ss 3(3) by simp
  next
    case (4 s)
    have "cc_next_flow_id c < cs_flow_id t" if "t \<in> set ss2" for t
      using next_less [OF 4(1,2)] IH that by (meson order_less_le_trans)
    then show ?thesis using IH ss 4 by (simp add: less_imp_le)
  qed
qed simp

section \<open>The life of a session\<close>

lemma driver_send_datagrams_ok:
  "(\<And>d. d \<in> set ds \<Longrightarrow> send d = Inr (length d)) \<Longrightarrow>
   driver_send_datagrams send dv ds = (dv\<lparr>dv_sent := dv_sent dv @ ds\<rparr>, Ok ())"
  by (induction ds arbitrary: dv) auto

lemma driver_send_datagrams_frame:
  "driver_send_datagrams send dv ds = (dv', r) \<Longrightarrow>
   dv_codec dv' = dv_codec dv \<and> dv_streams dv' = dv_streams dv \<and> dv_last_receive dv' = dv_last_receive dv \<and>
   dv_health_timeout dv' = dv_health_timeout dv \<and> dv_delivered dv' = dv_delivered dv \<and> r \<noteq> Err CeTimedOut"
  by (induction ds arbitrary: dv) (fastforce split: sum.splits if_splits)+

lemma driver_send_frame:
  "driver_send cs bc send dv m = (dv', r) \<Longrightarrow>
   dv_streams dv' = dv_streams dv \<and> dv_last_receive dv' = dv_last_receive dv \<and>
   dv_health_timeout dv' = dv_health_timeout dv \<and> dv_delivered dv' = dv_delivered dv \<and> r \<noteq> Return (Err CeTimedOut)"
  by (auto simp: driver_send_def split: prod.splits sum.splits dest!: driver_send_datagrams_frame)

lemma driver_message_frame:
  "driver_message cs bc outcome send dv m = (dv', r) \<Longrightarrow>
   dv_last_receive dv' = dv_last_receive dv \<and> dv_health_timeout dv' = dv_health_timeout dv \<and>
   r \<noteq> Return (Err CeTimedOut)"
  by (cases m) (auto split: if_splits send_outcome.splits dest!: driver_send_frame)

lemma driver_step_timeout:
  assumes "driver_step cs bc e dv = (dv', r)"
  shows "r = Return (Err CeTimedOut) \<longleftrightarrow>
     (\<exists>now send. e = DriverTick now send \<and> now - dv_last_receive dv \<ge> dv_health_timeout dv)"
    and "dv_health_timeout dv' = dv_health_timeout dv"
  using assms
  by (cases e; force simp: Let_def dest!: driver_send_frame driver_message_frame
      split: prod.splits sum.splits option.splits if_splits loop_outcome.splits)+

lemma driver_loop_append:
  "driver_loop cs bc es1 dv = (dv1, None) \<Longrightarrow> driver_loop cs bc (es1 @ es2) dv = driver_loop cs bc es2 dv1"
  by (induction es1 arbitrary: dv) (auto split: prod.splits loop_outcome.splits)

lemma driver_loop_health:
  "driver_loop cs bc es dv = (dv1, r) \<Longrightarrow> dv_health_timeout dv1 = dv_health_timeout dv"
  by (induction es arbitrary: dv) (auto dest: driver_step_timeout(2) split: prod.splits loop_outcome.splits)

lemma driver_loop_timed_out:
  assumes "snd (driver_loop cs bc es dv) = Some (Err CeTimedOut)"
  shows "\<exists>es1 now send es2 dv1. es = es1 @ DriverTick now send # es2 \<and> driver_loop cs bc es1 dv = (dv1, None) \<and>
     now - dv_last_receive dv1 \<ge> dv_health_timeout dv"
  using assms
proof (induction es arbitrary: dv)
  case (Cons e es)
  obtain dv' r where step: "driver_step cs bc e dv = (dv', r)" by fastforce
  note timeout = driver_step_timeout [OF step]
  show ?case
  proof (cases "r = Continue")
    case True
    then obtain es1 now send es2 dv1 where ih: "es = es1 @ DriverTick now send # es2"
      "driver_loop cs bc es1 dv' = (dv1, None)" "now - dv_last_receive dv1 \<ge> dv_health_timeout dv'"
      using Cons step by fastforce
    have "e # es = (e # es1) @ DriverTick now send # es2 \<and> driver_loop cs bc (e # es1) dv = (dv1, None)"
      using ih step True by simp
    then show ?thesis
      using ih(3) timeout(2) by metis
  next
    case False
    then have "r = Return (Err CeTimedOut)"
      using Cons.prems step by (auto split: loop_outcome.splits)
    then obtain now send where "e = DriverTick now send" "now - dv_last_receive dv \<ge> dv_health_timeout dv"
      using timeout by blast
    then show ?thesis
      by (intro exI [of _ "[]"] exI [of _ now] exI [of _ send] exI [of _ es] exI [of _ dv]) simp
  qed
qed simp

lemma driver_loop_timeout:
  "snd (driver_loop cs bc es dv) = Some (Err CeTimedOut) \<longleftrightarrow>
   (\<exists>es1 now send es2 dv1. es = es1 @ DriverTick now send # es2 \<and> driver_loop cs bc es1 dv = (dv1, None) \<and>
     now - dv_last_receive dv1 \<ge> dv_health_timeout dv)"
  using driver_loop_timed_out [of cs bc es dv] driver_loop_append driver_loop_health by fastforce

section \<open>Datagrams of one message\<close>

definition driver_inbound :: "send_outcome \<Rightarrow> send_to \<Rightarrow> bytes \<times> nat \<Rightarrow> driver_event" where
  "driver_inbound outcome send p = DriverDatagram (snd p) (fst p) outcome send"

definition driver_received :: "nat \<Rightarrow> UdpSessionCodec \<Rightarrow> udp_driver \<Rightarrow> udp_driver" where
  "driver_received now codec dv = dv\<lparr>dv_codec := codec, dv_last_receive := now\<rparr>"

lemma decoded_size:
  "decode_datagram_at cs bc s d t = (c, Inr m) \<Longrightarrow> \<not> length d > UDP_MAX_DATAGRAM_SIZE"
  by (auto simp: decode_datagram_at_def open_datagram_def)

interpretation driver_decodes: decoding_loop cs bc dv_codec driver_received
    "\<lambda>m dv. driver_message cs bc outcome send dv m"
    "\<lambda>ps dv. driver_loop cs bc (map (driver_inbound outcome send) ps) dv"
  for cs bc outcome send
  by unfold_locales (auto simp: driver_received_def driver_inbound_def Let_def dest: decoded_size)

section \<open>Properties\<close>

definition fresh_stream :: "u64 \<Rightarrow> Address \<Rightarrow> UdpClientStream" where
  "fresh_stream flow_id address =
     \<lparr>cs_flow_id = flow_id, cs_open_address = Some address, cs_inbound = [], cs_inbound_closed = False,
      cs_read_buf = [], cs_read_pos = 0, cs_close_sent = False\<rparr>"

text \<open>
  Datagram boundaries survive the stream: whatever the order of deliveries and of reads with
  buffers of any size, the non-empty results of the reads, followed by what the stream still
  holds, are the non-empty datagrams delivered, whole, in order, none lost and none twice. A read
  of a waiting datagram returns it if the buffer has room for it, and otherwise fails and leaves
  it to the next read; a read of nothing waits until the stream has ended.
\<close>

theorem stream_keeps_datagrams:
  "snd (stream_ops ops (fresh_stream flow_id address)) @ unread (fst (stream_ops ops (fresh_stream flow_id address))) =
     delivered ops \<and>
   (n > 0 \<longrightarrow> (let s = fst (stream_ops ops (fresh_stream flow_id address)) in
     snd (poll_read n s) =
       (case unread s of
          [] \<Rightarrow> if cs_inbound_closed s then Ready (Ok []) else Pending
        | d # _ \<Rightarrow> if n < length d then Ready (Err short_datagram_buffer_error) else Ready (Ok d))))"
  using stream_ops_unread [of ops "fresh_stream flow_id address"] poll_read_progress poll_read_empty
  by (auto simp: fresh_stream_def unread_def [of "\<lparr>cs_flow_id = _, cs_open_address = _, cs_inbound = [],
      cs_inbound_closed = _, cs_read_buf = _, cs_read_pos = _, cs_close_sent = _\<rparr>"] Let_def split: list.split)

theorem stream_keeps_datagrams_witness:
  "let s = fst (stream_ops [StreamDeliver [1, 2, 3], StreamDeliver [], StreamDeliver [4], StreamRead 2, StreamRead 8]
       (fresh_stream 7 UdpRelay))
   in unread s = [[4]] \<and> snd (poll_read 1 s) = Ready (Ok [4])"
  using stream_keeps_datagrams [of "[StreamDeliver [1, 2, 3], StreamDeliver [], StreamDeliver [4], StreamRead 2, StreamRead 8]"
      7 UdpRelay 1]
  by (simp add: fresh_stream_def poll_read_def Let_def unread_def short_datagram_buffer_error_def)

text \<open>
  The first datagram a stream accepts opens the flow, with the target's address; every later
  one is sent as data of the flow, in the order of the writes, and a write that is not accepted
  sends nothing.
\<close>

theorem stream_opens_once:
  "snd (write_all ws (fresh_stream flow_id address)) =
     (case accepted ws of [] \<Rightarrow> [] | d # ds \<Rightarrow> CmdOpenData flow_id address d # map (CmdData flow_id) ds)"
proof (induction ws)
  case (Cons w ws)
  obtain outcome buf where w: "w = (outcome, buf)" by fastforce
  let ?s = "(fresh_stream flow_id address)\<lparr>cs_open_address := None\<rparr>"
  have "snd (write_all ws ?s) = map (CmdData flow_id) (accepted ws)"
    using write_all_open [of ?s ws] by (simp add: fresh_stream_def)
  then show ?case
    using Cons w
    by (auto simp: poll_write_def fresh_stream_def case_prod_beta Let_def split: reserve_outcome.splits)
qed simp

text \<open>
  Flow ids are never reused: the streams a connection gives out, whatever the calls, have
  increasing ids, none of them zero and none the largest number, at which the connection closes.
\<close>

theorem flow_ids_never_reused:
  assumes "connect_calls calls (connection_new random) = (c, ss)"
  shows "sorted_wrt (<) (map cs_flow_id ss) \<and> distinct (map cs_flow_id ss) \<and>
    0 \<notin> cs_flow_id ` set ss \<and> - 1 \<notin> cs_flow_id ` set ss"
proof -
  have ids: "sorted_wrt (<) (map cs_flow_id ss)"
      "\<forall>s\<in>set ss. cc_next_flow_id (connection_new random) \<le> cs_flow_id s \<and> cs_flow_id s \<noteq> - 1"
    using connect_calls_ids [OF assms] by simp_all
  have "cc_next_flow_id (connection_new random) \<noteq> 0"
    by (simp add: connection_new_def first_flow_id_def)
  then have "0 \<notin> cs_flow_id ` set ss"
    using ids(2) by auto
  then show ?thesis
    using ids strict_sorted_iff by auto
qed

theorem flow_ids_never_reused_witness:
  "\<exists>c ss. connect_calls [(True, True, UdpRelay, Udp), (True, True, UdpRelay, Tcp), (True, True, UdpRelay, Udp),
       (True, True, UdpRelay, Udp)] (connection_new (- 2)) = (c, ss) \<and>
     map cs_flow_id ss = [- 2] \<and> distinct (map cs_flow_id ss)"
proof -
  have "connect_calls [(True, True, UdpRelay, Udp), (True, True, UdpRelay, Tcp), (True, True, UdpRelay, Udp),
       (True, True, UdpRelay, Udp)] (connection_new (- 2)) =
     (\<lparr>cc_closed = True, cc_timed_out = False, cc_next_flow_id = 0\<rparr>, [fresh_stream (- 2) UdpRelay])"
    by (simp add: connection_new_def first_flow_id_def connect_to_target_def connection_is_closed_def fresh_stream_def Let_def)
  from flow_ids_never_reused [OF this] this show ?thesis
    by (simp add: fresh_stream_def)
qed

text \<open>
  A session whose peer has gone silent ends, and no other ends as timed out: the driver ends
  with a timeout exactly at a keepalive tick that comes the health timeout, at least thirty
  seconds, after the last datagram that authenticated. A datagram that does not authenticate
  changes neither this clock nor the streams, and is not delivered.
\<close>

theorem dead_peer_detected:
  "(snd (driver_loop cs bc es (driver_start t0 configured codec)) = Some (Err CeTimedOut) \<longleftrightarrow>
    (\<exists>es1 now send es2 dv. es = es1 @ DriverTick now send # es2 \<and>
       driver_loop cs bc es1 (driver_start t0 configured codec) = (dv, None) \<and>
       now - dv_last_receive dv \<ge> max configured 30000)) \<and>
   (is_ok (snd (decode_datagram_at cs bc (dv_codec dv) d now)) \<or>
    (\<exists>codec. driver_step cs bc (DriverDatagram now d outcome send) dv = (dv\<lparr>dv_codec := codec\<rparr>, Continue)))"
proof -
  have "is_ok (snd (decode_datagram_at cs bc (dv_codec dv) d now)) \<or>
    (\<exists>codec. driver_step cs bc (DriverDatagram now d outcome send) dv = (dv\<lparr>dv_codec := codec\<rparr>, Continue))"
    by (cases "decode_datagram_at cs bc (dv_codec dv) d now"; cases "snd (decode_datagram_at cs bc (dv_codec dv) d now)")
      (auto intro: exI [of _ "dv_codec dv"])
  moreover have "dv_health_timeout (driver_start t0 configured codec) = max configured 30000"
    by (simp add: driver_start_def MIN_SESSION_HEALTH_TIMEOUT_def)
  ultimately show ?thesis
    using driver_loop_timeout [of cs bc es "driver_start t0 configured codec"] by presburger
qed

end
