(* ===== verification/Packet_Stream.thy ===== *)
theory Packet_Stream
  imports Framed_Codec
begin

text \<open>
  Byte streams over the data packets of the framed protocol: the agent's \<open>ClientStream\<close>
  (\<open>common/src/client_connection/stream.rs\<close>), the reader the proxy makes of the agent's requests
  (\<open>relay\<close> of \<open>proxy/src/connection/relay.rs\<close>) and the sink that wraps the target's bytes into
  responses (\<open>proxy/src/connection/response_sink.rs\<close>). The framed reader and writer are those of
  \<open>tokio_util\<close>: what the reader yields is a list of items, and the outcome of each call of the
  writer is an argument.
\<close>

section \<open>The stream of the agent\<close>

record ClientStream =
  cl_stream_id :: string
  cl_end_sent :: bool
  cl_read_buf :: bytes
  cl_read_pos :: nat
  cl_incoming :: "(string + ProxyResponse) list"
  cl_closed :: bool
  cl_sent :: "ProxyRequest list"

text \<open>
  The items \<open>cl_incoming\<close> are there to be read; \<open>cl_closed\<close> says that the connection ends after
  them.
\<close>

fun next_packet ::
  "bool \<Rightarrow> (string + ProxyResponse) list \<Rightarrow> (string + ProxyResponse) list \<times> (string + bytes) poll" where
  "next_packet closed [] = ([], if closed then Ready (Ok []) else Pending)"
| "next_packet closed (Inl e # items) = (items, Ready (Err e))"
| "next_packet closed (Inr (ResponseData packet) # items) =
     (if dp_is_end packet \<and> dp_data packet = [] then (items, Ready (Ok []))
      else if dp_data packet = [] then next_packet closed items
      else (items, Ready (Ok (dp_data packet))))"
| "next_packet closed (Inr _ # items) = next_packet closed items"

definition client_poll_read :: "nat \<Rightarrow> ClientStream \<Rightarrow> ClientStream \<times> (string + bytes) poll" where
  "client_poll_read remaining s =
     (if remaining = 0 then (s, Ready (Ok []))
      else if cl_read_pos s < length (cl_read_buf s) then
        let left = drop (cl_read_pos s) (cl_read_buf s);
            to_read = min (length left) remaining
        in (s\<lparr>cl_read_pos := cl_read_pos s + to_read\<rparr>, Ready (Ok (take to_read left)))
      else
        let s = s\<lparr>cl_read_buf := [], cl_read_pos := 0\<rparr>
        in case next_packet (cl_closed s) (cl_incoming s) of
             (items, Ready (Inr data)) \<Rightarrow>
               let to_read = min (length data) remaining
               in (s\<lparr>cl_incoming := items, cl_read_buf := data, cl_read_pos := to_read\<rparr>,
                   Ready (Ok (take to_read data)))
           | (items, r) \<Rightarrow> (s\<lparr>cl_incoming := items\<rparr>, r))"

text \<open>
  One call of the writer's \<open>poll_ready\<close> and, when it is ready, of \<open>start_send\<close>, which fails when
  the message cannot be encoded.
\<close>

datatype sink_outcome = SinkAccepts | SinkRefuses string | SinkFails string | SinkPending

definition client_poll_write ::
  "sink_outcome \<Rightarrow> bytes \<Rightarrow> ClientStream \<Rightarrow> ClientStream \<times> (string + nat) poll" where
  "client_poll_write outcome buf s =
     (if buf = [] then (s, Ready (Ok 0))
      else case outcome of
        SinkAccepts \<Rightarrow>
          (s\<lparr>cl_sent := cl_sent s @
               [RequestData \<lparr>dp_stream_id = cl_stream_id s, dp_data = buf, dp_is_end = False\<rparr>]\<rparr>,
           Ready (Ok (length buf)))
      | SinkRefuses e \<Rightarrow> (s, Ready (Err e))
      | SinkFails e \<Rightarrow> (s, Ready (Err e))
      | SinkPending \<Rightarrow> (s, Pending))"

definition client_poll_shutdown ::
  "sink_outcome \<Rightarrow> (string + unit) poll \<Rightarrow> ClientStream \<Rightarrow> ClientStream \<times> (string + unit) poll" where
  "client_poll_shutdown outcome flush s =
     (if cl_end_sent s then (s, flush)
      else case outcome of
        SinkAccepts \<Rightarrow>
          (s\<lparr>cl_sent := cl_sent s @
               [RequestData \<lparr>dp_stream_id = cl_stream_id s, dp_data = [], dp_is_end = True\<rparr>],
             cl_end_sent := True\<rparr>, flush)
      | SinkRefuses e \<Rightarrow> (s, Ready (Err e))
      | SinkFails e \<Rightarrow> (s, Ready (Err e))
      | SinkPending \<Rightarrow> (s, Pending))"

section \<open>The reader of the proxy\<close>

text \<open>
  The two closures over the items of the proxy's framed reader: the one of \<open>take_while\<close>, which
  stops at the end packet of the stream and at an error, and the one of \<open>filter_map\<close>.
\<close>

fun continue_stream :: "string \<Rightarrow> string + ProxyRequest \<Rightarrow> bool" where
  "continue_stream stream_id (Inr (RequestData packet)) \<longleftrightarrow>
     \<not> (dp_stream_id packet = stream_id \<and> dp_is_end packet \<and> dp_data packet = [])"
| "continue_stream stream_id (Inr _) \<longleftrightarrow> True"
| "continue_stream stream_id (Inl e) \<longleftrightarrow> False"

fun packet_chunk :: "string \<Rightarrow> string + ProxyRequest \<Rightarrow> (string + bytes) option" where
  "packet_chunk stream_id (Inr (RequestData packet)) =
     (if dp_stream_id packet = stream_id
      then (if dp_data packet \<noteq> [] then Some (Ok (dp_data packet)) else None) else None)"
| "packet_chunk stream_id (Inr _) = None"
| "packet_chunk stream_id (Inl e) = Some (Err e)"

definition request_chunks :: "string \<Rightarrow> (string + ProxyRequest) list \<Rightarrow> (string + bytes) list" where
  "request_chunks stream_id items =
     List.map_filter (packet_chunk stream_id) (takeWhile (continue_stream stream_id) items)"

section \<open>The sink of the proxy\<close>

record BytesToProxyResponseSink =
  rs_stream_id :: string
  rs_end_sent :: bool
  rs_sent :: "ProxyResponse list"

definition sink_start_send ::
  "sink_outcome \<Rightarrow> bytes \<Rightarrow> BytesToProxyResponseSink \<Rightarrow> BytesToProxyResponseSink \<times> (string + unit) poll" where
  "sink_start_send outcome item s =
     (case outcome of
        SinkAccepts \<Rightarrow>
          (s\<lparr>rs_sent := rs_sent s @
               [ResponseData \<lparr>dp_stream_id = rs_stream_id s, dp_data = item, dp_is_end = False\<rparr>]\<rparr>, Ready (Ok ()))
      | SinkRefuses e \<Rightarrow> (s, Ready (Err e))
      | SinkFails e \<Rightarrow> (s, Ready (Err e))
      | SinkPending \<Rightarrow> (s, Pending))"

definition sink_poll_close ::
  "sink_outcome \<Rightarrow> (string + unit) poll \<Rightarrow> BytesToProxyResponseSink \<Rightarrow>
   BytesToProxyResponseSink \<times> (string + unit) poll" where
  "sink_poll_close outcome flush s =
     (if rs_end_sent s then (s, flush)
      else case outcome of
        SinkAccepts \<Rightarrow>
          (s\<lparr>rs_sent := rs_sent s @
               [ResponseData \<lparr>dp_stream_id = rs_stream_id s, dp_data = [], dp_is_end = True\<rparr>],
             rs_end_sent := True\<rparr>, flush)
      | SinkRefuses e \<Rightarrow> (s, Ready (Err e))
      | SinkFails e \<Rightarrow> (s, Ready (Err e))
      | SinkPending \<Rightarrow> (s, Pending))"

section \<open>Writing\<close>

text \<open>A run of writes with their outcomes, on either side, and what of them was accepted.\<close>

fun client_writes :: "(sink_outcome \<times> bytes) list \<Rightarrow> ClientStream \<Rightarrow> ClientStream" where
  "client_writes [] s = s"
| "client_writes ((outcome, buf) # ws) s = client_writes ws (fst (client_poll_write outcome buf s))"

fun sink_writes :: "(sink_outcome \<times> bytes) list \<Rightarrow> BytesToProxyResponseSink \<Rightarrow> BytesToProxyResponseSink" where
  "sink_writes [] s = s"
| "sink_writes ((outcome, buf) # ws) s = sink_writes ws (fst (sink_start_send outcome buf s))"

fun taken :: "(sink_outcome \<times> bytes) list \<Rightarrow> bytes list" where
  "taken [] = []"
| "taken ((outcome, buf) # ws) = (if outcome = SinkAccepts \<and> buf \<noteq> [] then buf # taken ws else taken ws)"

definition data_of :: "string \<Rightarrow> bytes \<Rightarrow> DataPacket" where
  "data_of stream_id data = \<lparr>dp_stream_id = stream_id, dp_data = data, dp_is_end = False\<rparr>"

definition end_of :: "string \<Rightarrow> DataPacket" where
  "end_of stream_id = \<lparr>dp_stream_id = stream_id, dp_data = [], dp_is_end = True\<rparr>"

lemma packet_sel [simp]:
  "dp_stream_id (data_of i d) = i" "dp_data (data_of i d) = d" "\<not> dp_is_end (data_of i d)"
  "dp_stream_id (end_of i) = i" "dp_data (end_of i) = []" "dp_is_end (end_of i)"
  by (simp_all add: data_of_def end_of_def)

lemma taken_nonempty: "d \<in> set (taken ws) \<Longrightarrow> d \<noteq> []"
  by (induction ws rule: taken.induct) (auto split: if_splits)

lemma client_writes_sent:
  "cl_sent (client_writes ws s) = cl_sent s @ map (RequestData \<circ> data_of (cl_stream_id s)) (taken ws) \<and>
   cl_stream_id (client_writes ws s) = cl_stream_id s \<and> cl_end_sent (client_writes ws s) = cl_end_sent s"
  by (induction ws s rule: client_writes.induct)
    (auto simp: client_poll_write_def data_of_def split: sink_outcome.splits)

lemma request_chunks_Cons:
  "request_chunks i (x # xs) =
     (if continue_stream i x then (case packet_chunk i x of None \<Rightarrow> [] | Some c \<Rightarrow> [c]) @ request_chunks i xs else [])"
  by (simp add: request_chunks_def List.map_filter_simps split: option.splits)

lemma request_chunks_Nil [simp]: "request_chunks i [] = []"
  by (simp add: request_chunks_def List.map_filter_simps)

text \<open>An item that belongs to the data of a stream.\<close>

fun belongs :: "string \<Rightarrow> string + ProxyRequest \<Rightarrow> bool" where
  "belongs stream_id (Inr (RequestData packet)) \<longleftrightarrow> dp_stream_id packet = stream_id"
| "belongs stream_id (Inr _) \<longleftrightarrow> False"
| "belongs stream_id (Inl e) \<longleftrightarrow> True"

lemma request_chunks_own:
  "request_chunks i items = request_chunks i (filter (belongs i) items)"
proof (induction items)
  case (Cons x xs)
  then show ?case
    by (cases "(i, x)" rule: belongs.cases) (auto simp: request_chunks_Cons)
qed simp

lemma request_chunks_data:
  "(\<And>d. d \<in> set ds \<Longrightarrow> d \<noteq> []) \<Longrightarrow>
   request_chunks i (map (Inr \<circ> RequestData \<circ> data_of i) ds @ Inr (RequestData (end_of i)) # rest) = map Inr ds"
  by (induction ds) (auto simp: request_chunks_Cons)

section \<open>Reading\<close>

text \<open>
  Reads with buffers of given sizes up to the end of the stream, an error or a read that has to
  wait: the bytes read, and what stopped it.
\<close>

fun read_to_end :: "nat list \<Rightarrow> ClientStream \<Rightarrow> bytes \<times> (string + bytes) poll option" where
  "read_to_end [] s = ([], None)"
| "read_to_end (n # ns) s =
     (case client_poll_read n s of
        (s, Ready (Inr d)) \<Rightarrow>
          if n > 0 \<and> d = [] then ([], Some (Ready (Ok [])))
          else (let (ds, r) = read_to_end ns s in (d @ ds, r))
      | (s, r) \<Rightarrow> ([], Some r))"

text \<open>The bytes of a list of items up to the end packet, and whether there is one.\<close>

fun payload :: "(string + ProxyResponse) list \<Rightarrow> bytes" where
  "payload [] = []"
| "payload (Inl e # items) = []"
| "payload (Inr (ResponseData packet) # items) =
     (if dp_is_end packet \<and> dp_data packet = [] then [] else dp_data packet @ payload items)"
| "payload (Inr _ # items) = payload items"

fun ends :: "(string + ProxyResponse) list \<Rightarrow> bool" where
  "ends [] = False"
| "ends (Inl e # items) = False"
| "ends (Inr (ResponseData packet) # items) = (dp_is_end packet \<and> dp_data packet = [] \<or> ends items)"
| "ends (Inr _ # items) = ends items"

definition remaining_bytes :: "ClientStream \<Rightarrow> bytes" where
  "remaining_bytes s = drop (cl_read_pos s) (cl_read_buf s) @ payload (cl_incoming s)"

lemma next_packet_cases:
  assumes "next_packet closed items = (items', r)"
  shows "(\<exists>d. d \<noteq> [] \<and> r = Ready (Ok d) \<and> payload items = d @ payload items' \<and> (ends items \<longrightarrow> ends items')) \<or>
    (payload items = [] \<and> r = Ready (Ok []) \<and> (closed \<or> ends items)) \<or>
    (payload items = [] \<and> \<not> ends items \<and> (r = Pending \<or> (\<exists>e. r = Ready (Err e))))"
  using assms by (induction closed items rule: next_packet.induct) (auto split: if_splits)

lemma client_poll_read_cases:
  assumes "client_poll_read n s = (s', r)" and "n > 0"
  shows "(\<exists>d. d \<noteq> [] \<and> r = Ready (Ok d) \<and> remaining_bytes s = d @ remaining_bytes s' \<and>
      (ends (cl_incoming s) \<longrightarrow> ends (cl_incoming s'))) \<or>
    (remaining_bytes s = [] \<and> r = Ready (Ok []) \<and> (cl_closed s \<or> ends (cl_incoming s))) \<or>
    (remaining_bytes s = [] \<and> \<not> ends (cl_incoming s) \<and> (r = Pending \<or> (\<exists>e. r = Ready (Err e))))"
proof (cases "cl_read_pos s < length (cl_read_buf s)")
  case True
  let ?left = "drop (cl_read_pos s) (cl_read_buf s)"
  have "s' = s\<lparr>cl_read_pos := cl_read_pos s + min (length ?left) n\<rparr>" "r = Ready (Ok (take n ?left))"
    using assms True by (auto simp: client_poll_read_def Let_def min_def)
  moreover have "drop (cl_read_pos s + min (length ?left) n) (cl_read_buf s) = drop n ?left"
    by (auto simp: min_def add.commute)
  then have "?left = take n ?left @ drop (cl_read_pos s + min (length ?left) n) (cl_read_buf s)"
    by (simp only: append_take_drop_id)
  ultimately show ?thesis
    using True assms(2) by (simp add: remaining_bytes_def)
next
  case False
  obtain items p where np: "next_packet (cl_closed s) (cl_incoming s) = (items, p)" by fastforce
  have left: "remaining_bytes s = payload (cl_incoming s)"
    using False by (simp add: remaining_bytes_def)
  show ?thesis
  proof (cases "\<exists>d. d \<noteq> [] \<and> p = Ready (Ok d)")
    case True
    then obtain d where d: "d \<noteq> []" "p = Ready (Ok d)" by blast
    then have "s' = s\<lparr>cl_read_buf := d, cl_read_pos := min (length d) n, cl_incoming := items\<rparr>" "r = Ready (Ok (take n d))"
      using assms False np by (auto simp: client_poll_read_def Let_def min_def)
    then show ?thesis
      using d False next_packet_cases [OF np] assms(2) by (auto simp: remaining_bytes_def min_def)
  next
    case no_data: False
    have "r = p"
    proof (cases p)
      case Pending
      then show ?thesis
        using assms False np by (simp add: client_poll_read_def Let_def)
    next
      case (Ready q)
      then have "q = Ok d \<Longrightarrow> d = []" for d
        using no_data by blast
      then show ?thesis
        using Ready assms False np by (cases q) (auto simp: client_poll_read_def Let_def)
    qed
    then show ?thesis
      using no_data next_packet_cases [OF np] by (auto simp: left)
  qed
qed

lemma read_to_end_prefix: "\<exists>rest. remaining_bytes s = fst (read_to_end ns s) @ rest"
proof (induction ns arbitrary: s)
  case (Cons n ns)
  obtain s' r where read: "client_poll_read n s = (s', r)" by fastforce
  show ?case
  proof (cases "n = 0")
    case True
    then show ?thesis
      using Cons [of s] by (simp add: client_poll_read_def case_prod_beta)
  next
    case False
    then show ?thesis
      using client_poll_read_cases [OF read] read Cons [of s'] by (auto simp: case_prod_beta split: poll.splits)
  qed
qed simp

lemma read_to_end_complete:
  assumes "ends (cl_incoming s)" and "\<forall>n\<in>set ns. n > 0" and "length ns > length (remaining_bytes s)"
  shows "read_to_end ns s = (remaining_bytes s, Some (Ready (Ok [])))"
  using assms
proof (induction ns arbitrary: s)
  case (Cons n ns)
  obtain s' r where read: "client_poll_read n s = (s', r)" by fastforce
  have "n > 0" using Cons.prems by simp
  from client_poll_read_cases [OF read this] show ?case
  proof (elim disjE exE conjE)
    fix d assume d: "d \<noteq> []" "r = Ready (Ok d)" "remaining_bytes s = d @ remaining_bytes s'"
      "ends (cl_incoming s) \<longrightarrow> ends (cl_incoming s')"
    then have "length (remaining_bytes s') < length ns"
      using Cons.prems by (cases d) auto
    then show ?thesis
      using Cons.IH [of s'] Cons.prems d read by simp
  qed (use Cons.prems read \<open>n > 0\<close> in auto)
qed simp

lemma sink_writes_sent:
  "rs_sent (sink_writes ws s) =
     rs_sent s @ map (ResponseData \<circ> data_of (rs_stream_id s)) (map snd (filter (\<lambda>w. fst w = SinkAccepts) ws)) \<and>
   rs_stream_id (sink_writes ws s) = rs_stream_id s \<and> rs_end_sent (sink_writes ws s) = rs_end_sent s"
  by (induction ws s rule: sink_writes.induct)
    (auto simp: sink_start_send_def data_of_def split: sink_outcome.splits)

lemma payload_data:
  "payload (map (Inr \<circ> ResponseData \<circ> data_of i) ds @ Inr (ResponseData (end_of i)) # rest) = concat ds"
  "ends (map (Inr \<circ> ResponseData \<circ> data_of i) ds @ Inr (ResponseData (end_of i)) # rest)"
  by (induction ds) auto

section \<open>Properties\<close>

text \<open>What a framed reader yields of the results of its decoder.\<close>

definition frames :: "(string + 'a option) list \<Rightarrow> (string + 'a) list" where
  "frames rs = List.map_filter (\<lambda>r. case r of Inl e \<Rightarrow> Some (Inl e) | Inr None \<Rightarrow> None | Inr (Some x) \<Rightarrow> Some (Inr x)) rs"

lemma frames_decoded: "frames (map (\<lambda>(nonce, x). Inr (Some x)) xs) = map (Inr \<circ> snd) xs"
  by (induction xs) (auto simp: frames_def List.map_filter_simps)

lemma stream_decoded:
  assumes "env_ok env" and "bitcode_roundtrip bc" and "st_cipher st2 = st_cipher st1"
    and "length nonces = length xs" and "\<forall>nonce\<in>set nonces. length nonce = NONCE_SIZE"
    and "\<forall>x\<in>set xs. \<forall>p. bc_serialize bc x = Inr p \<longrightarrow> length p \<le> MAX_MESSAGE_SIZE"
    and "encode_stream env bc ty st1 (zip nonces xs) [] = Inr out"
  shows "frames (snd (decode_stream env bc st2 (length xs) (fc_init (ce_frames env)) (out @ rest))) = map Inr xs"
proof -
  have "\<forall>(nonce, x)\<in>set (zip nonces xs). length nonce = NONCE_SIZE \<and>
      (\<forall>p. bc_serialize bc x = Inr p \<longrightarrow> length p \<le> MAX_MESSAGE_SIZE)"
    using assms(5,6) by (auto dest: set_zip_leftD set_zip_rightD)
  from stream_roundtrip [OF assms(1-3) this assms(7)]
  have "snd (decode_stream env bc st2 (length xs) (fc_init (ce_frames env)) (out @ rest)) =
      map (\<lambda>(nonce, x). Inr (Some x)) (zip nonces xs)"
    using assms(4) by auto
  then show ?thesis
    using assms(4) by (simp add: frames_decoded) (metis list.map_comp map_snd_zip)
qed

definition client_stream_new :: "string \<Rightarrow> ClientStream" where
  "client_stream_new stream_id =
     \<lparr>cl_stream_id = stream_id, cl_end_sent = False, cl_read_buf = [], cl_read_pos = 0, cl_incoming = [],
      cl_closed = False, cl_sent = []\<rparr>"

definition response_sink_new :: "string \<Rightarrow> BytesToProxyResponseSink" where
  "response_sink_new stream_id = \<lparr>rs_stream_id = stream_id, rs_end_sent = False, rs_sent = []\<rparr>"

text \<open>
  C11. Bytes reach the target: what is written to a \<open>ClientStream\<close> and closed with a shutdown,
  encrypted, framed and decoded by the proxy under the same key, is read by the relay of the
  stream as exactly the accepted writes, in order, followed by the end of the stream, whatever
  requests of other kinds and other streams come before it and whatever follows.
\<close>

theorem framed_bytes_reach_target:
  assumes "env_ok env" and "bitcode_roundtrip bc" and "st_cipher st2 = st_cipher st1"
    and "client_poll_shutdown SinkAccepts flush (client_writes ws (client_stream_new stream_id)) = (s, r)"
    and "\<forall>x\<in>set before. \<not> belongs stream_id (Inr x)"
    and "length nonces = length (before @ cl_sent s)" and "\<forall>nonce\<in>set nonces. length nonce = NONCE_SIZE"
    and "\<forall>x\<in>set (before @ cl_sent s). \<forall>p. bc_serialize bc x = Inr p \<longrightarrow> length p \<le> MAX_MESSAGE_SIZE"
    and "encode_stream env bc request_type st1 (zip nonces (before @ cl_sent s)) [] = Inr out"
  shows "request_chunks stream_id (frames (snd (decode_stream env bc st2 (length (before @ cl_sent s))
      (fc_init (ce_frames env)) (out @ rest))) @ later) = map Inr (taken ws)"
proof -
  have sent: "cl_sent s = map (RequestData \<circ> data_of stream_id) (taken ws) @ [RequestData (end_of stream_id)]"
    using assms(4) client_writes_sent [of ws "client_stream_new stream_id"]
    by (auto simp: client_poll_shutdown_def client_stream_new_def end_of_def)
  have "filter (belongs stream_id) (map Inr before) = []"
    using assms(5) by (auto simp: filter_empty_conv)
  then have "filter (belongs stream_id) (map Inr (before @ cl_sent s) @ later) =
      map (Inr \<circ> RequestData \<circ> data_of stream_id) (taken ws) @
        Inr (RequestData (end_of stream_id)) # filter (belongs stream_id) later"
    by (auto simp: sent comp_def filter_id_conv)
  then have "request_chunks stream_id (map Inr (before @ cl_sent s) @ later) = map Inr (taken ws)"
    using request_chunks_own [of stream_id "map Inr (before @ cl_sent s) @ later"]
      request_chunks_data [of "taken ws" stream_id] taken_nonempty by metis
  then show ?thesis
    by (simp only: stream_decoded [OF assms(1-3) assms(6-9)])
qed

text \<open>A serialiser of data packets without a stream id, for the witnesses.\<close>

definition packet_bytes :: "DataPacket \<Rightarrow> string + bytes" where
  "packet_bytes p = (if dp_stream_id p = [] then Inr ((if dp_is_end p then 1 else 0) # dp_data p) else Inl ''id'')"

definition packet_from :: "bytes \<Rightarrow> DataPacket" where
  "packet_from bs = \<lparr>dp_stream_id = [], dp_data = drop 1 bs, dp_is_end = (hd bs = 1)\<rparr>"

definition packet_requests :: "ProxyRequest bitcode" where
  "packet_requests = \<lparr>bc_serialize = (\<lambda>r. case r of RequestData p \<Rightarrow> packet_bytes p | _ \<Rightarrow> Inl ''kind''),
     bc_deserialize = (\<lambda>bs. Inr (RequestData (packet_from bs)))\<rparr>"

definition packet_responses :: "ProxyResponse bitcode" where
  "packet_responses = \<lparr>bc_serialize = (\<lambda>r. case r of ResponseData p \<Rightarrow> packet_bytes p | _ \<Rightarrow> Inl ''kind''),
     bc_deserialize = (\<lambda>bs. Inr (ResponseData (packet_from bs)))\<rparr>"

lemma packet_from_bytes: "packet_bytes p = Inr bs \<Longrightarrow> packet_from bs = p"
  by (auto simp: packet_bytes_def packet_from_def split: if_splits)

lemma packet_bitcodes_ok: "bitcode_roundtrip packet_requests" "bitcode_roundtrip packet_responses"
  using packet_from_bytes
  by (auto simp: bitcode_roundtrip_def packet_requests_def packet_responses_def
      split: ProxyRequest.splits ProxyResponse.splits)

theorem framed_bytes_reach_target_witness:
  "\<exists>out. encode_stream plain_env packet_requests request_type \<lparr>st_cipher = Some [1], st_compression = 2\<rparr>
       (zip (replicate 2 (replicate 12 3)) [RequestData (data_of [] [7, 8]), RequestData (end_of [])]) [] = Inr out \<and>
     request_chunks [] (frames (snd (decode_stream plain_env packet_requests \<lparr>st_cipher = Some [1], st_compression = 0\<rparr> 2 () out)))
       = [Inr [7, 8]]"
proof -
  let ?st1 = "\<lparr>st_cipher = Some [1], st_compression = 2\<rparr>" and ?st2 = "\<lparr>st_cipher = Some [1], st_compression = 0\<rparr>"
  let ?s = "client_writes [(SinkAccepts, [7, 8])] (client_stream_new [])"
  let ?xs = "[RequestData (data_of [] [7, 8]), RequestData (end_of [])]"
  obtain e where s: "client_poll_shutdown SinkAccepts (Ready (Ok ())) ?s = (e, Ready (Ok ()))" "cl_sent e = ?xs"
    by (simp add: client_poll_shutdown_def client_poll_write_def client_stream_new_def data_of_def end_of_def)
  obtain out where out: "encode_stream plain_env packet_requests request_type ?st1 (zip (replicate 2 (replicate 12 3)) ?xs) [] = Inr out"
    by (simp add: typed_encode_def message_encode_def message_new_def packet_requests_def packet_bytes_def plain_env_def
        plain_suite_def plain_message_def plain_frames_def cipher_encrypt_def needs_crypto_def numeral_2_eq_2
        compression_mode_def from_flag_def MIN_COMPRESSION_SIZE_def MAX_MESSAGE_SIZE_def data_of_def end_of_def)
  have "request_chunks [] (frames (snd (decode_stream plain_env packet_requests ?st2 (length ([] @ cl_sent e))
      (fc_init (ce_frames plain_env)) (out @ []))) @ []) = map Inr (taken [(SinkAccepts, [7, 8])])"
    by (rule framed_bytes_reach_target [OF plain_env_ok packet_bitcodes_ok(1) _ s(1)])
      (use out s(2) in \<open>auto simp: NONCE_SIZE_def packet_requests_def packet_bytes_def MAX_MESSAGE_SIZE_def\<close>)
  moreover have "length ([] @ cl_sent e) = 2"
    by (simp add: s(2))
  ultimately show ?thesis
    using out by (intro exI [of _ out]) (simp del: decode_stream.simps)
qed

text \<open>
  Bytes reach the agent: what the target sends, wrapped by the proxy's sink and closed,
  encrypted, framed and decoded by the agent under the same key, is read from the \<open>ClientStream\<close>
  as exactly these bytes followed by the end of the stream, whatever the sizes of the buffers, and
  reads that stop earlier have read a prefix of them.
\<close>

theorem framed_bytes_reach_agent:
  assumes "env_ok env" and "bitcode_roundtrip bc" and "st_cipher st2 = st_cipher st1"
    and "sink_poll_close SinkAccepts flush (sink_writes ws (response_sink_new stream_id)) = (sink, r)"
    and "length nonces = length (rs_sent sink)" and "\<forall>nonce\<in>set nonces. length nonce = NONCE_SIZE"
    and "\<forall>x\<in>set (rs_sent sink). \<forall>p. bc_serialize bc x = Inr p \<longrightarrow> length p \<le> MAX_MESSAGE_SIZE"
    and "encode_stream env bc response_type st1 (zip nonces (rs_sent sink)) [] = Inr out"
    and "s = (client_stream_new stream_id)\<lparr>cl_incoming :=
      frames (snd (decode_stream env bc st2 (length (rs_sent sink)) (fc_init (ce_frames env)) (out @ rest))) @ later\<rparr>"
    and "body = concat (map snd (filter (\<lambda>w. fst w = SinkAccepts) ws))"
  shows "(\<exists>left. body = fst (read_to_end sizes s) @ left) \<and>
    ((\<forall>n\<in>set sizes. n > 0) \<and> length sizes > length body \<longrightarrow> read_to_end sizes s = (body, Some (Ready (Ok []))))"
proof -
  let ?ds = "map snd (filter (\<lambda>w. fst w = SinkAccepts) ws)"
  have "rs_sent sink = map (ResponseData \<circ> data_of stream_id) ?ds @ [ResponseData (end_of stream_id)]"
    using assms(4) sink_writes_sent [of ws "response_sink_new stream_id"]
    by (auto simp: sink_poll_close_def response_sink_new_def end_of_def)
  then have "cl_incoming s = map (Inr \<circ> ResponseData \<circ> data_of stream_id) ?ds @ Inr (ResponseData (end_of stream_id)) # later"
    using stream_decoded [OF assms(1-3) assms(5-8), of rest] assms(9) by (simp add: comp_def)
  then have "payload (cl_incoming s) = body" "ends (cl_incoming s)"
    using payload_data [of stream_id ?ds later] assms(10) by simp_all
  moreover have "remaining_bytes s = payload (cl_incoming s)"
    using assms(9) by (simp add: remaining_bytes_def client_stream_new_def)
  ultimately show ?thesis
    using read_to_end_prefix [of s sizes] read_to_end_complete [of s sizes] by auto
qed

theorem framed_bytes_reach_agent_witness:
  "\<exists>out. encode_stream plain_env packet_responses response_type \<lparr>st_cipher = Some [1], st_compression = 0\<rparr>
       (zip (replicate 2 (replicate 12 3)) [ResponseData (data_of [] [7, 8]), ResponseData (end_of [])]) [] = Inr out \<and>
     read_to_end [1, 1, 5] ((client_stream_new [])\<lparr>cl_incoming :=
       frames (snd (decode_stream plain_env packet_responses \<lparr>st_cipher = Some [1], st_compression = 0\<rparr> 2 () out))\<rparr>) =
       ([7, 8], Some (Ready (Ok [])))"
proof -
  let ?st = "\<lparr>st_cipher = Some [1], st_compression = 0\<rparr>"
  let ?s = "sink_writes [(SinkAccepts, [7, 8])] (response_sink_new [])"
  let ?xs = "[ResponseData (data_of [] [7, 8]), ResponseData (end_of [])]"
  obtain e where s: "sink_poll_close SinkAccepts (Ready (Ok ())) ?s = (e, Ready (Ok ()))" "rs_sent e = ?xs"
    by (simp add: sink_poll_close_def sink_start_send_def response_sink_new_def data_of_def end_of_def)
  obtain out where out: "encode_stream plain_env packet_responses response_type ?st (zip (replicate 2 (replicate 12 3)) ?xs) [] = Inr out"
    by (simp add: typed_encode_def message_encode_def message_new_def packet_responses_def packet_bytes_def plain_env_def
        plain_suite_def plain_message_def plain_frames_def cipher_encrypt_def needs_crypto_def numeral_2_eq_2
        compression_mode_def from_flag_def MIN_COMPRESSION_SIZE_def MAX_MESSAGE_SIZE_def data_of_def end_of_def)
  let ?c = "(client_stream_new [])\<lparr>cl_incoming :=
      frames (snd (decode_stream plain_env packet_responses ?st (length (rs_sent e)) (fc_init (ce_frames plain_env)) (out @ []))) @ []\<rparr>"
  have "(\<exists>left. [7, 8] = fst (read_to_end [1, 1, 5] ?c) @ left) \<and>
    ((\<forall>n\<in>set [1, 1, 5 :: nat]. n > 0) \<and> length [1, 1, 5 :: nat] > length [7 :: u8, 8] \<longrightarrow>
       read_to_end [1, 1, 5] ?c = ([7, 8], Some (Ready (Ok []))))"
    by (rule framed_bytes_reach_agent [OF plain_env_ok packet_bitcodes_ok(2) _ s(1) _ _ _ _ refl])
      (use out s(2) in \<open>auto simp: NONCE_SIZE_def packet_responses_def packet_bytes_def MAX_MESSAGE_SIZE_def\<close>)
  moreover have "length (rs_sent e) = 2"
    by (simp add: s(2))
  ultimately show ?thesis
    using out by (intro exI [of _ out]) (simp del: decode_stream.simps read_to_end.simps)
qed

end
