(* ===== verification/Proxy_Relay.thy ===== *)
theory Proxy_Relay
  imports Packet_Stream Udp_Relay
begin

text \<open>
  The relays of one connection of the proxy (\<open>proxy/src/connection/relay.rs\<close>): the TCP relay with
  its two idle timeouts, and the relay of a single connected UDP socket. The copying itself is
  \<open>tokio::io::copy_bidirectional\<close>: the model sees the polls it makes through \<open>RelayCopyIo\<close> and its
  result. Times are in milliseconds.
\<close>

section \<open>Timeouts of the TCP relay\<close>

record TcpRelayTimeouts =
  rt_idle :: "nat option"
  rt_half_close_idle :: "nat option"

definition duration_from_secs :: "u64 \<Rightarrow> nat option" where
  "duration_from_secs secs = (if secs = 0 then None else Some (from_secs secs))"

definition timeouts_new :: "u64 \<Rightarrow> u64 \<Rightarrow> TcpRelayTimeouts" where
  "timeouts_new idle_secs half_close_idle_secs =
     \<lparr>rt_idle = duration_from_secs idle_secs, rt_half_close_idle = duration_from_secs half_close_idle_secs\<rparr>"

definition current_timeout :: "TcpRelayTimeouts \<Rightarrow> bool \<Rightarrow> nat option" where
  "current_timeout t half_closed =
     (if \<not> half_closed then rt_idle t
      else case (rt_idle t, rt_half_close_idle t) of
        (Some idle, Some half_close_idle) \<Rightarrow> Some (min idle half_close_idle)
      | (Some idle, None) \<Rightarrow> Some idle
      | (None, Some half_close_idle) \<Rightarrow> Some half_close_idle
      | (None, None) \<Rightarrow> None)"

section \<open>The wrapper of the two streams\<close>

datatype io_kind = KindBrokenPipe | KindConnectionReset | KindNotConnected | KindOther string

definition can_ignore_tcp_shutdown_error :: "io_kind \<Rightarrow> bool" where
  "can_ignore_tcp_shutdown_error e \<longleftrightarrow> e \<in> {KindBrokenPipe, KindConnectionReset, KindNotConnected}"

record relay_copy_io =
  ri_read_bytes :: u64
  ri_read_eof :: bool

text \<open>A poll of the wrapper, given what the inner stream answers; the flag marks activity.\<close>

definition copy_poll_read :: "(io_kind + bytes) poll \<Rightarrow> relay_copy_io \<Rightarrow> relay_copy_io \<times> bool" where
  "copy_poll_read result io =
     (case result of
        Ready (Inr data) \<Rightarrow>
          if length data > 0 then (io\<lparr>ri_read_bytes := ri_read_bytes io + word_of_nat (length data)\<rparr>, True)
          else (io\<lparr>ri_read_eof := True\<rparr>, True)
      | _ \<Rightarrow> (io, False))"

definition copy_poll_write :: "(io_kind + nat) poll \<Rightarrow> bool" where
  "copy_poll_write result =
     (case result of Ready (Inr written) \<Rightarrow> written > 0 | _ \<Rightarrow> False)"

definition copy_poll_shutdown :: "(io_kind + unit) poll \<Rightarrow> (io_kind + unit) poll" where
  "copy_poll_shutdown result =
     (case result of
        Ready (Inl e) \<Rightarrow> if can_ignore_tcp_shutdown_error e then Ready (Ok ()) else Ready (Err e)
      | r \<Rightarrow> r)"

section \<open>The TCP relay\<close>

record tcp_relay =
  tr_agent :: relay_copy_io
  tr_target :: relay_copy_io
  tr_timeouts :: TcpRelayTimeouts
  tr_deadline :: "nat option"

definition half_closed :: "tcp_relay \<Rightarrow> bool" where
  "half_closed tr \<longleftrightarrow> ri_read_eof (tr_agent tr) \<or> ri_read_eof (tr_target tr)"

text \<open>The head of the loop at time \<open>now\<close>: the timeout in force and a new timer.\<close>

definition rearm :: "nat \<Rightarrow> tcp_relay \<Rightarrow> tcp_relay" where
  "rearm now tr = tr\<lparr>tr_deadline := map_option (\<lambda>timeout. now + timeout) (current_timeout (tr_timeouts tr) (half_closed tr))\<rparr>"

definition tcp_relay_start :: "nat \<Rightarrow> TcpRelayTimeouts \<Rightarrow> tcp_relay" where
  "tcp_relay_start now timeouts =
     rearm now \<lparr>tr_agent = \<lparr>ri_read_bytes = 0, ri_read_eof = False\<rparr>,
                tr_target = \<lparr>ri_read_bytes = 0, ri_read_eof = False\<rparr>,
                tr_timeouts = timeouts, tr_deadline = None\<rparr>"

datatype tcp_relay_event =
    TcpAgentRead nat "(io_kind + bytes) poll"
  | TcpTargetRead nat "(io_kind + bytes) poll"
  | TcpWrite nat "(io_kind + nat) poll"
  | TcpCopied "io_kind + u64 \<times> u64"
  | TcpTimer nat

fun tcp_relay_step :: "tcp_relay_event \<Rightarrow> tcp_relay \<Rightarrow> tcp_relay \<times> (io_kind + u64 \<times> u64) loop_outcome" where
  "tcp_relay_step (TcpAgentRead now r) tr =
     (case copy_poll_read r (tr_agent tr) of
        (io, active) \<Rightarrow> (if active then rearm now (tr\<lparr>tr_agent := io\<rparr>) else tr, Continue))"
| "tcp_relay_step (TcpTargetRead now r) tr =
     (case copy_poll_read r (tr_target tr) of
        (io, active) \<Rightarrow> (if active then rearm now (tr\<lparr>tr_target := io\<rparr>) else tr, Continue))"
| "tcp_relay_step (TcpWrite now r) tr = (if copy_poll_write r then rearm now tr else tr, Continue)"
| "tcp_relay_step (TcpCopied result) tr = (tr, Return result)"
| "tcp_relay_step (TcpTimer now) tr =
     (case tr_deadline tr of
        Some deadline \<Rightarrow>
          if deadline \<le> now
          then (tr, Return (Ok (ri_read_bytes (tr_agent tr), ri_read_bytes (tr_target tr)))) else (tr, Continue)
      | None \<Rightarrow> (tr, Continue))"

fun tcp_relay_run ::
  "tcp_relay_event list \<Rightarrow> tcp_relay \<Rightarrow> tcp_relay \<times> (io_kind + u64 \<times> u64) option" where
  "tcp_relay_run [] tr = (tr, None)"
| "tcp_relay_run (e # es) tr =
     (case tcp_relay_step e tr of
        (tr, Return r) \<Rightarrow> (tr, Some r)
      | (tr, _) \<Rightarrow> tcp_relay_run es tr)"

definition relay_timeouts :: "ProxyConfig \<Rightarrow> TcpRelayTimeouts" where
  "relay_timeouts config =
     timeouts_new (pc_tcp_relay_idle_timeout_secs config) (pc_tcp_relay_half_close_idle_timeout_secs config)"

section \<open>The relay of one UDP socket\<close>

text \<open>
  A read of the agent's packets into the buffer of the relay: \<open>StreamReader\<close> gives at most one
  chunk per read.
\<close>

definition UDP_RELAY_BUFFER :: nat where "UDP_RELAY_BUFFER = 65535"

function pieces :: "nat \<Rightarrow> bytes \<Rightarrow> bytes list" where
  "pieces n d = (if d = [] \<or> n = 0 then [] else take n d # pieces n (drop n d))"
  by auto
termination by (relation "measure (\<lambda>(n, d). length d)") auto

declare pieces.simps [simp del]

definition udp_agent_reads :: "string \<Rightarrow> (string + ProxyRequest) list \<Rightarrow> bytes list" where
  "udp_agent_reads stream_id items =
     concat (map (\<lambda>c. case c of Inr d \<Rightarrow> pieces UDP_RELAY_BUFFER d | Inl e \<Rightarrow> []) (request_chunks stream_id items))"

record udp_relay =
  ur_deadline :: nat
  ur_to_target :: "bytes list"
  ur_to_agent :: "bytes list"

text \<open>A send or a write under the idle timeout: done, failed, or not done in time.\<close>

datatype timed_outcome = TimedDone | TimedFailed string | TimedElapsed

datatype udp_relay_event =
    UdpIdle
  | UdpFromAgent nat "string + bytes" timed_outcome
  | UdpFromTarget nat "string + bytes" timed_outcome

fun udp_relay_step :: "nat \<Rightarrow> udp_relay_event \<Rightarrow> udp_relay \<Rightarrow> udp_relay \<times> unit loop_outcome" where
  "udp_relay_step idle UdpIdle ur = (ur, Break)"
| "udp_relay_step idle (UdpFromAgent now (Inl e) sent) ur = (ur, Break)"
| "udp_relay_step idle (UdpFromAgent now (Inr data) sent) ur =
     (if data = [] then (ur, Break)
      else case sent of
        TimedDone \<Rightarrow> (ur\<lparr>ur_to_target := ur_to_target ur @ [data], ur_deadline := now + idle\<rparr>, Continue)
      | TimedFailed e \<Rightarrow> (ur, Break)
      | TimedElapsed \<Rightarrow> (ur, Break))"
| "udp_relay_step idle (UdpFromTarget now (Inl e) written) ur = (ur, Break)"
| "udp_relay_step idle (UdpFromTarget now (Inr data) written) ur =
     (case written of
        TimedDone \<Rightarrow>
          (ur\<lparr>ur_to_agent := ur_to_agent ur @ (if data = [] then [] else [data]), ur_deadline := now + idle\<rparr>, Continue)
      | TimedFailed e \<Rightarrow> (ur, Break)
      | TimedElapsed \<Rightarrow> (ur, Break))"

fun udp_relay_run :: "nat \<Rightarrow> udp_relay_event list \<Rightarrow> udp_relay \<Rightarrow> udp_relay \<times> bool" where
  "udp_relay_run idle [] ur = (ur, False)"
| "udp_relay_run idle (e # es) ur =
     (case udp_relay_step idle e ur of
        (ur, Continue) \<Rightarrow> udp_relay_run idle es ur
      | (ur, _) \<Rightarrow> (ur, True))"

section \<open>Facts on the TCP relay\<close>

text \<open>The activity an event is, the time of the last one, and the bytes read in either direction.\<close>

fun activity :: "tcp_relay_event \<Rightarrow> nat option" where
  "activity (TcpAgentRead now (Ready (Inr _))) = Some now"
| "activity (TcpTargetRead now (Ready (Inr _))) = Some now"
| "activity (TcpWrite now (Ready (Inr written))) = (if written > 0 then Some now else None)"
| "activity _ = None"

definition last_activity :: "nat \<Rightarrow> tcp_relay_event list \<Rightarrow> nat" where
  "last_activity t0 es = last (t0 # List.map_filter activity es)"

fun agent_bytes :: "tcp_relay_event \<Rightarrow> bytes" where
  "agent_bytes (TcpAgentRead now (Ready (Inr d))) = d"
| "agent_bytes _ = []"

fun target_bytes :: "tcp_relay_event \<Rightarrow> bytes" where
  "target_bytes (TcpTargetRead now (Ready (Inr d))) = d"
| "target_bytes _ = []"

definition eof_read :: "tcp_relay_event list \<Rightarrow> bool" where
  "eof_read es \<longleftrightarrow> (\<exists>now. TcpAgentRead now (Ready (Ok [])) \<in> set es \<or> TcpTargetRead now (Ready (Ok [])) \<in> set es)"

text \<open>What the state of the relay is after the events \<open>es\<close>.\<close>

definition relay_after :: "nat \<Rightarrow> TcpRelayTimeouts \<Rightarrow> tcp_relay_event list \<Rightarrow> tcp_relay \<Rightarrow> bool" where
  "relay_after t0 timeouts es tr \<longleftrightarrow>
     tr_timeouts tr = timeouts \<and> half_closed tr = eof_read es \<and>
     ri_read_bytes (tr_agent tr) = word_of_nat (length (concat (map agent_bytes es))) \<and>
     ri_read_bytes (tr_target tr) = word_of_nat (length (concat (map target_bytes es))) \<and>
     tr_deadline tr = map_option (\<lambda>t. last_activity t0 es + t) (current_timeout timeouts (eof_read es))"

lemma map_filter_snoc:
  "List.map_filter f (xs @ [x]) = List.map_filter f xs @ (case f x of None \<Rightarrow> [] | Some y \<Rightarrow> [y])"
  by (induction xs) (auto simp: List.map_filter_simps split: option.split)

lemma last_activity_snoc:
  "last_activity t0 (es @ [e]) = (case activity e of None \<Rightarrow> last_activity t0 es | Some t \<Rightarrow> t)"
  by (simp add: last_activity_def map_filter_snoc split: option.split)

lemma rearm_sel [simp]:
  "tr_agent (rearm now tr) = tr_agent tr" "tr_target (rearm now tr) = tr_target tr"
  "tr_timeouts (rearm now tr) = tr_timeouts tr" "half_closed (rearm now tr) = half_closed tr"
  "tr_deadline (rearm now tr) = map_option ((+) now) (current_timeout (tr_timeouts tr) (half_closed tr))"
  by (simp_all add: rearm_def half_closed_def)

lemma relay_after_start: "relay_after t0 timeouts [] (tcp_relay_start t0 timeouts)"
  by (simp add: relay_after_def tcp_relay_start_def half_closed_def eof_read_def last_activity_def)

lemma eof_read_snoc:
  "eof_read (es @ [e]) \<longleftrightarrow> eof_read es \<or>
     (\<exists>now. e = TcpAgentRead now (Ready (Ok [])) \<or> e = TcpTargetRead now (Ready (Ok [])))"
  by (auto simp: eof_read_def)

lemma copy_poll_read_data:
  "copy_poll_read (Ready (Ok d)) io =
     (io\<lparr>ri_read_bytes := ri_read_bytes io + word_of_nat (length d), ri_read_eof := (ri_read_eof io \<or> d = [])\<rparr>, True)"
  by (cases io) (simp add: copy_poll_read_def)

lemma copy_poll_read_idle: "\<nexists>d. r = Ready (Ok d) \<Longrightarrow> copy_poll_read r io = (io, False)"
  by (auto simp: copy_poll_read_def split: poll.splits sum.splits)

lemma relay_after_agent:
  assumes "relay_after t0 timeouts es tr"
  shows "\<exists>tr'. tcp_relay_step (TcpAgentRead now r) tr = (tr', Continue) \<and>
    relay_after t0 timeouts (es @ [TcpAgentRead now r]) tr'"
proof (cases "\<exists>d. r = Ready (Ok d)")
  case True
  then obtain d where r: "r = Ready (Ok d)" ..
  let ?tr = "tr\<lparr>tr_agent := fst (copy_poll_read r (tr_agent tr))\<rparr>"
  have "half_closed ?tr = eof_read (es @ [TcpAgentRead now r])"
    using assms by (auto simp: r copy_poll_read_data relay_after_def half_closed_def eof_read_snoc)
  then have "relay_after t0 timeouts (es @ [TcpAgentRead now r]) (rearm now ?tr)"
    using assms by (simp add: relay_after_def last_activity_snoc r copy_poll_read_data)
  then show ?thesis
    by (simp add: r copy_poll_read_data)
next
  case False
  then have "activity (TcpAgentRead now r) = None"
    by (cases "TcpAgentRead now r" rule: activity.cases) auto
  moreover have "agent_bytes (TcpAgentRead now r) = []"
    using False by (cases "TcpAgentRead now r" rule: agent_bytes.cases) auto
  ultimately show ?thesis
    using assms False by (simp add: copy_poll_read_idle relay_after_def last_activity_snoc eof_read_snoc)
qed

lemma relay_after_target:
  assumes "relay_after t0 timeouts es tr"
  shows "\<exists>tr'. tcp_relay_step (TcpTargetRead now r) tr = (tr', Continue) \<and>
    relay_after t0 timeouts (es @ [TcpTargetRead now r]) tr'"
proof (cases "\<exists>d. r = Ready (Ok d)")
  case True
  then obtain d where r: "r = Ready (Ok d)" ..
  let ?tr = "tr\<lparr>tr_target := fst (copy_poll_read r (tr_target tr))\<rparr>"
  have "half_closed ?tr = eof_read (es @ [TcpTargetRead now r])"
    using assms by (auto simp: r copy_poll_read_data relay_after_def half_closed_def eof_read_snoc)
  then have "relay_after t0 timeouts (es @ [TcpTargetRead now r]) (rearm now ?tr)"
    using assms by (simp add: relay_after_def last_activity_snoc r copy_poll_read_data)
  then show ?thesis
    by (simp add: r copy_poll_read_data)
next
  case False
  then have "activity (TcpTargetRead now r) = None"
    by (cases "TcpTargetRead now r" rule: activity.cases) auto
  moreover have "target_bytes (TcpTargetRead now r) = []"
    using False by (cases "TcpTargetRead now r" rule: target_bytes.cases) auto
  ultimately show ?thesis
    using assms False by (simp add: copy_poll_read_idle relay_after_def last_activity_snoc eof_read_snoc)
qed

lemma relay_after_step:
  assumes "relay_after t0 timeouts es tr" and "tcp_relay_step e tr = (tr', Continue)"
  shows "relay_after t0 timeouts (es @ [e]) tr'"
proof (cases e)
  case (TcpWrite now r)
  then show ?thesis
    using assms by (auto simp: relay_after_def copy_poll_write_def last_activity_snoc eof_read_snoc
        split: poll.splits sum.splits if_splits)
next
  case (TcpTimer now)
  then show ?thesis
    using assms by (auto simp: relay_after_def last_activity_snoc eof_read_snoc split: option.splits if_splits)
next
  case (TcpAgentRead now r)
  then show ?thesis
    using assms relay_after_agent [OF assms(1), of now r] by auto
next
  case (TcpTargetRead now r)
  then show ?thesis
    using assms relay_after_target [OF assms(1), of now r] by auto
qed (use assms in simp)

lemma relay_after_run:
  "tcp_relay_run es tr = (tr', None) \<Longrightarrow> relay_after t0 timeouts es0 tr \<Longrightarrow> relay_after t0 timeouts (es0 @ es) tr'"
proof (induction es arbitrary: es0 tr)
  case (Cons e es)
  obtain tr1 r where step: "tcp_relay_step e tr = (tr1, r)" by fastforce
  have "r \<noteq> Break"
    using step by (cases e) (auto split: prod.splits option.splits if_splits)
  then have "r = Continue"
    using Cons.prems(1) step by (cases r) auto
  then show ?case
    using Cons.IH [of tr1 "es0 @ [e]"] Cons.prems step relay_after_step by fastforce
qed simp

lemma tcp_relay_run_snoc:
  "tcp_relay_run es tr = (tr', None) \<Longrightarrow> tcp_relay_run (es @ [e]) tr = tcp_relay_run [e] tr'"
  by (induction es arbitrary: tr) (auto split: prod.splits loop_outcome.splits)

section \<open>Facts on the UDP relay\<close>

lemma pieces_short: "d \<noteq> [] \<Longrightarrow> length d \<le> n \<Longrightarrow> pieces n d = [d]"
  by (subst pieces.simps; cases d) (auto simp: pieces.simps)

fun from_agent :: "udp_relay_event \<Rightarrow> bytes list" where
  "from_agent (UdpFromAgent now (Inr d) sent) = [d]"
| "from_agent _ = []"

fun from_target :: "udp_relay_event \<Rightarrow> bytes list" where
  "from_target (UdpFromTarget now (Inr d) written) = (if d = [] then [] else [d])"
| "from_target _ = []"

fun relayed :: "udp_relay_event \<Rightarrow> bool" where
  "relayed (UdpFromAgent now (Inr d) TimedDone) \<longleftrightarrow> d \<noteq> []"
| "relayed (UdpFromTarget now (Inr d) TimedDone) \<longleftrightarrow> True"
| "relayed _ \<longleftrightarrow> False"

lemma udp_relay_step_relayed:
  "relayed e \<Longrightarrow> \<exists>ur'. udp_relay_step idle e ur = (ur', Continue) \<and>
     ur_to_target ur' = ur_to_target ur @ from_agent e \<and> ur_to_agent ur' = ur_to_agent ur @ from_target e"
  by (cases e rule: relayed.cases) auto

lemma udp_relay_step_ends: "\<not> relayed e \<Longrightarrow> udp_relay_step idle e ur = (ur, Break)"
  by (cases "(idle, e, ur)" rule: udp_relay_step.cases) (auto split: timed_outcome.splits elim: relayed.elims)

lemma udp_relay_run_relays:
  "udp_relay_run idle es ur = (ur', ended) \<Longrightarrow>
   ur_to_target ur' = ur_to_target ur @ concat (map from_agent (takeWhile relayed es)) \<and>
   ur_to_agent ur' = ur_to_agent ur @ concat (map from_target (takeWhile relayed es)) \<and>
   (ended \<longleftrightarrow> takeWhile relayed es \<noteq> es)"
proof (induction es arbitrary: ur)
  case (Cons e es)
  show ?case
  proof (cases "relayed e")
    case True
    with udp_relay_step_relayed [OF this, of idle ur] Cons show ?thesis by fastforce
  next
    case False
    then show ?thesis
      using Cons.prems by (simp add: udp_relay_step_ends)
  qed
qed simp

section \<open>Properties\<close>

text \<open>
  C32. The TCP relay is ended by its idle timer exactly when it has been idle: after any events,
  the timer ends it if and only if the timeout in force has passed since the last activity in
  either direction; the timeout is the idle timeout, and the smaller of the two once an end of
  either stream has been read; with no timeout configured it is never ended this way. The result
  is the number of bytes read from the agent and from the target.
\<close>

theorem tcp_relay_idle_exact:
  assumes "tcp_relay_run es (tcp_relay_start t0 (timeouts_new idle half)) = (tr, None)"
  shows "tcp_relay_run (es @ [TcpTimer now]) (tcp_relay_start t0 (timeouts_new idle half)) =
    (tr, case current_timeout (timeouts_new idle half) (eof_read es) of
           Some t \<Rightarrow>
             if last_activity t0 es + t \<le> now
             then Some (Ok (word_of_nat (length (concat (map agent_bytes es))),
                            word_of_nat (length (concat (map target_bytes es)))))
             else None
         | None \<Rightarrow> None) \<and>
    current_timeout (timeouts_new idle half) (eof_read es) =
      (if eof_read es \<and> half \<noteq> 0 \<and> (idle = 0 \<or> half < idle) then Some (unat half * 1000)
       else if idle = 0 then None else Some (unat idle * 1000))"
proof -
  have "relay_after t0 (timeouts_new idle half) es tr"
    using relay_after_run [OF assms relay_after_start] by simp
  then have "tcp_relay_run [TcpTimer now] tr =
    (tr, case current_timeout (timeouts_new idle half) (eof_read es) of
           Some t \<Rightarrow>
             if last_activity t0 es + t \<le> now
             then Some (Ok (word_of_nat (length (concat (map agent_bytes es))),
                            word_of_nat (length (concat (map target_bytes es)))))
             else None
         | None \<Rightarrow> None)"
    by (simp add: relay_after_def split: option.split)
  moreover have "current_timeout (timeouts_new idle half) (eof_read es) =
      (if eof_read es \<and> half \<noteq> 0 \<and> (idle = 0 \<or> half < idle) then Some (unat half * 1000)
       else if idle = 0 then None else Some (unat idle * 1000))"
    by (auto simp: current_timeout_def timeouts_new_def duration_from_secs_def from_secs_def word_less_nat_alt min_def)
  ultimately show ?thesis
    using tcp_relay_run_snoc [OF assms] by simp
qed

theorem tcp_relay_idle_exact_witness:
  "snd (tcp_relay_run [TcpAgentRead 5 (Ready (Ok [1, 2])), TcpAgentRead 9 (Ready (Ok [])), TcpTimer 30009]
      (tcp_relay_start 0 (timeouts_new 60 30))) = Some (Ok (2, 0))"
proof -
  let ?es = "[TcpAgentRead 5 (Ready (Ok [1, 2])), TcpAgentRead 9 (Ready (Ok []))]"
  have run: "tcp_relay_run ?es (tcp_relay_start 0 (timeouts_new 60 30)) =
      (fst (tcp_relay_run ?es (tcp_relay_start 0 (timeouts_new 60 30))), None)"
    by (simp add: copy_poll_read_def)
  have "last_activity 0 ?es = 9" "eof_read ?es"
    by (auto simp: last_activity_def List.map_filter_simps eof_read_def)
  then show ?thesis
    using tcp_relay_idle_exact [OF run, of 30009] by simp
qed

text \<open>
  The relay of a UDP target keeps datagrams: every packet the agent writes, up to the size of
  the relay's buffer, is read as one piece and sent as one datagram, in order; every datagram of the
  target is written to the agent as one packet, in order, except that empty ones are not passed on;
  this goes on until the first idle timeout, error or elapsed send, and then nothing more is relayed.
\<close>

theorem udp_relay_keeps_datagrams:
  assumes "\<forall>d\<in>set (taken ws). length d \<le> UDP_RELAY_BUFFER"
    and "client_poll_shutdown SinkAccepts flush (client_writes ws (client_stream_new stream_id)) = (s, r)"
    and "udp_relay_run idle es ur = (ur', ended)"
  shows "udp_agent_reads stream_id (map Inr (cl_sent s) @ later) = taken ws \<and>
    ur_to_target ur' = ur_to_target ur @ concat (map from_agent (takeWhile relayed es)) \<and>
    ur_to_agent ur' = ur_to_agent ur @ concat (map from_target (takeWhile relayed es)) \<and>
    (ended \<longleftrightarrow> takeWhile relayed es \<noteq> es)"
proof -
  have "cl_sent s = map (RequestData \<circ> data_of stream_id) (taken ws) @ [RequestData (end_of stream_id)]"
    using assms(2) client_writes_sent [of ws "client_stream_new stream_id"]
    by (auto simp: client_poll_shutdown_def client_stream_new_def end_of_def)
  then have "request_chunks stream_id (map Inr (cl_sent s) @ later) = map Inr (taken ws)"
    using request_chunks_data [of "taken ws" stream_id later] taken_nonempty by (simp add: comp_def)
  then have "udp_agent_reads stream_id (map Inr (cl_sent s) @ later) = concat (map (pieces UDP_RELAY_BUFFER) (taken ws))"
    by (simp add: udp_agent_reads_def comp_def)
  also have "map (pieces UDP_RELAY_BUFFER) (taken ws) = map (\<lambda>d. [d]) (taken ws)"
    using assms(1) taken_nonempty by (auto intro!: pieces_short)
  finally show ?thesis
    using udp_relay_run_relays [OF assms(3)] by (simp add: concat_map_singleton)
qed

theorem udp_relay_keeps_datagrams_witness:
  "udp_agent_reads [] (map Inr (cl_sent (client_writes [(SinkAccepts, [1]), (SinkAccepts, [2, 3])] (client_stream_new []))) @
       [Inr (RequestData (end_of []))]) = [[1], [2, 3]] \<and>
   ur_to_target (fst (udp_relay_run 60 [UdpFromAgent 1 (Ok [1]) TimedDone, UdpIdle, UdpFromAgent 3 (Ok [2, 3]) TimedDone]
     \<lparr>ur_deadline = 60, ur_to_target = [], ur_to_agent = []\<rparr>)) = [[1]]"
proof -
  let ?ws = "[(SinkAccepts, [1]), (SinkAccepts, [2, 3])]" and ?f = "Ready (Ok ()) :: (string + unit) poll"
  let ?es = "[UdpFromAgent 1 (Ok [1]) TimedDone, UdpIdle, UdpFromAgent 3 (Ok [2, 3]) TimedDone]"
  let ?ur = "\<lparr>ur_deadline = 60, ur_to_target = [], ur_to_agent = []\<rparr>"
  obtain s where s: "client_poll_shutdown SinkAccepts ?f (client_writes ?ws (client_stream_new [])) = (s, ?f)"
      "cl_sent s = cl_sent (client_writes ?ws (client_stream_new [])) @ [RequestData (end_of [])]"
    by (simp add: client_poll_shutdown_def client_poll_write_def client_stream_new_def end_of_def)
  obtain ur' where run: "udp_relay_run 60 ?es ?ur = (ur', True)"
    by simp
  show ?thesis
    using udp_relay_keeps_datagrams [OF _ s(1) run, of "[]"] s(2) run by (simp add: UDP_RELAY_BUFFER_def)
qed

end
