(* ===== verification/Proxy_Connect.thy ===== *)
theory Proxy_Connect
  imports Proxy_Relay
begin

unbundle bit_operations_syntax

text \<open>
  What the proxy does with an inbound connection: telling multiplexed from direct connections and
  the loop of a multiplexed session (\<open>proxy/src/server.rs\<close>), the wait for the connect request after
  authentication (\<open>connection/auth.rs\<close>), and the dispatch of that request to a target, a shared UDP
  relay or the upstream proxy (\<open>connection/connect.rs\<close>, the configuration check of
  \<open>connection/upstream.rs\<close>). Dialling and relaying are the outside world: their outcomes are
  parameters, and the model records every dial.
\<close>

section \<open>Texts of errors\<close>

fun protocol_error_text :: "ProtocolError \<Rightarrow> string" where
  "protocol_error_text (PIo e) = ''IO error: '' @ e"
| "protocol_error_text (PSerialization e) = ''Serialization error: '' @ e"
| "protocol_error_text (PEncryption e) = ''Encryption error: '' @ e"
| "protocol_error_text (PDecryption e) = ''Decryption error: '' @ e"
| "protocol_error_text (PInvalidMessage e) = ''Invalid message format: '' @ e"
| "protocol_error_text (PAuthenticationFailed e) = ''Authentication failed: '' @ e"
| "protocol_error_text (PInvalidKey e) = ''Invalid key: '' @ e"
| "protocol_error_text PVersionMismatch = ''Protocol version mismatch''"
| "protocol_error_text (PMessageTooLarge n) = ''Message too large: '' @ nat_to_string n @ '' bytes''"

fun proxy_error_text :: "ProxyError \<Rightarrow> string" where
  "proxy_error_text (ErrIo e) = ''IO error: '' @ e"
| "proxy_error_text (ErrProtocol e) = ''Protocol error: '' @ protocol_error_text e"
| "proxy_error_text (ErrConnection e) = ''Connection error: '' @ e"
| "proxy_error_text (ErrAuthentication e) = ''Authentication error: '' @ e"
| "proxy_error_text (ErrUserNotFound e) = ''User not found: '' @ e"
| "proxy_error_text (ErrConfiguration e) = ''Configuration error: '' @ e"

section \<open>The first bytes of a connection\<close>

text \<open>
  The outcomes of the peeks of a new connection, with the bytes that have arrived: the end of the
  list is a connection on which nothing more has happened.
\<close>

datatype peek_event = Peeked bytes | PeekWouldBlock | PeekError string | PeekElapsed

fun peek_connection_header :: "peek_event list \<Rightarrow> (string + bytes option) option" where
  "peek_connection_header [] = None"
| "peek_connection_header (Peeked bs # es) =
     (if bs = [] then Some (Ok None)
      else if length bs \<ge> 4 then Some (Ok (Some (take 4 bs)))
      else peek_connection_header es)"
| "peek_connection_header (PeekWouldBlock # es) = peek_connection_header es"
| "peek_connection_header (PeekError e # es) = Some (Err e)"
| "peek_connection_header (PeekElapsed # es) = Some (Err ''first packet timed out'')"

definition looks_like_yamux_header :: "bytes \<Rightarrow> bool" where
  "looks_like_yamux_header header \<longleftrightarrow>
     (let version = header ! 0; frame_type = header ! 1; flags = u16_from_be (take 2 (drop 2 header))
      in version = 0 \<and> frame_type \<le> 3 \<and> (flags AND NOT 0x000f) = 0)"

datatype inbound_kind = ClosedConnection | DirectConnection | YamuxConnection

definition classify_connection :: "peek_event list \<Rightarrow> inbound_kind option" where
  "classify_connection es =
     map_option (\<lambda>r. case r of
         Inr (Some header) \<Rightarrow> if looks_like_yamux_header header then YamuxConnection else DirectConnection
       | Inr None \<Rightarrow> ClosedConnection
       | Inl _ \<Rightarrow> ClosedConnection) (peek_connection_header es)"

section \<open>A multiplexed session\<close>

definition yamux_session_idle_timeout :: "ProxyConfig \<Rightarrow> nat option" where
  "yamux_session_idle_timeout config =
     (if pc_yamux_session_idle_timeout_secs config = 0 then None
      else Some (from_secs (pc_yamux_session_idle_timeout_secs config)))"

text \<open>
  The loop of a session with its tasks, numbered as they are spawned; \<open>ym_running\<close> are those that
  have not ended, \<open>ym_tasks\<close> the handles the loop still holds.
\<close>

record yamux_session =
  ym_tasks :: "nat list"
  ym_running :: "nat list"
  ym_spawned :: nat
  ym_aborted :: "nat list"
  ym_idle_since :: nat

definition yamux_session_start :: "nat \<Rightarrow> yamux_session" where
  "yamux_session_start now =
     \<lparr>ym_tasks = [], ym_running = [], ym_spawned = 0, ym_aborted = [], ym_idle_since = now\<rparr>"

definition prune_finished_stream_tasks :: "yamux_session \<Rightarrow> yamux_session" where
  "prune_finished_stream_tasks ym = ym\<lparr>ym_tasks := filter (\<lambda>t. t \<in> set (ym_running ym)) (ym_tasks ym)\<rparr>"

text \<open>The head of the loop: finished tasks are dropped and the timers start.\<close>

definition loop_head :: "nat \<Rightarrow> yamux_session \<Rightarrow> yamux_session" where
  "loop_head now ym = (prune_finished_stream_tasks ym)\<lparr>ym_idle_since := now\<rparr>"

datatype yamux_event =
    YamuxStream nat
  | YamuxEnded
  | YamuxFailed string
  | YamuxIdleTimer nat
  | YamuxPruneTimer nat
  | YamuxTaskEnds nat

definition spawn_substream :: "nat \<Rightarrow> yamux_session \<Rightarrow> yamux_session" where
  "spawn_substream now ym =
     loop_head now (ym\<lparr>ym_tasks := ym_tasks (prune_finished_stream_tasks ym) @ [ym_spawned ym],
        ym_running := ym_running ym @ [ym_spawned ym], ym_spawned := Suc (ym_spawned ym)\<rparr>)"

fun yamux_step :: "nat option \<Rightarrow> yamux_event \<Rightarrow> yamux_session \<Rightarrow> yamux_session \<times> unit loop_outcome" where
  "yamux_step idle_timeout (YamuxStream now) ym = (spawn_substream now ym, Continue)"
| "yamux_step idle_timeout YamuxEnded ym = (ym, Break)"
| "yamux_step idle_timeout (YamuxFailed e) ym = (ym, Break)"
| "yamux_step idle_timeout (YamuxIdleTimer now) ym =
     (case idle_timeout of
        Some timeout \<Rightarrow>
          if ym_tasks ym = [] \<and> ym_idle_since ym + timeout \<le> now then (ym, Break) else (ym, Continue)
      | None \<Rightarrow> (ym, Continue))"
| "yamux_step idle_timeout (YamuxPruneTimer now) ym =
     (if ym_tasks ym \<noteq> [] then (loop_head now ym, Continue) else (ym, Continue))"
| "yamux_step idle_timeout (YamuxTaskEnds t) ym =
     (ym\<lparr>ym_running := removeAll t (ym_running ym)\<rparr>, Continue)"

definition abort_stream_tasks :: "yamux_session \<Rightarrow> yamux_session" where
  "abort_stream_tasks ym =
     ym\<lparr>ym_aborted := ym_aborted ym @ ym_tasks ym, ym_running := filter (\<lambda>t. t \<notin> set (ym_tasks ym)) (ym_running ym),
        ym_tasks := []\<rparr>"

fun yamux_loop :: "nat option \<Rightarrow> yamux_event list \<Rightarrow> yamux_session \<Rightarrow> yamux_session \<times> bool" where
  "yamux_loop idle_timeout [] ym = (ym, False)"
| "yamux_loop idle_timeout (e # es) ym =
     (case yamux_step idle_timeout e ym of
        (ym, Continue) \<Rightarrow> yamux_loop idle_timeout es ym
      | (ym, _) \<Rightarrow> (abort_stream_tasks ym, True))"

section \<open>Connect requests\<close>

datatype dial = DialTcp string | DialUdp string | DialUpstream Address TransportProtocol | OpenUdpRelay

datatype dial_outcome = Dialled | DialFailed string | DialElapsed

record connect_world =
  cw_dns :: "string proxy_result"
  cw_dial_tcp :: "string \<Rightarrow> dial_outcome"
  cw_dial_udp :: "string \<Rightarrow> string + unit"
  cw_upstream :: "Address \<Rightarrow> TransportProtocol \<Rightarrow> string + unit"
  cw_relay :: "string \<Rightarrow> unit proxy_result"
  cw_relay_udp :: "string \<Rightarrow> unit proxy_result"
  cw_bitcode :: "UdpRelayPacket bitcode"
  cw_now :: nat
  cw_relay_events :: "relay_event list"

text \<open>The dials of a call and its result, none while a shared relay is still running.\<close>

type_synonym connect_result = "ServerConnection \<times> dial list \<times> unit proxy_result option"

definition upstream_config_check :: "ProxyConfig \<Rightarrow> unit proxy_result" where
  "upstream_config_check config =
     (case pc_upstream_proxy_addrs config of
        None \<Rightarrow> Err (ErrConfiguration ''Upstream proxy addresses not configured or empty'')
      | Some addrs \<Rightarrow>
          if addrs = [] then Err (ErrConfiguration ''Upstream proxy addresses not configured or empty'')
          else if pc_upstream_username config = None then Err (ErrConfiguration ''Upstream username not configured'')
          else if pc_upstream_private_key_path config = None
            then Err (ErrConfiguration ''Upstream private key path not configured'')
          else Ok ())"

definition upstream_connect ::
  "connect_world \<Rightarrow> ProxyConfig \<Rightarrow> Address \<Rightarrow> TransportProtocol \<Rightarrow> dial list \<times> unit proxy_result" where
  "upstream_connect w config address transport =
     (case upstream_config_check config of
        Inl e \<Rightarrow> ([], Err e)
      | Inr _ \<Rightarrow> ([DialUpstream address transport], map_err ErrConnection (cw_upstream w address transport)))"

definition answer :: "dial list \<Rightarrow> unit conn_result \<Rightarrow> connect_result" where
  "answer dials r = (fst r, dials, Some (snd r))"

definition answer_then :: "dial list \<Rightarrow> unit conn_result \<Rightarrow> unit proxy_result \<Rightarrow> connect_result" where
  "answer_then dials r relay_result =
     (case snd r of Inl e \<Rightarrow> (fst r, dials, Some (Err e)) | Inr _ \<Rightarrow> (fst r, dials, Some relay_result))"

definition handle_upstream_connect :: "connect_world \<Rightarrow> ConnectRequest \<Rightarrow> ServerConnection \<Rightarrow> connect_result" where
  "handle_upstream_connect w request sc =
     (case upstream_connect w (sc_proxy_config sc) (cr_address request) (cr_transport request) of
        (dials, Inr _) \<Rightarrow>
          answer_then dials (send_connect_success sc (cr_request_id request) ''Connected through upstream'')
            (cw_relay w (cr_request_id request))
      | (dials, Inl e) \<Rightarrow>
          answer dials (send_connect_error sc (cr_request_id request) (''Upstream error: '' @ proxy_error_text e)))"

definition handle_tcp_connect ::
  "connect_world \<Rightarrow> ConnectRequest \<Rightarrow> string \<Rightarrow> ServerConnection \<Rightarrow> connect_result" where
  "handle_tcp_connect w request target_addr sc =
     (case cw_dial_tcp w target_addr of
        Dialled \<Rightarrow>
          answer_then [DialTcp target_addr] (send_connect_success sc (cr_request_id request) ''Connected'')
            (cw_relay w (cr_request_id request))
      | DialFailed e \<Rightarrow>
          answer [DialTcp target_addr]
            (send_connect_error sc (cr_request_id request) (''Failed to connect: '' @ e))
      | DialElapsed \<Rightarrow>
          answer [DialTcp target_addr]
            (send_connect_error sc (cr_request_id request)
              (''Connect timeout after '' @ nat_to_string (unat (pc_connect_timeout_secs (sc_proxy_config sc))) @ '' seconds'')))"

definition handle_udp_connect ::
  "connect_world \<Rightarrow> ConnectRequest \<Rightarrow> string \<Rightarrow> ServerConnection \<Rightarrow> connect_result" where
  "handle_udp_connect w request target_addr sc =
     (case cw_dial_udp w target_addr of
        Inr _ \<Rightarrow>
          answer_then [DialUdp target_addr] (send_connect_success sc (cr_request_id request) ''Connected'')
            (cw_relay_udp w (cr_request_id request))
      | Inl e \<Rightarrow>
          answer [DialUdp target_addr]
            (send_connect_error sc (cr_request_id request) (''Failed to connect UDP: '' @ e)))"

definition handle_connect :: "connect_world \<Rightarrow> ConnectRequest \<Rightarrow> ServerConnection \<Rightarrow> connect_result" where
  "handle_connect w request sc =
     (if cr_address request = UdpRelay then
        if cr_transport request \<noteq> Udp then
          answer [] (send_connect_error sc (cr_request_id request) ''UDP relay only supports UDP transport'')
        else if pc_forward_mode (sc_proxy_config sc) then handle_upstream_connect w request sc
        else
          (case handle_udp_relay_connect (cw_bitcode w) (cw_now w) (cw_relay_events w) request sc of
             (sc, r) \<Rightarrow> (sc, [OpenUdpRelay], r))
      else if pc_forward_mode (sc_proxy_config sc) then handle_upstream_connect w request sc
      else case target_addr_for_address (cw_dns w) (sc_proxy_config sc) (cr_address request) of
        Inl e \<Rightarrow> (sc, [], Some (Err e))
      | Inr target_addr \<Rightarrow>
          (case cr_transport request of
             Tcp \<Rightarrow> handle_tcp_connect w request target_addr sc
           | Udp \<Rightarrow> handle_udp_connect w request target_addr sc))"

text \<open>The wait for the connect request; each read has its own timeout.\<close>

fun connect_request_loop :: "connect_world \<Rightarrow> read_event list \<Rightarrow> ServerConnection \<Rightarrow> connect_result" where
  "connect_request_loop w [] sc = (sc\<lparr>sc_incoming := []\<rparr>, [], Some (Ok ()))"
| "connect_request_loop w (ReadElapsed # es) sc = (sc\<lparr>sc_incoming := es\<rparr>, [], Some (Ok ()))"
| "connect_request_loop w (ReadFailed e # es) sc = (sc\<lparr>sc_incoming := es\<rparr>, [], Some (Err (ErrProtocol (PIo e))))"
| "connect_request_loop w (ReadItem (RequestConnect request) # es) sc = handle_connect w request (sc\<lparr>sc_incoming := es\<rparr>)"
| "connect_request_loop w (ReadItem _ # es) sc = connect_request_loop w es sc"

definition handle_connect_request :: "connect_world \<Rightarrow> ServerConnection \<Rightarrow> connect_result" where
  "handle_connect_request w sc = connect_request_loop w (sc_incoming sc) sc"

definition handle_protocol_stream ::
  "auth_env \<Rightarrow> connect_world \<Rightarrow> i64 \<Rightarrow> u64 \<Rightarrow> UserManager \<Rightarrow> ServerConnection \<Rightarrow> connect_result" where
  "handle_protocol_stream env w now counter users sc =
     (case authentication_phase env now counter users sc of
        (sc, Some (Inr username)) \<Rightarrow> handle_connect_request w sc
      | (sc, Some (Inl e)) \<Rightarrow> (sc, [], Some (Err e))
      | (sc, None) \<Rightarrow> (sc, [], Some (Ok ())))"

section \<open>Facts\<close>

text \<open>The dial a request leads to, if any, and whether it succeeds.\<close>

definition dial_for :: "connect_world \<Rightarrow> ProxyConfig \<Rightarrow> ConnectRequest \<Rightarrow> dial option" where
  "dial_for w config request =
     (if cr_address request = UdpRelay \<and> cr_transport request \<noteq> Udp then None
      else if pc_forward_mode config then
        (if upstream_config_check config = Ok () then Some (DialUpstream (cr_address request) (cr_transport request)) else None)
      else if cr_address request = UdpRelay then Some OpenUdpRelay
      else case target_addr_for_address (cw_dns w) config (cr_address request) of
        Inl e \<Rightarrow> None
      | Inr addr \<Rightarrow> Some (case cr_transport request of Tcp \<Rightarrow> DialTcp addr | Udp \<Rightarrow> DialUdp addr))"

fun dial_ok :: "connect_world \<Rightarrow> dial \<Rightarrow> bool" where
  "dial_ok w (DialTcp addr) \<longleftrightarrow> cw_dial_tcp w addr = Dialled"
| "dial_ok w (DialUdp addr) \<longleftrightarrow> cw_dial_udp w addr = Ok ()"
| "dial_ok w (DialUpstream address transport) \<longleftrightarrow> cw_upstream w address transport = Ok ()"
| "dial_ok w OpenUdpRelay \<longleftrightarrow> True"

text \<open>A request for a target whose name cannot be turned into an address.\<close>

definition unresolved :: "connect_world \<Rightarrow> ProxyConfig \<Rightarrow> ConnectRequest \<Rightarrow> bool" where
  "unresolved w config request \<longleftrightarrow>
     \<not> pc_forward_mode config \<and> cr_address request \<noteq> UdpRelay \<and>
     \<not> is_ok (target_addr_for_address (cw_dns w) config (cr_address request))"

lemma handle_upstream_dials:
  "fst (snd (handle_upstream_connect w request sc)) =
     (if upstream_config_check (sc_proxy_config sc) = Ok () then [DialUpstream (cr_address request) (cr_transport request)] else [])"
  by (cases "upstream_config_check (sc_proxy_config sc)")
    (auto simp: handle_upstream_connect_def upstream_connect_def answer_def answer_then_def split: sum.splits)

lemma handle_connect_dials:
  "fst (snd (handle_connect w request sc)) =
     (case dial_for w (sc_proxy_config sc) request of None \<Rightarrow> [] | Some d \<Rightarrow> [d])"
  by (auto simp: handle_connect_def dial_for_def handle_upstream_dials answer_def answer_then_def handle_tcp_connect_def
      handle_udp_connect_def case_prod_beta
      split: sum.splits TransportProtocol.splits dial_outcome.splits)

text \<open>What the connect loop skips.\<close>

fun before_connect :: "read_event \<Rightarrow> bool" where
  "before_connect (ReadItem (RequestConnect request)) \<longleftrightarrow> False"
| "before_connect (ReadItem _) \<longleftrightarrow> True"
| "before_connect _ \<longleftrightarrow> False"

lemma connect_loop_dials:
  assumes "fst (snd (connect_request_loop w es sc)) \<noteq> []"
  shows "\<exists>es1 request es2. es = es1 @ ReadItem (RequestConnect request) # es2 \<and> list_all before_connect es1 \<and>
    connect_request_loop w es sc = handle_connect w request (sc\<lparr>sc_incoming := es2\<rparr>)"
  using assms
proof (induction es)
  case (Cons e es)
  show ?case
  proof (cases "before_connect e")
    case True
    then have skip: "connect_request_loop w (e # es) sc = connect_request_loop w es sc"
      by (cases e rule: before_connect.cases) simp_all
    with Cons obtain es1 request es2 where "es = es1 @ ReadItem (RequestConnect request) # es2"
        "list_all before_connect es1"
        "connect_request_loop w es sc = handle_connect w request (sc\<lparr>sc_incoming := es2\<rparr>)"
      by auto
    with True skip show ?thesis
      by (intro exI [of _ "e # es1"]) simp
  next
    case False
    with Cons.prems show ?thesis
      by (cases e rule: before_connect.cases) (auto intro!: exI [of _ "[]"])
  qed
qed simp

lemma try_st_config:
  assumes "sc_proxy_config (fst r) = c" and "\<And>sc x. sc_proxy_config sc = c \<Longrightarrow> sc_proxy_config (fst (k sc x)) = c"
  shows "sc_proxy_config (fst (try_st r k)) = c"
  using assms by (cases r; cases "snd r") auto

lemma send_response_config [simp]: "sc_proxy_config (fst (send_response sc m)) = sc_proxy_config sc"
  by (simp add: send_response_def split: list.splits option.splits)

lemma authenticate_config [simp]:
  "sc_proxy_config (fst (authenticate env now counter config user sc)) = sc_proxy_config sc"
  by (auto simp: authenticate_def reject_auth_def send_auth_error_def Let_def
      split: option.splits sum.splits bool.splits intro!: try_st_config)

lemma authentication_phase_config:
  "sc_proxy_config (fst (authentication_phase env now counter users sc)) = sc_proxy_config sc"
  by (auto simp: authentication_phase_first send_auth_error_def Let_def
      split: list.splits read_event.splits ProxyRequest.splits option.splits intro!: try_st_config)

text \<open>The session's bookkeeping: every running task is held.\<close>

definition yamux_inv :: "yamux_session \<Rightarrow> bool" where
  "yamux_inv ym \<longleftrightarrow> set (ym_running ym) \<subseteq> set (ym_tasks ym)"

lemma yamux_step_inv: "yamux_inv ym \<Longrightarrow> yamux_inv (fst (yamux_step idle e ym))"
  by (cases e)
    (auto simp: yamux_inv_def spawn_substream_def loop_head_def prune_finished_stream_tasks_def split: option.splits)

lemma yamux_loop_ended:
  "yamux_loop idle es ym = (ym', True) \<Longrightarrow> yamux_inv ym \<Longrightarrow>
   ym_running ym' = [] \<and>
   (\<exists>es1 e es2 ym1. es = es1 @ e # es2 \<and> yamux_loop idle es1 ym = (ym1, False) \<and> snd (yamux_step idle e ym1) \<noteq> Continue \<and>
      yamux_inv ym1)"
proof (induction es arbitrary: ym)
  case (Cons e es)
  obtain ym1 r where step: "yamux_step idle e ym = (ym1, r)" by fastforce
  have inv: "yamux_inv ym1"
    using yamux_step_inv [OF Cons.prems(2), of idle e] step by simp
  show ?case
  proof (cases "r = Continue")
    case True
    then obtain es1 e' es2 ym2 where ih: "ym_running ym' = []" "es = es1 @ e' # es2"
        "yamux_loop idle es1 ym1 = (ym2, False)" "snd (yamux_step idle e' ym2) \<noteq> Continue" "yamux_inv ym2"
      using Cons.IH [of ym1] Cons.prems step inv by auto
    moreover have "yamux_loop idle (e # es1) ym = (ym2, False)"
      using step True ih(3) by simp
    ultimately show ?thesis
      by (intro conjI exI [of _ "e # es1"] exI [of _ e'] exI [of _ es2] exI [of _ ym2]) simp_all
  next
    case False
    then have "ym' = abort_stream_tasks ym1"
      using Cons.prems step by (cases r) auto
    then have "ym_running ym' = []"
      using inv by (auto simp: abort_stream_tasks_def yamux_inv_def filter_empty_conv)
    moreover have "yamux_loop idle [] ym = (ym, False)" "snd (yamux_step idle e ym) \<noteq> Continue"
      using step False by simp_all
    ultimately show ?thesis
      using Cons.prems(2) by blast
  qed
qed simp

lemma high_bits_clear: "(w AND NOT 0x000f) = 0 \<longleftrightarrow> unat (w :: u16) < 16"
proof -
  have "(w AND NOT (mask 4)) = 0 \<longleftrightarrow> take_bit 4 w = w"
    by (auto simp: bit_eq_iff bit_simps)
  moreover have "take_bit 4 w = w \<longleftrightarrow> unat w < 2 ^ 4"
    by (metis take_bit_nat_eq_self take_bit_nat_less_exp unsigned_take_bit_eq word_unat_eq_iff)
  moreover have "mask 4 = (0x000f :: u16)"
    by (simp add: mask_eq_exp_minus_1)
  ultimately show ?thesis
    by simp
qed

lemma nat_of_be_four:
  "nat_of_be [a, b, c, d] = ((unat a * 256 + unat b) * 256 + unat c) * 256 + unat d"
  "nat_of_be [c, d] = unat c * 256 + unat d"
  by (simp_all add: nat_of_be_def)

lemma yamux_header_iff:
  "looks_like_yamux_header [a, b, c, d] \<longleftrightarrow>
     nat_of_be [a, b, c, d] div 65536 \<le> 3 \<and> nat_of_be [a, b, c, d] mod 65536 < 16"
proof -
  have small: "unat c * 256 + unat d < 65536"
    using unat_u8_less [of c] unat_u8_less [of d] by linarith
  have word: "unat (word_of_nat k :: u16) = k" if "k < 65536" for k
    using that by (simp add: unat_of_nat)
  have dm: "(q * 65536 + k) div 65536 = q" "(q * 65536 + k) mod 65536 = k" if "k < 65536" for q k :: nat
    using that by simp_all
  have flags: "unat (u16_from_be [c, d]) = unat c * 256 + unat d"
    by (simp only: u16_from_be_def nat_of_be_four word [OF small])
  have be: "nat_of_be [a, b, c, d] = (unat a * 256 + unat b) * 65536 + (unat c * 256 + unat d)"
    by (simp add: nat_of_be_four)
  have "looks_like_yamux_header [a, b, c, d] \<longleftrightarrow> a = 0 \<and> b \<le> 3 \<and> unat c * 256 + unat d < 16"
    using high_bits_clear [of "u16_from_be [c, d]"] flags by (simp add: looks_like_yamux_header_def Let_def)
  moreover have "unat a * 256 + unat b \<le> 3 \<longleftrightarrow> unat a = 0 \<and> unat b \<le> 3"
    by presburger
  then have "a = 0 \<and> b \<le> 3 \<longleftrightarrow> unat a * 256 + unat b \<le> 3"
    by (simp add: word_le_nat_alt unat_eq_0)
  ultimately show ?thesis
    by (simp only: be dm [OF small]) blast
qed

text \<open>A world in which one target answers, for the witnesses.\<close>

definition example_world :: connect_world where
  "example_world = \<lparr>cw_dns = Err (ErrConfiguration ''none''), cw_dial_tcp = (\<lambda>_. Dialled), cw_dial_udp = (\<lambda>_. Ok ()),
     cw_upstream = (\<lambda>_ _. Ok ()), cw_relay = (\<lambda>_. Ok ()), cw_relay_udp = (\<lambda>_. Ok ()),
     cw_bitcode = \<lparr>bc_serialize = (\<lambda>_. Inl ''unused''), bc_deserialize = (\<lambda>_. Inl ''unused'')\<rparr>,
     cw_now = 0, cw_relay_events = []\<rparr>"

definition example_request :: ConnectRequest where
  "example_request = \<lparr>cr_request_id = ''r'', cr_address = Domain ''example.org'' 443, cr_transport = Tcp\<rparr>"

section \<open>Properties\<close>

text \<open>
  C5. Nothing is dialled for an agent that has not authenticated: if a connection leads to a dial,
  its first message was an authentication request that grants access, it was followed, after
  requests of other kinds only, by a connect request, and there is exactly one dial, the one that
  this request asks for under the proxy's configuration.
\<close>

theorem no_dial_without_authentication:
  assumes "handle_protocol_stream env w now counter users sc = (sc', dials, r)" and "dials \<noteq> []"
  shows "\<exists>req user key es1 request es2 d.
    sc_incoming sc = ReadItem (RequestAuth req) # es1 @ ReadItem (RequestConnect request) # es2 \<and>
    list_all before_connect es1 \<and>
    map_of (us_users (um_users users)) (ar_username req) = Some user \<and>
    auth_grants env now (sc_proxy_config sc) user req key \<and>
    dial_for w (sc_proxy_config sc) request = Some d \<and> dials = [d]"
proof -
  obtain sc1 name where phase: "authentication_phase env now counter users sc = (sc1, Some (Inr name))"
      and conn: "handle_connect_request w sc1 = (sc', dials, r)"
    using assms by (auto simp: handle_protocol_stream_def split: prod.splits option.splits sum.splits)
  obtain req es user key where g: "sc_incoming sc = ReadItem (RequestAuth req) # es" "ar_username req = name"
      "map_of (us_users (um_users users)) name = Some user" "auth_grants env now (sc_proxy_config sc) user req key"
      "\<forall>e rs. sc_send_results sc \<noteq> Some e # rs"
    using phase_granted_only [OF phase] by blast
  have "sc_incoming sc1 = es"
    using authentication_phase_granted [OF g(1) _ g(4,5), of users counter] g(2,3) phase by auto
  moreover have config: "sc_proxy_config sc1 = sc_proxy_config sc"
    using authentication_phase_config [of env now counter users sc] phase by simp
  ultimately obtain es1 request es2 where loop: "es = es1 @ ReadItem (RequestConnect request) # es2"
      "list_all before_connect es1" "(sc', dials, r) = handle_connect w request (sc1\<lparr>sc_incoming := es2\<rparr>)"
    using conn assms(2) connect_loop_dials [of w es sc1] by (auto simp: handle_connect_request_def)
  then have "dials = (case dial_for w (sc_proxy_config sc) request of None \<Rightarrow> [] | Some d \<Rightarrow> [d])"
    using handle_connect_dials [of w request "sc1\<lparr>sc_incoming := es2\<rparr>"] config by (simp flip: loop(3))
  then show ?thesis
    using g loop assms(2) by (auto split: option.splits)
qed

theorem no_dial_without_authentication_witness:
  "\<exists>c key. let req = \<lparr>ar_username = ''alice'', ar_timestamp = 100, ar_encrypted_aes_key = c\<rparr>;
      sc = server_connection_new [ReadItem (RequestAuth req), ReadItem (RequestConnect example_request)] [] CompressNone
        (proxy_config_default ''addr'')
    in fst (snd (handle_protocol_stream plain_auth_env example_world 100 0 alice_only sc)) = [DialTcp ''example.org:443''] \<and>
       auth_grants plain_auth_env 100 (proxy_config_default ''addr'') alice req key"
proof -
  obtain c where c: "decrypt_with_public_key plain_biguint (rsa_pub small_key) c = Inr (replicate 32 7)"
    using alice_request by blast
  let ?req = "\<lparr>ar_username = ''alice'', ar_timestamp = 100, ar_encrypted_aes_key = c\<rparr>"
  let ?sc = "server_connection_new [ReadItem (RequestAuth ?req), ReadItem (RequestConnect example_request)] [] CompressNone
        (proxy_config_default ''addr'')"
  have "auth_grants plain_auth_env 100 (proxy_config_default ''addr'') alice ?req (replicate 32 7)"
    using alice_recovers [OF c, of ?req] alice_not_expired
    by (simp add: auth_grants_def alice_def i64_gt_def i64_wrapping_abs_def proxy_config_default_def)
  then obtain sc1 where sc1: "authentication_phase plain_auth_env 100 0 alice_only ?sc = (sc1, Some (Inr ''alice''))"
      "sc_incoming sc1 = [ReadItem (RequestConnect example_request)]"
    using authentication_phase_granted [of ?sc ?req "[ReadItem (RequestConnect example_request)]" alice_only alice plain_auth_env 100
        "replicate 32 7" 0] by (auto simp: server_connection_new_def alice_only_def)
  have config: "sc_proxy_config sc1 = proxy_config_default ''addr''"
    using authentication_phase_config [of plain_auth_env 100 0 alice_only ?sc] sc1(1) by (simp add: server_connection_new_def)
  have dial: "dial_for example_world (proxy_config_default ''addr'') example_request = Some (DialTcp ''example.org:443'')"
    by (simp add: dial_for_def example_world_def example_request_def proxy_config_default_def show_port_def show_u16_def nat_to_string.simps chr_def) code_simp
  have "fst (snd (handle_protocol_stream plain_auth_env example_world 100 0 alice_only ?sc)) = [DialTcp ''example.org:443'']"
    using handle_connect_dials [of example_world example_request "sc1\<lparr>sc_incoming := []\<rparr>"] dial
    by (simp add: handle_protocol_stream_def handle_connect_request_def sc1 config)
  then obtain sc' r where run: "handle_protocol_stream plain_auth_env example_world 100 0 alice_only ?sc =
      (sc', [DialTcp ''example.org:443''], r)"
    by (metis prod.collapse)
  have sel: "sc_incoming ?sc = [ReadItem (RequestAuth ?req), ReadItem (RequestConnect example_request)]"
      "sc_proxy_config ?sc = proxy_config_default ''addr''"
    by (simp_all add: server_connection_new_def)
  obtain key where "auth_grants plain_auth_env 100 (proxy_config_default ''addr'') alice ?req key"
    using no_dial_without_authentication [OF run] unfolding sel by (auto simp: alice_only_def)
  then show ?thesis
    using run by (intro exI [of _ c] exI [of _ key]) simp
qed

text \<open>
  Every connect request is answered once, and the answer is right: when the response can be
  written, the one response sent before any relaying says success exactly when the dial succeeded.
  The exception is a request whose target cannot be turned into an address, such as a DNS request
  on a proxy without a usable DNS server: the connection ends with the error and no response.
\<close>

theorem connect_answered:
  assumes "handle_connect w request sc = (sc', dials, r)" and "dial_for w (sc_proxy_config sc) request \<noteq> Some OpenUdpRelay"
    and "\<forall>e rs. sc_send_results sc \<noteq> Some e # rs"
  shows "if unresolved w (sc_proxy_config sc) request then sc' = sc \<and> dials = [] \<and> (\<exists>e. r = Some (Err e))
    else (\<exists>text. sc_sent sc' = sc_sent sc @ [(ResponseConnect \<lparr>cs_request_id = cr_request_id request,
        cs_success = (\<exists>d. dials = [d] \<and> dial_ok w d), cs_message = text\<rparr>, st_cipher (sc_cipher_state sc))])"
proof -
  have sent: "send_response sc m = (sc\<lparr>sc_send_results := drop 1 (sc_send_results sc),
      sc_sent := sc_sent sc @ [(m, st_cipher (sc_cipher_state sc))]\<rparr>, Inr ())" for m
    using assms(3) by (cases rule: send_response_cases [where m = m and sc = sc]) auto
  have up: "handle_upstream_connect w request sc = (sc', dials, r) \<Longrightarrow>
      \<exists>text. sc_sent sc' = sc_sent sc @ [(ResponseConnect \<lparr>cs_request_id = cr_request_id request,
        cs_success = (\<exists>d. dials = [d] \<and> dial_ok w d), cs_message = text\<rparr>, st_cipher (sc_cipher_state sc))]"
    by (cases "upstream_config_check (sc_proxy_config sc)"; cases "cw_upstream w (cr_address request) (cr_transport request)")
      (auto simp: handle_upstream_connect_def upstream_connect_def answer_def answer_then_def
        send_connect_success_def send_connect_error_def sent)
  consider (relay) "cr_address request = UdpRelay" "cr_transport request \<noteq> Udp"
    | (forward) "\<not> (cr_address request = UdpRelay \<and> cr_transport request \<noteq> Udp)" "pc_forward_mode (sc_proxy_config sc)"
    | (direct) "\<not> pc_forward_mode (sc_proxy_config sc)" "cr_address request \<noteq> UdpRelay"
    using assms(2) unfolding dial_for_def by (cases "pc_forward_mode (sc_proxy_config sc)") (simp, metis)+
  then show ?thesis
  proof cases
    case relay
    then show ?thesis
      using assms(1) by (auto simp: handle_connect_def unresolved_def answer_def send_connect_error_def sent)
  next
    case forward
    then have "handle_connect w request sc = handle_upstream_connect w request sc"
      by (auto simp: handle_connect_def)
    then show ?thesis
      using up assms(1) forward by (simp add: unresolved_def)
  next
    case direct
    then show ?thesis
      using assms(1)
      by (cases "target_addr_for_address (cw_dns w) (sc_proxy_config sc) (cr_address request)")
        (auto simp: handle_connect_def unresolved_def answer_def answer_then_def handle_tcp_connect_def
          handle_udp_connect_def send_connect_success_def send_connect_error_def sent
          split: TransportProtocol.splits dial_outcome.splits sum.splits)
  qed
qed

theorem connect_answered_witness:
  "\<exists>sc' r. handle_connect example_world \<lparr>cr_request_id = ''r'', cr_address = ProxyDns 53, cr_transport = Udp\<rparr>
      (server_connection_new [] [] CompressNone (proxy_config_default ''addr'')) = (sc', [], r) \<and> sc_sent sc' = []"
proof -
  let ?request = "\<lparr>cr_request_id = ''r'', cr_address = ProxyDns 53, cr_transport = Udp\<rparr>"
  let ?sc = "server_connection_new [] [] CompressNone (proxy_config_default ''addr'')"
  have un: "unresolved example_world (sc_proxy_config ?sc) ?request"
    by (simp add: unresolved_def example_world_def server_connection_new_def proxy_config_default_def proxy_dns_target_addr_def)
  obtain sc' dials r where run: "handle_connect example_world ?request ?sc = (sc', dials, r)"
    by (cases "handle_connect example_world ?request ?sc")
  have "dial_for example_world (sc_proxy_config ?sc) ?request \<noteq> Some OpenUdpRelay"
    by (simp add: dial_for_def server_connection_new_def split: sum.splits)
  from connect_answered [OF run this] un run show ?thesis
    by (simp add: server_connection_new_def)
qed

text \<open>
  A direct connection is told from a multiplexed one by the length of its first frame: the
  four bytes of the length are taken for a multiplexer header exactly when the frame is at most
  15 bytes longer than a multiple of 64 KiB below 256 KiB. So a first frame of 16 bytes up to
  64 KiB is always served as a direct connection.
\<close>

theorem direct_frames_recognised:
  assumes "length bs \<ge> 4"
  shows "classify_connection [Peeked bs] =
    Some (if nat_of_be (take 4 bs) div 65536 \<le> 3 \<and> nat_of_be (take 4 bs) mod 65536 < 16
          then YamuxConnection else DirectConnection)"
proof -
  obtain a b c d rest where "bs = a # b # c # d # rest"
    using assms by (auto simp: Suc_le_length_iff eval_nat_numeral)
  moreover from this have "take 4 bs = [a, b, c, d]"
    by (simp add: numeral_eq_Suc)
  ultimately show ?thesis
    by (simp add: classify_connection_def yamux_header_iff)
qed

theorem direct_frames_recognised_witness:
  "classify_connection [Peeked [0, 0, 1, 44, 9]] = Some DirectConnection"
  using direct_frames_recognised [of "[0, 0, 1, 44, 9]"] by (simp add: nat_of_be_four)

text \<open>
  A multiplexed session leaves no task behind and is never cut off for idleness while one of
  its streams is being served: when the loop has ended, every task that was still running has
  been aborted; and if the idle timer ended it, no task was running, and the configured time had
  passed.
\<close>

theorem yamux_session_ends_clean:
  assumes "yamux_loop idle es (yamux_session_start t0) = (ym, True)"
  shows "ym_running ym = [] \<and>
    (\<exists>es1 e es2 ym1. es = es1 @ e # es2 \<and> yamux_loop idle es1 (yamux_session_start t0) = (ym1, False) \<and>
      (e = YamuxEnded \<or> (\<exists>t. e = YamuxFailed t) \<or>
       (\<exists>now timeout. e = YamuxIdleTimer now \<and> idle = Some timeout \<and> ym_running ym1 = [] \<and>
          ym_idle_since ym1 + timeout \<le> now)))"
proof -
  have "yamux_inv (yamux_session_start t0)"
    by (simp add: yamux_inv_def yamux_session_start_def)
  from yamux_loop_ended [OF assms this] obtain es1 e es2 ym1 where *: "ym_running ym = []" "es = es1 @ e # es2"
      "yamux_loop idle es1 (yamux_session_start t0) = (ym1, False)" "snd (yamux_step idle e ym1) \<noteq> Continue" "yamux_inv ym1"
    by blast
  have "e = YamuxEnded \<or> (\<exists>t. e = YamuxFailed t) \<or>
       (\<exists>now timeout. e = YamuxIdleTimer now \<and> idle = Some timeout \<and> ym_running ym1 = [] \<and>
          ym_idle_since ym1 + timeout \<le> now)"
  proof (cases e)
    case (YamuxIdleTimer now)
    then show ?thesis
      using *(4,5) by (auto simp: yamux_inv_def split: option.splits if_splits)
  qed (use *(4) in \<open>simp_all split: if_splits\<close>)
  with *(1-3) show ?thesis
    by blast
qed

theorem yamux_session_ends_clean_witness:
  "ym_running (fst (yamux_loop (Some 300) [YamuxStream 1, YamuxIdleTimer 400, YamuxEnded] (yamux_session_start 0))) = []"
proof -
  obtain ym where "yamux_loop (Some 300) [YamuxStream 1, YamuxIdleTimer 400, YamuxEnded] (yamux_session_start 0) = (ym, True)"
    by (simp add: yamux_session_start_def spawn_substream_def loop_head_def prune_finished_stream_tasks_def)
  from yamux_session_ends_clean [OF this] this show ?thesis
    by (simp del: yamux_loop.simps)
qed

end
