(* ===== verification/Session_Manager.thy ===== *)
theory Session_Manager
  imports Config "HOL-Library.Multiset"
begin

text \<open>
  How the agents reach a target through the proxy: the multiplexed connection
  (\<open>common/src/client_connection/yamux.rs\<close>) and the session manager of the desktop agent
  (\<open>desktop-agent-be/src/yamux_session/\<close>), whose code the manager of the Android agent
  (\<open>android-agent/native/src/yamux_session.rs\<close>) repeats. The manager is shared by all tasks: a pool
  of multiplexed sessions under one lock, native UDP sessions each in a slot with its own lock.
  What other tasks do to it is a script, of which a part runs before each of a call's critical
  sections. The outcomes of the network are scripts too: a call that has used up its script is
  still waiting. Counters of session ids are unbounded here; in the code they are \<open>usize\<close>.
\<close>

section \<open>Texts of errors\<close>

text \<open>Texts that are not ASCII are given by their UTF-8 bytes.\<close>

definition utf8 :: "nat list \<Rightarrow> string" where
  "utf8 bs = map chr bs"

definition YAMUX_OPEN_STREAM_TIMEOUT_MESSAGE :: string where
  "YAMUX_OPEN_STREAM_TIMEOUT_MESSAGE = ''Yamux open stream timeout''"
definition YAMUX_TARGET_CONNECT_RESPONSE_TIMEOUT_MESSAGE :: string where
  "YAMUX_TARGET_CONNECT_RESPONSE_TIMEOUT_MESSAGE = ''Yamux target connect response timeout''"
definition YAMUX_SESSION_STREAM_CAPACITY_EXHAUSTED_MESSAGE :: string where
  "YAMUX_SESSION_STREAM_CAPACITY_EXHAUSTED_MESSAGE = ''Yamux session stream capacity exhausted''"
definition SESSION_CLOSED_MESSAGE :: string where
  "SESSION_CLOSED_MESSAGE = ''Yamux session has been closed''"

definition CONNECT_FAILED :: string where
  "CONNECT_FAILED = utf8 [232, 191, 158, 230, 142, 165, 229, 164, 177, 232, 180, 165, 58]"
definition TARGET_RESPONSE_TIMEOUT :: string where
  "TARGET_RESPONSE_TIMEOUT =
     utf8 [232, 191, 158, 230, 142, 165, 231, 155, 174, 230, 160, 135, 229, 147, 141, 229, 186, 148, 232,
           182, 133, 230, 151, 182]"
definition UDP_AUTH_TIMEOUT :: string where
  "UDP_AUTH_TIMEOUT =
     utf8 [229, 142, 159, 231, 148, 159, 32, 85, 68, 80, 32, 232, 174, 164, 232, 175, 129, 229, 147, 141,
           229, 186, 148, 232, 182, 133, 230, 151, 182]"
definition UDP_CONNECT_TIMEOUT :: string where
  "UDP_CONNECT_TIMEOUT =
     utf8 [232, 191, 158, 230, 142, 165, 229, 142, 159, 231, 148, 159, 32, 85, 68, 80, 32, 112, 114, 111,
           120, 121, 32, 232, 182, 133, 230, 151, 182]"

definition starts_with :: "string \<Rightarrow> string \<Rightarrow> bool" where
  "starts_with s p \<longleftrightarrow> take (length p) s = p"

definition is_yamux_target_connect_error :: "string \<Rightarrow> bool" where
  "is_yamux_target_connect_error message \<longleftrightarrow>
     starts_with message CONNECT_FAILED \<or> message = YAMUX_TARGET_CONNECT_RESPONSE_TIMEOUT_MESSAGE \<or>
     message = TARGET_RESPONSE_TIMEOUT"

definition is_yamux_session_capacity_error :: "string \<Rightarrow> bool" where
  "is_yamux_session_capacity_error message \<longleftrightarrow> message = YAMUX_SESSION_STREAM_CAPACITY_EXHAUSTED_MESSAGE"

text \<open>The errors of the manager; of an I/O error the code asks only whether its kind is a timeout.\<close>

datatype agent_error = AgentIo bool string | AgentConnection string

fun is_native_udp_timeout :: "agent_error \<Rightarrow> bool" where
  "is_native_udp_timeout (AgentIo timed_out e) = timed_out"
| "is_native_udp_timeout (AgentConnection message) \<longleftrightarrow>
     contains_str message UDP_AUTH_TIMEOUT \<or> contains_str message UDP_CONNECT_TIMEOUT"

section \<open>A multiplexed connection\<close>

definition MAX_CONCURRENT_OPEN_STREAMS_PER_SESSION :: nat where
  "MAX_CONCURRENT_OPEN_STREAMS_PER_SESSION = 16"

record YamuxClientConnection =
  yk_closed :: bool
  yk_stream_permits :: nat
  yk_open_permits :: nat
  yk_transport :: TransportProtocol

definition clamp :: "nat \<Rightarrow> nat \<Rightarrow> nat \<Rightarrow> nat" where
  "clamp x low high = min (max x low) high"

definition connect_for :: "TransportProtocol \<Rightarrow> YamuxSettings \<Rightarrow> YamuxClientConnection" where
  "connect_for transport settings =
     \<lparr>yk_closed = False, yk_stream_permits = yx_max_streams_per_session settings,
      yk_open_permits = clamp (yx_max_streams_per_session settings) 1 MAX_CONCURRENT_OPEN_STREAMS_PER_SESSION,
      yk_transport = transport\<rparr>"

definition has_immediate_stream_capacity :: "YamuxClientConnection \<Rightarrow> bool" where
  "has_immediate_stream_capacity c \<longleftrightarrow> \<not> yk_closed c \<and> yk_stream_permits c > 0 \<and> yk_open_permits c > 0"

definition validate_target :: "Address \<Rightarrow> TransportProtocol \<Rightarrow> YamuxClientConnection \<Rightarrow> string + unit" where
  "validate_target address transport c =
     (if yk_closed c then Err SESSION_CLOSED_MESSAGE
      else if transport \<noteq> yk_transport c then Err ''Yamux client connection transport mismatch''
      else if yk_transport c = Tcp \<and> address = UdpRelay
        then Err ''Yamux substream target is not valid for this session''
      else Ok ())"

definition take_stream :: "YamuxClientConnection \<Rightarrow> YamuxClientConnection" where
  "take_stream c = c\<lparr>yk_stream_permits := yk_stream_permits c - 1\<rparr>"
definition take_open :: "YamuxClientConnection \<Rightarrow> YamuxClientConnection" where
  "take_open c = c\<lparr>yk_open_permits := yk_open_permits c - 1\<rparr>"
definition release_stream :: "YamuxClientConnection \<Rightarrow> YamuxClientConnection" where
  "release_stream c = c\<lparr>yk_stream_permits := yk_stream_permits c + 1\<rparr>"
definition release_open :: "YamuxClientConnection \<Rightarrow> YamuxClientConnection" where
  "release_open c = c\<lparr>yk_open_permits := yk_open_permits c + 1\<rparr>"
definition close_connection :: "YamuxClientConnection \<Rightarrow> YamuxClientConnection" where
  "close_connection c = c\<lparr>yk_closed := True\<rparr>"

text \<open>\<open>try_connect_to_target\<close> up to the point where it holds both permits.\<close>

definition try_acquire :: "Address \<Rightarrow> TransportProtocol \<Rightarrow> YamuxClientConnection \<Rightarrow> string + YamuxClientConnection" where
  "try_acquire address transport c =
     (case validate_target address transport c of
        Inl e \<Rightarrow> Err e
      | Inr _ \<Rightarrow>
          if yk_stream_permits c = 0 then Err YAMUX_SESSION_STREAM_CAPACITY_EXHAUSTED_MESSAGE
          else if yk_open_permits c = 0 then Err YAMUX_SESSION_STREAM_CAPACITY_EXHAUSTED_MESSAGE
          else Ok (take_open (take_stream c)))"

text \<open>
  What opening a substream and the handshake on it come to: \<open>SubstreamElapsed\<close> is the timeout of
  the handshake, \<open>SubstreamFailed\<close> carries the text of its error.
\<close>

datatype substream =
    SubstreamConnected
  | SubstreamOpenTimeout
  | SubstreamOpenFailed string
  | SubstreamElapsed
  | SubstreamFailed string

text \<open>
  \<open>connect_to_target_with_permits\<close> with both permits held: the open permit goes back when the
  substream is open or on an error, the stream permit on an error.
\<close>

definition connect_to_target_with_permits ::
  "substream \<Rightarrow> YamuxClientConnection \<Rightarrow> YamuxClientConnection \<times> (string + unit)" where
  "connect_to_target_with_permits outcome c =
     (let failed = release_stream (release_open c) in
      if yk_closed c then (failed, Err SESSION_CLOSED_MESSAGE)
      else case outcome of
        SubstreamOpenTimeout \<Rightarrow> (close_connection failed, Err YAMUX_OPEN_STREAM_TIMEOUT_MESSAGE)
      | SubstreamOpenFailed e \<Rightarrow> (close_connection failed, Err e)
      | SubstreamElapsed \<Rightarrow> (failed, Err YAMUX_TARGET_CONNECT_RESPONSE_TIMEOUT_MESSAGE)
      | SubstreamFailed e \<Rightarrow> (failed, Err e)
      | SubstreamConnected \<Rightarrow> (release_open c, Ok ()))"

section \<open>The state of a manager\<close>

text \<open>A native UDP connection, as far as the manager asks: \<open>is_closed\<close> and \<open>timed_out\<close>.\<close>

record udp_session =
  uk_closed :: bool
  uk_timed_out :: bool

text \<open>
  What other tasks and the network do: a connection closes, permits of a multiplexed connection are
  taken and given back, a task picks a session, prunes the pool, adds a session to it or removes
  one; in the slots of native UDP sessions a task rebuilds a session, discards one that failed it or
  makes a slot fall back.
\<close>

datatype action =
    SessionCloses nat
  | TakesPermits nat
  | ReturnsOpenPermit nat
  | ReturnsStreamPermit nat
  | Picks
  | Prunes
  | Adds
  | Removes nat
  | UdpCloses nat bool
  | UdpRebuilds nat
  | UdpDiscards nat nat
  | FallsBack nat

datatype create_outcome = Created | CreateFailed string | CreatePanicked

text \<open>
  What does not change: the configuration, whether creating the session with a given id succeeds,
  and in which order the sessions created by one refill become ready.
\<close>

record manager_env =
  me_transport_mode :: TransportMode
  me_transport :: TransportProtocol
  me_yamux :: YamuxConfig
  me_udp_session_pool_size :: nat
  me_create :: "nat \<Rightarrow> create_outcome"
  me_finish :: "nat list \<Rightarrow> nat list"

text \<open>
  The manager, with the connections its ids stand for. \<open>mg_others\<close>, \<open>mg_substreams\<close>,
  \<open>mg_udp_connects\<close> and \<open>mg_udp_targets\<close> are the scripts.
\<close>

record manager =
  mg_sessions :: "nat list"
  mg_conns :: "nat \<Rightarrow> YamuxClientConnection"
  mg_next_index :: u64
  mg_next_id :: nat
  mg_slots :: "nat option list"
  mg_udp :: "nat \<Rightarrow> udp_session"
  mg_udp_next_index :: u64
  mg_udp_next_id :: nat
  mg_fallback :: "bool list"
  mg_others :: "action list list"
  mg_substreams :: "substream list"
  mg_udp_connects :: "((bool \<times> string) + unit) list"
  mg_udp_targets :: "((bool \<times> string) + unit) list"

definition effective_udp_session_pool_size :: "manager_env \<Rightarrow> nat" where
  "effective_udp_session_pool_size env = clamp (me_udp_session_pool_size env) 1 8"

definition yamux_target_size :: "manager_env \<Rightarrow> nat" where
  "yamux_target_size env = (case me_transport env of Udp \<Rightarrow> udp_session_count (me_yamux env) | Tcp \<Rightarrow> 0)"

definition udp_pool_size :: "manager_env \<Rightarrow> nat" where
  "udp_pool_size env =
     (if uses_native_udp_for (me_transport_mode env) (me_transport env)
      then effective_udp_session_pool_size env else 0)"

definition manager_new ::
  "manager_env \<Rightarrow> action list list \<Rightarrow> substream list \<Rightarrow> ((bool \<times> string) + unit) list \<Rightarrow>
   ((bool \<times> string) + unit) list \<Rightarrow> manager" where
  "manager_new env others substreams connects targets =
     \<lparr>mg_sessions = [], mg_conns = (\<lambda>_. connect_for (me_transport env) (udp_settings (me_yamux env))),
      mg_next_index = 0, mg_next_id = 0,
      mg_slots = replicate (udp_pool_size env) None, mg_udp = (\<lambda>_. \<lparr>uk_closed = True, uk_timed_out = False\<rparr>),
      mg_udp_next_index = 0, mg_udp_next_id = 0,
      mg_fallback = replicate (udp_pool_size env) False,
      mg_others = others, mg_substreams = substreams, mg_udp_connects = connects, mg_udp_targets = targets\<rparr>"

definition upd_conn :: "nat \<Rightarrow> (YamuxClientConnection \<Rightarrow> YamuxClientConnection) \<Rightarrow> manager \<Rightarrow> manager" where
  "upd_conn i f m = m\<lparr>mg_conns := (mg_conns m)(i := f (mg_conns m i))\<rparr>"

text \<open>The critical sections on the pool.\<close>

definition prune_section :: "manager \<Rightarrow> manager" where
  "prune_section m = m\<lparr>mg_sessions := filter (\<lambda>i. \<not> yk_closed (mg_conns m i)) (mg_sessions m)\<rparr>"

definition push_session :: "manager_env \<Rightarrow> nat \<Rightarrow> manager \<Rightarrow> manager" where
  "push_session env i m =
     m\<lparr>mg_sessions := mg_sessions m @ [i],
       mg_conns := (mg_conns m)(i := connect_for (me_transport env) (udp_settings (me_yamux env)))\<rparr>"

definition remove_section :: "nat \<Rightarrow> manager \<Rightarrow> manager" where
  "remove_section i m =
     (if i \<in> set (mg_sessions m)
      then upd_conn i close_connection (m\<lparr>mg_sessions := remove1 i (mg_sessions m)\<rparr>) else m)"

text \<open>The critical sections on a slot.\<close>

definition udp_is_live :: "manager \<Rightarrow> nat option \<Rightarrow> bool" where
  "udp_is_live m s \<longleftrightarrow> (case s of None \<Rightarrow> False | Some i \<Rightarrow> \<not> uk_closed (mg_udp m i))"

definition rebuild_slot :: "nat \<Rightarrow> manager \<Rightarrow> manager" where
  "rebuild_slot s m =
     m\<lparr>mg_slots := (mg_slots m)[s := Some (mg_udp_next_id m)],
       mg_udp := (mg_udp m)(mg_udp_next_id m := \<lparr>uk_closed = False, uk_timed_out = False\<rparr>),
       mg_udp_next_id := Suc (mg_udp_next_id m)\<rparr>"

definition discard_slot :: "nat \<Rightarrow> nat \<Rightarrow> manager \<Rightarrow> manager" where
  "discard_slot s i m =
     (if s < length (mg_slots m) \<and> mg_slots m ! s = Some i then m\<lparr>mg_slots := (mg_slots m)[s := None]\<rparr> else m)"

definition set_fallback :: "nat \<Rightarrow> manager \<Rightarrow> manager" where
  "set_fallback s m = m\<lparr>mg_fallback := (mg_fallback m)[s := True]\<rparr>"

text \<open>
  What the others do, under the guards of the code they run: they add a session only below the
  limit, rebuild only a slot without a live session and discard only a session that is closed.
\<close>

fun act :: "manager_env \<Rightarrow> action \<Rightarrow> manager \<Rightarrow> manager" where
  "act env (SessionCloses i) m = upd_conn i close_connection m"
| "act env (TakesPermits i) m =
     (if has_immediate_stream_capacity (mg_conns m i) then upd_conn i (take_open \<circ> take_stream) m else m)"
| "act env (ReturnsOpenPermit i) m = upd_conn i release_open m"
| "act env (ReturnsStreamPermit i) m = upd_conn i release_stream m"
| "act env Picks m = m\<lparr>mg_next_index := mg_next_index m + 1\<rparr>"
| "act env Prunes m = prune_section m"
| "act env Adds m =
     (if length (mg_sessions m) < yamux_target_size env
      then push_session env (mg_next_id m) m\<lparr>mg_next_id := Suc (mg_next_id m)\<rparr>
      else m)"
| "act env (Removes i) m = remove_section i m"
| "act env (UdpCloses i timed_out) m =
     (if uk_closed (mg_udp m i) then m
      else m\<lparr>mg_udp := (mg_udp m)(i := \<lparr>uk_closed = True, uk_timed_out = timed_out\<rparr>)\<rparr>)"
| "act env (UdpRebuilds s) m =
     (if s < length (mg_slots m) \<and> \<not> udp_is_live m (mg_slots m ! s) then rebuild_slot s m else m)"
| "act env (UdpDiscards s i) m = (if uk_closed (mg_udp m i) then discard_slot s i m else m)"
| "act env (FallsBack s) m = set_fallback s m"

definition others :: "manager_env \<Rightarrow> manager \<Rightarrow> manager" where
  "others env m =
     (case mg_others m of
        [] \<Rightarrow> m
      | batch # rest \<Rightarrow> fold (act env) batch (m\<lparr>mg_others := rest\<rparr>))"

section \<open>The pool of multiplexed sessions\<close>

definition prune_closed_yamux_sessions :: "manager_env \<Rightarrow> manager \<Rightarrow> manager" where
  "prune_closed_yamux_sessions env m = prune_section (others env m)"

text \<open>The sessions of a refill as they become ready, with the number added and the last error.\<close>

fun join_sessions ::
  "manager_env \<Rightarrow> nat \<Rightarrow> nat list \<Rightarrow> nat \<Rightarrow> string option \<Rightarrow> manager \<Rightarrow> manager \<times> nat \<times> string option" where
  "join_sessions env wanted_size [] success_count last_error m = (m, success_count, last_error)"
| "join_sessions env wanted_size (i # ids) success_count last_error m =
     (case me_create env i of
        Created \<Rightarrow>
          let m = others env m in
          if length (mg_sessions m) \<ge> wanted_size then (m, success_count, last_error)
          else join_sessions env wanted_size ids (success_count + 1) last_error (push_session env i m)
      | CreateFailed e \<Rightarrow> join_sessions env wanted_size ids success_count (Some e) m
      | CreatePanicked \<Rightarrow> join_sessions env wanted_size ids success_count last_error m)"

definition ensure_yamux_sessions :: "manager_env \<Rightarrow> nat \<Rightarrow> manager \<Rightarrow> manager \<times> (string + nat)" where
  "ensure_yamux_sessions env wanted_size m =
     (if wanted_size = 0 then (m, Ok 0)
      else
        let m = others env (prune_closed_yamux_sessions env m) in
        if length (mg_sessions m) \<ge> wanted_size then (m, Ok 0)
        else
          let m = others env m; current_size = length (mg_sessions m) in
          if current_size \<ge> wanted_size then (m, Ok 0)
          else
            let first = mg_next_id m; to_create = wanted_size - current_size in
            case join_sessions env wanted_size (me_finish env [first..<first + to_create]) 0 None
                   (m\<lparr>mg_next_id := first + to_create\<rparr>) of
              (m, success_count, last_error) \<Rightarrow>
                if success_count = 0 then
                  let m = others env m in
                  if mg_sessions m = [] then
                    (m, Err (case last_error of Some e \<Rightarrow> e | None \<Rightarrow> ''no Yamux session could be created''))
                  else (m, Ok 0)
                else (m, Ok success_count))"

definition ensure_additional_yamux_session :: "manager_env \<Rightarrow> nat \<Rightarrow> manager \<Rightarrow> manager \<times> (string + nat)" where
  "ensure_additional_yamux_session env max_sessions m =
     (if max_sessions = 0 then (m, Ok 0)
      else
        let m = others env (prune_closed_yamux_sessions env m); current_size = length (mg_sessions m) in
        if current_size \<ge> max_sessions then (m, Ok 0)
        else ensure_yamux_sessions env (min (current_size + 1) max_sessions) m)"

text \<open>
  The sessions in the order of the search that starts at the next index; the index moves on only
  when there is a session.
\<close>

definition session_order :: "manager \<Rightarrow> nat list" where
  "session_order m =
     (let n = length (mg_sessions m); start = unat (mg_next_index m) mod n
      in map (\<lambda>offset. mg_sessions m ! ((start + offset) mod n)) [0..<n])"

definition advance_index :: "manager \<Rightarrow> manager" where
  "advance_index m = m\<lparr>mg_next_index := mg_next_index m + 1\<rparr>"

definition next_yamux_session_with_capacity :: "manager_env \<Rightarrow> manager \<Rightarrow> manager \<times> nat option" where
  "next_yamux_session_with_capacity env m =
     (let m = others env m in
      if mg_sessions m = [] then (m, None)
      else (advance_index m,
            List.find (\<lambda>i. has_immediate_stream_capacity (mg_conns m i)) (session_order m)))"

definition next_yamux_session :: "manager_env \<Rightarrow> manager \<Rightarrow> manager \<times> nat option" where
  "next_yamux_session env m =
     (let m = others env m in
      if mg_sessions m = [] then (m, None)
      else (advance_index m, List.find (\<lambda>i. \<not> yk_closed (mg_conns m i)) (session_order m)))"

definition remove_yamux_session :: "manager_env \<Rightarrow> nat \<Rightarrow> manager \<Rightarrow> manager" where
  "remove_yamux_session env i m = remove_section i (others env m)"

text \<open>
  A connect on a session: \<open>None\<close> while it waits for a permit or for the network. The permits are
  held while the substream is opened.
\<close>

definition finish_connect :: "manager_env \<Rightarrow> nat \<Rightarrow> manager \<Rightarrow> manager \<times> (string + unit) option" where
  "finish_connect env i m =
     (let m = others env m in
      case mg_substreams m of
        [] \<Rightarrow> (m, None)
      | outcome # rest \<Rightarrow>
          (case connect_to_target_with_permits outcome (mg_conns m i) of
             (c, r) \<Rightarrow> (upd_conn i (\<lambda>_. c) (m\<lparr>mg_substreams := rest\<rparr>), Some r)))"

definition try_connect_to_target ::
  "manager_env \<Rightarrow> Address \<Rightarrow> TransportProtocol \<Rightarrow> nat \<Rightarrow> manager \<Rightarrow> manager \<times> (string + unit) option" where
  "try_connect_to_target env address transport i m =
     (let m = others env m in
      case try_acquire address transport (mg_conns m i) of
        Inl e \<Rightarrow> (m, Some (Err e))
      | Inr c \<Rightarrow> finish_connect env i (upd_conn i (\<lambda>_. c) m))"

definition connect_to_target_waiting ::
  "manager_env \<Rightarrow> Address \<Rightarrow> TransportProtocol \<Rightarrow> nat \<Rightarrow> manager \<Rightarrow> manager \<times> (string + unit) option" where
  "connect_to_target_waiting env address transport i m =
     (case validate_target address transport (mg_conns m i) of
        Inl e \<Rightarrow> (m, Some (Err e))
      | Inr _ \<Rightarrow>
          let m = others env m in
          if yk_stream_permits (mg_conns m i) = 0 then (m, None)
          else
            let m = others env (upd_conn i take_stream m) in
            if yk_open_permits (mg_conns m i) = 0 then (m, None)
            else finish_connect env i (upd_conn i take_open m))"

definition connect_on ::
  "manager_env \<Rightarrow> Address \<Rightarrow> TransportProtocol \<Rightarrow> nat \<Rightarrow> manager \<Rightarrow> manager \<times> (string + unit) option" where
  "connect_on env address transport i m =
     (let m = others env m in
      if has_immediate_stream_capacity (mg_conns m i) then try_connect_to_target env address transport i m
      else connect_to_target_waiting env address transport i m)"

text \<open>The choice of a session: one, an error, or another turn because the pool has grown.\<close>

datatype choice = Chosen nat | ChooseAgain | NoSession string

definition choose_session :: "manager_env \<Rightarrow> nat \<Rightarrow> manager \<Rightarrow> manager \<times> choice" where
  "choose_session env max_sessions m =
     (case next_yamux_session_with_capacity env m of
        (m, Some i) \<Rightarrow> (m, Chosen i)
      | (m, None) \<Rightarrow>
          (case ensure_additional_yamux_session env max_sessions m of
             (m, Inl e) \<Rightarrow> (m, NoSession e)
           | (m, Inr added) \<Rightarrow>
               if added > 0 then (m, ChooseAgain)
               else case next_yamux_session env m of
                 (m, Some i) \<Rightarrow> (m, Chosen i)
               | (m, None) \<Rightarrow> (m, NoSession ''no Yamux session is available'')))"

text \<open>
  A call of the pool: its result, the connected session's id if it succeeds; still waiting for a
  permit or for the network; or not finished with the given fuel, one unit for each turn of the
  loop; the section on returning calls says how much is enough.
\<close>

datatype 'a call = Finished 'a | Waiting | OutOfFuel

text \<open>One turn of the loop stops with a result or goes on with the attempts counted so far.\<close>

datatype turn = Stop "(agent_error + nat) call" | Again nat

definition another_attempt :: "manager_env \<Rightarrow> string \<Rightarrow> nat \<Rightarrow> turn" where
  "another_attempt env message attempts =
     (if attempts + 1 \<ge> max (yamux_target_size env) 3 then Stop (Finished (Err (AgentConnection message)))
      else Again (attempts + 1))"

definition connect_turn ::
  "manager_env \<Rightarrow> Address \<Rightarrow> TransportProtocol \<Rightarrow> nat \<Rightarrow> nat \<Rightarrow> manager \<Rightarrow> manager \<times> turn" where
  "connect_turn env address transport attempts i m =
     (case connect_on env address transport i m of
        (m, None) \<Rightarrow> (m, Stop Waiting)
      | (m, Some (Inr _)) \<Rightarrow> (m, Stop (Finished (Ok i)))
      | (m, Some (Inl message)) \<Rightarrow>
          if is_yamux_session_capacity_error message then
            (case ensure_additional_yamux_session env (yamux_target_size env) m of
               (m, Inl e) \<Rightarrow> (m, Stop (Finished (Err (AgentConnection e))))
             | (m, Inr added) \<Rightarrow>
                 if added > 0 then (m, Again attempts) else (m, another_attempt env message attempts))
          else if is_yamux_target_connect_error message
            then (m, Stop (Finished (Err (AgentConnection message))))
          else (remove_yamux_session env i m, another_attempt env message attempts))"

definition open_target_turn ::
  "manager_env \<Rightarrow> Address \<Rightarrow> TransportProtocol \<Rightarrow> nat \<Rightarrow> manager \<Rightarrow> manager \<times> turn" where
  "open_target_turn env address transport attempts m =
     (let max_sessions = yamux_target_size env; m = prune_closed_yamux_sessions env m in
      case ensure_yamux_sessions env (min 1 max_sessions) m of
        (m, Inl e) \<Rightarrow> (m, Stop (Finished (Err (AgentConnection e))))
      | (m, Inr _) \<Rightarrow>
          (case choose_session env max_sessions m of
             (m, NoSession e) \<Rightarrow> (m, Stop (Finished (Err (AgentConnection e))))
           | (m, ChooseAgain) \<Rightarrow> (m, Again attempts)
           | (m, Chosen i) \<Rightarrow> connect_turn env address transport attempts i m))"

fun open_target_loop ::
  "nat \<Rightarrow> manager_env \<Rightarrow> Address \<Rightarrow> TransportProtocol \<Rightarrow> nat \<Rightarrow> manager \<Rightarrow> manager \<times> (agent_error + nat) call" where
  "open_target_loop 0 env address transport attempts m = (m, OutOfFuel)"
| "open_target_loop (Suc fuel) env address transport attempts m =
     (case open_target_turn env address transport attempts m of
        (m, Stop r) \<Rightarrow> (m, r)
      | (m, Again attempts) \<Rightarrow> open_target_loop fuel env address transport attempts m)"

definition open_target_stream ::
  "nat \<Rightarrow> manager_env \<Rightarrow> Address \<Rightarrow> TransportProtocol \<Rightarrow> manager \<Rightarrow> manager \<times> (agent_error + nat) call" where
  "open_target_stream fuel env address transport m = open_target_loop fuel env address transport 0 m"

section \<open>Native UDP sessions\<close>

definition next_udp_session_slot :: "manager \<Rightarrow> manager \<times> nat" where
  "next_udp_session_slot m =
     (m\<lparr>mg_udp_next_index := mg_udp_next_index m + 1\<rparr>,
      unat (mg_udp_next_index m) mod length (mg_slots m))"

text \<open>
  The first half of an attempt, under the lock of the slot: the session to use, created when the
  slot has none that is open; \<open>None\<close> while creating one waits for the network.
\<close>

definition acquire_slot ::
  "manager_env \<Rightarrow> nat \<Rightarrow> manager \<Rightarrow> manager \<times> (agent_error + nat) option" where
  "acquire_slot env s m =
     (let m = others env m; current = mg_slots m ! s in
      if automatically_falls_back_to_tcp (me_transport_mode env) \<and>
         (case current of Some i \<Rightarrow> uk_timed_out (mg_udp m i) | None \<Rightarrow> False)
      then (m, Some (Err (AgentIo True ''keepalive of the native UDP session timed out'')))
      else if udp_is_live m current then (m, Some (Ok (the current)))
      else case mg_udp_connects m of
        [] \<Rightarrow> (m, None)
      | Inl (timed_out, e) # rest \<Rightarrow> (m\<lparr>mg_udp_connects := rest\<rparr>, Some (Err (AgentIo timed_out e)))
      | Inr _ # rest \<Rightarrow> (rebuild_slot s (m\<lparr>mg_udp_connects := rest\<rparr>), Some (Ok (mg_udp_next_id m))))"

text \<open>The attempts that are left; only the first of the two is repeated.\<close>

fun udp_attempts ::
  "nat \<Rightarrow> manager_env \<Rightarrow> nat \<Rightarrow> manager \<Rightarrow> manager \<times> (agent_error + nat) option" where
  "udp_attempts 0 env s m = (m, Some (Err (AgentConnection ''the native UDP proxy session failed'')))"
| "udp_attempts (Suc n) env s m =
     (case acquire_slot env s m of
        (m, None) \<Rightarrow> (m, None)
      | (m, Some (Inl e)) \<Rightarrow> (m, Some (Err e))
      | (m, Some (Inr i)) \<Rightarrow>
          let m = others env m in
          (case mg_udp_targets m of
             [] \<Rightarrow> (m, None)
           | Inr _ # rest \<Rightarrow> (m\<lparr>mg_udp_targets := rest\<rparr>, Some (Ok i))
           | Inl (timed_out, e) # rest \<Rightarrow>
               let m = m\<lparr>mg_udp_targets := rest\<rparr> in
               if n = 1 \<and> uk_closed (mg_udp m i)
               then udp_attempts n env s (discard_slot s i (others env m))
               else (m, Some (Err (AgentIo timed_out e)))))"

definition open_udp_target_stream_in_slot ::
  "manager_env \<Rightarrow> nat \<Rightarrow> manager \<Rightarrow> manager \<times> (agent_error + nat) option" where
  "open_udp_target_stream_in_slot env s m = udp_attempts 2 env s m"

definition open_udp_target_stream :: "manager_env \<Rightarrow> manager \<Rightarrow> manager \<times> (agent_error + nat) option" where
  "open_udp_target_stream env m =
     (if mg_slots m = [] then (m, Some (Err (AgentConnection ''native UDP transport is disabled'')))
      else case next_udp_session_slot m of (m, s) \<Rightarrow> open_udp_target_stream_in_slot env s m)"

section \<open>Connecting to a target\<close>

datatype ProxyStreamRoute = RouteAuto | RouteDirectTcp | RouteNativeUdp | RouteYamux | RouteInvalidManager

definition proxy_stream_route ::
  "TransportMode \<Rightarrow> TransportProtocol \<Rightarrow> TransportProtocol \<Rightarrow> ProxyStreamRoute" where
  "proxy_stream_route mode manager_transport transport =
     (if transport \<noteq> manager_transport then RouteInvalidManager
      else case transport of
        Tcp \<Rightarrow> RouteDirectTcp
      | Udp \<Rightarrow>
          if automatically_falls_back_to_tcp mode then RouteAuto
          else if uses_native_udp_for mode transport then RouteNativeUdp
          else RouteYamux)"

text \<open>The Android agent's version, where a wrong manager has no route.\<close>

definition android_proxy_stream_route ::
  "TransportMode \<Rightarrow> TransportProtocol \<Rightarrow> TransportProtocol \<Rightarrow> ProxyStreamRoute option" where
  "android_proxy_stream_route mode manager_transport target_transport =
     (if manager_transport \<noteq> target_transport then None
      else if target_transport = Tcp then Some RouteDirectTcp
      else if automatically_falls_back_to_tcp mode then Some RouteAuto
      else if uses_native_udp_for mode target_transport then Some RouteNativeUdp
      else Some RouteYamux)"

datatype target_stream = StreamDirect | StreamYamux nat | StreamUdp nat

definition yamux_stream :: "manager \<times> (agent_error + nat) call \<Rightarrow> manager \<times> (agent_error + target_stream) call" where
  "yamux_stream r =
     (fst r, case snd r of
        Finished (Inl e) \<Rightarrow> Finished (Err e)
      | Finished (Inr i) \<Rightarrow> Finished (Ok (StreamYamux i))
      | Waiting \<Rightarrow> Waiting
      | OutOfFuel \<Rightarrow> OutOfFuel)"

definition udp_stream :: "manager \<times> (agent_error + nat) option \<Rightarrow> manager \<times> (agent_error + target_stream) call" where
  "udp_stream r =
     (fst r, case snd r of
        Some (Inl e) \<Rightarrow> Finished (Err e)
      | Some (Inr i) \<Rightarrow> Finished (Ok (StreamUdp i))
      | None \<Rightarrow> Waiting)"

text \<open>\<open>direct\<close> is the outcome of a framed connection of its own.\<close>

definition manager_connect ::
  "nat \<Rightarrow> manager_env \<Rightarrow> string + unit \<Rightarrow> Address \<Rightarrow> TransportProtocol \<Rightarrow> manager \<Rightarrow>
   manager \<times> (agent_error + target_stream) call" where
  "manager_connect fuel env direct address transport m =
     (case proxy_stream_route (me_transport_mode env) (me_transport env) transport of
        RouteDirectTcp \<Rightarrow>
          (m, Finished (case direct of Inl e \<Rightarrow> Err (AgentConnection e) | Inr _ \<Rightarrow> Ok StreamDirect))
      | RouteNativeUdp \<Rightarrow> udp_stream (open_udp_target_stream env m)
      | RouteAuto \<Rightarrow>
          (case next_udp_session_slot m of
             (m, s) \<Rightarrow>
               let m = others env m in
               if mg_fallback m ! s then yamux_stream (open_target_stream fuel env address transport m)
               else case open_udp_target_stream_in_slot env s m of
                 (m, None) \<Rightarrow> (m, Waiting)
               | (m, Some (Inr i)) \<Rightarrow> (m, Finished (Ok (StreamUdp i)))
               | (m, Some (Inl e)) \<Rightarrow>
                   if is_native_udp_timeout e
                   then yamux_stream (open_target_stream fuel env address transport (set_fallback s m))
                   else (m, Finished (Err e)))
      | RouteYamux \<Rightarrow> yamux_stream (open_target_stream fuel env address transport m)
      | RouteInvalidManager \<Rightarrow> (m, Finished (Err (AgentConnection ''wrong kind of traffic for this manager''))))"

section \<open>The invariant of a manager\<close>

text \<open>
  The pool is within its limit, its ids are distinct and have been given out, the slots and their
  flags are as many, and the sessions in slots are distinct and have been given out.
\<close>

definition mgr_inv :: "manager_env \<Rightarrow> manager \<Rightarrow> bool" where
  "mgr_inv env m \<longleftrightarrow>
     length (mg_sessions m) \<le> yamux_target_size env \<and> distinct (mg_sessions m) \<and>
     (\<forall>i \<in> set (mg_sessions m). i < mg_next_id m) \<and>
     length (mg_slots m) = length (mg_fallback m) \<and>
     (\<forall>i. Some i \<in> set (mg_slots m) \<longrightarrow> i < mg_udp_next_id m)"

text \<open>The sessions of the pool that are open, and the actions still in the script.\<close>

definition open_count :: "manager \<Rightarrow> nat" where
  "open_count m = length (filter (\<lambda>i. \<not> yk_closed (mg_conns m i)) (mg_sessions m))"

definition scripted :: "manager \<Rightarrow> nat" where
  "scripted m = sum_list (map length (mg_others m))"

text \<open>How far the pool is from being full of open sessions, counting what others may still close.\<close>

definition slack :: "manager_env \<Rightarrow> manager \<Rightarrow> nat" where
  "slack env m = yamux_target_size env - open_count m + scripted m"

definition open_set :: "manager \<Rightarrow> nat set" where
  "open_set m = {i \<in> set (mg_sessions m). \<not> yk_closed (mg_conns m i)}"

lemma open_count_card: "mgr_inv env m \<Longrightarrow> open_count m = card (open_set m)"
  using distinct_card [of "filter (\<lambda>i. \<not> yk_closed (mg_conns m i)) (mg_sessions m)"]
  unfolding open_count_def open_set_def mgr_inv_def by simp

lemma open_count_le: "mgr_inv env m \<Longrightarrow> open_count m \<le> yamux_target_size env"
  unfolding open_count_def mgr_inv_def by (elim conjE) (rule order_trans [OF length_filter_le])

lemma card_le_remove: "finite A \<Longrightarrow> A - {x} \<subseteq> B \<Longrightarrow> finite B \<Longrightarrow> card A \<le> card B + 1"
proof -
  assume fin: "finite A" "finite B" and sub: "A - {x} \<subseteq> B"
  then have "card A \<le> card (insert x B)" by (intro card_mono) auto
  with fin show "card A \<le> card B + 1" by (simp add: card_insert_if split: if_splits)
qed

lemma finite_open_set [simp]: "finite (open_set m)"
  by (simp add: open_set_def)

lemmas conn_defs = take_stream_def take_open_def release_stream_def release_open_def close_connection_def
lemmas section_defs = upd_conn_def prune_section_def push_session_def remove_section_def rebuild_slot_def
  discard_slot_def set_fallback_def advance_index_def

text \<open>
  What holds between two states of a manager: the slots stay, a closed native session stays closed,
  a slot loses only a closed session, and a flag once set stays set.
\<close>

definition keeps_slots :: "manager \<Rightarrow> manager \<Rightarrow> bool" where
  "keeps_slots m m' \<longleftrightarrow>
     length (mg_slots m') = length (mg_slots m) \<and> length (mg_fallback m') = length (mg_fallback m) \<and>
     mg_next_id m \<le> mg_next_id m' \<and> mg_udp_next_id m \<le> mg_udp_next_id m' \<and>
     (\<forall>i < mg_udp_next_id m. uk_closed (mg_udp m i) \<longrightarrow> uk_closed (mg_udp m' i)) \<and>
     (\<forall>s < length (mg_slots m). \<forall>i. mg_slots m ! s = Some i \<longrightarrow> \<not> uk_closed (mg_udp m' i) \<longrightarrow> mg_slots m' ! s = Some i) \<and>
     (\<forall>s < length (mg_fallback m). mg_fallback m ! s \<longrightarrow> mg_fallback m' ! s)"

text \<open>When the others make no slot fall back, the flags stay as they are.\<close>

definition quiet :: "manager \<Rightarrow> bool" where
  "quiet m \<longleftrightarrow> (\<forall>batch \<in> set (mg_others m). \<forall>s. FallsBack s \<notin> set batch)"

definition undisturbed :: "manager \<Rightarrow> manager \<Rightarrow> bool" where
  "undisturbed m m' \<longleftrightarrow> (quiet m \<longrightarrow> quiet m' \<and> mg_fallback m' = mg_fallback m)"

definition keeps :: "manager \<Rightarrow> manager \<Rightarrow> bool" where
  "keeps m m' \<longleftrightarrow> keeps_slots m m' \<and> undisturbed m m'"

text \<open>A move of the manager keeps the invariant; its slack grows by at most \<open>n\<close>.\<close>

definition moves :: "manager_env \<Rightarrow> nat \<Rightarrow> manager \<Rightarrow> manager \<Rightarrow> bool" where
  "moves env n m m' \<longleftrightarrow> (mgr_inv env m \<longrightarrow> mgr_inv env m' \<and> keeps m m' \<and> slack env m' \<le> slack env m + n)"

lemma keeps_refl [simp]: "keeps m m"
  by (simp add: keeps_def keeps_slots_def undisturbed_def)

lemma keeps_slots_trans:
  assumes inv: "mgr_inv env m" and 1: "keeps_slots m m'" and 2: "keeps_slots m' m''"
  shows "keeps_slots m m''"
proof -
  have given: "mg_slots m ! s = Some i \<Longrightarrow> s < length (mg_slots m) \<Longrightarrow> i < mg_udp_next_id m" for s i
    using inv nth_mem [of s "mg_slots m"] by (auto simp: mgr_inv_def)
  show ?thesis
    unfolding keeps_slots_def
  proof (intro conjI allI impI)
    fix s i
    assume s: "s < length (mg_slots m)" "mg_slots m ! s = Some i" and opened: "\<not> uk_closed (mg_udp m'' i)"
    have "i < mg_udp_next_id m'" using given [OF s(2, 1)] 1 by (simp add: keeps_slots_def)
    then have "\<not> uk_closed (mg_udp m' i)" using opened 2 by (auto simp: keeps_slots_def)
    then have "mg_slots m' ! s = Some i" using s 1 by (auto simp: keeps_slots_def)
    then show "mg_slots m'' ! s = Some i" using s opened 1 2 by (auto simp: keeps_slots_def)
  next
    fix i assume "i < mg_udp_next_id m" "uk_closed (mg_udp m i)"
    then show "uk_closed (mg_udp m'' i)" using 1 2 by (auto simp: keeps_slots_def)
  next
    fix s assume "s < length (mg_fallback m)" "mg_fallback m ! s"
    then show "mg_fallback m'' ! s" using 1 2 by (auto simp: keeps_slots_def)
  qed (use 1 2 in \<open>auto simp: keeps_slots_def\<close>)
qed

lemma keeps_trans: "mgr_inv env m \<Longrightarrow> keeps m m' \<Longrightarrow> keeps m' m'' \<Longrightarrow> keeps m m''"
  using keeps_slots_trans [of env m m' m''] by (auto simp: keeps_def undisturbed_def)

lemma moves_refl [simp]: "moves env n m m"
  by (simp add: moves_def)

lemma moves_trans: "moves env a m m' \<Longrightarrow> moves env b m' m'' \<Longrightarrow> moves env (a + b) m m''"
  unfolding moves_def using keeps_trans [of env m m' m''] by auto

lemma moves_le: "moves env a m m' \<Longrightarrow> a \<le> b \<Longrightarrow> moves env b m m'"
  by (auto simp: moves_def)

lemma moves_inv: "moves env n m m' \<Longrightarrow> mgr_inv env m \<Longrightarrow> mgr_inv env m'"
  by (simp add: moves_def)

text \<open>A change that touches only the multiplexed sessions, and one that touches only the slots.\<close>

lemma keeps_pool:
  assumes "mg_slots m' = mg_slots m" "mg_udp m' = mg_udp m" "mg_fallback m' = mg_fallback m"
    "mg_udp_next_id m' = mg_udp_next_id m" "mg_next_id m \<le> mg_next_id m'" "mg_others m' = mg_others m"
  shows "keeps m m'"
  using assms by (simp add: keeps_def keeps_slots_def undisturbed_def quiet_def)

lemma slack_open_set:
  assumes "mgr_inv env m" "mgr_inv env m'" "open_set m - {i} \<subseteq> open_set m'" "mg_others m' = mg_others m"
  shows "slack env m' \<le> slack env m + 1"
  using card_le_remove [OF finite_open_set assms(3) finite_open_set] open_count_card [OF assms(1)]
    open_count_card [OF assms(2)] assms(4)
  by (simp add: slack_def scripted_def)

lemma act_others [simp]: "mg_others (act env a m) = mg_others m"
  by (cases a) (auto simp: section_defs)

lemma act_inv: "mgr_inv env m \<Longrightarrow> mgr_inv env (act env a m)"
proof (cases a)
  case (UdpRebuilds s)
  assume "mgr_inv env m"
  then show ?thesis
    using UdpRebuilds set_update_subset_insert [of "mg_slots m" s "Some (mg_udp_next_id m)"]
    by (fastforce simp: mgr_inv_def section_defs less_Suc_eq)
next
  case (UdpDiscards s i)
  assume "mgr_inv env m"
  then show ?thesis
    using UdpDiscards set_update_subset_insert [of "mg_slots m" s None]
    by (fastforce simp: mgr_inv_def section_defs)
next
  case (Removes i)
  assume "mgr_inv env m"
  then show ?thesis
    using Removes set_remove1_subset [of i "mg_sessions m"]
    by (auto simp: mgr_inv_def section_defs length_remove1)
qed (auto simp: mgr_inv_def section_defs conn_defs less_Suc_eq intro: order_trans [OF length_filter_le])

lemma nth_set_True: "s < length xs \<Longrightarrow> xs ! s \<Longrightarrow> xs[k := True] ! s"
  by (cases "k = s") simp_all

lemma act_keeps: "mgr_inv env m \<Longrightarrow> keeps_slots m (act env a m)"
  by (cases a) (auto simp: keeps_slots_def section_defs mgr_inv_def udp_is_live_def nth_list_update nth_set_True
      split: option.splits)

lemma act_open_set:
  assumes "mgr_inv env m"
  shows "\<exists>i. open_set m - {i} \<subseteq> open_set (act env a m)"
proof (cases a)
  case Adds
  with assms show ?thesis by (auto simp: open_set_def section_defs mgr_inv_def)
next
  case (SessionCloses i)
  then show ?thesis by (intro exI [of _ i]) (auto simp: open_set_def section_defs)
next
  case (Removes i)
  then show ?thesis using assms
    by (intro exI [of _ i]) (auto simp: open_set_def section_defs mgr_inv_def)
qed (auto simp: open_set_def section_defs conn_defs)

lemma act_slack: "mgr_inv env m \<Longrightarrow> slack env (act env a m) \<le> slack env m + 1"
  using act_open_set [of env m a] slack_open_set [of env m "act env a m"] act_inv [of env m a] by auto

lemma acts_keep:
  "mgr_inv env m \<Longrightarrow> mgr_inv env (fold (act env) batch m) \<and> keeps_slots m (fold (act env) batch m) \<and>
     slack env (fold (act env) batch m) \<le> slack env m + length batch"
proof (induction batch arbitrary: m)
  case (Cons a batch)
  from Cons.IH [OF act_inv [OF Cons.prems, of a]] act_slack [OF Cons.prems, of a]
    keeps_slots_trans [OF Cons.prems act_keeps [OF Cons.prems, of a]]
  show ?case by auto
qed (simp add: keeps_slots_def)

lemma act_fallback: "\<forall>s. FallsBack s \<noteq> a \<Longrightarrow> mg_fallback (act env a m) = mg_fallback m"
  by (cases a) (auto simp: section_defs)

lemma acts_fallback: "\<forall>s. FallsBack s \<notin> set batch \<Longrightarrow> mg_fallback (fold (act env) batch m) = mg_fallback m"
  by (induction batch arbitrary: m) (auto simp: act_fallback)

lemma acts_others [simp]: "mg_others (fold (act env) batch m) = mg_others m"
  by (induction batch arbitrary: m) simp_all

lemma others_moves: "moves env 0 m (others env m)"
proof (cases "mg_others m")
  case (Cons batch rest)
  let ?m = "m\<lparr>mg_others := rest\<rparr>"
  have eq: "others env m = fold (act env) batch ?m" by (simp add: others_def Cons)
  have "undisturbed m (others env m)"
    using acts_fallback [of batch env ?m] by (simp add: undisturbed_def quiet_def eq Cons)
  moreover have "mgr_inv env m \<Longrightarrow> mgr_inv env ?m \<and> slack env ?m + length batch = slack env m"
    by (simp add: mgr_inv_def slack_def open_count_def scripted_def Cons)
  moreover have "keeps_slots ?m m' \<Longrightarrow> keeps_slots m m'" for m' by (simp add: keeps_slots_def)
  ultimately show ?thesis
    using acts_keep [of env ?m batch] by (fastforce simp: moves_def keeps_def eq)
qed (simp add: others_def)

lemma others_inv: "mgr_inv env m \<Longrightarrow> mgr_inv env (others env m)"
  using others_moves [of env m] by (simp add: moves_def)

lemma act_fresh:
  "set (mg_sessions (act env a m)) \<subseteq> set (mg_sessions m) \<union> {mg_next_id m..} \<and> mg_next_id m \<le> mg_next_id (act env a m)"
  using set_remove1_subset by (cases a) (force simp: section_defs)+

lemma acts_fresh:
  "set (mg_sessions (fold (act env) batch m)) \<subseteq> set (mg_sessions m) \<union> {mg_next_id m..} \<and>
   mg_next_id m \<le> mg_next_id (fold (act env) batch m)"
proof (induction batch arbitrary: m)
  case (Cons a batch)
  from Cons.IH [of "act env a m"] act_fresh [of env a m] show ?case by fastforce
qed simp

lemma others_fresh: "set (mg_sessions (others env m)) \<subseteq> set (mg_sessions m) \<union> {mg_next_id m..}"
proof (cases "mg_others m")
  case (Cons batch rest)
  with acts_fresh [of env batch "m\<lparr>mg_others := rest\<rparr>"] show ?thesis by (simp add: others_def)
qed (simp add: others_def)

lemma prune_section_moves: "moves env 0 m (prune_section m)"
  using act_inv [of env m Prunes] keeps_pool [of "prune_section m" m]
  by (auto simp: moves_def slack_def open_count_def scripted_def prune_section_def)

lemma prune_moves: "moves env 0 m (prune_closed_yamux_sessions env m)"
  using moves_trans [OF others_moves prune_section_moves] by (simp add: prune_closed_yamux_sessions_def)

lemma push_session_inv:
  assumes inv: "mgr_inv env m" and i: "i \<notin> set (mg_sessions m)" "i < mg_next_id m"
    and room: "length (mg_sessions m) < yamux_target_size env"
  shows "mgr_inv env (push_session env i m)" "keeps m (push_session env i m)"
    "slack env (push_session env i m) + 1 \<le> slack env m"
proof -
  show pushed: "mgr_inv env (push_session env i m)"
    using assms by (auto simp: mgr_inv_def push_session_def)
  show "keeps m (push_session env i m)"
    by (rule keeps_pool) (simp_all add: push_session_def)
  have "open_set (push_session env i m) = insert i (open_set m)" "i \<notin> open_set m"
    using i(1) by (auto simp: open_set_def push_session_def connect_for_def)
  then have "open_count (push_session env i m) = open_count m + 1"
    by (simp add: open_count_card [OF inv] open_count_card [OF pushed])
  then show "slack env (push_session env i m) + 1 \<le> slack env m"
    using open_count_le [OF pushed] by (simp add: slack_def scripted_def push_session_def)
qed

lemma join_sessions_inv:
  assumes "mgr_inv env m" "distinct ids" "set ids \<inter> set (mg_sessions m) = {}" "\<forall>i \<in> set ids. i < mg_next_id m"
    "wanted \<le> yamux_target_size env" "join_sessions env wanted ids n e m = (m', n', e')"
  shows "mgr_inv env m' \<and> keeps m m' \<and> slack env m' + n' \<le> slack env m + n"
  using assms
proof (induction env wanted ids n e m arbitrary: m' n' e' rule: join_sessions.induct)
  case (2 env wanted i ids n e m)
  show ?case
  proof (cases "me_create env i")
    case Created
    define m1 where "m1 = others env m"
    have m1: "mgr_inv env m1" "keeps m m1" "slack env m1 \<le> slack env m"
      using others_moves [of env m] "2.prems"(1) by (simp_all add: moves_def m1_def)
    have ids: "set (i # ids) \<inter> set (mg_sessions m1) = {}" "\<forall>j \<in> set (i # ids). j < mg_next_id m1"
      using others_fresh [of env m] "2.prems"(3, 4) m1(2) by (fastforce simp: m1_def keeps_def keeps_slots_def)+
    show ?thesis
    proof (cases "length (mg_sessions m1) \<ge> wanted")
      case True
      with "2.prems"(6) Created m1 show ?thesis by (simp add: m1_def Let_def)
    next
      case False
      note push = push_session_inv [OF m1(1), of i]
      have i: "i \<notin> set (mg_sessions m1)" "i < mg_next_id m1" "length (mg_sessions m1) < yamux_target_size env"
        using ids False "2.prems"(5) by auto
      have rest: "join_sessions env wanted ids (n + 1) e (push_session env i m1) = (m', n', e')"
        using "2.prems"(6) Created False by (simp add: m1_def Let_def)
      have ih: "mgr_inv env m' \<and> keeps (push_session env i m1) m' \<and>
          slack env m' + n' \<le> slack env (push_session env i m1) + (n + 1)"
        using "2.IH"(1) [OF Created m1_def _ push(1) [OF i] _ _ _ "2.prems"(5) rest] False ids "2.prems"(2)
        by (auto simp: push_session_def)
      have "keeps m m'"
        using keeps_trans [OF "2.prems"(1) m1(2) keeps_trans [OF m1(1) push(2) [OF i]]] ih by simp
      with ih push(3) [OF i] m1(3) show ?thesis by simp
    qed
  next
    case (CreateFailed x)
    with "2.IH"(2) [OF CreateFailed] "2.prems" show ?thesis by simp
  next
    case CreatePanicked
    with "2.IH"(3) [OF CreatePanicked] "2.prems" show ?thesis by simp
  qed
qed simp

text \<open>A refill returns every session it started exactly once, in some order.\<close>

definition finish_ok :: "manager_env \<Rightarrow> bool" where
  "finish_ok env \<longleftrightarrow> (\<forall>ids. mset (me_finish env ids) = mset ids)"

definition gains :: "manager_env \<Rightarrow> string + nat \<Rightarrow> manager \<Rightarrow> manager \<Rightarrow> bool" where
  "gains env r m m' \<longleftrightarrow> (mgr_inv env m \<longrightarrow> mgr_inv env m' \<and> keeps m m' \<and>
     slack env m' + (case r of Inl _ \<Rightarrow> 0 | Inr n \<Rightarrow> n) \<le> slack env m)"

lemma gains_moves: "gains env r m m' \<Longrightarrow> moves env 0 m m'"
  by (auto simp: gains_def moves_def)

lemma moves_gains: "moves env 0 m m' \<Longrightarrow> gains env (Ok 0) m m'"
  by (auto simp: gains_def moves_def)

lemma moves_gains_trans: "moves env 0 m m' \<Longrightarrow> gains env r m' m'' \<Longrightarrow> gains env r m m''"
  unfolding gains_def moves_def using keeps_trans [of env m m' m''] by auto

lemma gains_err: "moves env 0 m m' \<Longrightarrow> gains env (Err e) m m'"
  by (auto simp: gains_def moves_def)

lemma advance_id_moves: "moves env 0 m (m\<lparr>mg_next_id := mg_next_id m + n\<rparr>)"
  by (auto simp: moves_def mgr_inv_def slack_def open_count_def scripted_def intro: keeps_pool)

lemma refill_inv:
  assumes "finish_ok env" "mgr_inv env m" "wanted \<le> yamux_target_size env"
    "join_sessions env wanted (me_finish env [mg_next_id m..<mg_next_id m + n]) 0 None
       (m\<lparr>mg_next_id := mg_next_id m + n\<rparr>) = (m', k, e)"
  shows "mgr_inv env m' \<and> keeps m m' \<and> slack env m' + k \<le> slack env m"
proof -
  let ?ids = "me_finish env [mg_next_id m..<mg_next_id m + n]" and ?m = "m\<lparr>mg_next_id := mg_next_id m + n\<rparr>"
  have eq: "mset ?ids = mset [mg_next_id m..<mg_next_id m + n]" using assms(1) by (simp add: finish_ok_def)
  have set: "set ?ids = {mg_next_id m..<mg_next_id m + n}" using mset_eq_setD [OF eq] by simp
  have "distinct ?ids" using mset_eq_imp_distinct_iff [OF eq] by simp
  moreover have start: "mgr_inv env ?m" "keeps m ?m" "slack env ?m \<le> slack env m"
    using advance_id_moves [of env m n] assms(2) by (simp_all add: moves_def)
  moreover have "set ?ids \<inter> set (mg_sessions ?m) = {}"
    using assms(2) set by (fastforce simp: mgr_inv_def)
  moreover have "\<forall>i \<in> set ?ids. i < mg_next_id ?m" using set by simp
  ultimately have "mgr_inv env m' \<and> keeps ?m m' \<and> slack env m' + k \<le> slack env ?m + 0"
    using join_sessions_inv [of env ?m ?ids wanted 0 None m' k e] assms(3, 4) by blast
  with start keeps_trans [OF assms(2) start(2)] show ?thesis by auto
qed

lemma ensure_gains:
  assumes "finish_ok env" "wanted \<le> yamux_target_size env" "ensure_yamux_sessions env wanted m = (m', r)"
  shows "gains env r m m'"
proof -
  define m1 where "m1 = others env (prune_closed_yamux_sessions env m)"
  define m2 where "m2 = others env m1"
  define n where "n = wanted - length (mg_sessions m2)"
  have m1: "moves env 0 m m1" using moves_trans [OF prune_moves others_moves] by (simp add: m1_def)
  have m2: "moves env 0 m m2" using moves_trans [OF m1 others_moves [of env m1]] by (simp add: m2_def)
  obtain m3 k e where join: "join_sessions env wanted (me_finish env [mg_next_id m2..<mg_next_id m2 + n]) 0 None
      (m2\<lparr>mg_next_id := mg_next_id m2 + n\<rparr>) = (m3, k, e)" by (metis prod_cases3)
  have m3: "gains env (Ok k) m2 m3"
    using refill_inv [OF assms(1) _ assms(2) join] by (simp add: gains_def)
  have m4: "moves env 0 m (others env m3)"
    using moves_trans [OF m2 moves_trans [OF gains_moves [OF m3] others_moves]] by simp
  consider "wanted = 0" | "wanted \<noteq> 0" "length (mg_sessions m1) \<ge> wanted"
    | "wanted \<noteq> 0" "length (mg_sessions m1) < wanted" "length (mg_sessions m2) \<ge> wanted"
    | "wanted \<noteq> 0" "length (mg_sessions m1) < wanted" "length (mg_sessions m2) < wanted" "k = 0"
    | "wanted \<noteq> 0" "length (mg_sessions m1) < wanted" "length (mg_sessions m2) < wanted" "k \<noteq> 0"
    by linarith
  then show ?thesis
  proof cases
    case 1
    with assms(3) show ?thesis by (auto simp: ensure_yamux_sessions_def intro: moves_gains)
  next
    case 2
    with assms(3) m1 show ?thesis
      by (auto simp: ensure_yamux_sessions_def Let_def m1_def intro: moves_gains)
  next
    case 3
    with assms(3) m2 show ?thesis
      by (auto simp: ensure_yamux_sessions_def Let_def m1_def m2_def intro: moves_gains)
  next
    case 4
    with assms(3) join m4 show ?thesis
      by (auto simp: ensure_yamux_sessions_def Let_def m1_def m2_def n_def split: if_splits
          intro: moves_gains gains_err)
  next
    case 5
    with assms(3) join moves_gains_trans [OF m2 m3] show ?thesis
      by (auto simp: ensure_yamux_sessions_def Let_def m1_def m2_def n_def)
  qed
qed

lemma ensure_additional_gains:
  assumes "finish_ok env" "ensure_additional_yamux_session env (yamux_target_size env) m = (m', r)"
  shows "gains env r m m'"
proof -
  define m1 where "m1 = others env (prune_closed_yamux_sessions env m)"
  have m1: "moves env 0 m m1" using moves_trans [OF prune_moves others_moves] by (simp add: m1_def)
  obtain m2 s where step: "ensure_yamux_sessions env (min (length (mg_sessions m1) + 1) (yamux_target_size env)) m1 = (m2, s)"
    by fastforce
  have "gains env s m m2"
    using moves_gains_trans [OF m1 ensure_gains [OF assms(1) _ step]] by simp
  with assms(2) step m1 show ?thesis
    by (auto simp: ensure_additional_yamux_session_def Let_def m1_def split: if_splits intro: moves_gains)
qed

lemma upd_conn_moves:
  "yk_closed (f (mg_conns m i)) = yk_closed (mg_conns m i) \<Longrightarrow> moves env 0 m (upd_conn i f m)"
proof -
  assume same: "yk_closed (f (mg_conns m i)) = yk_closed (mg_conns m i)"
  then have "filter (\<lambda>j. \<not> yk_closed (mg_conns (upd_conn i f m) j)) (mg_sessions m) =
      filter (\<lambda>j. \<not> yk_closed (mg_conns m j)) (mg_sessions m)"
    by (intro filter_cong) (auto simp: upd_conn_def)
  then show ?thesis
    by (auto simp: moves_def slack_def open_count_def scripted_def upd_conn_def mgr_inv_def intro: keeps_pool)
qed

lemma upd_conn_moves_1: "moves env 1 m (upd_conn i f m)"
  unfolding moves_def
proof (intro impI conjI)
  assume inv: "mgr_inv env m"
  show new: "mgr_inv env (upd_conn i f m)" using inv by (simp add: mgr_inv_def upd_conn_def)
  show "keeps m (upd_conn i f m)" by (rule keeps_pool) (simp_all add: upd_conn_def)
  show "slack env (upd_conn i f m) \<le> slack env m + 1"
    by (rule slack_open_set [OF inv new, of i]) (auto simp: open_set_def upd_conn_def)
qed

lemma substreams_moves: "moves env 0 m (m\<lparr>mg_substreams := xs\<rparr>)"
  by (auto simp: moves_def mgr_inv_def slack_def open_count_def scripted_def intro: keeps_pool)

lemma act_substreams [simp]: "mg_substreams (act env a m) = mg_substreams m"
  by (cases a) (auto simp: section_defs)

lemma acts_substreams [simp]: "mg_substreams (fold (act env) batch m) = mg_substreams m"
  by (induction batch arbitrary: m) simp_all

lemma others_substreams [simp]: "mg_substreams (others env m) = mg_substreams m"
  by (simp add: others_def split: list.splits)

lemma upd_conn_substreams [simp]: "mg_substreams (upd_conn i f m) = mg_substreams m"
  by (simp add: upd_conn_def)

text \<open>No error of opening a substream reads like a lack of capacity.\<close>

definition substreams_ok :: "manager \<Rightarrow> bool" where
  "substreams_ok m \<longleftrightarrow> (\<forall>e. SubstreamOpenFailed e \<in> set (mg_substreams m) \<longrightarrow> \<not> is_yamux_session_capacity_error e)"

lemma permits_same_state:
  assumes "connect_to_target_with_permits outcome c = (c', r)"
    "\<forall>e. outcome = SubstreamOpenFailed e \<longrightarrow> \<not> is_yamux_session_capacity_error e"
    "r = Err message" "is_yamux_session_capacity_error message"
  shows "yk_closed c' = yk_closed c"
  using assms
  by (auto simp: connect_to_target_with_permits_def Let_def conn_defs is_yamux_session_capacity_error_def
      YAMUX_SESSION_STREAM_CAPACITY_EXHAUSTED_MESSAGE_def YAMUX_OPEN_STREAM_TIMEOUT_MESSAGE_def
      split: if_splits substream.splits)

text \<open>
  A connect may close its session, except when it fails for want of capacity.
\<close>

definition connect_ok :: "manager_env \<Rightarrow> manager \<Rightarrow> manager \<times> (string + unit) option \<Rightarrow> bool" where
  "connect_ok env m r \<longleftrightarrow> moves env 1 m (fst r) \<and> set (mg_substreams (fst r)) \<subseteq> set (mg_substreams m) \<and>
     (substreams_ok m \<longrightarrow> (\<forall>message. snd r = Some (Err message) \<longrightarrow> is_yamux_session_capacity_error message \<longrightarrow>
        moves env 0 m (fst r)))"

lemma connect_ok_trans:
  "moves env 0 m m' \<Longrightarrow> mg_substreams m' = mg_substreams m \<Longrightarrow> connect_ok env m' r \<Longrightarrow> connect_ok env m r"
  using moves_trans [of env 0 m m' 0 "fst r"] moves_trans [of env 0 m m' 1 "fst r"]
  by (auto simp: connect_ok_def substreams_ok_def)

lemma connect_ok_stop: "connect_ok env m (m, r)"
  by (simp add: connect_ok_def)

lemma finish_connect_ok: "connect_ok env m (finish_connect env i m)"
proof (rule connect_ok_trans [OF others_moves others_substreams])
  define m1 where "m1 = others env m"
  have "connect_ok env m1 (finish_connect env i m)"
  proof (cases "mg_substreams m1")
    case Nil
    then show ?thesis by (simp add: finish_connect_def Let_def flip: m1_def) (rule connect_ok_stop)
  next
    case (Cons outcome rest)
    obtain c r where permits: "connect_to_target_with_permits outcome (mg_conns m1 i) = (c, r)" by fastforce
    have fin: "finish_connect env i m = (upd_conn i (\<lambda>_. c) (m1\<lparr>mg_substreams := rest\<rparr>), Some r)"
      using Cons permits by (simp add: finish_connect_def Let_def flip: m1_def)
    have "moves env 1 m1 (fst (finish_connect env i m))"
      using moves_trans [OF substreams_moves upd_conn_moves_1] by (simp add: fin)
    moreover have "moves env 0 m1 (fst (finish_connect env i m))" if "yk_closed c = yk_closed (mg_conns m1 i)"
      using moves_trans [OF substreams_moves [of env m1 rest] upd_conn_moves [of "\<lambda>_. c" "m1\<lparr>mg_substreams := rest\<rparr>" i env]]
        that by (simp add: fin)
    ultimately show ?thesis
      using permits_same_state [OF permits] by (auto simp: connect_ok_def substreams_ok_def Cons fin)
  qed
  then show "connect_ok env (others env m) (finish_connect env i m)" by (simp add: m1_def)
qed

lemma try_acquire_closed: "try_acquire address transport c = Inr c' \<Longrightarrow> yk_closed c' = yk_closed c"
  by (auto simp: try_acquire_def take_open_def take_stream_def split: sum.splits if_splits)

lemma try_connect_ok: "connect_ok env m (try_connect_to_target env address transport i m)"
proof (rule connect_ok_trans [OF others_moves others_substreams])
  define m1 where "m1 = others env m"
  have "connect_ok env m1 (try_connect_to_target env address transport i m)"
  proof (cases "try_acquire address transport (mg_conns m1 i)")
    case (Inl e)
    then show ?thesis by (simp add: try_connect_to_target_def Let_def connect_ok_stop flip: m1_def)
  next
    case (Inr c)
    then show ?thesis
      using connect_ok_trans [OF upd_conn_moves upd_conn_substreams finish_connect_ok, of "\<lambda>_. c" m1 i]
        try_acquire_closed [OF Inr]
      by (simp add: try_connect_to_target_def Let_def flip: m1_def)
  qed
  then show "connect_ok env (others env m) (try_connect_to_target env address transport i m)" by (simp add: m1_def)
qed

lemma connect_waiting_ok: "connect_ok env m (connect_to_target_waiting env address transport i m)"
proof (cases "validate_target address transport (mg_conns m i)")
  case (Inl e)
  then show ?thesis by (simp add: connect_to_target_waiting_def connect_ok_stop)
next
  case (Inr u)
  define m1 where "m1 = others env m"
  define m2 where "m2 = others env (upd_conn i take_stream m1)"
  have m1: "moves env 0 m m1" "mg_substreams m1 = mg_substreams m" by (simp_all add: m1_def others_moves)
  have m2: "moves env 0 m1 m2" "mg_substreams m2 = mg_substreams m1"
    using moves_trans [OF upd_conn_moves others_moves, of take_stream m1 i] by (simp_all add: m2_def take_stream_def)
  have "connect_ok env m2 (finish_connect env i (upd_conn i take_open m2))"
    by (rule connect_ok_trans [OF upd_conn_moves upd_conn_substreams finish_connect_ok]) (simp add: take_open_def)
  from connect_ok_trans [OF m2 this] connect_ok_trans [OF m2 connect_ok_stop] connect_ok_stop [of env m1]
  have "connect_ok env m1 (connect_to_target_waiting env address transport i m)"
    by (simp add: connect_to_target_waiting_def Inr Let_def flip: m1_def m2_def)
  from connect_ok_trans [OF m1 this] show ?thesis .
qed

lemma connect_on_ok: "connect_ok env m (connect_on env address transport i m)"
  using connect_ok_trans [OF others_moves others_substreams try_connect_ok, of env m]
    connect_ok_trans [OF others_moves others_substreams connect_waiting_ok, of env m]
  by (simp add: connect_on_def Let_def)

lemma section_substreams [simp]: "mg_substreams (prune_section m) = mg_substreams m"
    "mg_substreams (push_session env i m) = mg_substreams m" "mg_substreams (advance_index m) = mg_substreams m"
    "mg_substreams (remove_section i m) = mg_substreams m"
  by (simp_all add: section_defs)

lemma join_substreams: "mg_substreams (fst (join_sessions env wanted ids n e m)) = mg_substreams m"
  by (induction env wanted ids n e m rule: join_sessions.induct) (simp_all add: Let_def split: create_outcome.splits)

lemma prune_substreams [simp]: "mg_substreams (prune_closed_yamux_sessions env m) = mg_substreams m"
  by (simp add: prune_closed_yamux_sessions_def)

lemma ensure_substreams: "mg_substreams (fst (ensure_yamux_sessions env wanted m)) = mg_substreams m"
proof -
  have "mg_substreams m' = mg_substreams m0"
    if "join_sessions env w ids n e (m0\<lparr>mg_next_id := k\<rparr>) = (m', n', e')" for w ids n e m0 k m' n' e'
    using join_substreams [of env w ids n e "m0\<lparr>mg_next_id := k\<rparr>"] that by simp
  then show ?thesis
    by (fastforce simp: ensure_yamux_sessions_def Let_def split: prod.splits if_splits)
qed

lemma ensure_additional_substreams:
  "mg_substreams (fst (ensure_additional_yamux_session env k m)) = mg_substreams m"
  by (simp add: ensure_additional_yamux_session_def Let_def ensure_substreams)

lemma advance_index_moves: "moves env 0 m (advance_index m)"
  by (auto simp: moves_def mgr_inv_def slack_def open_count_def scripted_def advance_index_def intro: keeps_pool)

lemma next_session_moves:
  "moves env 0 m (fst (next_yamux_session_with_capacity env m))" "moves env 0 m (fst (next_yamux_session env m))"
  using moves_trans [OF others_moves advance_index_moves, of env m] others_moves [of env m]
  by (simp_all add: next_yamux_session_with_capacity_def next_yamux_session_def Let_def)

lemma next_session_substreams [simp]:
  "mg_substreams (fst (next_yamux_session_with_capacity env m)) = mg_substreams m"
  "mg_substreams (fst (next_yamux_session env m)) = mg_substreams m"
  by (simp_all add: next_yamux_session_with_capacity_def next_yamux_session_def Let_def)

lemma choose_session_ok:
  assumes "finish_ok env" "choose_session env (yamux_target_size env) m = (m', c)"
  shows "gains env (Ok (case c of ChooseAgain \<Rightarrow> 1 | _ \<Rightarrow> 0)) m m' \<and> mg_substreams m' = mg_substreams m"
proof -
  obtain m1 s where next1: "next_yamux_session_with_capacity env m = (m1, s)" by fastforce
  obtain m2 r where add: "ensure_additional_yamux_session env (yamux_target_size env) m1 = (m2, r)" by fastforce
  obtain m3 s' where next2: "next_yamux_session env m2 = (m3, s')" by fastforce
  have m1: "moves env 0 m m1" "mg_substreams m1 = mg_substreams m"
    using next_session_moves(1) [of env m] next_session_substreams(1) [of env m] next1 by simp_all
  have m2: "gains env r m m2" "mg_substreams m2 = mg_substreams m"
    using moves_gains_trans [OF m1(1) ensure_additional_gains [OF assms(1) add]]
      ensure_additional_substreams [of env "yamux_target_size env" m1] add m1(2) by simp_all
  have m3: "moves env 0 m m3" "mg_substreams m3 = mg_substreams m"
    using moves_trans [OF gains_moves [OF m2(1)] next_session_moves(2) [of env m2]]
      next_session_substreams(2) [of env m2] next2 m2(2) by simp_all
  have "gains env (Ok 1) m m2" if "r = Inr (Suc k)" for k
    using m2(1) that by (auto simp: gains_def)
  with assms(2) m1 m2 m3 gains_moves [OF m2(1)] show ?thesis
    by (auto simp: choose_session_def next1 add next2 gr0_conv_Suc split: option.splits sum.splits if_splits
        intro: moves_gains)
qed

lemma remove_moves: "moves env 1 m (remove_yamux_session env i m)"
proof -
  have "moves env 1 m (remove_section i m)" for m
    using act_inv [of env m "Removes i"] act_slack [of env m "Removes i"] keeps_pool [of "remove_section i m" m]
    by (auto simp: moves_def section_defs split: if_splits)
  from moves_trans [OF others_moves this] show ?thesis by (simp add: remove_yamux_session_def)
qed

lemma remove_substreams [simp]: "mg_substreams (remove_yamux_session env i m) = mg_substreams m"
  by (simp add: remove_yamux_session_def)

section \<open>The loop of the pool\<close>

text \<open>
  What bounds the loop: every turn that does not stop counts an attempt or adds an open session to
  the pool, and of those only the sessions that fail or that others close make room again.
\<close>

definition potential :: "manager_env \<Rightarrow> nat \<Rightarrow> manager \<Rightarrow> nat" where
  "potential env attempts m = 3 * (max (yamux_target_size env) 3 - attempts) + slack env m"

definition turn_ok :: "manager_env \<Rightarrow> nat \<Rightarrow> manager \<Rightarrow> manager \<times> turn \<Rightarrow> bool" where
  "turn_ok env attempts m r \<longleftrightarrow> (mgr_inv env m \<longrightarrow> mgr_inv env (fst r) \<and> keeps m (fst r) \<and>
     set (mg_substreams (fst r)) \<subseteq> set (mg_substreams m) \<and> snd r \<noteq> Stop OutOfFuel \<and>
     (substreams_ok m \<longrightarrow> (\<forall>n. snd r = Again n \<longrightarrow> potential env n (fst r) < potential env attempts m)))"

lemma turn_ok_trans:
  "moves env 0 m m' \<Longrightarrow> mg_substreams m' = mg_substreams m \<Longrightarrow> turn_ok env attempts m' r \<Longrightarrow>
   turn_ok env attempts m r"
  unfolding turn_ok_def moves_def using keeps_trans [of env m m' "fst r"]
  by (fastforce simp: substreams_ok_def potential_def)

lemma turn_ok_stop:
  "moves env k m m' \<Longrightarrow> set (mg_substreams m') \<subseteq> set (mg_substreams m) \<Longrightarrow> r \<noteq> OutOfFuel \<Longrightarrow>
   turn_ok env attempts m (m', Stop r)"
  by (auto simp: turn_ok_def moves_def)

lemma turn_ok_attempt:
  assumes "moves env 2 m m'" "set (mg_substreams m') \<subseteq> set (mg_substreams m)"
  shows "turn_ok env attempts m (m', another_attempt env message attempts)"
  using assms by (auto simp: turn_ok_def moves_def another_attempt_def potential_def)

lemma turn_ok_gain:
  assumes "gains env (Ok k) m m'" "k > 0" "set (mg_substreams m') \<subseteq> set (mg_substreams m)"
  shows "turn_ok env attempts m (m', Again attempts)"
  using assms by (auto simp: turn_ok_def gains_def potential_def)

lemma connect_turn_ok:
  assumes "finish_ok env"
  shows "turn_ok env attempts m (connect_turn env address transport attempts i m)"
proof -
  obtain m1 r where conn: "connect_on env address transport i m = (m1, r)" by fastforce
  obtain m2 s where add: "ensure_additional_yamux_session env (yamux_target_size env) m1 = (m2, s)" by fastforce
  have m1: "moves env 1 m m1" "set (mg_substreams m1) \<subseteq> set (mg_substreams m)"
    and same: "\<And>message. substreams_ok m \<Longrightarrow> r = Some (Err message) \<Longrightarrow>
      is_yamux_session_capacity_error message \<Longrightarrow> moves env 0 m m1"
    using connect_on_ok [of env m address transport i] conn by (simp_all add: connect_ok_def)
  have g2: "gains env s m1 m2" and sub2: "mg_substreams m2 = mg_substreams m1"
    using ensure_additional_gains [OF assms add] ensure_additional_substreams [of env "yamux_target_size env" m1] add
    by simp_all
  have m2: "moves env 1 m m2" using moves_trans [OF m1(1) gains_moves [OF g2]] by simp
  have grown: "turn_ok env attempts m (m2, Again attempts)"
    if "r = Some (Err message)" "is_yamux_session_capacity_error message" "s = Inr k" "k > 0" for message k
  proof (cases "substreams_ok m")
    case True
    from turn_ok_gain [OF moves_gains_trans [OF same [OF True that(1, 2)] g2 [unfolded that(3)]] that(4)]
    show ?thesis using sub2 m1(2) by simp
  qed (use m2 sub2 m1(2) in \<open>auto simp: turn_ok_def moves_def\<close>)
  have "moves env 2 m (remove_yamux_session env i m1)"
    using moves_trans [OF m1(1) remove_moves] by (simp add: numeral_2_eq_2)
  from turn_ok_attempt [OF this] have removed:
    "turn_ok env attempts m (remove_yamux_session env i m1, another_attempt env message attempts)" for message
    using m1(2) by simp
  have failed: "turn_ok env attempts m (m2, another_attempt env message attempts)" for message
    using turn_ok_attempt [OF moves_le [OF m2]] sub2 m1(2) by simp
  show ?thesis
    using grown removed failed turn_ok_stop [OF m1] turn_ok_stop [OF m2] sub2 m1(2)
    by (simp add: connect_turn_def conn add split: option.splits sum.splits)
qed

lemma open_target_turn_ok:
  assumes "finish_ok env"
  shows "turn_ok env attempts m (open_target_turn env address transport attempts m)"
proof -
  define m0 where "m0 = prune_closed_yamux_sessions env m"
  obtain m1 r where ens: "ensure_yamux_sessions env (min 1 (yamux_target_size env)) m0 = (m1, r)" by fastforce
  obtain m2 c where cho: "choose_session env (yamux_target_size env) m1 = (m2, c)" by fastforce
  have m1: "moves env 0 m m1" "mg_substreams m1 = mg_substreams m"
    using moves_trans [OF prune_moves [of env m, folded m0_def] gains_moves [OF ensure_gains [OF assms min.cobounded2 ens]]]
      ensure_substreams [of env "min 1 (yamux_target_size env)" m0] ens by (simp_all add: m0_def)
  have m2: "gains env (Ok (case c of ChooseAgain \<Rightarrow> 1 | _ \<Rightarrow> 0)) m m2" "mg_substreams m2 = mg_substreams m"
    using choose_session_ok [OF assms cho] moves_gains_trans [OF m1(1)] m1(2) by auto
  have "turn_ok env attempts m (connect_turn env address transport attempts i m2)" for i
    by (rule turn_ok_trans [OF gains_moves [OF m2(1)] m2(2) connect_turn_ok [OF assms]])
  moreover have "c = ChooseAgain \<Longrightarrow> turn_ok env attempts m (m2, Again attempts)"
    using turn_ok_gain [OF m2(1)] m2(2) by simp
  ultimately show ?thesis
    using turn_ok_stop [OF m1(1)] turn_ok_stop [OF gains_moves [OF m2(1)]] m1(2) m2(2)
    by (simp add: open_target_turn_def Let_def m0_def [symmetric] ens cho del: One_nat_def split: sum.splits choice.splits)
qed

lemma open_target_loop_ok:
  assumes "finish_ok env" "mgr_inv env m" "open_target_loop fuel env address transport attempts m = (m', r)"
  shows "mgr_inv env m' \<and> keeps m m' \<and> set (mg_substreams m') \<subseteq> set (mg_substreams m) \<and>
    (substreams_ok m \<longrightarrow> potential env attempts m < fuel \<longrightarrow> r \<noteq> OutOfFuel)"
  using assms
proof (induction fuel env address transport attempts m arbitrary: m' r rule: open_target_loop.induct)
  case (2 fuel env address transport attempts m)
  obtain m1 t where turn: "open_target_turn env address transport attempts m = (m1, t)" by fastforce
  have step: "mgr_inv env m1" "keeps m m1" "set (mg_substreams m1) \<subseteq> set (mg_substreams m)" "t \<noteq> Stop OutOfFuel"
      "\<And>n. substreams_ok m \<Longrightarrow> t = Again n \<Longrightarrow> potential env n m1 < potential env attempts m"
    using open_target_turn_ok [OF "2.prems"(1), of attempts m address transport] turn "2.prems"(2)
    by (simp_all add: turn_ok_def)
  show ?case
  proof (cases t)
    case (Stop s)
    with "2.prems"(3) turn step show ?thesis by auto
  next
    case (Again n)
    have "mgr_inv env m' \<and> keeps m1 m' \<and> set (mg_substreams m') \<subseteq> set (mg_substreams m1) \<and> (substreams_ok m1 \<longrightarrow> potential env n m1 < fuel \<longrightarrow> r \<noteq> OutOfFuel)"
      using "2.IH" [OF turn [symmetric] Again "2.prems"(1) step(1)] "2.prems"(3) turn Again by simp
    moreover have "substreams_ok m \<Longrightarrow> substreams_ok m1" using step(3) by (auto simp: substreams_ok_def)
    ultimately show ?thesis
      using keeps_trans [OF "2.prems"(2) step(2)] step(3) step(5) [OF _ Again] by fastforce
  qed
qed simp

section \<open>The slots\<close>

lemma udp_script_moves:
  "moves env 0 m (m\<lparr>mg_udp_connects := xs\<rparr>)" "moves env 0 m (m\<lparr>mg_udp_targets := xs\<rparr>)"
  "moves env 0 m (m\<lparr>mg_udp_next_index := k\<rparr>)"
  by (auto simp: moves_def mgr_inv_def slack_def open_count_def scripted_def intro: keeps_pool)

lemma slot_act_moves:
  assumes "mg_fallback (act env a m) = mg_fallback m" "open_count (act env a m) = open_count m"
  shows "moves env 0 m (act env a m)"
  using assms act_inv [of env m a] act_keeps [of env m a]
  by (auto simp: moves_def keeps_def undisturbed_def quiet_def slack_def scripted_def)

lemma rebuild_slot_moves:
  assumes "s < length (mg_slots m)" "\<not> udp_is_live m (mg_slots m ! s)"
  shows "moves env 0 m (rebuild_slot s m)"
  using slot_act_moves [of env "UdpRebuilds s" m] assms by (simp add: rebuild_slot_def open_count_def)

lemma discard_slot_moves: "uk_closed (mg_udp m i) \<Longrightarrow> moves env 0 m (discard_slot s i m)"
  using slot_act_moves [of env "UdpDiscards s i" m] by (simp add: discard_slot_def open_count_def)

lemma slots_length: "moves env n m m' \<Longrightarrow> mgr_inv env m \<Longrightarrow> length (mg_slots m') = length (mg_slots m)"
  by (simp add: moves_def keeps_def keeps_slots_def)

lemma acquire_slot_moves:
  assumes "mgr_inv env m" "s < length (mg_slots m)" "acquire_slot env s m = (m', r)"
  shows "moves env 0 m m'" "r = Some (Inr i) \<Longrightarrow> i < mg_udp_next_id m'"
proof -
  define m1 where "m1 = others env m"
  have m1: "moves env 0 m m1" by (simp add: m1_def others_moves)
  have inv: "mgr_inv env m1" and s: "s < length (mg_slots m1)"
    using moves_inv [OF m1 assms(1)] slots_length [OF m1 assms(1)] assms(2) by simp_all
  have connects: "moves env 0 m (m1\<lparr>mg_udp_connects := xs\<rparr>)" for xs
    using moves_trans [OF m1 udp_script_moves(1) [of env m1 xs]] by simp
  have rebuilt: "moves env 0 m (rebuild_slot s (m1\<lparr>mg_udp_connects := xs\<rparr>))"
    if "\<not> udp_is_live m1 (mg_slots m1 ! s)" for xs
    using moves_trans [OF connects rebuild_slot_moves [of s "m1\<lparr>mg_udp_connects := xs\<rparr>" env]] s that
    by (simp add: udp_is_live_def split: option.splits)
  have given: "mg_slots m1 ! s = Some j \<Longrightarrow> j < mg_udp_next_id m1" for j
    using inv nth_mem [OF s] by (auto simp: mgr_inv_def)
  show "moves env 0 m m'"
    using assms(3) m1 connects rebuilt
    by (auto simp: acquire_slot_def Let_def m1_def [symmetric] split: if_splits list.splits sum.splits prod.splits)
  show "r = Some (Inr i) \<Longrightarrow> i < mg_udp_next_id m'"
    using assms(3) given
    by (auto simp: acquire_slot_def Let_def m1_def [symmetric] udp_is_live_def rebuild_slot_def
        split: if_splits list.splits sum.splits prod.splits option.splits)
qed

lemma udp_attempts_moves:
  assumes "mgr_inv env m" "s < length (mg_slots m)"
  shows "moves env 0 m (fst (udp_attempts n env s m))"
  using assms
proof (induction n env s m rule: udp_attempts.induct)
  case (2 n env s m)
  obtain m1 r where acq: "acquire_slot env s m = (m1, r)" by fastforce
  note m1 = acquire_slot_moves(1) [OF "2.prems" acq]
  show ?case
  proof (cases "\<exists>i. r = Some (Inr i)")
    case True
    then obtain i where r: "r = Some (Inr i)" by auto
    define m2 where "m2 = others env m1"
    have m2: "moves env 0 m m2" using moves_trans [OF m1 others_moves] by (simp add: m2_def)
    have i: "i < mg_udp_next_id m2"
      using acquire_slot_moves(2) [OF "2.prems" acq r] others_moves [of env m1] moves_inv [OF m1 "2.prems"(1)]
      by (auto simp: moves_def keeps_def keeps_slots_def m2_def)
    have targets: "moves env 0 m (m2\<lparr>mg_udp_targets := xs\<rparr>)" for xs
      using moves_trans [OF m2 udp_script_moves(2) [of env m2 xs]] by simp
    have again: "moves env 0 m (fst (udp_attempts n env s (discard_slot s i (others env (m2\<lparr>mg_udp_targets := xs\<rparr>)))))"
      if t: "mg_udp_targets m2 = Inl (b, e) # xs" and again: "n = 1" "uk_closed (mg_udp m2 i)" for b e xs
    proof -
      define m3 where "m3 = others env (m2\<lparr>mg_udp_targets := xs\<rparr>)"
      have m3: "moves env 0 m m3" using moves_trans [OF targets others_moves] by (simp add: m3_def)
      have "uk_closed (mg_udp m3 i)"
        using others_moves [of env "m2\<lparr>mg_udp_targets := xs\<rparr>"] moves_inv [OF targets "2.prems"(1), of xs] i again(2)
        by (simp add: moves_def keeps_def keeps_slots_def m3_def)
      then have m4: "moves env 0 m (discard_slot s i m3)"
        using moves_trans [OF m3 discard_slot_moves] by simp
      have "moves env 0 (discard_slot s i m3) (fst (udp_attempts n env s (discard_slot s i m3)))"
        using "2.IH" [OF acq [symmetric] r refl m2_def t refl refl, unfolded m3_def [symmetric]] again
          moves_inv [OF m4 "2.prems"(1)] slots_length [OF m4 "2.prems"(1)] "2.prems"(2)
        by (simp add: m3_def)
      from moves_trans [OF m4 this] show ?thesis by (simp add: m3_def)
    qed
    show ?thesis
      using m2 targets again
      by (simp add: acq r Let_def m2_def [symmetric] split: list.splits sum.splits)
  next
    case False
    then show ?thesis using m1 by (auto simp: acq split: option.splits sum.splits)
  qed
qed simp

section \<open>Calls of the manager\<close>

definition manager_ok :: "manager_env \<Rightarrow> manager \<Rightarrow> bool" where
  "manager_ok env m \<longleftrightarrow> mgr_inv env m \<and> length (mg_slots m) = udp_pool_size env"

lemma manager_new_ok: "manager_ok env (manager_new env script substreams connects targets)"
  by (auto simp: manager_ok_def mgr_inv_def manager_new_def)

lemma auto_slots: "manager_ok env m \<Longrightarrow> uses_native_udp_for (me_transport_mode env) (me_transport env) \<Longrightarrow>
    k mod length (mg_slots m) < length (mg_slots m)"
  by (rule mod_less_divisor) (simp add: manager_ok_def udp_pool_size_def effective_udp_session_pool_size_def clamp_def)

lemma pool_call_keeps:
  assumes "finish_ok env" "mgr_inv env m"
  shows "mgr_inv env (fst (yamux_stream (open_target_stream fuel env address transport m))) \<and>
    keeps m (fst (yamux_stream (open_target_stream fuel env address transport m)))"
proof -
  obtain m' r where "open_target_loop fuel env address transport 0 m = (m', r)" by fastforce
  with open_target_loop_ok [OF assms this] show ?thesis by (simp add: yamux_stream_def open_target_stream_def)
qed

lemma udp_call_keeps:
  assumes "mgr_inv env m" "s < length (mg_slots m)"
  shows "mgr_inv env (fst (open_udp_target_stream_in_slot env s m)) \<and> keeps m (fst (open_udp_target_stream_in_slot env s m))"
  using udp_attempts_moves [OF assms, of 2] assms(1) by (simp add: open_udp_target_stream_in_slot_def moves_def)

lemma set_fallback_keeps:
  "mgr_inv env m \<Longrightarrow> mgr_inv env (set_fallback s m) \<and> keeps_slots m (set_fallback s m)"
  using act_inv [of env m "FallsBack s"] act_keeps [of env m "FallsBack s"] by simp

text \<open>The state in which an automatic call tries its slot.\<close>

definition slot_turn :: "manager_env \<Rightarrow> manager \<Rightarrow> manager" where
  "slot_turn env m = others env (fst (next_udp_session_slot m))"

lemma slot_turn_keeps: "mgr_inv env m \<Longrightarrow> mgr_inv env (slot_turn env m) \<and> keeps m (slot_turn env m)"
  using moves_trans [OF udp_script_moves(3) others_moves, of env m]
  by (simp add: slot_turn_def next_udp_session_slot_def moves_def)

lemma automatic_call:
  assumes "me_transport_mode env = ModeAuto" "me_transport env = Udp"
  shows "manager_connect fuel env direct address Udp m =
    (let s = snd (next_udp_session_slot m); m1 = slot_turn env m; r = open_udp_target_stream_in_slot env s m1 in
     if mg_fallback m1 ! s then yamux_stream (open_target_stream fuel env address Udp m1)
     else case snd r of
       None \<Rightarrow> (fst r, Waiting)
     | Some (Inr i) \<Rightarrow> (fst r, Finished (Ok (StreamUdp i)))
     | Some (Inl e) \<Rightarrow>
         if is_native_udp_timeout e then yamux_stream (open_target_stream fuel env address Udp (set_fallback s (fst r)))
         else (fst r, Finished (Err e)))"
  using assms
  by (auto simp: manager_connect_def proxy_stream_route_def automatically_falls_back_to_tcp_def slot_turn_def Let_def
      next_udp_session_slot_def split: prod.splits option.splits sum.splits)

lemma manager_connect_ok:
  assumes fin: "finish_ok env" and ok: "manager_ok env m"
  shows "manager_ok env (fst (manager_connect fuel env direct address transport m)) \<and>
    keeps_slots m (fst (manager_connect fuel env direct address transport m))"
proof -
  have inv: "mgr_inv env m" using ok by (simp add: manager_ok_def)
  have "mgr_inv env (fst (manager_connect fuel env direct address transport m)) \<and>
      keeps_slots m (fst (manager_connect fuel env direct address transport m))" (is "?goal")
  proof (cases "proxy_stream_route (me_transport_mode env) (me_transport env) transport")
    case RouteAuto
    then have route: "me_transport_mode env = ModeAuto" "me_transport env = Udp" "transport = Udp"
      by (auto simp: proxy_stream_route_def automatically_falls_back_to_tcp_def
          split: if_splits TransportProtocol.splits)
    define s where "s = snd (next_udp_session_slot m)"
    define m1 where "m1 = slot_turn env m"
    define m2 where "m2 = fst (open_udp_target_stream_in_slot env s m1)"
    have m1: "mgr_inv env m1" "keeps m m1" using slot_turn_keeps [OF inv] by (simp_all add: m1_def)
    have "s < length (mg_slots m1)"
      using auto_slots [OF ok] m1(2) route
      by (simp add: s_def next_udp_session_slot_def uses_native_udp_for_def keeps_def keeps_slots_def)
    then have m2: "mgr_inv env m2" "keeps m1 m2" using udp_call_keeps [OF m1(1)] by (simp_all add: m2_def)
    note m3 = set_fallback_keeps [OF m2(1), of s]
    have slots: "keeps_slots m m1" "keeps_slots m m2" "keeps_slots m (set_fallback s m2)"
      using m1 m2 m3 keeps_slots_trans [OF inv] by (auto simp: keeps_def)
    have "keeps m1 m' \<Longrightarrow> keeps_slots m m'" "keeps (set_fallback s m2) m' \<Longrightarrow> keeps_slots m m'" for m'
      using slots keeps_slots_trans [OF inv] by (auto simp: keeps_def)
    with pool_call_keeps [OF fin m1(1)] pool_call_keeps [OF fin, of "set_fallback s m2"] m2 m3 slots show ?goal
      unfolding automatic_call [OF route(1, 2), folded route(3)] Let_def s_def [symmetric] m1_def [symmetric]
        m2_def [symmetric]
      by (auto split: option.splits sum.splits)
  next
    case RouteNativeUdp
    then have "uses_native_udp_for (me_transport_mode env) (me_transport env)"
      by (auto simp: proxy_stream_route_def split: if_splits TransportProtocol.splits)
    then have s: "snd (next_udp_session_slot m) < length (mg_slots (fst (next_udp_session_slot m)))"
      using auto_slots [OF ok] by (simp add: next_udp_session_slot_def)
    have "mgr_inv env (fst (next_udp_session_slot m))" "keeps m (fst (next_udp_session_slot m))"
      using udp_script_moves(3) [of env m] inv by (simp_all add: moves_def next_udp_session_slot_def)
    with udp_call_keeps [OF _ s] keeps_trans [OF inv]
    have "mgr_inv env (fst (open_udp_target_stream env m)) \<and> keeps m (fst (open_udp_target_stream env m))"
      using inv by (simp add: open_udp_target_stream_def case_prod_beta)
    then show ?goal by (simp add: manager_connect_def RouteNativeUdp udp_stream_def keeps_def)
  next
    case RouteYamux
    with pool_call_keeps [OF fin inv] show ?goal by (simp add: manager_connect_def keeps_def)
  qed (use inv in \<open>simp_all add: manager_connect_def keeps_slots_def\<close>)
  with ok show ?thesis by (auto simp: manager_ok_def keeps_slots_def)
qed

definition manager_calls ::
  "manager_env \<Rightarrow> (nat \<times> (string + unit) \<times> Address \<times> TransportProtocol) list \<Rightarrow> manager \<Rightarrow> manager" where
  "manager_calls env calls m =
     fold (\<lambda>(fuel, direct, address, transport) m. fst (manager_connect fuel env direct address transport m)) calls m"

lemma manager_calls_ok: "finish_ok env \<Longrightarrow> manager_ok env m \<Longrightarrow> manager_ok env (manager_calls env calls m)"
  unfolding manager_calls_def
  by (induction calls arbitrary: m) (auto simp: manager_connect_ok)

section \<open>Every call returns\<close>

lemma slot_substreams [simp]:
  "mg_substreams (rebuild_slot s m) = mg_substreams m" "mg_substreams (discard_slot s i m) = mg_substreams m"
  "mg_substreams (set_fallback s m) = mg_substreams m"
  by (simp_all add: rebuild_slot_def discard_slot_def set_fallback_def)

lemma acquire_slot_substreams: "mg_substreams (fst (acquire_slot env s m)) = mg_substreams m"
  by (simp add: acquire_slot_def Let_def split: list.splits sum.splits prod.splits)

lemma udp_attempts_substreams: "mg_substreams (fst (udp_attempts n env s m)) = mg_substreams m"
proof (induction n env s m rule: udp_attempts.induct)
  case (2 n env s m)
  obtain m1 r where acq: "acquire_slot env s m = (m1, r)" by fastforce
  then have m1: "mg_substreams m1 = mg_substreams m" using acquire_slot_substreams [of env s m] by simp
  show ?case
  proof (cases "\<exists>i. r = Some (Inr i)")
    case True
    then obtain i where r: "r = Some (Inr i)" by auto
    define m2 where "m2 = others env m1"
    have again: "mg_substreams (fst (udp_attempts n env s (discard_slot s i (others env (m2\<lparr>mg_udp_targets := xs\<rparr>))))) =
        mg_substreams m" if "mg_udp_targets m2 = Inl (b, e) # xs" "n = 1" "uk_closed (mg_udp m2 i)" for b e xs
      using "2.IH" [OF acq [symmetric] r refl m2_def that(1) refl refl] that m1 by (simp add: m2_def)
    show ?thesis
      using again m1 by (simp add: acq r Let_def m2_def [symmetric] split: list.splits sum.splits)
        (simp_all add: m2_def)
  next
    case False
    then show ?thesis using m1 by (auto simp: acq split: option.splits sum.splits)
  qed
qed simp

lemma pool_call_ok:
  assumes "finish_ok env" "mgr_inv env m"
  shows "set (mg_substreams (fst (yamux_stream (open_target_stream fuel env address transport m)))) \<subseteq> set (mg_substreams m) \<and>
    (substreams_ok m \<longrightarrow> potential env 0 m < fuel \<longrightarrow>
      snd (yamux_stream (open_target_stream fuel env address transport m)) \<noteq> OutOfFuel)"
proof -
  obtain m' r where "open_target_loop fuel env address transport 0 m = (m', r)" by fastforce
  with open_target_loop_ok [OF assms this] show ?thesis
    by (auto simp: yamux_stream_def open_target_stream_def split: call.splits sum.splits)
qed

text \<open>What a call of the manager may assume and gives back: errors of substreams, and its fuel.\<close>

definition call_ok :: "nat \<Rightarrow> manager_env \<Rightarrow> manager \<Rightarrow> manager \<times> (agent_error + target_stream) call \<Rightarrow> bool" where
  "call_ok fuel env m r \<longleftrightarrow> set (mg_substreams (fst r)) \<subseteq> set (mg_substreams m) \<and>
     (substreams_ok m \<longrightarrow> potential env 0 m < fuel \<longrightarrow> snd r \<noteq> OutOfFuel)"

lemma pool_call_from:
  assumes "finish_ok env" "mgr_inv env m'" "mg_substreams m' = mg_substreams m" "slack env m' \<le> slack env m"
  shows "call_ok fuel env m (yamux_stream (open_target_stream fuel env address transport m'))"
  using pool_call_ok [OF assms(1, 2), of fuel address transport] assms(3, 4)
  by (auto simp: call_ok_def substreams_ok_def potential_def)

lemma set_fallback_slack [simp]: "slack env (set_fallback s m) = slack env m"
  by (simp add: set_fallback_def slack_def open_count_def scripted_def)

lemma manager_connect_returns:
  assumes fin: "finish_ok env" and ok: "manager_ok env m"
  shows "call_ok fuel env m (manager_connect fuel env direct address transport m)"
proof -
  have inv: "mgr_inv env m" using ok by (simp add: manager_ok_def)
  show ?thesis
  proof (cases "proxy_stream_route (me_transport_mode env) (me_transport env) transport")
    case RouteAuto
    then have route: "me_transport_mode env = ModeAuto" "me_transport env = Udp" "transport = Udp"
      by (auto simp: proxy_stream_route_def automatically_falls_back_to_tcp_def
          split: if_splits TransportProtocol.splits)
    define s where "s = snd (next_udp_session_slot m)"
    define m1 where "m1 = slot_turn env m"
    define m2 where "m2 = fst (open_udp_target_stream_in_slot env s m1)"
    have turn: "moves env 0 m m1"
      using moves_trans [OF udp_script_moves(3) others_moves, of env m]
      by (simp add: m1_def slot_turn_def next_udp_session_slot_def)
    have m1: "mgr_inv env m1" "mg_substreams m1 = mg_substreams m" "slack env m1 \<le> slack env m"
      using turn inv by (simp_all add: moves_def) (simp add: m1_def slot_turn_def next_udp_session_slot_def)
    have "s < length (mg_slots m1)"
      using auto_slots [OF ok] slots_length [OF turn inv] route
      by (simp add: s_def next_udp_session_slot_def uses_native_udp_for_def)
    then have "moves env 0 m1 m2"
      using udp_attempts_moves [OF m1(1)] by (simp add: m2_def open_udp_target_stream_in_slot_def)
    then have m2: "mgr_inv env m2" "mg_substreams m2 = mg_substreams m" "slack env m2 \<le> slack env m"
      using m1 udp_attempts_substreams [of 2 env s m1]
      by (simp_all add: moves_def m2_def open_udp_target_stream_in_slot_def)
    have "call_ok fuel env m (yamux_stream (open_target_stream fuel env address Udp (set_fallback s m2)))"
      using pool_call_from [OF fin, of "set_fallback s m2" m] set_fallback_keeps [OF m2(1), of s] m2(2, 3) by simp
    with pool_call_from [OF fin m1] m2(2) show ?thesis
      unfolding automatic_call [OF route(1, 2), folded route(3)] Let_def s_def [symmetric] m1_def [symmetric]
        m2_def [symmetric]
      by (auto simp: call_ok_def route(3) split: option.splits sum.splits)
  next
    case RouteNativeUdp
    have "mg_substreams (fst (open_udp_target_stream env m)) = mg_substreams m"
      by (simp add: open_udp_target_stream_def open_udp_target_stream_in_slot_def udp_attempts_substreams
          next_udp_session_slot_def)
    then show ?thesis
      by (auto simp: call_ok_def manager_connect_def RouteNativeUdp udp_stream_def split: option.splits sum.splits)
  next
    case RouteYamux
    with pool_call_from [OF fin inv refl order_refl] show ?thesis by (simp add: manager_connect_def)
  qed (simp_all add: manager_connect_def call_ok_def)
qed

lemma manager_calls_substreams:
  "finish_ok env \<Longrightarrow> manager_ok env m \<Longrightarrow> set (mg_substreams (manager_calls env calls m)) \<subseteq> set (mg_substreams m)"
proof (induction calls arbitrary: m)
  case (Cons call calls)
  obtain fuel direct address transport where call: "call = (fuel, direct, address, transport)" by (cases call)
  let ?m = "fst (manager_connect fuel env direct address transport m)"
  have "set (mg_substreams ?m) \<subseteq> set (mg_substreams m)" "manager_ok env ?m"
    using manager_connect_returns [OF Cons.prems] manager_connect_ok [OF Cons.prems] by (simp_all add: call_ok_def)
  with Cons.IH [OF Cons.prems(1), of ?m] show ?case by (auto simp: call manager_calls_def)
qed (simp add: manager_calls_def)

section \<open>Properties\<close>

definition manager_example :: "TransportMode \<Rightarrow> manager_env" where
  "manager_example mode =
     \<lparr>me_transport_mode = mode, me_transport = Udp, me_yamux = \<lparr>yc_udp = yamux_transport_config_default\<rparr>,
      me_udp_session_pool_size = 2, me_create = (\<lambda>_. Created), me_finish = (\<lambda>ids. ids)\<rparr>"

lemma manager_example_finish [simp]: "finish_ok (manager_example mode)"
  by (simp add: finish_ok_def manager_example_def)

lemma manager_example_simps [simp]:
  "me_transport_mode (manager_example mode) = mode" "me_transport (manager_example mode) = Udp"
  by (simp_all add: manager_example_def)

text \<open>
  After any calls, whatever other tasks do to the shared manager between their critical
  sections, the pool of multiplexed sessions holds at most the configured number of sessions, each
  of them once, and at most eight native UDP sessions; a manager of TCP traffic holds neither.
\<close>
theorem session_pool_bounded:
  assumes "finish_ok env"
    and "m = manager_calls env calls (manager_new env script substreams connects targets)"
  shows "length (mg_sessions m) \<le> yamux_target_size env \<and> distinct (mg_sessions m) \<and>
    length (mg_slots m) = udp_pool_size env \<and> udp_pool_size env \<le> 8 \<and>
    (me_transport env = Tcp \<longrightarrow> mg_sessions m = [] \<and> mg_slots m = [])"
proof -
  have "manager_ok env m"
    unfolding assms(2) by (rule manager_calls_ok [OF assms(1) manager_new_ok])
  then show ?thesis
    by (auto simp: manager_ok_def mgr_inv_def yamux_target_size_def udp_pool_size_def uses_native_udp_for_def
        effective_udp_session_pool_size_def clamp_def)
qed

theorem session_pool_bounded_witness:
  "length (mg_sessions (manager_calls (manager_example ModeTcp) [(9, Inr (), UdpRelay, Udp), (9, Inr (), UdpRelay, Udp)]
     (manager_new (manager_example ModeTcp) [[], [Adds], [Adds, SessionCloses 0]] [SubstreamConnected, SubstreamOpenTimeout] [] [])))
   \<le> yamux_target_size (manager_example ModeTcp)"
  using session_pool_bounded [OF manager_example_finish refl, of ModeTcp "[(9, Inr (), UdpRelay, Udp), (9, Inr (), UdpRelay, Udp)]"
    "[[], [Adds], [Adds, SessionCloses 0]]" "[SubstreamConnected, SubstreamOpenTimeout]" "[]" "[]"] by simp

text \<open>
  C19. Every call of the manager ends, in every transport mode and after any earlier calls: with
  four units of fuel for each session the pool may hold (twelve at least) and one for each action
  that other tasks still take, it has a result or waits for a permit or for the network, however
  many of its connects fail, whichever sessions other tasks close and whether or not it falls back
  from native UDP to the pool; and afterwards the pool is within its limit. The one thing asked of
  the multiplexer is that its own errors of opening a stream do not read like a lack of capacity.
\<close>

theorem pool_call_returns:
  assumes "finish_ok env"
    and "\<forall>e. SubstreamOpenFailed e \<in> set substreams \<longrightarrow> \<not> is_yamux_session_capacity_error e"
    and "m = manager_calls env calls (manager_new env script substreams connects targets)"
    and "4 * max (yamux_target_size env) 3 + scripted m < fuel"
  shows "case manager_connect fuel env direct address transport m of
    (m', r) \<Rightarrow> r \<noteq> OutOfFuel \<and> length (mg_sessions m') \<le> yamux_target_size env \<and> distinct (mg_sessions m')"
proof -
  have ok: "manager_ok env m"
    unfolding assms(3) by (rule manager_calls_ok [OF assms(1) manager_new_ok])
  have "substreams_ok m"
    using manager_calls_substreams [OF assms(1) manager_new_ok, of calls script substreams connects targets] assms(2)
    by (auto simp: substreams_ok_def assms(3) manager_new_def)
  moreover have "potential env 0 m < fuel"
    using assms(4) by (simp add: potential_def slack_def)
  ultimately have "snd (manager_connect fuel env direct address transport m) \<noteq> OutOfFuel"
    using manager_connect_returns [OF assms(1) ok, of fuel direct address transport] by (simp add: call_ok_def)
  moreover have "mgr_inv env (fst (manager_connect fuel env direct address transport m))"
    using manager_connect_ok [OF assms(1) ok, of fuel direct address transport] by (simp add: manager_ok_def)
  ultimately show ?thesis
    by (simp add: mgr_inv_def split_beta)
qed

theorem pool_call_returns_witness:
  "\<exists>m' r. manager_connect 24 (manager_example ModeTcp) (Inr ()) UdpRelay Udp
      (manager_calls (manager_example ModeTcp) []
        (manager_new (manager_example ModeTcp) [[Adds], [SessionCloses 0]]
          [SubstreamOpenTimeout, SubstreamOpenFailed ''gone'', SubstreamElapsed] [] [])) = (m', r) \<and>
    r \<noteq> OutOfFuel"
proof -
  let ?m = "manager_calls (manager_example ModeTcp) [] (manager_new (manager_example ModeTcp)
    [[Adds], [SessionCloses 0]] [SubstreamOpenTimeout, SubstreamOpenFailed ''gone'', SubstreamElapsed] [] [])"
  have texts: "\<forall>e. SubstreamOpenFailed e \<in> set [SubstreamOpenTimeout, SubstreamOpenFailed ''gone'', SubstreamElapsed] \<longrightarrow>
      \<not> is_yamux_session_capacity_error e"
    by (simp add: is_yamux_session_capacity_error_def YAMUX_SESSION_STREAM_CAPACITY_EXHAUSTED_MESSAGE_def)
  have "4 * max (yamux_target_size (manager_example ModeTcp)) 3 + scripted ?m < 24"
    by (simp add: yamux_target_size_def manager_example_def udp_session_count_def session_count_def manager_calls_def
        yamux_transport_config_default_def DEFAULT_YAMUX_SESSIONS_def scripted_def manager_new_def)
  from pool_call_returns [OF manager_example_finish texts refl this, of "Inr ()" UdpRelay Udp] show ?thesis
    by (intro exI conjI) (rule prod.collapse [symmetric], simp only: split_beta, blast)
qed

text \<open>
  No call takes a native UDP session that is still open out of its slot, neither its own slot
  nor another: a slot loses a session only once that session is closed, also when a call that
  failed on an older session of the slot cleans up after itself. A slot that has fallen back stays
  so.
\<close>
theorem live_udp_session_kept:
  assumes "finish_ok env" "manager_ok env m"
    and "manager_connect fuel env direct address transport m = (m', r)" and "s < length (mg_slots m)"
  shows "(\<forall>i. mg_slots m ! s = Some i \<longrightarrow> mg_slots m' ! s = Some i \<or> uk_closed (mg_udp m' i)) \<and>
    (mg_fallback m ! s \<longrightarrow> mg_fallback m' ! s)"
  using manager_connect_ok [OF assms(1, 2), of fuel direct address transport] assms(2-4)
  by (auto simp: keeps_slots_def manager_ok_def mgr_inv_def)

definition manager_example_state :: "TransportMode \<Rightarrow> manager" where
  "manager_example_state mode =
     rebuild_slot 0 (manager_new (manager_example mode) [[UdpRebuilds 1], [UdpCloses 0 True]] [SubstreamConnected]
       [Inr ()] [Inl (False, ''closed''), Inr ()])"

lemma manager_example_pool: "mode \<noteq> ModeTcp \<Longrightarrow> udp_pool_size (manager_example mode) = 2"
  by (cases mode) (simp_all add: udp_pool_size_def manager_example_def effective_udp_session_pool_size_def
      clamp_def uses_native_udp_for_def)

lemma manager_example_ok: "mode \<noteq> ModeTcp \<Longrightarrow> manager_ok (manager_example mode) (manager_example_state mode)"
  by (auto simp: manager_ok_def mgr_inv_def manager_example_state_def rebuild_slot_def manager_new_def
      manager_example_pool numeral_2_eq_2)

theorem live_udp_session_kept_witness:
  "\<exists>m'. m' = fst (manager_connect 0 (manager_example ModeUdp) (Inr ()) UdpRelay Udp (manager_example_state ModeUdp)) \<and>
     (mg_slots m' ! 0 = Some 0 \<or> uk_closed (mg_udp m' 0))"
proof -
  let ?m = "manager_example_state ModeUdp"
  obtain m' r where call: "manager_connect 0 (manager_example ModeUdp) (Inr ()) UdpRelay Udp ?m = (m', r)" by fastforce
  have "0 < length (mg_slots ?m)" "mg_slots ?m ! 0 = Some 0"
    by (simp_all add: manager_example_state_def rebuild_slot_def manager_new_def manager_example_pool numeral_2_eq_2)
  with live_udp_session_kept [OF manager_example_finish manager_example_ok call, of 0] call show ?thesis by auto
qed

text \<open>
  In automatic mode a call falls back to TCP for its own slot only, and only when the native
  UDP attempt in that slot ended in a timeout; any other error is returned and leaves the slot as
  it is. A call whose slot has fallen back never yields a native UDP stream.
\<close>
theorem auto_fallback_isolated:
  assumes "finish_ok env" "manager_ok env m" "quiet m" "me_transport_mode env = ModeAuto" "me_transport env = Udp"
    and s_def: "s = unat (mg_udp_next_index m) mod length (mg_slots m)"
    and result_def: "result = manager_connect fuel env direct address Udp m"
  shows "mg_fallback (fst result) =
      (if mg_fallback m ! s then mg_fallback m
       else case snd (open_udp_target_stream_in_slot env s (slot_turn env m)) of
         Some (Inl e) \<Rightarrow> if is_native_udp_timeout e then (mg_fallback m)[s := True] else mg_fallback m
       | _ \<Rightarrow> mg_fallback m) \<and>
    (mg_fallback m ! s \<longrightarrow> (\<forall>i. snd result \<noteq> Finished (Ok (StreamUdp i))))"
proof -
  define m1 where "m1 = slot_turn env m"
  define m2 where "m2 = fst (open_udp_target_stream_in_slot env s m1)"
  have inv: "mgr_inv env m" using assms(2) by (simp add: manager_ok_def)
  have s: "snd (next_udp_session_slot m) = s" by (simp add: next_udp_session_slot_def s_def)
  have m1: "mgr_inv env m1" "keeps m m1" using slot_turn_keeps [OF inv] by (simp_all add: m1_def)
  then have q1: "quiet m1" "mg_fallback m1 = mg_fallback m" using assms(3) by (simp_all add: keeps_def undisturbed_def)
  have "s < length (mg_slots m1)"
    using auto_slots [OF assms(2)] m1(2) assms(4, 5)
    by (simp add: s_def uses_native_udp_for_def keeps_def keeps_slots_def)
  then have m2: "mgr_inv env m2" "keeps m1 m2" using udp_call_keeps [OF m1(1)] by (simp_all add: m2_def)
  then have q2: "quiet m2" "mg_fallback m2 = mg_fallback m" using q1 by (simp_all add: keeps_def undisturbed_def)
  have q3: "quiet (set_fallback s m2)" "mg_fallback (set_fallback s m2) = (mg_fallback m)[s := True]"
    using q2 by (simp_all add: quiet_def set_fallback_def)
  have pool: "mg_fallback (fst (yamux_stream (open_target_stream fuel env address Udp m'))) = mg_fallback m'"
    if "mgr_inv env m'" "quiet m'" for m'
    using pool_call_keeps [OF assms(1) that(1), of fuel address Udp] that(2) by (simp add: keeps_def undisturbed_def)
  have "snd (yamux_stream x) \<noteq> Finished (Ok (StreamUdp i))" for x i
    by (auto simp: yamux_stream_def split: call.splits sum.splits)
  then show ?thesis
    using pool [OF m1(1) q1(1)] pool [of "set_fallback s m2"] set_fallback_keeps [OF m2(1), of s] q1 q2 q3
    unfolding result_def automatic_call [OF assms(4, 5)] Let_def s m1_def [symmetric] m2_def [symmetric]
    by (auto split: option.splits sum.splits)
qed

theorem auto_fallback_isolated_witness:
  "mg_fallback (fst (manager_connect 0 (manager_example ModeAuto) (Inr ()) UdpRelay Udp
     (manager_new (manager_example ModeAuto) [] [] [Inl (False, ''no such key'')] []))) = [False, False] \<and>
   mg_fallback (fst (manager_connect 0 (manager_example ModeAuto) (Inr ()) UdpRelay Udp
     (manager_new (manager_example ModeAuto) [] [] [Inl (True, ''no answer'')] []))) = [True, False]"
proof -
  have "mg_fallback (fst (manager_connect 0 (manager_example ModeAuto) (Inr ()) UdpRelay Udp
      (manager_new (manager_example ModeAuto) [] [] [Inl (b, e)] []))) = [b, False]" for b e
  proof -
    let ?env = "manager_example ModeAuto"
    let ?m = "manager_new ?env [] [] [Inl (b, e)] []"
    have flags: "mg_fallback (manager_new ?env [] [] cs []) = [False, False]"
        "mg_slots (manager_new ?env [] [] cs []) = [None, None]" "mg_others (manager_new ?env [] [] cs []) = []"
        "mg_udp_connects (manager_new ?env [] [] cs []) = cs" "mg_udp_next_index (manager_new ?env [] [] cs []) = 0" for cs
      by (simp_all add: manager_new_def manager_example_pool numeral_2_eq_2)
    have turn: "slot_turn ?env ?m = ?m\<lparr>mg_udp_next_index := 1\<rparr>"
      by (simp add: slot_turn_def next_udp_session_slot_def others_def flags)
    have "snd (open_udp_target_stream_in_slot ?env 0 (slot_turn ?env ?m)) = Some (Inl (AgentIo b e))"
      by (simp add: turn open_udp_target_stream_in_slot_def acquire_slot_def Let_def others_def udp_is_live_def flags
          numeral_2_eq_2)
    with auto_fallback_isolated [OF manager_example_finish manager_new_ok _ _ _ refl refl,
        of ModeAuto "[]" "[]" "[Inl (b, e)]" "[]" 0 "Inr ()" UdpRelay]
    show ?thesis by (simp add: flags quiet_def)
  qed
  then show ?thesis by simp
qed

text \<open>
  The two agents choose the same route for every transport mode, manager and transport: TCP
  always has a framed connection of its own, UDP traffic is native, multiplexed or automatic as the
  mode says, and a manager never carries traffic of the other kind.
\<close>
theorem agents_choose_same_route:
  "android_proxy_stream_route mode manager_transport transport =
     (case proxy_stream_route mode manager_transport transport of RouteInvalidManager \<Rightarrow> None | r \<Rightarrow> Some r) \<and>
   proxy_stream_route mode manager_transport transport =
     (if manager_transport \<noteq> transport then RouteInvalidManager else if transport = Tcp then RouteDirectTcp
      else case mode of ModeAuto \<Rightarrow> RouteAuto | ModeUdp \<Rightarrow> RouteNativeUdp | ModeTcp \<Rightarrow> RouteYamux)"
  by (cases mode; cases manager_transport; cases transport)
     (simp_all add: proxy_stream_route_def android_proxy_stream_route_def automatically_falls_back_to_tcp_def
       uses_native_udp_for_def)

lemma others_idle [simp]: "mg_others m = [] \<Longrightarrow> others env m = m"
  by (simp add: others_def)

lemma others_of_upd_conn [simp]: "mg_others (upd_conn i f m) = mg_others m"
  by (simp add: upd_conn_def)

lemma conn_of_upd_conn [simp]: "mg_conns (upd_conn i f m) i = f (mg_conns m i)"
  by (simp add: upd_conn_def)

lemma capacity_not_target:
  "is_yamux_target_connect_error e \<Longrightarrow> \<not> is_yamux_session_capacity_error e"
  "\<not> is_yamux_session_capacity_error YAMUX_OPEN_STREAM_TIMEOUT_MESSAGE"
  "\<not> is_yamux_target_connect_error YAMUX_OPEN_STREAM_TIMEOUT_MESSAGE"
  by (auto simp: is_yamux_target_connect_error_def is_yamux_session_capacity_error_def starts_with_def
      CONNECT_FAILED_def TARGET_RESPONSE_TIMEOUT_def utf8_def chr_def
      YAMUX_TARGET_CONNECT_RESPONSE_TIMEOUT_MESSAGE_def YAMUX_SESSION_STREAM_CAPACITY_EXHAUSTED_MESSAGE_def
      YAMUX_OPEN_STREAM_TIMEOUT_MESSAGE_def)

lemma undisturbed_connect:
  assumes "mg_others m = []" "mg_substreams m = outcome # rest"
    "has_immediate_stream_capacity (mg_conns m i)" "yk_transport (mg_conns m i) = Udp"
    "connect_to_target_with_permits outcome (take_open (take_stream (mg_conns m i))) = (c, r)"
  shows "connect_on env address Udp i m = (upd_conn i (\<lambda>_. c) (m\<lparr>mg_substreams := rest\<rparr>), Some r)"
  using assms
  by (simp add: connect_on_def try_connect_to_target_def try_acquire_def validate_target_def Let_def
      has_immediate_stream_capacity_def finish_connect_def) (simp add: upd_conn_def)

text \<open>
  A target that cannot be reached costs nothing but the call: when the proxy refuses a target or
  does not answer in time, the session stays in the pool, open and with all its permits. A session
  on which no substream can be opened is closed and removed.
\<close>
theorem target_refusal_keeps_session:
  assumes "mg_others m = []" "has_immediate_stream_capacity (mg_conns m i)" "yk_transport (mg_conns m i) = Udp"
    and "distinct (mg_sessions m)" "i \<in> set (mg_sessions m)"
  shows "(mg_substreams m = SubstreamFailed e # rest \<longrightarrow> is_yamux_target_connect_error e \<longrightarrow>
      connect_turn env address Udp attempts i m =
        (m\<lparr>mg_substreams := rest\<rparr>, Stop (Finished (Err (AgentConnection e))))) \<and>
    (mg_substreams m = SubstreamOpenTimeout # rest \<longrightarrow>
      set (mg_sessions (fst (connect_turn env address Udp attempts i m))) = set (mg_sessions m) - {i} \<and>
      yk_closed (mg_conns (fst (connect_turn env address Udp attempts i m)) i))"
proof -
  let ?c = "take_open (take_stream (mg_conns m i))"
  have permits: "release_stream (release_open ?c) = mg_conns m i" and opened: "\<not> yk_closed ?c"
    using assms(2) by (simp_all add: has_immediate_stream_capacity_def conn_defs)
  have refused: "connect_turn env address Udp attempts i m =
      (m\<lparr>mg_substreams := rest\<rparr>, Stop (Finished (Err (AgentConnection e))))"
    if "mg_substreams m = SubstreamFailed e # rest" "is_yamux_target_connect_error e"
  proof -
    have "connect_to_target_with_permits (SubstreamFailed e) ?c = (mg_conns m i, Err e)"
      using permits opened by (simp add: connect_to_target_with_permits_def Let_def)
    from undisturbed_connect [OF assms(1) that(1) assms(2, 3) this] show ?thesis
      using that(2) capacity_not_target(1) [OF that(2)] by (simp add: connect_turn_def upd_conn_def)
  qed
  have unusable: "set (mg_sessions (fst (connect_turn env address Udp attempts i m))) = set (mg_sessions m) - {i} \<and>
      yk_closed (mg_conns (fst (connect_turn env address Udp attempts i m)) i)"
    if "mg_substreams m = SubstreamOpenTimeout # rest"
  proof -
    have "connect_to_target_with_permits SubstreamOpenTimeout ?c =
        (close_connection (mg_conns m i), Err YAMUX_OPEN_STREAM_TIMEOUT_MESSAGE)"
      using permits opened by (simp add: connect_to_target_with_permits_def Let_def)
    from undisturbed_connect [OF assms(1) that assms(2, 3) this] show ?thesis
      using capacity_not_target(2, 3) assms(1, 4, 5)
      by (simp add: connect_turn_def remove_yamux_session_def remove_section_def) (simp add: upd_conn_def close_connection_def)
  qed
  show ?thesis using refused unusable by blast
qed

theorem target_refusal_keeps_session_witness:
  "\<exists>m. mg_sessions m = [0] \<and> mg_substreams m = [SubstreamFailed (CONNECT_FAILED @ '' refused'')] \<and>
     connect_turn (manager_example ModeTcp) UdpRelay Udp 0 0 m =
       (m\<lparr>mg_substreams := []\<rparr>, Stop (Finished (Err (AgentConnection (CONNECT_FAILED @ '' refused'')))))"
proof -
  let ?m = "push_session (manager_example ModeTcp) 0
    (manager_new (manager_example ModeTcp) [] [SubstreamFailed (CONNECT_FAILED @ '' refused'')] [] [])"
  have m: "mg_sessions ?m = [0]" "mg_others ?m = []" "mg_substreams ?m = [SubstreamFailed (CONNECT_FAILED @ '' refused'')]"
    by (simp_all add: push_session_def manager_new_def)
  have "has_immediate_stream_capacity (mg_conns ?m 0)" "yk_transport (mg_conns ?m 0) = Udp"
    by (simp_all add: push_session_def connect_for_def has_immediate_stream_capacity_def manager_example_def
        udp_settings_def transport_settings_def clamp_def MAX_CONCURRENT_OPEN_STREAMS_PER_SESSION_def)
  moreover have "is_yamux_target_connect_error (CONNECT_FAILED @ '' refused'')"
    by (simp add: is_yamux_target_connect_error_def starts_with_def)
  ultimately show ?thesis
    using target_refusal_keeps_session [OF m(2), of 0 "CONNECT_FAILED @ '' refused''" "[]" "manager_example ModeTcp" UdpRelay 0]
      m(1, 3)
    by (intro exI [of _ ?m]) simp
qed

end
