(* ===== verification/Spec2Isabelle.thy ===== *)
theory Spec2Isabelle
  imports Native_Udp_Listener Dns_Proxy Tun_Routing Agent_Udp_Relay Udp_Client Proxy_Connect Session_Manager
begin

text \<open>
  This development models a proxy and the agents that use it (sources under \<open>src/\<close>). An agent on a
  desktop or an Android device takes traffic from local programs and carries it to the proxy, which
  connects to the targets. There are two transports. The framed protocol runs over TCP, directly or
  multiplexed by Yamux: length-delimited frames, compressed and, after authentication, encrypted.
  The native UDP transport has its own handshake, header, encryption, replay window and fragment
  reassembly. On top of both run relays of TCP streams, of single UDP targets and of many UDP flows
  over one stream. On the devices a TUN interface feeds a network stack, whose flows are routed
  directly or through the proxy by rules on addresses and names; DNS queries are forwarded, cached
  and remembered for these rules.

  \<^bold>\<open>Theories and sources.\<close>
  \<^item> \<open>Prelude\<close>, \<open>Rust_Std\<close>, \<open>Net_Addr\<close>: machine integers, results, slices, association lists; the
    parts of the Rust standard library that the sources use on text, integers and addresses.
  \<^item> \<open>Messages\<close> (\<open>protocol/src/message\<close>), \<open>Config\<close> (\<open>common/src/yamux_settings.rs\<close>, \<open>transport.rs\<close>,
    \<open>proxy/src/config/proxy_config.rs\<close>), \<open>Users\<close> (\<open>proxy/src/user_manager.rs\<close>, \<open>config/user_config.rs\<close>).
  \<^item> The framed protocol: \<open>Framed_Codec\<close> (\<open>protocol/src/codec\<close>, \<open>compression.rs\<close>), \<open>Rsa_Legacy\<close>
    (\<open>protocol/src/crypto\<close>), \<open>Proxy_Auth\<close> (\<open>proxy/src/connection/auth.rs\<close> and the agent side in
    \<open>common/src/client_connection/authenticated.rs\<close>), \<open>Packet_Stream\<close> (\<open>client_connection/stream.rs\<close>,
    \<open>proxy/src/connection/response_sink.rs\<close>).
  \<^item> The native UDP transport: \<open>Udp_Header\<close>, \<open>Replay_Window\<close>, \<open>Reassembly\<close>, \<open>Udp_Crypto\<close>, \<open>Udp_Auth\<close>
    (the files of these names in \<open>protocol/src/udp_transport\<close>), \<open>Udp_Handshake\<close> (both ends of the
    handshake), \<open>Udp_Client\<close> (\<open>common/src/client_connection/udp.rs\<close>), \<open>Native_Udp_Channel\<close>,
    \<open>Native_Udp_Session\<close>, \<open>Native_Udp_Listener\<close> (\<open>proxy/src/native_udp\<close>).
  \<^item> The proxy behind the transports: \<open>Targets\<close>, \<open>Udp_Relay\<close>, \<open>Proxy_Relay\<close>, \<open>Proxy_Connect\<close>
    (\<open>proxy/src/connection/target.rs\<close>, \<open>udp_relay.rs\<close>, \<open>relay.rs\<close>, \<open>connect.rs\<close>, \<open>proxy/src/server.rs\<close>).
  \<^item> The agents: \<open>Direct_Access\<close>, \<open>Domain_Cache\<close>, \<open>Dns_Parser\<close>, \<open>Dns_Proxy\<close>, \<open>Tun_Routing\<close>,
    \<open>Agent_Udp_Relay\<close> (\<open>desktop-agent-be/src/direct_access.rs\<close>, \<open>tun_handler\<close> and their counterparts under
    \<open>android-agent/native/src\<close>), \<open>Session_Manager\<close> (\<open>desktop-agent-be/src/yamux_session\<close>,
    \<open>common/src/client_connection/yamux.rs\<close>).

  \<^bold>\<open>How code becomes definitions.\<close> A struct is a record, an enum a datatype, a \<open>HashMap\<close> an
  association list, a fixed-width integer a word, \<open>usize\<close> a natural number with its checks and its
  wrap-around written out, a \<open>String\<close> the list of its bytes, a time a number of milliseconds. A
  method that changes its object takes and returns the record. A \<open>Result\<close> is a sum with \<open>Err\<close> on the
  left; \<open>?\<close> is \<open>and_then\<close>, or \<open>try_st\<close> where state is threaded. A loop around \<open>select!\<close> is a step function
  on the events the branches can yield, with the outcome of every socket or channel call as an
  argument of its event, and a run over a list of events; a run that has not ended is \<open>None\<close>. Ciphers,
  hashes, RSA, compressors, the \<open>bitcode\<close> serialiser, frame splitting and the DNS query decoder are
  other people's code: they are parameters, and the laws they document are named hypotheses
  (\<open>aead_ok\<close>, \<open>bitcode_roundtrip\<close>, \<open>rsa_crate_ok\<close>, \<open>biguint_ok\<close>, \<open>env_ok\<close>), each shown to be satisfiable by
  an instance that the examples use. Random values and clocks are arguments.

  \<^bold>\<open>What is shown.\<close>
  \<^item> Native UDP cryptography: nonces never repeat and the two directions never share one; what is
    opened was sealed by the peer for this session, and only once; a message encoded at one end is
    decoded at the other in any order of its datagrams. The bitmap window refines the set of
    accepted numbers; the reassembler keeps its limits and its byte count under every input; the
    header codec is canonical and the signed transcript unambiguous.
  \<^item> Handshakes: both ends of each transport agree on their keys; foreign datagrams do not disturb
    the client and the deadline ends its call; the proxy grants exactly the requests it should and
    answers every refusal with its text. One theorem states a weakness: the timestamp of a framed
    request is not bound to the rest.
  \<^item> Framed streams: a round trip of messages, authenticity once a key is installed, and the path of
    bytes from the agent's stream to the relay.
  \<^item> The proxy: no dial without authentication; the listener's, the session's and the relay's tables
    stay within their limits and keep each entry with its own task; workers report exactly once;
    responses keep their order; the idle timer of the TCP relay is exact.
  \<^item> The agents: only rules let traffic bypass the proxy; DNS replies answer queries of the same
    client and id, at most once; responses of the shared UDP relay never reach another client; every
    call of the session manager ends and its pool stays bounded.
  \<^item> Across components, in this theory: a flow opens end to end, from the first write of the agent's
    stream to the proxy's worker, and a reply comes back to the reader of the flow.
  The other theorems of each theory record further facts, among them the defects listed with the
  development: a freshness check that wraps, padding that is not checked, a flow report without a
  generation, a slot held after a failed connect, a bracketed address bracketed twice, rules with a
  trailing dot that match nothing, an unchecked direct DNS answer, a handshake that resends without a
  pause on receive errors.

  \<^bold>\<open>Interfaces.\<close> Each locale is the contract between a component and those that rely on it, and is
  interpreted on the definitions of the code: \<open>prefix_codec\<close> (the header codec towards encryption),
  \<open>replay_filter\<close> (the replay window towards the session layer), \<open>flow_admission\<close> (the admission checks
  of relay and session), \<open>decoding_loop\<close> (the proxy's session and the agent's driver on the codec),
  \<open>direct_rules\<close>, \<open>domain_recorder\<close> and \<open>local_answer\<close> (rule checkers, domain caches and local DNS answers
  of the two agents).

  \<^bold>\<open>Bounds and fuel.\<close> Two loops have fuel. The agent's search for a flow id gets one more unit than
  the table has entries; a call of the session pool gets the amount its termination theorem asks
  for. In both cases it is proved that the fuel suffices. The other loops are structural recursions
  or have a termination measure, such as the sixteen jumps and the bytes left for a compressed DNS
  name. Durations and limits are the constants of the sources.

  \<^bold>\<open>What is not modelled.\<close> Socket options, interfaces and routes of the operating systems, the TUN
  device, HTTP and SOCKS front ends on third-party parsers, the user interface, telemetry, reading
  of files and command lines; the Android supervisor and its JNI interface; the outer loop of the
  agents' UDP relay. Concurrency is interleaving at the points where the code awaits or takes a
  lock: tasks that share no state but channels are modelled by the events they exchange, and the
  one component with state shared under locks, the session manager, runs against a script of what
  the other tasks do between its critical sections.
\<close>

section \<open>A link between two codecs\<close>

text \<open>
  The two ends of a session are ready for the next message when they are peers, the receiver still
  accepts the sequence numbers it will use, and its reassembler has no partial message under the
  same number and room for any message. Datagrams arrive in any order, each within the reassembly
  timeout of the one before.
\<close>

definition link_ready ::
  "crypto_suite \<Rightarrow> UdpSessionMessage bitcode \<Rightarrow> UdpSessionCodec \<Rightarrow> UdpSessionCodec \<Rightarrow> nat \<Rightarrow> bool" where
  "link_ready cs bc sender receiver n \<longleftrightarrow>
     aead_ok cs \<and> bitcode_roundtrip bc \<and> peers (co_crypto sender) (co_crypto receiver) \<and>
     length (sc_session_id (co_crypto sender)) = 16 \<and>
     (\<exists>A. window_rel (sc_replay (co_crypto receiver)) A \<and>
        (\<forall>i<n. spec_may_accept A (send_pos (co_crypto sender) + i))) \<and>
     reassembler_inv (co_reassembler receiver) \<and>
     map_of (ra_entries (co_reassembler receiver))
       (sc_session_id (co_crypto sender), co_next_message_id sender) = None \<and>
     UDP_MAX_MESSAGE_SIZE \<le> rc_max_total_bytes (ra_config (co_reassembler receiver)) \<and>
     rc_max_total_bytes (ra_config (co_reassembler receiver)) + UDP_MAX_FRAGMENT_PLAINTEXT \<le> usize_max"

definition arrives :: "UdpSessionCodec \<Rightarrow> bytes list \<Rightarrow> (bytes \<times> nat) list \<Rightarrow> bool" where
  "arrives receiver ds ps \<longleftrightarrow>
     (\<exists>idx ts. distinct idx \<and> set idx = {..<length ds} \<and> length ts = length idx \<and>
        (\<forall>j. Suc j < length ts \<longrightarrow> ts ! Suc j - ts ! j < rc_timeout (ra_config (co_reassembler receiver))) \<and>
        ps = zip (map ((!) ds) idx) ts)"

lemma link_delivers:
  assumes "link_ready cs bc sender receiver (length ds)" and "encode_message cs bc sender m = (sender', Inr ds)"
    and "arrives receiver ds ps"
  shows "\<exists>c. decode_all cs bc receiver ps = (c, replicate (length ds - 1) (Inr None) @ [Inr (Some m)])"
proof -
  obtain A where A: "window_rel (sc_replay (co_crypto receiver)) A"
      "\<forall>i<length ds. spec_may_accept A (send_pos (co_crypto sender) + i)"
    using assms(1) by (auto simp: link_ready_def)
  obtain idx ts where "distinct idx" "set idx = {..<length ds}" "length ts = length idx"
      "\<forall>j. Suc j < length ts \<longrightarrow> ts ! Suc j - ts ! j < rc_timeout (ra_config (co_reassembler receiver))"
      and ps: "ps = zip (map ((!) ds) idx) ts"
    using assms(3) by (auto simp: arrives_def)
  with A assms(1) have "snd (decode_all cs bc receiver ps) = replicate (length ds - 1) (Inr None) @ [Inr (Some m)]"
    unfolding ps link_ready_def by (intro codec_delivers [OF _ _ _ _ assms(2)]) simp_all
  then show ?thesis
    by (metis prod.collapse)
qed

lemma plain_peers:
  "peers (co_crypto (plain_codec Agent)) (co_crypto (plain_codec Proxy))"
  "peers (co_crypto (plain_codec Proxy)) (co_crypto (plain_codec Agent))"
  by (simp_all add: plain_codec_def from_key_material_peers)

lemma plain_link_ready:
  "bitcode_roundtrip bc \<Longrightarrow> link_ready plain_suite bc (plain_codec Agent) (plain_codec Proxy) 2"
  "bitcode_roundtrip bc \<Longrightarrow> link_ready plain_suite bc (plain_codec Proxy) (plain_codec Agent) 2"
  by (auto simp: link_ready_def plain_suite_ok plain_peers plain_codec_sel spec_may_accept_def
      default_reassembler_inv udp_limits usize_max_def intro!: exI [of _ "{}"] window_rel_new)

lemma two_arrive:
  assumes "length ds = 2"
  shows "arrives (plain_codec r) ds [(ds ! 1, 4), (ds ! 0, 9)]"
proof -
  have "set [1, 0] = {..<length ds}"
    using assms by auto
  moreover have "\<forall>j. Suc j < length [4, 9 :: nat] \<longrightarrow>
      [4, 9] ! Suc j - [4, 9] ! j < rc_timeout (ra_config (co_reassembler (plain_codec r)))"
    by (simp add: plain_codec_sel udp_limits)
  moreover have "[(ds ! 1, 4), (ds ! 0, 9)] = zip (map ((!) ds) [1, 0]) [4, 9]"
    by simp
  ultimately show ?thesis
    unfolding arrives_def by (intro exI [of _ "[1, 0]"] exI [of _ "[4, 9 :: nat]"] conjI) simp_all
qed

section \<open>Properties that span components\<close>

text \<open>
  C3. A flow opens end to end. The first write of a registered stream is taken whole; the driver
  seals the message that opens the flow and sends its datagrams; and when these reach the session
  of the peer in any order, none later than the reassembly timeout after the one before, the
  session starts exactly one worker for the flow, with the address the stream was made for, and
  the first packet in its queue is the one written.
\<close>

theorem flow_opens_end_to_end:
  assumes "data \<noteq> []" and "flow_id \<in> set (dv_streams dv)" and "\<forall>d. send d = Inr (length d)"
    and "encode_message (sv_suite env) (sv_bitcode env) (dv_codec dv) (OpenData flow_id address data) = (agent', Inr ds)"
    and "link_ready (sv_suite env) (sv_bitcode env) (dv_codec dv) (us_codec st) (length ds)"
    and "arrives (us_codec st) ds ps"
    and "map_of (us_channels st) flow_id = None"
    and "length (us_channels st) < pc_udp_session_max_flows (sv_config env)"
  shows "\<exists>stream' command dv' st'.
    poll_write Reserved data (fresh_stream flow_id address) = (stream', [command], Ready (Ok (length data))) \<and>
    driver_step (sv_suite env) (sv_bitcode env) (DriverCommand command send) dv = (dv', Continue) \<and>
    dv_sent dv' = dv_sent dv @ ds \<and>
    session_loop env (map (inbound outcome send_to) ps) st = (st', None) \<and>
    us_workers st' = us_workers st @ [(flow_id, address)] \<and>
    us_inputs st' = us_inputs st @ [(length (us_workers st), data)] \<and>
    map_of (us_channels st') flow_id =
      Some \<lparr>cn_input_tx = Some (length (us_workers st)), cn_abort_handle = length (us_workers st)\<rparr>"
proof -
  have driver: "driver_step (sv_suite env) (sv_bitcode env) (DriverCommand (CmdOpenData flow_id address data) send) dv =
      (dv\<lparr>dv_codec := agent', dv_sent := dv_sent dv @ ds\<rparr>, Continue)"
    using assms(2-4) by (simp add: driver_send_def driver_send_datagrams_ok)
  obtain codec where "decode_all (sv_suite env) (sv_bitcode env) (us_codec st) ps =
      (codec, replicate (length ds - 1) (Inr None) @ [Inr (Some (OpenData flow_id address data))])"
    using link_delivers [OF assms(5,4,6)] by blast
  from session_decodes.run_decodes [OF this] obtain t where
    "session_loop env (map (inbound outcome send_to) ps) st =
      (open_channel (session_received env t codec st) flow_id address data, None)"
    using assms(7,8) by (auto simp: session_received_def classify_flow_admission_def)
  then show ?thesis
    using driver assms(1)
    by (simp add: poll_write_def fresh_stream_def open_channel_def session_received_def update_conv Let_def)
qed

text \<open>A serialiser that knows the opening messages of one flow, for the witness.\<close>

definition open_bitcode :: "UdpSessionMessage bitcode" where
  "open_bitcode =
     \<lparr>bc_serialize = (\<lambda>m. case m of
        OpenData f a d \<Rightarrow> if f = 7 \<and> a = UdpRelay then Inr d else Inl ''flow'' | _ \<Rightarrow> Inl ''kind''),
      bc_deserialize = (\<lambda>bs. Inr (OpenData 7 UdpRelay bs))\<rparr>"

lemma open_bitcode_roundtrip: "bitcode_roundtrip open_bitcode"
  by (auto simp: bitcode_roundtrip_def open_bitcode_def split: UdpSessionMessage.splits if_splits)

lemma plain_seal_two:
  obtains s' ds where "seal_message plain_suite (co_crypto (plain_codec role)) 0 (replicate 1290 5) = (s', Inr ds)"
    "length ds = 2"
proof -
  have c: "fragment_count_of (length (replicate 1290 5 :: bytes)) = 2"
    by (simp add: fragment_count_of_def div_ceil_def udp_limits)
  show ?thesis
    using seal_message_Ok [OF plain_suite_ok _ _ c [symmetric], of "co_crypto (plain_codec role)" 0] that
    by (auto simp: plain_codec_sel udp_limits)
qed

abbreviation example_env :: "UdpSessionMessage bitcode \<Rightarrow> session_env" where
  "example_env bc \<equiv> \<lparr>sv_suite = plain_suite, sv_bitcode = bc, sv_config = proxy_config_default ''addr''\<rparr>"

theorem flow_opens_end_to_end_witness:
  "\<exists>ds st' dv'. length ds = 2 \<and>
     driver_step plain_suite open_bitcode (DriverCommand (CmdOpenData 7 UdpRelay (replicate 1290 5)) (\<lambda>d. Inr (length d)))
       ((driver_start 0 0 (plain_codec Agent))\<lparr>dv_streams := [7]\<rparr>) = (dv', Continue) \<and> dv_sent dv' = ds \<and>
     session_loop (example_env open_bitcode) (map (inbound SendOk (\<lambda>d. Inr (length d))) [(ds ! 1, 4), (ds ! 0, 9)])
       (session_start (example_env open_bitcode) 0 (plain_codec Proxy)) = (st', None) \<and>
     us_workers st' = [(7, UdpRelay)] \<and> us_inputs st' = [(0, replicate 1290 5)]"
proof -
  let ?env = "example_env open_bitcode" and ?p = "replicate 1290 5 :: bytes"
  let ?st = "session_start ?env 0 (plain_codec Proxy)"
  let ?dv = "(driver_start 0 0 (plain_codec Agent))\<lparr>dv_streams := [7]\<rparr>"
  obtain s' ds where "seal_message plain_suite (co_crypto (plain_codec Agent)) 0 ?p = (s', Inr ds)" and len: "length ds = 2"
    by (rule plain_seal_two)
  then obtain a where enc: "encode_message (sv_suite ?env) (sv_bitcode ?env) (dv_codec ?dv) (OpenData 7 UdpRelay ?p) = (a, Inr ds)"
    by (simp add: encode_message_def session_message_encode_def open_bitcode_def plain_codec_def driver_start_def)
  have ready: "link_ready (sv_suite ?env) (sv_bitcode ?env) (dv_codec ?dv) (us_codec ?st) (length ds)"
    using plain_link_ready(1) [OF open_bitcode_roundtrip] by (simp add: len driver_start_def session_start_def)
  have arr: "arrives (us_codec ?st) ds [(ds ! 1, 4), (ds ! 0, 9)]"
    using two_arrive [OF len] by (simp add: session_start_def)
  have limit: "pc_udp_session_max_flows (proxy_config_default ''addr'') = 256"
    by (simp add: proxy_config_default_def)
  have "\<exists>stream' command dv' st'.
    poll_write Reserved ?p (fresh_stream 7 UdpRelay) = (stream', [command], Ready (Ok (length ?p))) \<and>
    driver_step (sv_suite ?env) (sv_bitcode ?env) (DriverCommand command (\<lambda>d. Inr (length d))) ?dv = (dv', Continue) \<and>
    dv_sent dv' = dv_sent ?dv @ ds \<and>
    session_loop ?env (map (inbound SendOk (\<lambda>d. Inr (length d))) [(ds ! 1, 4), (ds ! 0, 9)]) ?st = (st', None) \<and>
    us_workers st' = us_workers ?st @ [(7, UdpRelay)] \<and>
    us_inputs st' = us_inputs ?st @ [(length (us_workers ?st), ?p)] \<and>
    map_of (us_channels st') 7 =
      Some \<lparr>cn_input_tx = Some (length (us_workers ?st)), cn_abort_handle = length (us_workers ?st)\<rparr>"
    by (rule flow_opens_end_to_end [OF _ _ _ enc ready arr]) (simp_all add: session_start_def limit)
  then obtain stream' command dv' st' where *:
    "poll_write Reserved ?p (fresh_stream 7 UdpRelay) = (stream', [command], Ready (Ok (length ?p)))"
    "driver_step (sv_suite ?env) (sv_bitcode ?env) (DriverCommand command (\<lambda>d. Inr (length d))) ?dv = (dv', Continue)"
    "dv_sent dv' = dv_sent ?dv @ ds"
    "session_loop ?env (map (inbound SendOk (\<lambda>d. Inr (length d))) [(ds ! 1, 4), (ds ! 0, 9)]) ?st = (st', None)"
    "us_workers st' = us_workers ?st @ [(7, UdpRelay)]" "us_inputs st' = us_inputs ?st @ [(length (us_workers ?st), ?p)]"
    by blast
  have command: "command = CmdOpenData 7 UdpRelay ?p"
    using *(1) by (simp add: poll_write_def fresh_stream_def)
  have "dv_sent dv' = ds" "us_workers st' = [(7, UdpRelay)]" "us_inputs st' = [(0, ?p)]"
    using *(3,5,6) by (simp_all add: driver_start_def session_start_def del: replicate_numeral_eval)
  then show ?thesis
    using len *(2,4) unfolding command by (intro exI conjI) simp_all
qed

text \<open>
  C4. The way back: a packet of a target that the session sends to the agent reaches the reader
  of its flow. The session seals and sends the datagrams of the message; the driver of the peer,
  fed them in any order within the reassembly timeout, queues exactly the packet for the flow; and
  a read of the flow's stream with room for it returns the packet whole.
\<close>

theorem reply_reaches_reader:
  assumes "data \<noteq> []" and "flow_id \<in> set (dv_streams dv)" and "\<forall>d. send_to d = Inr (length d)"
    and "encode_message (sv_suite env) (sv_bitcode env) (us_codec st) (Data flow_id data) = (codec', Inr ds)"
    and "link_ready (sv_suite env) (sv_bitcode env) (us_codec st) (dv_codec dv) (length ds)"
    and "arrives (dv_codec dv) ds ps"
    and "unread stream = []" and "room \<ge> length data"
  shows "\<exists>st' dv'.
    session_step env (SessionOutbound (Data flow_id data) send_to) st = (st', Continue) \<and>
    us_sent st' = us_sent st @ ds \<and>
    driver_loop (sv_suite env) (sv_bitcode env) (map (driver_inbound SendOk send) ps) dv = (dv', None) \<and>
    dv_delivered dv' = dv_delivered dv @ [(flow_id, data)] \<and> dv_streams dv' = dv_streams dv \<and>
    snd (stream_ops [StreamDeliver data, StreamRead room] stream) = [data]"
proof -
  have sent: "send_datagrams send_to s ds = (s\<lparr>us_sent := us_sent s @ ds\<rparr>, Ok ())" for s
    using assms(3) by (induction ds arbitrary: s) auto
  have session: "session_step env (SessionOutbound (Data flow_id data) send_to) st =
      (st\<lparr>us_codec := codec', us_sent := us_sent st @ ds\<rparr>, Continue)"
    using assms(4) by (simp add: send_then_continue_def send_session_message_def sent)
  obtain codec where "decode_all (sv_suite env) (sv_bitcode env) (dv_codec dv) ps =
      (codec, replicate (length ds - 1) (Inr None) @ [Inr (Some (Data flow_id data))])"
    using link_delivers [OF assms(5,4,6)] by blast
  from driver_decodes.run_decodes [OF this, of SendOk send] obtain t where
    driver: "driver_loop (sv_suite env) (sv_bitcode env) (map (driver_inbound SendOk send) ps) dv =
      ((driver_received t codec dv)\<lparr>dv_delivered := dv_delivered dv @ [(flow_id, data)]\<rparr>, None)"
    using assms(2) by (auto simp: driver_received_def)
  have "unread (stream\<lparr>cs_inbound := cs_inbound stream @ [data]\<rparr>) = [data]"
    using assms(1,7) by (auto simp: unread_def)
  moreover have "room > 0"
    using assms(1,8) by (cases data) auto
  ultimately have "snd (poll_read room (stream\<lparr>cs_inbound := cs_inbound stream @ [data]\<rparr>)) = Ready (Ok data)"
    using poll_read_progress assms(8) by simp
  then have "snd (stream_ops [StreamDeliver data, StreamRead room] stream) = [data]"
    using assms(1) by (cases "poll_read room (stream\<lparr>cs_inbound := cs_inbound stream @ [data]\<rparr>)") simp
  with session driver show ?thesis
    by (simp add: driver_received_def)
qed

text \<open>A serialiser that knows the data of one flow, for the witness.\<close>

definition data_bitcode :: "UdpSessionMessage bitcode" where
  "data_bitcode =
     \<lparr>bc_serialize = (\<lambda>m. case m of Data f d \<Rightarrow> if f = 7 then Inr d else Inl ''flow'' | _ \<Rightarrow> Inl ''kind''),
      bc_deserialize = (\<lambda>bs. Inr (Data 7 bs))\<rparr>"

lemma data_bitcode_roundtrip: "bitcode_roundtrip data_bitcode"
  by (auto simp: bitcode_roundtrip_def data_bitcode_def split: UdpSessionMessage.splits if_splits)

theorem reply_reaches_reader_witness:
  "\<exists>ds dv'. length ds = 2 \<and>
     driver_loop plain_suite data_bitcode (map (driver_inbound SendOk (\<lambda>d. Inr (length d))) [(ds ! 1, 4), (ds ! 0, 9)])
       ((driver_start 0 0 (plain_codec Agent))\<lparr>dv_streams := [7]\<rparr>) = (dv', None) \<and>
     dv_delivered dv' = [(7, replicate 1290 5)] \<and>
     snd (stream_ops [StreamDeliver (replicate 1290 5), StreamRead 2000] (fresh_stream 7 UdpRelay)) = [replicate 1290 5]"
proof -
  let ?env = "example_env data_bitcode" and ?p = "replicate 1290 5 :: bytes"
  let ?st = "session_start ?env 0 (plain_codec Proxy)"
  let ?dv = "(driver_start 0 0 (plain_codec Agent))\<lparr>dv_streams := [7]\<rparr>"
  obtain s' ds where "seal_message plain_suite (co_crypto (plain_codec Proxy)) 0 ?p = (s', Inr ds)" and len: "length ds = 2"
    by (rule plain_seal_two)
  then obtain a where enc: "encode_message (sv_suite ?env) (sv_bitcode ?env) (us_codec ?st) (Data 7 ?p) = (a, Inr ds)"
    by (simp add: encode_message_def session_message_encode_def data_bitcode_def plain_codec_def session_start_def)
  have ready: "link_ready (sv_suite ?env) (sv_bitcode ?env) (us_codec ?st) (dv_codec ?dv) (length ds)"
    using plain_link_ready(2) [OF data_bitcode_roundtrip] by (simp add: len driver_start_def session_start_def)
  have arr: "arrives (dv_codec ?dv) ds [(ds ! 1, 4), (ds ! 0, 9)]"
    using two_arrive [OF len] by (simp add: driver_start_def)
  have "\<exists>st' dv'.
    session_step ?env (SessionOutbound (Data 7 ?p) (\<lambda>d. Inr (length d))) ?st = (st', Continue) \<and>
    us_sent st' = us_sent ?st @ ds \<and>
    driver_loop (sv_suite ?env) (sv_bitcode ?env)
      (map (driver_inbound SendOk (\<lambda>d. Inr (length d))) [(ds ! 1, 4), (ds ! 0, 9)]) ?dv = (dv', None) \<and>
    dv_delivered dv' = dv_delivered ?dv @ [(7, ?p)] \<and> dv_streams dv' = dv_streams ?dv \<and>
    snd (stream_ops [StreamDeliver ?p, StreamRead 2000] (fresh_stream 7 UdpRelay)) = [?p]"
    by (rule reply_reaches_reader [OF _ _ _ enc ready arr]) (simp_all add: unread_def fresh_stream_def)
  then obtain st' dv' where *:
    "driver_loop (sv_suite ?env) (sv_bitcode ?env)
      (map (driver_inbound SendOk (\<lambda>d. Inr (length d))) [(ds ! 1, 4), (ds ! 0, 9)]) ?dv = (dv', None)"
    "dv_delivered dv' = dv_delivered ?dv @ [(7, ?p)]"
    "snd (stream_ops [StreamDeliver ?p, StreamRead 2000] (fresh_stream 7 UdpRelay)) = [?p]"
    by blast
  have "dv_delivered ?dv = []"
    by (simp add: driver_start_def)
  then have "dv_delivered dv' = [(7, ?p)]"
    using *(2) by (simp only: append_Nil)
  then show ?thesis
    using len *(1,3) by (intro exI conjI) (assumption | simp only: session_env.simps)+
qed

end
